(* ===== verification/Ublk_Prelude.thy ===== *)
theory Ublk_Prelude
  imports Main "HOL-Library.Word"
begin

text \<open>
  Shared vocabulary of the development: names for the machine integers the C code uses, the test
  of a flag in a flag word, bit-field lemmas from which every packing round trip of the code
  follows, lemmas about \<open>round_up\<close> (include/ublksrv_utils.h), the errno values the sources return,
  and the interface of a packing (\<open>codec\<close>), which the identifiers the code packs into words
  (user data, aio id, unique tag, automatic buffer registration) interpret.

  A C \<open>int\<close> that only carries an errno or a count is an \<open>int\<close> of HOL. Unsigned values that are
  packed, masked or can wrap around are words of their C width.
\<close>

unbundle bit_operations_syntax

type_synonym u8 = "8 word"
type_synonym u16 = "16 word"
type_synonym u32 = "32 word"
type_synonym u64 = "64 word"

named_theorems ublk_defs "definitions of the bit-field encoders and decoders"
named_theorems queue_defs "definitions of the queue operations"
named_theorems flag_simps "rewriting of flag tests"

section \<open>Flag words\<close>

definition has :: "'a::len word \<Rightarrow> 'a word \<Rightarrow> bool" where
  "has w m \<longleftrightarrow> w AND m \<noteq> 0"

section \<open>errno\<close>

abbreviation (input) "EINTR \<equiv> (4::int)"
abbreviation (input) "EIO \<equiv> (5::int)"
abbreviation (input) "EBADF \<equiv> (9::int)"
abbreviation (input) "EAGAIN \<equiv> (11::int)"
abbreviation (input) "ENOMEM \<equiv> (12::int)"
abbreviation (input) "EBUSY \<equiv> (16::int)"
abbreviation (input) "ENODEV \<equiv> (19::int)"
abbreviation (input) "EINVAL \<equiv> (22::int)"
abbreviation (input) "EPIPE \<equiv> (32::int)"
abbreviation (input) "ETIME \<equiv> (62::int)"
abbreviation (input) "EOPNOTSUPP \<equiv> (95::int)"
abbreviation (input) "ENOTSUP \<equiv> (95::int)"
abbreviation (input) "ENOBUFS \<equiv> (105::int)"
abbreviation (input) "ECANCELED \<equiv> (125::int)"

section \<open>Rounding up to a power of two\<close>

text \<open>The macro \<open>round_up(val, rnd)\<close> at the width of its operands.\<close>

definition round_up :: "'a::len word \<Rightarrow> 'a word \<Rightarrow> 'a word" where
  "round_up val rnd = (val + (rnd - 1)) AND NOT (rnd - 1)"

section \<open>Packings\<close>

text \<open>
  What the code relies on when it packs several small values in one word: unpacking returns what
  was packed, for values that fit.
\<close>

locale codec =
  fixes enc :: "'a \<Rightarrow> 'b"
    and dec :: "'b \<Rightarrow> 'a"
    and fits :: "'a \<Rightarrow> bool"
  assumes dec_enc: "fits x \<Longrightarrow> dec (enc x) = x"
begin

lemma enc_inj: "fits x \<Longrightarrow> fits y \<Longrightarrow> enc x = enc y \<Longrightarrow> x = y"
  by (metis dec_enc)

lemma enc_inj_on: "inj_on enc {x. fits x}"
  by (auto intro: inj_onI enc_inj)

end

section \<open>Lemmas\<close>

subsection \<open>Flags\<close>

lemma has_iff_bit: "has w m \<longleftrightarrow> (\<exists>n. bit w n \<and> bit m n)"
  unfolding has_def bit_eq_iff by (auto simp: bit_simps dest: bit_imp_le_length)

lemma has_or [flag_simps, simp]: "has (a OR b) m \<longleftrightarrow> has a m \<or> has b m"
  by (auto simp: has_iff_bit bit_simps)

lemma has_or_mask [flag_simps]: "has a (m OR k) \<longleftrightarrow> has a m \<or> has a k"
  by (auto simp: has_iff_bit bit_simps)

lemma has_zero [flag_simps, simp]: "\<not> has 0 m"
  by (simp add: has_def)

lemma has_clear [flag_simps]: "k AND m = 0 \<Longrightarrow> has (a AND NOT k) m = has a m"
  unfolding has_iff_bit bit_eq_iff by (auto simp: bit_simps dest: bit_imp_le_length)

lemma has_clear_same [flag_simps, simp]: "\<not> has (a AND NOT k) k"
  by (auto simp: has_iff_bit bit_simps)

subsection \<open>Bit fields\<close>

lemma drop_bit_0_iff: "drop_bit k (w::'a::len word) = 0 \<longleftrightarrow> (\<forall>n\<ge>k. \<not> bit w n)"
proof
  assume h: "drop_bit k w = 0"
  show "\<forall>n\<ge>k. \<not> bit w n"
  proof (intro allI impI)
    fix n assume "k \<le> n"
    then obtain j where "n = k + j" by (metis le_Suc_ex)
    then show "\<not> bit w n" using h bit_drop_bit_eq [of k w] by (simp add: fun_eq_iff)
  qed
next
  assume "\<forall>n\<ge>k. \<not> bit w n"
  then show "drop_bit k w = 0" by (intro bit_word_eqI) (auto simp: bit_simps)
qed

lemma drop_bit_0_unat: "drop_bit k (w::'a::len word) = 0 \<longleftrightarrow> unat w < 2 ^ k"
proof -
  have "drop_bit k w = 0 \<longleftrightarrow> unat (drop_bit k w) = 0" by (simp add: unat_eq_0)
  also have "unat (drop_bit k w) = drop_bit k (unat w)" by (rule unat_drop_bit_eq)
  also have "\<dots> = unat w div 2 ^ k" by (rule drop_bit_eq_div)
  finally show ?thesis by (simp add: div_eq_0_iff)
qed

lemma unat_bit_less: "unat (w::'a::len word) < 2 ^ k \<Longrightarrow> k \<le> n \<Longrightarrow> \<not> bit w n"
  using drop_bit_0_unat drop_bit_0_iff by blast

lemma bit_out: "LENGTH('a) \<le> n \<Longrightarrow> \<not> bit (w::'a::len word) n"
  using bit_imp_le_length [of w n] by auto

lemma mask_numerals:
  "(0xff :: 'a::len word) = mask 8" "(0xffff :: 'a word) = mask 16"
  "(0x7ff :: 'a word) = mask 11" "(0x1fff :: 'a word) = mask 13"
  by (simp_all add: mask_eq_exp_minus_1)

subsection \<open>Rounding\<close>

lemma unat_of_nat_small: "n < 2 ^ LENGTH('a) \<Longrightarrow> unat (of_nat n :: 'a::len word) = n"
  by (simp add: unat_of_nat take_bit_nat_eq_self)

lemma and_not_mask_unat: "unat ((w::'a::len word) AND NOT (mask k)) = unat w div 2 ^ k * 2 ^ k"
proof -
  have "w AND NOT (mask k) = push_bit k (drop_bit k w)"
    by (rule bit_word_eqI) (auto simp: bit_simps)
  then have "unat (w AND NOT (mask k)) = unat (push_bit k (drop_bit k w))" by simp
  also have "\<dots> = take_bit LENGTH('a) (push_bit k (unat (drop_bit k w)))"
    by (simp add: unsigned_push_bit_eq)
  also have "\<dots> = take_bit LENGTH('a) (unat w div 2 ^ k * 2 ^ k)"
    by (simp add: unat_drop_bit_eq push_bit_eq_mult drop_bit_eq_div [of k "unat w"])
  also have "\<dots> = unat w div 2 ^ k * 2 ^ k"
  proof (rule take_bit_nat_eq_self)
    have "unat w div 2 ^ k * 2 ^ k \<le> unat w" by (rule div_times_less_eq_dividend)
    also have "unat w < 2 ^ LENGTH('a)" by simp
    finally show "unat w div 2 ^ k * 2 ^ k < 2 ^ LENGTH('a)" .
  qed
  finally show ?thesis .
qed

lemma unat_mask_small: "k \<le> LENGTH('a) \<Longrightarrow> unat (mask k :: 'a::len word) = mask k"
  by (rule bit_eqI) (auto simp: bit_unsigned_iff bit_mask_iff)

lemma unat_round_up:
  fixes val :: "'a::len word"
  assumes "k < LENGTH('a)" "unat val + (2 ^ k - 1) < 2 ^ LENGTH('a)"
  shows "unat (round_up val (2 ^ k)) = (unat val + (2 ^ k - 1)) div 2 ^ k * 2 ^ k"
proof -
  have m: "(2 ^ k :: 'a word) - 1 = mask k" by (simp add: mask_eq_exp_minus_1)
  have um: "unat (mask k :: 'a word) = 2 ^ k - 1"
    using assms(1) unat_mask_small [where 'a = 'a] by (simp add: mask_eq_exp_minus_1 [where 'a = nat])
  have "unat (val + mask k) = unat val + (2 ^ k - 1)"
    using assms(2) um by (simp add: unat_word_ariths)
  then show ?thesis by (simp add: round_up_def m and_not_mask_unat)
qed

lemma round_up_spec:
  fixes val :: "'a::len word"
  assumes "k < LENGTH('a)" "unat val + (2 ^ k - 1) < 2 ^ LENGTH('a)"
  shows "unat val \<le> unat (round_up val (2 ^ k))"
    and "unat (round_up val (2 ^ k)) < unat val + 2 ^ k"
    and "2 ^ k dvd unat (round_up val (2 ^ k))"
proof -
  let ?n = "unat val + (2 ^ k - 1)" and ?p = "2 ^ k :: nat"
  note eq = unat_round_up [OF assms]
  have p: "0 < ?p" by simp
  have le: "?n div ?p * ?p \<le> ?n" by (rule div_times_less_eq_dividend)
  have "?n div ?p * ?p + ?n mod ?p = ?n" by (rule div_mult_mod_eq)
  moreover have "?n mod ?p < ?p" using p by (rule mod_less_divisor)
  ultimately have ge: "?n < ?n div ?p * ?p + ?p" by linarith
  from ge p show "unat val \<le> unat (round_up val (2 ^ k))" unfolding eq by linarith
  from le p show "unat (round_up val (2 ^ k)) < unat val + ?p" unfolding eq by linarith
  show "?p dvd unat (round_up val (2 ^ k))" unfolding eq by simp
qed

subsection \<open>Lists\<close>

lemma length_filter_upd:
  assumes "i < length xs"
  shows "int (length (filter P (xs[i := x])))
       = int (length (filter P xs)) + of_bool (P x) - of_bool (P (xs ! i))"
  using assms
proof (induction xs arbitrary: i)
  case (Cons a xs)
  show ?case
  proof (cases i)
    case 0
    then show ?thesis by simp
  next
    case (Suc j)
    with Cons show ?thesis by auto
  qed
qed simp

end
