(* ===== verification/Ublk_Cmd.thy ===== *)
theory Ublk_Cmd
  imports Ublk_Prelude
begin

text \<open>
  The interface between the ublk driver and the server: include/ublk_cmd.h and the packing helpers
  of include/ublksrv.h and include/ublksrv_priv.h. Preprocessor constants are abbreviations of
  their values, the structures are records with the source's fields, and the inline helpers are
  functions on words. The lemmas show that the packings lose nothing: the user data of a command
  or of target io, the position of an io buffer in the char device, the automatic buffer
  registration data, and the opcode carried inside an ioctl-encoded command.

  An \<open>assert\<close> of an inline helper is a predicate of its own (suffix \<open>_assert\<close>); the lemmas have
  it as their hypothesis, and the components that call the helper show that it holds.
\<close>

section \<open>ioctl encoding\<close>

text \<open>The encoding macros of the kernel headers, on 32 bit opcodes.\<close>

definition IOC :: "u32 \<Rightarrow> u32 \<Rightarrow> u32 \<Rightarrow> u32 \<Rightarrow> u32" where
  "IOC dir type nr sz = push_bit 30 dir OR push_bit 8 type OR nr OR push_bit 16 sz"

definition IOC_NR :: "u32 \<Rightarrow> u32" where
  "IOC_NR op = op AND 0xff"

definition IOC_TYPE :: "u32 \<Rightarrow> u32" where
  "IOC_TYPE op = drop_bit 8 op AND 0xff"

definition IOC_SIZE :: "u32 \<Rightarrow> u32" where
  "IOC_SIZE op = drop_bit 16 op AND 0x3fff"

definition IOC_DIR :: "u32 \<Rightarrow> u32" where
  "IOC_DIR op = drop_bit 30 op AND 0x3"

abbreviation IOR_u :: "u32 \<Rightarrow> u32 \<Rightarrow> u32" where
  "IOR_u nr sz \<equiv> IOC 2 0x75 nr sz"

abbreviation IOWR_u :: "u32 \<Rightarrow> u32 \<Rightarrow> u32" where
  "IOWR_u nr sz \<equiv> IOC 3 0x75 nr sz"

text \<open>Sizes of the structures named in the encodings, with the layout of a 64 bit build.\<close>

abbreviation (input) "sizeof_ublksrv_ctrl_cmd \<equiv> (32::u32)"
abbreviation (input) "sizeof_ublksrv_io_cmd \<equiv> (16::u32)"
abbreviation (input) "sizeof_ublk_batch_io \<equiv> (16::u32)"
abbreviation (input) "sizeof_ublksrv_io_desc \<equiv> (24::u32)"
abbreviation (input) "sizeof_ublksrv_ctrl_dev_info \<equiv> (64::u32)"

section \<open>Admin commands\<close>

abbreviation (input) "UBLK_CMD_GET_QUEUE_AFFINITY \<equiv> (0x01::u32)"
abbreviation (input) "UBLK_CMD_GET_DEV_INFO \<equiv> (0x02::u32)"
abbreviation (input) "UBLK_CMD_ADD_DEV \<equiv> (0x04::u32)"
abbreviation (input) "UBLK_CMD_DEL_DEV \<equiv> (0x05::u32)"
abbreviation (input) "UBLK_CMD_START_DEV \<equiv> (0x06::u32)"
abbreviation (input) "UBLK_CMD_STOP_DEV \<equiv> (0x07::u32)"
abbreviation (input) "UBLK_CMD_SET_PARAMS \<equiv> (0x08::u32)"
abbreviation (input) "UBLK_CMD_GET_PARAMS \<equiv> (0x09::u32)"
abbreviation (input) "UBLK_CMD_START_USER_RECOVERY \<equiv> (0x10::u32)"
abbreviation (input) "UBLK_CMD_END_USER_RECOVERY \<equiv> (0x11::u32)"
abbreviation (input) "UBLK_CMD_GET_DEV_INFO2 \<equiv> (0x12::u32)"

abbreviation (input) "UBLK_U_CMD_GET_QUEUE_AFFINITY \<equiv> IOR_u UBLK_CMD_GET_QUEUE_AFFINITY sizeof_ublksrv_ctrl_cmd"
abbreviation (input) "UBLK_U_CMD_GET_DEV_INFO \<equiv> IOR_u UBLK_CMD_GET_DEV_INFO sizeof_ublksrv_ctrl_cmd"
abbreviation (input) "UBLK_U_CMD_ADD_DEV \<equiv> IOWR_u UBLK_CMD_ADD_DEV sizeof_ublksrv_ctrl_cmd"
abbreviation (input) "UBLK_U_CMD_DEL_DEV \<equiv> IOWR_u UBLK_CMD_DEL_DEV sizeof_ublksrv_ctrl_cmd"
abbreviation (input) "UBLK_U_CMD_START_DEV \<equiv> IOWR_u UBLK_CMD_START_DEV sizeof_ublksrv_ctrl_cmd"
abbreviation (input) "UBLK_U_CMD_STOP_DEV \<equiv> IOWR_u UBLK_CMD_STOP_DEV sizeof_ublksrv_ctrl_cmd"
abbreviation (input) "UBLK_U_CMD_SET_PARAMS \<equiv> IOWR_u UBLK_CMD_SET_PARAMS sizeof_ublksrv_ctrl_cmd"
abbreviation (input) "UBLK_U_CMD_GET_PARAMS \<equiv> IOR_u UBLK_CMD_GET_PARAMS sizeof_ublksrv_ctrl_cmd"
abbreviation (input) "UBLK_U_CMD_START_USER_RECOVERY \<equiv> IOWR_u UBLK_CMD_START_USER_RECOVERY sizeof_ublksrv_ctrl_cmd"
abbreviation (input) "UBLK_U_CMD_END_USER_RECOVERY \<equiv> IOWR_u UBLK_CMD_END_USER_RECOVERY sizeof_ublksrv_ctrl_cmd"
abbreviation (input) "UBLK_U_CMD_GET_DEV_INFO2 \<equiv> IOR_u UBLK_CMD_GET_DEV_INFO2 sizeof_ublksrv_ctrl_cmd"
abbreviation (input) "UBLK_U_CMD_GET_FEATURES \<equiv> IOR_u 0x13 sizeof_ublksrv_ctrl_cmd"
abbreviation (input) "UBLK_U_CMD_DEL_DEV_ASYNC \<equiv> IOR_u 0x14 sizeof_ublksrv_ctrl_cmd"

section \<open>IO commands and their results\<close>

abbreviation (input) "UBLK_IO_FETCH_REQ \<equiv> (0x20::u32)"
abbreviation (input) "UBLK_IO_COMMIT_AND_FETCH_REQ \<equiv> (0x21::u32)"
abbreviation (input) "UBLK_IO_NEED_GET_DATA \<equiv> (0x22::u32)"
abbreviation (input) "UBLK_U_IO_REGISTER_IO_BUF \<equiv> IOWR_u 0x23 sizeof_ublksrv_io_cmd"
abbreviation (input) "UBLK_U_IO_UNREGISTER_IO_BUF \<equiv> IOWR_u 0x24 sizeof_ublksrv_io_cmd"
abbreviation (input) "UBLK_U_IO_PREP_IO_CMDS \<equiv> IOWR_u 0x25 sizeof_ublk_batch_io"
abbreviation (input) "UBLK_U_IO_COMMIT_IO_CMDS \<equiv> IOWR_u 0x26 sizeof_ublk_batch_io"
abbreviation (input) "UBLK_U_IO_FETCH_IO_CMDS \<equiv> IOWR_u 0x27 sizeof_ublk_batch_io"

abbreviation (input) "UBLK_IO_RES_OK \<equiv> (0::int)"
abbreviation (input) "UBLK_IO_RES_NEED_GET_DATA \<equiv> (1::int)"
abbreviation (input) "UBLK_IO_RES_ABORT \<equiv> - ENODEV"

section \<open>Limits and offsets in the char device\<close>

abbreviation (input) "UBLKSRV_CMD_BUF_OFFSET \<equiv> (0::u64)"
abbreviation (input) "UBLKSRV_IO_BUF_OFFSET \<equiv> (0x80000000::u64)"
abbreviation (input) "UBLK_MAX_QUEUE_DEPTH \<equiv> (4096::u32)"
abbreviation (input) "UBLK_IO_BUF_BITS \<equiv> (25::nat)"
abbreviation (input) "UBLK_TAG_OFF \<equiv> UBLK_IO_BUF_BITS"
abbreviation (input) "UBLK_TAG_BITS \<equiv> (16::nat)"
abbreviation (input) "UBLK_QID_OFF \<equiv> UBLK_TAG_OFF + UBLK_TAG_BITS"
abbreviation (input) "UBLK_QID_BITS \<equiv> (12::nat)"
abbreviation (input) "UBLKSRV_IO_BUF_TOTAL_BITS \<equiv> UBLK_QID_OFF + UBLK_QID_BITS"

section \<open>Feature flags\<close>

abbreviation (input) "UBLK_F_SUPPORT_ZERO_COPY \<equiv> (0x1::u64)"
abbreviation (input) "UBLK_F_URING_CMD_COMP_IN_TASK \<equiv> (0x2::u64)"
abbreviation (input) "UBLK_F_NEED_GET_DATA \<equiv> (0x4::u64)"
abbreviation (input) "UBLK_F_USER_RECOVERY \<equiv> (0x8::u64)"
abbreviation (input) "UBLK_F_USER_RECOVERY_REISSUE \<equiv> (0x10::u64)"
abbreviation (input) "UBLK_F_UNPRIVILEGED_DEV \<equiv> (0x20::u64)"
abbreviation (input) "UBLK_F_CMD_IOCTL_ENCODE \<equiv> (0x40::u64)"
abbreviation (input) "UBLK_F_USER_COPY \<equiv> (0x80::u64)"
abbreviation (input) "UBLK_F_ZONED \<equiv> (0x100::u64)"
abbreviation (input) "UBLK_F_USER_RECOVERY_FAIL_IO \<equiv> (0x200::u64)"
abbreviation (input) "UBLK_F_AUTO_BUF_REG \<equiv> (0x800::u64)"
abbreviation (input) "UBLK_F_BATCH_IO \<equiv> (0x8000::u64)"

abbreviation (input) "UBLKSRV_F_NEED_EVENTFD \<equiv> (0x2::u64)"
abbreviation (input) "UBLKSRV_F_NEED_POLL \<equiv> (0x4::u64)"

section \<open>IO descriptors\<close>

abbreviation (input) "UBLK_IO_OP_READ \<equiv> (0::u32)"
abbreviation (input) "UBLK_IO_OP_WRITE \<equiv> (1::u32)"
abbreviation (input) "UBLK_IO_OP_FLUSH \<equiv> (2::u32)"
abbreviation (input) "UBLK_IO_OP_DISCARD \<equiv> (3::u32)"
abbreviation (input) "UBLK_IO_OP_WRITE_SAME \<equiv> (4::u32)"
abbreviation (input) "UBLK_IO_OP_WRITE_ZEROES \<equiv> (5::u32)"

abbreviation (input) "UBLK_IO_F_FUA \<equiv> (0x2000::u32)"
abbreviation (input) "UBLK_IO_F_NOUNMAP \<equiv> (0x8000::u32)"

record ublksrv_io_desc =
  op_flags :: u32
  nr_sectors :: u32
  start_sector :: u64
  iod_addr :: u64

definition ublksrv_get_op :: "ublksrv_io_desc \<Rightarrow> u8" where
  "ublksrv_get_op iod = ucast (op_flags iod AND 0xff)"

definition ublksrv_get_flags :: "ublksrv_io_desc \<Rightarrow> u32" where
  "ublksrv_get_flags iod = drop_bit 8 (op_flags iod)"

section \<open>Command payloads\<close>

record ublksrv_ctrl_cmd =
  cc_dev_id :: u32
  cc_queue_id :: u16
  cc_len :: u16
  cc_addr :: u64
  cc_data :: u64
  cc_dev_path_len :: u16

record ublksrv_io_cmd =
  ic_q_id :: u16
  ic_tag :: u16
  ic_result :: "32 word"
  ic_addr :: u64

record ublk_batch_io =
  bi_q_id :: u16
  bi_flags :: u16
  bi_nr_elem :: u16
  bi_elem_bytes :: u8

abbreviation (input) "UBLK_BATCH_F_HAS_BUF_ADDR \<equiv> (2::u16)"

section \<open>Device information\<close>

record ublksrv_ctrl_dev_info =
  nr_hw_queues :: u16
  queue_depth :: u16
  info_state :: u16
  info_pad0 :: u16
  max_io_buf_bytes :: u32
  info_dev_id :: u32
  ublksrv_pid :: int
  info_pad1 :: u32
  info_flags :: u64
  info_ublksrv_flags :: u64
  owner_uid :: u32
  owner_gid :: u32
  info_reserved1 :: u64
  info_reserved2 :: u64

section \<open>Automatic buffer registration\<close>

record ublk_auto_buf_reg =
  reg_index :: u16
  reg_flags :: u8
  reg_reserved0 :: u8
  reg_reserved1 :: u32

definition ublk_sqe_addr_to_auto_buf_reg :: "u64 \<Rightarrow> ublk_auto_buf_reg" where
  "ublk_sqe_addr_to_auto_buf_reg sqe_addr =
     \<lparr> reg_index = ucast sqe_addr,
       reg_flags = ucast (drop_bit 16 sqe_addr),
       reg_reserved0 = ucast (drop_bit 24 sqe_addr),
       reg_reserved1 = ucast (drop_bit 32 sqe_addr) \<rparr>"

definition ublk_auto_buf_reg_to_sqe_addr :: "ublk_auto_buf_reg \<Rightarrow> u64" where
  "ublk_auto_buf_reg_to_sqe_addr buf =
     ucast (reg_index buf) OR push_bit 16 (ucast (reg_flags buf))
     OR push_bit 24 (ucast (reg_reserved0 buf)) OR push_bit 32 (ucast (reg_reserved1 buf))"

section \<open>User data of submission entries\<close>

abbreviation (input) "UBLK_IO_OP_EVENTFD \<equiv> (0xe0::u32)"
abbreviation (input) "UBLK_IO_OP_EPOLLFD \<equiv> (0xe1::u32)"

definition build_user_data :: "u32 \<Rightarrow> u32 \<Rightarrow> u32 \<Rightarrow> u32 \<Rightarrow> u64" where
  "build_user_data tag op tgt_data is_target_io =
     ucast (tag OR push_bit 16 op) OR push_bit 24 (ucast tgt_data) OR push_bit 63 (ucast is_target_io)"

definition build_user_data_assert :: "u32 \<Rightarrow> u32 \<Rightarrow> u32 \<Rightarrow> bool" where
  "build_user_data_assert tag op tgt_data \<longleftrightarrow>
     drop_bit 16 tag = 0 \<and> drop_bit 8 op = 0 \<and> drop_bit 16 tgt_data = 0"

definition user_data_to_tag :: "u64 \<Rightarrow> u32" where
  "user_data_to_tag user_data = ucast (user_data AND 0xffff)"

definition user_data_to_op :: "u64 \<Rightarrow> u32" where
  "user_data_to_op user_data = ucast (drop_bit 16 user_data AND 0xff)"

definition user_data_to_tgt_data :: "u64 \<Rightarrow> u32" where
  "user_data_to_tgt_data user_data = ucast (drop_bit 24 user_data AND 0xffff)"

definition build_internal_data :: "u32 \<Rightarrow> u64" where
  "build_internal_data op = ucast (push_bit 16 op) OR push_bit 62 3"

definition is_internal_io :: "u64 \<Rightarrow> bool" where
  "is_internal_io user_data \<longleftrightarrow> user_data AND push_bit 62 1 \<noteq> 0"

definition is_target_io :: "u64 \<Rightarrow> bool" where
  "is_target_io user_data \<longleftrightarrow> user_data AND push_bit 63 1 \<noteq> 0"

definition ublk_pos :: "u16 \<Rightarrow> u16 \<Rightarrow> u32 \<Rightarrow> u64" where
  "ublk_pos q_id tag offset =
     UBLKSRV_IO_BUF_OFFSET +
     (push_bit UBLK_QID_OFF (ucast q_id) OR push_bit UBLK_TAG_OFF (ucast tag) OR ucast offset)"

definition ublk_pos_assert :: "u32 \<Rightarrow> bool" where
  "ublk_pos_assert offset \<longleftrightarrow> (ucast offset :: u64) AND NOT (mask UBLK_IO_BUF_BITS) = 0"

lemmas [ublk_defs] =
  IOC_def IOC_NR_def IOC_TYPE_def IOC_SIZE_def IOC_DIR_def ublksrv_get_op_def ublksrv_get_flags_def
  build_user_data_def build_user_data_assert_def user_data_to_tag_def user_data_to_op_def
  user_data_to_tgt_data_def build_internal_data_def is_internal_io_def is_target_io_def
  ublk_pos_def ublk_pos_assert_def

section \<open>Lemmas\<close>

lemma user_data_tag:
  "build_user_data_assert tag op td \<Longrightarrow> user_data_to_tag (build_user_data tag op td t) = tag"
  unfolding ublk_defs mask_numerals drop_bit_0_iff
  by (rule bit_word_eqI) (auto simp: bit_simps not_le)

lemma user_data_op:
  "build_user_data_assert tag op td \<Longrightarrow> user_data_to_op (build_user_data tag op td t) = op"
  unfolding ublk_defs mask_numerals drop_bit_0_iff
  by (rule bit_word_eqI) (auto simp: bit_simps not_le)

lemma user_data_tgt_data:
  "build_user_data_assert tag op td \<Longrightarrow> user_data_to_tgt_data (build_user_data tag op td t) = td"
  unfolding ublk_defs mask_numerals drop_bit_0_iff
  by (rule bit_word_eqI) (auto simp: bit_simps not_le)

lemma and_push_bit_1: "(w::'a::len word) AND push_bit n 1 \<noteq> 0 \<longleftrightarrow> bit w n"
  by (simp add: bit_iff_and_push_bit_not_eq_0)

lemma user_data_is_target:
  "build_user_data_assert tag op td \<Longrightarrow> is_target_io (build_user_data tag op td t) = bit t 0"
  unfolding ublk_defs and_push_bit_1 drop_bit_0_iff by (auto simp: bit_simps not_le)

lemma user_data_not_internal:
  "build_user_data_assert tag op td \<Longrightarrow> \<not> is_internal_io (build_user_data tag op td t)"
  unfolding ublk_defs and_push_bit_1 drop_bit_0_iff by (auto simp: bit_simps not_le)

lemma internal_data_bits [simp]:
  "is_target_io (build_internal_data op)" "is_internal_io (build_internal_data op)"
  unfolding ublk_defs and_push_bit_1 by (simp_all add: bit_simps)

lemma internal_data_op:
  assumes "drop_bit 8 op = 0"
  shows "user_data_to_op (build_internal_data op) = op"
proof -
  have three: "(3::u64) = mask 2" by (simp add: mask_eq_exp_minus_1)
  from assms show ?thesis
    unfolding ublk_defs mask_numerals three drop_bit_0_iff
    by (intro bit_word_eqI) (auto simp: bit_simps not_le, rule ccontr, simp)
qed

lemma IOC_NR_IOC: "drop_bit 8 nr = 0 \<Longrightarrow> IOC_NR (IOC dir type nr sz) = nr"
  unfolding ublk_defs mask_numerals drop_bit_0_iff
  by (rule bit_word_eqI) (auto simp: bit_simps not_le)

lemma IOC_NR_fits: "drop_bit 8 (IOC_NR op) = 0"
  unfolding ublk_defs mask_numerals drop_bit_0_iff by (auto simp: bit_simps)

subsection \<open>Positions of io buffers\<close>

lemma ublk_pos_assert_iff: "ublk_pos_assert offset \<longleftrightarrow> (\<forall>n\<ge>25. \<not> bit offset n)"
proof -
  have "ublk_pos_assert offset \<longleftrightarrow> (\<forall>n. n < 64 \<longrightarrow> bit offset n \<longrightarrow> n < 25)"
    unfolding ublk_pos_assert_def bit_eq_iff by (auto simp: bit_simps)
  also have "\<dots> \<longleftrightarrow> (\<forall>n\<ge>25. \<not> bit offset n)"
  proof (intro iffI allI impI)
    fix n assume "\<forall>n<64. bit offset n \<longrightarrow> n < 25" "(25::nat) \<le> n"
    then show "\<not> bit offset n" by (cases "n < 64") (auto simp: bit_out)
  next
    fix n assume "\<forall>n\<ge>25. \<not> bit offset n" "bit offset n"
    then show "n < 25" by (meson not_le)
  qed
  finally show ?thesis .
qed

lemma ublk_pos_fields:
  fixes q_id tag :: u16
  assumes "ublk_pos_assert offset"
  defines "w \<equiv> ublk_pos q_id tag offset - UBLKSRV_IO_BUF_OFFSET"
  shows "ucast (drop_bit UBLK_QID_OFF w) = q_id"
    and "ucast (drop_bit UBLK_TAG_OFF w) = tag"
    and "ucast (take_bit UBLK_IO_BUF_BITS w) = offset"
  using assms unfolding w_def ublk_pos_def ublk_pos_assert_iff
  by (auto intro!: bit_word_eqI simp: bit_simps bit_out not_le)

subsection \<open>Registration data\<close>

interpretation auto_buf_reg_codec: codec ublk_auto_buf_reg_to_sqe_addr ublk_sqe_addr_to_auto_buf_reg "\<lambda>_. True"
proof
  fix x
  show "ublk_sqe_addr_to_auto_buf_reg (ublk_auto_buf_reg_to_sqe_addr x) = x"
    unfolding ublk_sqe_addr_to_auto_buf_reg_def ublk_auto_buf_reg_to_sqe_addr_def
    by (cases x) (auto intro!: bit_word_eqI simp: bit_simps bit_out)
qed

lemma auto_buf_reg_onto:
  "ublk_auto_buf_reg_to_sqe_addr (ublk_sqe_addr_to_auto_buf_reg addr) = addr"
  unfolding ublk_sqe_addr_to_auto_buf_reg_def ublk_auto_buf_reg_to_sqe_addr_def
  by (rule bit_word_eqI) (auto simp: bit_simps not_less, rule ccontr, simp)

subsection \<open>User data as a packing\<close>

interpretation user_data_codec: codec
  "\<lambda>(tag, op, td, t). build_user_data tag op td (of_bool t)"
  "\<lambda>d. (user_data_to_tag d, user_data_to_op d, user_data_to_tgt_data d, is_target_io d)"
  "\<lambda>(tag, op, td, t). build_user_data_assert tag op td"
  by unfold_locales
     (auto simp: user_data_tag user_data_op user_data_tgt_data user_data_is_target bit_0)

section \<open>Properties\<close>

text \<open>The user data of a submission entry gives back the tag, the op, the target data and the
  target mark it was built from whenever the assertion of \<open>build_user_data\<close> holds, and it is never
  taken for internal data (the event and epoll descriptors).\<close>

theorem user_data_roundtrip:
  assumes "build_user_data_assert tag op tgt_data"
  shows "user_data_to_tag (build_user_data tag op tgt_data t) = tag \<and>
         user_data_to_op (build_user_data tag op tgt_data t) = op \<and>
         user_data_to_tgt_data (build_user_data tag op tgt_data t) = tgt_data \<and>
         is_target_io (build_user_data tag op tgt_data t) = bit t 0 \<and>
         \<not> is_internal_io (build_user_data tag op tgt_data t) \<and>
         build_user_data tag op tgt_data t \<noteq> build_internal_data op'"
  using user_data_tag [OF assms] user_data_op [OF assms] user_data_tgt_data [OF assms]
    user_data_is_target [OF assms] user_data_not_internal [OF assms] internal_data_bits(2) by metis

theorem user_data_roundtrip_witness:
  "user_data_to_tag (build_user_data 77 0x21 5 1) = 77 \<and>
   user_data_to_op (build_user_data 77 0x21 5 1) = 0x21"
  using user_data_roundtrip [of 77 "0x21" 5 1] by (simp add: build_user_data_assert_def)

text \<open>Positions on the character device are unambiguous: two positions that pass the offset
  assertion are equal only for the same queue, tag and offset in the io buffer.\<close>

theorem ublk_pos_unique:
  assumes "ublk_pos_assert offset" "ublk_pos_assert offset'"
  shows "ublk_pos q_id tag offset = ublk_pos q_id' tag' offset' \<longleftrightarrow>
         q_id = q_id' \<and> tag = tag' \<and> offset = offset'"
  using ublk_pos_fields [OF assms(1), of q_id tag] ublk_pos_fields [OF assms(2), of q_id' tag'] by auto

theorem ublk_pos_unique_witness: "ublk_pos 1 2 4096 \<noteq> ublk_pos 2 1 4096"
  using ublk_pos_unique [of 4096 4096 1 2 2 1] by (simp add: ublk_pos_assert_def mask_eq_exp_minus_1)

text \<open>The registration data of an io buffer and the address field of a submission entry
  determine each other: packing then unpacking, and unpacking then packing, are the identity.\<close>

theorem auto_buf_reg_bij:
  "ublk_sqe_addr_to_auto_buf_reg (ublk_auto_buf_reg_to_sqe_addr reg) = reg \<and>
   ublk_auto_buf_reg_to_sqe_addr (ublk_sqe_addr_to_auto_buf_reg addr) = addr"
  using auto_buf_reg_codec.dec_enc auto_buf_reg_onto by simp

end
