(* ===== verification/Uring.thy ===== *)
theory Uring
  imports Ublk_Cmd
begin

text \<open>
  The part of io_uring the sources use. liburing is a library of its own, so its ring is a type
  parameter \<open>'r\<close> and its functions are the fields of a record \<open>uring_api\<close> that every operation
  takes as an argument.

  \<open>io_uring_get_sqe\<close> hands out a slot whose fields keep what an earlier use left in them; the caller
  overwrites the fields it needs. \<open>get_sqe\<close> therefore takes the caller's assignments as a function
  on the slot. What the sources rely on is \<open>uring_ok\<close>: there is a log of the entries queued so far,
  \<open>get_sqe\<close> appends the filled slot and fails only on a full ring, and submitting does not touch the
  log. \<open>epoll_wait\<close> gives the registered callbacks whose descriptors are ready, with their events. \<open>uring_submits\<close> is the behaviour of a successful submission: a full ring has space again.
\<close>

datatype uring_op =
  OP_URING_CMD | OP_READ | OP_WRITE | OP_READ_FIXED | OP_WRITE_FIXED | OP_FSYNC | OP_FALLOCATE
  | OP_NOP | OP_POLL_ADD | OP_POLL_MULTISHOT | OP_SENDMSG | OP_SENDMSG_ZC | OP_RECV

datatype iosqe_flag =
  IOSQE_FIXED_FILE | IOSQE_IO_LINK | IOSQE_BUFFER_SELECT | IOSQE_CQE_SKIP_SUCCESS

text \<open>\<open>sqe_buf_index\<close> is also the buffer group of a command with a selected buffer.\<close>

record uring_sqe =
  sqe_opcode :: uring_op
  sqe_flags :: "iosqe_flag set"
  sqe_fd :: int
  sqe_cmd_op :: u32
  sqe_off :: u64
  sqe_addr :: u64
  sqe_len :: u32
  sqe_rw_flags :: u32
  sqe_buf_index :: u16
  sqe_io_cmd :: ublksrv_io_cmd
  sqe_batch_cmd :: ublk_batch_io
  sqe_ctrl_cmd :: ublksrv_ctrl_cmd
  sqe_user_data :: u64

record uring_cqe =
  cqe_user_data :: u64
  cqe_res :: int
  cqe_more :: bool

record 'r uring_api =
  sq_space_left :: "'r \<Rightarrow> nat"
  sq_ready :: "'r \<Rightarrow> nat"
  get_sqe :: "'r \<Rightarrow> (uring_sqe \<Rightarrow> uring_sqe) \<Rightarrow> 'r option"
  submit :: "'r \<Rightarrow> 'r"
  submit_and_wait_timeout :: "'r \<Rightarrow> nat \<Rightarrow> bool \<Rightarrow> int \<times> 'r"
  epoll_wait :: "'r \<Rightarrow> int \<Rightarrow> (nat \<times> int) list"
  prep_rw :: "uring_op \<Rightarrow> int \<Rightarrow> u64 \<Rightarrow> u32 \<Rightarrow> u64 \<Rightarrow> uring_sqe \<Rightarrow> uring_sqe"
  prep_fsync :: "int \<Rightarrow> u32 \<Rightarrow> uring_sqe \<Rightarrow> uring_sqe"
  prep_fallocate :: "int \<Rightarrow> u32 \<Rightarrow> u64 \<Rightarrow> u64 \<Rightarrow> uring_sqe \<Rightarrow> uring_sqe"
  prep_nop :: "uring_sqe \<Rightarrow> uring_sqe"
  prep_poll :: "uring_op \<Rightarrow> int \<Rightarrow> uring_sqe \<Rightarrow> uring_sqe"

definition uring_ok :: "'r uring_api \<Rightarrow> ('r \<Rightarrow> uring_sqe list) \<Rightarrow> bool" where
  "uring_ok U queued \<longleftrightarrow>
     (\<forall>r f r'. get_sqe U r f = Some r' \<longrightarrow>
        (\<exists>slot. queued r' = queued r @ [f slot]) \<and> sq_ready U r' = Suc (sq_ready U r)) \<and>
     (\<forall>r f. get_sqe U r f = None \<longleftrightarrow> sq_space_left U r = 0) \<and>
     (\<forall>r. queued (submit U r) = queued r) \<and>
     (\<forall>r n b. queued (snd (submit_and_wait_timeout U r n b)) = queued r)"

definition uring_submits :: "'r uring_api \<Rightarrow> bool" where
  "uring_submits U \<longleftrightarrow> (\<forall>r. sq_space_left U r = 0 \<longrightarrow> 0 < sq_space_left U (submit U r))"

text \<open>
  The fields the \<open>io_uring_prep_*\<close> functions set: those of their arguments, with flags cleared. A
  fallocate entry carries the length in the address field and the mode in the length field.
\<close>

definition uring_preps :: "'r uring_api \<Rightarrow> bool" where
  "uring_preps U \<longleftrightarrow>
     (\<forall>op fd addr len off s. let s' = prep_rw U op fd addr len off s in
        sqe_opcode s' = op \<and> sqe_fd s' = fd \<and> sqe_addr s' = addr \<and> sqe_len s' = len \<and>
        sqe_off s' = off \<and> sqe_flags s' = {} \<and> sqe_rw_flags s' = 0) \<and>
     (\<forall>fd fl s. let s' = prep_fsync U fd fl s in
        sqe_opcode s' = OP_FSYNC \<and> sqe_fd s' = fd \<and> sqe_rw_flags s' = fl \<and> sqe_flags s' = {}) \<and>
     (\<forall>fd mode off len s. let s' = prep_fallocate U fd mode off len s in
        sqe_opcode s' = OP_FALLOCATE \<and> sqe_fd s' = fd \<and> sqe_off s' = off \<and> sqe_addr s' = len \<and>
        sqe_len s' = mode \<and> sqe_flags s' = {}) \<and>
     (\<forall>s. sqe_opcode (prep_nop U s) = OP_NOP \<and> sqe_flags (prep_nop U s) = {}) \<and>
     (\<forall>op fd s. sqe_opcode (prep_poll U op fd s) = op \<and> sqe_fd (prep_poll U op fd s) = fd)"

section \<open>Allocating an entry\<close>

definition ublksrv_alloc_sqe ::
  "'r uring_api \<Rightarrow> 'r \<Rightarrow> (uring_sqe \<Rightarrow> uring_sqe) \<Rightarrow> bool \<times> 'r" where
  "ublksrv_alloc_sqe U r fill =
     (let r1 = (if sq_space_left U r < 1 then submit U r else r)
      in case get_sqe U r1 fill of None \<Rightarrow> (False, r1) | Some r2 \<Rightarrow> (True, r2))"

definition ublksrv_set_sqe_cmd_op :: "u32 \<Rightarrow> uring_sqe \<Rightarrow> uring_sqe" where
  "ublksrv_set_sqe_cmd_op cmd_op sqe = sqe\<lparr>sqe_cmd_op := cmd_op, sqe_off := ucast cmd_op\<rparr>"

section \<open>A ring of fixed size\<close>

text \<open>
  A ring that satisfies the hypotheses: a bounded list of pending entries and the list of
  submitted ones. Concrete runs of the development use it.
\<close>

record fring =
  fr_entries :: nat
  fr_pend :: "uring_sqe list"
  fr_sent :: "uring_sqe list"

definition blank_sqe :: uring_sqe where
  "blank_sqe = \<lparr> sqe_opcode = OP_NOP, sqe_flags = {}, sqe_fd = 0, sqe_cmd_op = 0, sqe_off = 0,
     sqe_addr = 0, sqe_len = 0, sqe_rw_flags = 0, sqe_buf_index = 0,
     sqe_io_cmd = \<lparr>ic_q_id = 0, ic_tag = 0, ic_result = 0, ic_addr = 0\<rparr>,
     sqe_batch_cmd = \<lparr>bi_q_id = 0, bi_flags = 0, bi_nr_elem = 0, bi_elem_bytes = 0\<rparr>,
     sqe_ctrl_cmd = \<lparr>cc_dev_id = 0, cc_queue_id = 0, cc_len = 0, cc_addr = 0, cc_data = 0,
                     cc_dev_path_len = 0\<rparr>,
     sqe_user_data = 0 \<rparr>"

definition fr_queued :: "fring \<Rightarrow> uring_sqe list" where
  "fr_queued r = fr_sent r @ fr_pend r"

definition fr_submit :: "fring \<Rightarrow> fring" where
  "fr_submit r = r\<lparr>fr_sent := fr_sent r @ fr_pend r, fr_pend := []\<rparr>"

definition fring_api :: "fring uring_api" where
  "fring_api = \<lparr>
     sq_space_left = (\<lambda>r. Suc (fr_entries r) - length (fr_pend r)),
     sq_ready = (\<lambda>r. length (fr_pend r)),
     get_sqe = (\<lambda>r f. if length (fr_pend r) < Suc (fr_entries r)
                      then Some (r\<lparr>fr_pend := fr_pend r @ [f blank_sqe]\<rparr>) else None),
     submit = fr_submit,
     submit_and_wait_timeout = (\<lambda>r n b. (0, fr_submit r)),
     epoll_wait = (\<lambda>r fd. []),
     prep_rw = (\<lambda>op fd addr len off s. s\<lparr>sqe_opcode := op, sqe_fd := fd, sqe_addr := addr,
        sqe_len := len, sqe_off := off, sqe_flags := {}, sqe_rw_flags := 0\<rparr>),
     prep_fsync = (\<lambda>fd fl s. s\<lparr>sqe_opcode := OP_FSYNC, sqe_fd := fd, sqe_rw_flags := fl, sqe_flags := {}\<rparr>),
     prep_fallocate = (\<lambda>fd mode off len s. s\<lparr>sqe_opcode := OP_FALLOCATE, sqe_fd := fd, sqe_off := off,
        sqe_addr := len, sqe_len := mode, sqe_flags := {}\<rparr>),
     prep_nop = (\<lambda>s. s\<lparr>sqe_opcode := OP_NOP, sqe_flags := {}\<rparr>),
     prep_poll = (\<lambda>op fd s. s\<lparr>sqe_opcode := op, sqe_fd := fd\<rparr>) \<rparr>"

section \<open>Lemmas\<close>

lemma uring_okD:
  assumes "uring_ok U queued"
  shows "get_sqe U r f = Some r' \<Longrightarrow> \<exists>slot. queued r' = queued r @ [f slot]"
    and "get_sqe U r f = Some r' \<Longrightarrow> sq_ready U r' = Suc (sq_ready U r)"
    and "get_sqe U r f = None \<longleftrightarrow> sq_space_left U r = 0"
    and "queued (submit U r) = queued r"
    and "queued (snd (submit_and_wait_timeout U r n b)) = queued r"
  using assms unfolding uring_ok_def by blast+

lemma alloc_sqe_ok:
  assumes "uring_ok U queued" "ublksrv_alloc_sqe U r fill = (True, r')"
  shows "\<exists>slot. queued r' = queued r @ [fill slot]"
proof -
  let ?r = "if sq_space_left U r < 1 then submit U r else r"
  have "get_sqe U ?r fill = Some r'"
    using assms(2) by (auto simp: ublksrv_alloc_sqe_def Let_def split: option.splits)
  then have "\<exists>slot. queued r' = queued ?r @ [fill slot]" by (rule uring_okD(1) [OF assms(1)])
  then show ?thesis using uring_okD(4) [OF assms(1)] by (auto split: if_splits)
qed

lemma alloc_sqe_fail:
  assumes "uring_ok U queued" "ublksrv_alloc_sqe U r fill = (False, r')"
  shows "queued r' = queued r"
  using assms(2) uring_okD [OF assms(1)]
  by (auto simp: ublksrv_alloc_sqe_def Let_def split: option.splits if_splits)

lemma alloc_sqe_succeeds:
  assumes "uring_ok U queued" "uring_submits U"
  shows "fst (ublksrv_alloc_sqe U r fill)"
proof -
  let ?r = "if sq_space_left U r < 1 then submit U r else r"
  have "sq_space_left U ?r \<noteq> 0" using assms(2) by (auto simp: uring_submits_def)
  then obtain r2 where "get_sqe U ?r fill = Some r2"
    using uring_okD(3) [OF assms(1)] by fastforce
  then show ?thesis by (simp add: ublksrv_alloc_sqe_def Let_def)
qed

lemma fring_ok: "uring_ok fring_api fr_queued" "uring_submits fring_api" "uring_preps fring_api"
  by (auto simp: uring_ok_def uring_submits_def uring_preps_def fring_api_def fr_queued_def fr_submit_def
      split: if_splits)

end
