(* ===== verification/Ublk_Queue.thy ===== *)
theory Ublk_Queue
  imports Uring
begin

text \<open>
  The io queue of the server: \<open>struct ublk_io\<close>, \<open>struct _ublksrv_queue\<close> and its batch state of
  include/ublksrv_priv.h, and the part of lib/ublksrv.c that issues one io command.

  The queue record is polymorphic in the ring (\<open>'r\<close>, see theory Uring) and in the private data of
  the target (\<open>'t\<close>). Buffers that the code addresses by byte offset (the commit and fetch buffers of
  batch mode) are functions from offsets, so that an access outside a buffer is visible as an
  offset. \<open>freed\<close> lists the addresses passed to \<open>free\<close>, in order; address 0 is the null pointer. The io descriptors, which the driver writes into shared memory, are a list indexed by tag.
\<close>

section \<open>Flags\<close>

abbreviation (input) "UBLKSRV_NEED_FETCH_RQ \<equiv> (1::u32)"
abbreviation (input) "UBLKSRV_NEED_COMMIT_RQ_COMP \<equiv> (2::u32)"
abbreviation (input) "UBLKSRV_IO_FREE \<equiv> (4::u32)"
abbreviation (input) "UBLKSRV_NEED_GET_DATA \<equiv> (8::u32)"

abbreviation (input) "UBLKSRV_QUEUE_STOPPING \<equiv> (1::u32)"
abbreviation (input) "UBLKSRV_QUEUE_IDLE \<equiv> (2::u32)"
abbreviation (input) "UBLKSRV_QUEUE_IOCTL_OP \<equiv> (4::u32)"
abbreviation (input) "UBLKSRV_USER_COPY \<equiv> (8::u32)"
abbreviation (input) "UBLKSRV_ZERO_COPY \<equiv> (16::u32)"
abbreviation (input) "UBLKSRV_AUTO_ZC \<equiv> (32::u32)"
abbreviation (input) "UBLKSRV_QUEUE_POLL \<equiv> (64::u32)"
abbreviation (input) "UBLKSRV_QUEUE_BATCH_IO \<equiv> (128::u32)"

section \<open>State\<close>

record ublk_io =
  io_buf_addr :: u64
  io_flags :: u32
  io_result :: u32
  io_tag :: nat
  io_iod :: "nat option"

record ublk_batch_elem =
  e_tag :: u16
  e_buf_index :: u16
  e_result :: u32
  e_buf_addr :: u64

record batch_commit_buf =
  cb_buf :: u64
  cb_mem :: "nat \<Rightarrow> ublk_batch_elem"
  cb_done :: u16
  cb_count :: u16

record batch_fetch_buf =
  fb_br :: bool
  fb_buf :: u64
  fb_mem :: "nat \<Rightarrow> u16"
  fb_size :: u32
  fb_off :: u32
  fb_posted :: nat

record ublksrv_queue_batch =
  fetch_bufs :: "batch_fetch_buf list"
  commit_bufs :: "batch_commit_buf list"
  commit_buf_mem :: u64
  commit_buf_size :: u32
  commit_buf_elem_size :: u8
  cur_commit_buf :: nat
  prep_done :: bool
  batch_cmd_flags :: u16

record ('r, 't) ublksrv_queue =
  q_id :: nat
  q_depth :: nat
  io_cmd_buf :: "ublksrv_io_desc list"
  cmd_inflight :: u32
  tgt_io_inflight :: u32
  qstate :: u32
  epollfd :: int
  epoll_callbacks :: "(int \<times> nat) list"
  efd :: int
  efd_count :: u64
  ring :: 'r
  ctxs :: "nat list"
  batch :: ublksrv_queue_batch
  ios :: "ublk_io list"
  private_data :: 't
  freed :: "u64 list"

text \<open>
  The callbacks of a target (\<open>struct ublksrv_tgt_type\<close>) as functions on the queue; an optional
  callback is an \<open>option\<close>. \<open>epoll_cb\<close> maps the callbacks registered with \<open>ublksrv_epoll_add_fd\<close>,
  named by numbers, to their effect. The return value of \<open>handle_io_async\<close> is not used by the
  library and left out.
\<close>

record ('r, 't) tgt_ops =
  handle_io_async :: "('r, 't) ublksrv_queue \<Rightarrow> nat \<Rightarrow> ('r, 't) ublksrv_queue"
  tgt_io_done :: "(('r, 't) ublksrv_queue \<Rightarrow> nat \<Rightarrow> uring_cqe \<Rightarrow> ('r, 't) ublksrv_queue) option"
  handle_event :: "(('r, 't) ublksrv_queue \<Rightarrow> ('r, 't) ublksrv_queue) option"
  handle_io_background :: "(('r, 't) ublksrv_queue \<Rightarrow> nat \<Rightarrow> ('r, 't) ublksrv_queue) option"
  idle_fn :: "(('r, 't) ublksrv_queue \<Rightarrow> bool \<Rightarrow> ('r, 't) ublksrv_queue) option"
  epoll_cb :: "nat \<Rightarrow> ('r, 't) ublksrv_queue \<Rightarrow> int \<Rightarrow> ('r, 't) ublksrv_queue"

section \<open>Tests on the queue state\<close>

definition ublksrv_queue_alloc_buf :: "('r, 't) ublksrv_queue \<Rightarrow> bool" where
  "ublksrv_queue_alloc_buf q \<longleftrightarrow> \<not> has (qstate q) UBLKSRV_ZERO_COPY"

definition ublksrv_queue_use_buf :: "('r, 't) ublksrv_queue \<Rightarrow> bool" where
  "ublksrv_queue_use_buf q \<longleftrightarrow> \<not> has (qstate q) (UBLKSRV_USER_COPY OR UBLKSRV_ZERO_COPY)"

definition ublksrv_queue_batch_io :: "('r, 't) ublksrv_queue \<Rightarrow> bool" where
  "ublksrv_queue_batch_io q \<longleftrightarrow> has (qstate q) UBLKSRV_QUEUE_BATCH_IO"

definition queue_is_done :: "'r uring_api \<Rightarrow> ('r, 't) ublksrv_queue \<Rightarrow> bool" where
  "queue_is_done U q \<longleftrightarrow>
     has (qstate q) UBLKSRV_QUEUE_STOPPING \<and> sq_ready U (ring q) = 0 \<and> cmd_inflight q = 0"

definition ublksrv_get_iod :: "('r, 't) ublksrv_queue \<Rightarrow> nat \<Rightarrow> ublksrv_io_desc" where
  "ublksrv_get_iod q tag = io_cmd_buf q ! tag"

definition ublksrv_queue_get_io_buf :: "('r, 't) ublksrv_queue \<Rightarrow> nat \<Rightarrow> u64" where
  "ublksrv_queue_get_io_buf q tag = (if tag < q_depth q then io_buf_addr (ios q ! tag) else 0)"

section \<open>Issuing an io command\<close>

definition ublksrv_mark_io_done :: "int \<Rightarrow> ublk_io \<Rightarrow> ublk_io" where
  "ublksrv_mark_io_done res io =
     io\<lparr>io_flags := io_flags io OR (UBLKSRV_NEED_COMMIT_RQ_COMP OR UBLKSRV_IO_FREE),
        io_result := word_of_int res\<rparr>"

definition ublk_set_auto_buf_reg :: "u16 \<Rightarrow> u8 \<Rightarrow> uring_sqe \<Rightarrow> uring_sqe" where
  "ublk_set_auto_buf_reg buf_idx flags sqe =
     sqe\<lparr>sqe_addr := ublk_auto_buf_reg_to_sqe_addr
            \<lparr>reg_index = buf_idx, reg_flags = flags, reg_reserved0 = 0, reg_reserved1 = 0\<rparr>\<rparr>"

text \<open>The opcode \<open>ublksrv_queue_io_cmd\<close> picks from the flags of the io.\<close>

definition io_cmd_op :: "u32 \<Rightarrow> u32" where
  "io_cmd_op flags =
     (if has flags UBLKSRV_NEED_GET_DATA then UBLK_IO_NEED_GET_DATA
      else if has flags UBLKSRV_NEED_COMMIT_RQ_COMP then UBLK_IO_COMMIT_AND_FETCH_REQ
      else if has flags UBLKSRV_NEED_FETCH_RQ then UBLK_IO_FETCH_REQ
      else 0)"

text \<open>The assignments to the submission entry, in the order of the source.\<close>

definition fill_io_cmd ::
  "('r, 't) ublksrv_queue \<Rightarrow> ublk_io \<Rightarrow> nat \<Rightarrow> uring_sqe \<Rightarrow> uring_sqe" where
  "fill_io_cmd q io tag sqe0 =
     (let cmd_op0 = io_cmd_op (io_flags io);
          cmd0 = (sqe_io_cmd sqe0)
                   \<lparr>ic_result := (if cmd_op0 = UBLK_IO_COMMIT_AND_FETCH_REQ then io_result io
                                  else ic_result (sqe_io_cmd sqe0))\<rparr>;
          cmd_op = (if has (qstate q) UBLKSRV_QUEUE_IOCTL_OP
                    then IOWR_u (IOC_NR cmd_op0) sizeof_ublksrv_io_cmd else cmd_op0);
          sqe1 = ublksrv_set_sqe_cmd_op cmd_op sqe0;
          sqe2 = sqe1\<lparr>sqe_fd := 0, sqe_opcode := OP_URING_CMD, sqe_flags := {IOSQE_FIXED_FILE},
                      sqe_rw_flags := 0,
                      sqe_io_cmd := cmd0\<lparr>ic_tag := of_nat tag,
                        ic_addr := (if ublksrv_queue_use_buf q then io_buf_addr io else 0),
                        ic_q_id := of_nat (q_id q)\<rparr>\<rparr>;
          sqe3 = (if has (qstate q) UBLKSRV_AUTO_ZC
                  then ublk_set_auto_buf_reg (of_nat tag) 0 sqe2 else sqe2)
      in sqe3\<lparr>sqe_user_data := build_user_data (of_nat tag) (IOC_NR cmd_op) 0 0\<rparr>)"

definition ublksrv_queue_io_cmd ::
  "'r uring_api \<Rightarrow> ('r, 't) ublksrv_queue \<Rightarrow> nat \<Rightarrow> int \<times> ('r, 't) ublksrv_queue" where
  "ublksrv_queue_io_cmd U q tag =
     (let io = ios q ! tag in
      if \<not> has (io_flags io) UBLKSRV_IO_FREE then (0, q)
      else if \<not> has (io_flags io)
                 (UBLKSRV_NEED_FETCH_RQ OR UBLKSRV_NEED_GET_DATA OR UBLKSRV_NEED_COMMIT_RQ_COMP)
      then (0, q)
      else case ublksrv_alloc_sqe U (ring q) (fill_io_cmd q io tag) of
             (False, r) \<Rightarrow> (-1, q\<lparr>ring := r\<rparr>)
           | (True, r) \<Rightarrow>
               (1, q\<lparr>ring := r, ios := (ios q)[tag := io\<lparr>io_flags := 0\<rparr>],
                    cmd_inflight := cmd_inflight q + 1\<rparr>))"

section \<open>Target io in flight\<close>

definition ublksrv_queue_inc_tgt_io_inflight ::
  "('r, 't) ublksrv_queue \<Rightarrow> ('r, 't) ublksrv_queue" where
  "ublksrv_queue_inc_tgt_io_inflight q = q\<lparr>tgt_io_inflight := tgt_io_inflight q + 1\<rparr>"

definition ublksrv_queue_dec_tgt_io_inflight ::
  "('r, 't) ublksrv_queue \<Rightarrow> ('r, 't) ublksrv_queue" where
  "ublksrv_queue_dec_tgt_io_inflight q = q\<lparr>tgt_io_inflight := tgt_io_inflight q - 1\<rparr>"

section \<open>The event descriptor of the queue\<close>

text \<open>
  The eventfd is its counter \<open>efd_count\<close>: a write of 1 adds one, a read takes the whole count. The
  results of the system calls are arguments (\<open>wr\<close>: what \<open>write\<close> returned, 8 on success).
\<close>

definition queue_event ::
  "'r uring_api \<Rightarrow> ('r, 't) ublksrv_queue \<Rightarrow> int \<times> ('r, 't) ublksrv_queue" where
  "queue_event U q =
     (if efd q \<ge> 0 then
        if has (qstate q) UBLKSRV_QUEUE_STOPPING then (- EINVAL, q)
        else case get_sqe U (ring q)
                    (\<lambda>sqe. (prep_poll U OP_POLL_ADD (efd q) sqe)
                              \<lparr>sqe_user_data := build_internal_data UBLK_IO_OP_EVENTFD\<rparr>) of
               None \<Rightarrow> (-1, q)
             | Some r \<Rightarrow> (0, q\<lparr>ring := r\<rparr>)
      else (0, q))"

definition ublksrv_queue_handled_event ::
  "'r uring_api \<Rightarrow> ('r, 't) ublksrv_queue \<Rightarrow> ('r, 't) ublksrv_queue" where
  "ublksrv_queue_handled_event U q =
     (if efd q \<ge> 0 then
        (let q1 = q\<lparr>efd_count := 0\<rparr>;
             (ret, q2) = queue_event U q1
         in if ret = 0 then q2\<lparr>ring := submit U (ring q2)\<rparr> else q2)
      else q)"

definition ublksrv_queue_send_event ::
  "int \<Rightarrow> ('r, 't) ublksrv_queue \<Rightarrow> int \<times> ('r, 't) ublksrv_queue" where
  "ublksrv_queue_send_event wr q =
     (if efd q \<ge> 0 then
        if wr \<noteq> 8 then (- EPIPE, q) else (0, q\<lparr>efd_count := efd_count q + 1\<rparr>)
      else (0, q))"

definition ublksrv_kill_eventfd ::
  "int \<Rightarrow> ('r, 't) ublksrv_queue \<Rightarrow> ('r, 't) ublksrv_queue" where
  "ublksrv_kill_eventfd wr q =
     (if has (qstate q) UBLKSRV_QUEUE_STOPPING \<and> efd q \<ge> 0 \<and> wr = 8
      then q\<lparr>efd_count := efd_count q + 1\<rparr> else q)"

section \<open>Lemmas\<close>

subsection \<open>The submission entry of an io command\<close>

lemma fill_io_cmd_payload:
  "ic_tag (sqe_io_cmd (fill_io_cmd q io tag s)) = of_nat tag"
  "ic_q_id (sqe_io_cmd (fill_io_cmd q io tag s)) = of_nat (q_id q)"
  "ic_addr (sqe_io_cmd (fill_io_cmd q io tag s))
     = (if ublksrv_queue_use_buf q then io_buf_addr io else 0)"
  "io_cmd_op (io_flags io) = UBLK_IO_COMMIT_AND_FETCH_REQ \<Longrightarrow>
     ic_result (sqe_io_cmd (fill_io_cmd q io tag s)) = io_result io"
  "sqe_opcode (fill_io_cmd q io tag s) = OP_URING_CMD"
  "sqe_fd (fill_io_cmd q io tag s) = 0"
  "sqe_flags (fill_io_cmd q io tag s) = {IOSQE_FIXED_FILE}"
  by (auto simp: fill_io_cmd_def ublk_set_auto_buf_reg_def ublksrv_set_sqe_cmd_op_def Let_def)

lemma io_cmd_op_cases:
  "io_cmd_op flags \<in> {UBLK_IO_NEED_GET_DATA, UBLK_IO_COMMIT_AND_FETCH_REQ, UBLK_IO_FETCH_REQ, 0}"
  by (simp add: io_cmd_op_def)

lemma io_cmd_op_nr: "IOC_NR (io_cmd_op flags) = io_cmd_op flags"
  by (simp add: io_cmd_op_def IOC_NR_def)

lemma io_cmd_op_fits: "drop_bit 8 (io_cmd_op flags) = 0"
  by (simp add: io_cmd_op_def)

lemma fill_io_cmd_user_data:
  "sqe_user_data (fill_io_cmd q io tag s) = build_user_data (of_nat tag) (io_cmd_op (io_flags io)) 0 0"
  by (auto simp: fill_io_cmd_def Let_def io_cmd_op_nr IOC_NR_IOC io_cmd_op_fits)

lemma tag_user_data_assert:
  assumes "tag < 65536" "drop_bit 8 op = 0"
  shows "build_user_data_assert (of_nat tag) op 0"
  using assms by (simp add: build_user_data_assert_def drop_bit_0_unat unat_of_nat_small)

lemma fill_io_cmd_decodes:
  assumes "tag < 65536"
  shows "user_data_to_tag (sqe_user_data (fill_io_cmd q io tag s)) = of_nat tag"
    and "user_data_to_op (sqe_user_data (fill_io_cmd q io tag s)) = io_cmd_op (io_flags io)"
    and "\<not> is_target_io (sqe_user_data (fill_io_cmd q io tag s))"
  using tag_user_data_assert [OF assms io_cmd_op_fits]
  by (simp_all add: fill_io_cmd_user_data user_data_tag user_data_op user_data_is_target)

lemma fill_io_cmd_op:
  "IOC_NR (sqe_cmd_op (fill_io_cmd q io tag s)) = io_cmd_op (io_flags io)"
  by (auto simp: fill_io_cmd_def Let_def ublk_set_auto_buf_reg_def ublksrv_set_sqe_cmd_op_def
      io_cmd_op_nr IOC_NR_IOC io_cmd_op_fits)

subsection \<open>Outcomes of issuing a command\<close>

text \<open>An io is issued only when it is free and has something to tell the driver.\<close>

definition io_issuable :: "ublk_io \<Rightarrow> bool" where
  "io_issuable io \<longleftrightarrow> has (io_flags io) UBLKSRV_IO_FREE \<and>
     has (io_flags io)
       (UBLKSRV_NEED_FETCH_RQ OR UBLKSRV_NEED_GET_DATA OR UBLKSRV_NEED_COMMIT_RQ_COMP)"

lemma queue_io_cmd_noop:
  "\<not> io_issuable (ios q ! tag) \<Longrightarrow> ublksrv_queue_io_cmd U q tag = (0, q)"
  by (auto simp: ublksrv_queue_io_cmd_def io_issuable_def Let_def)

lemma queue_io_cmd_issue:
  assumes "io_issuable (ios q ! tag)"
  shows "ublksrv_queue_io_cmd U q tag =
    (case ublksrv_alloc_sqe U (ring q) (fill_io_cmd q (ios q ! tag) tag) of
       (False, r) \<Rightarrow> (-1, q\<lparr>ring := r\<rparr>)
     | (True, r) \<Rightarrow> (1, q\<lparr>ring := r, ios := (ios q)[tag := (ios q ! tag)\<lparr>io_flags := 0\<rparr>],
                         cmd_inflight := cmd_inflight q + 1\<rparr>))"
  using assms by (simp add: ublksrv_queue_io_cmd_def io_issuable_def Let_def)

lemma queue_io_cmd_sqe:
  assumes U: "uring_ok U queued" "uring_submits U" and io: "io_issuable (ios q ! tag)" and tag: "tag < 65536"
    and q': "ublksrv_queue_io_cmd U q tag = (ret, q')"
  shows "\<exists>sqe. queued (ring q') = queued (ring q) @ [sqe] \<and> ret = 1 \<and>
           sqe_opcode sqe = OP_URING_CMD \<and> sqe_fd sqe = 0 \<and> sqe_flags sqe = {IOSQE_FIXED_FILE} \<and>
           ic_q_id (sqe_io_cmd sqe) = of_nat (q_id q) \<and> ic_tag (sqe_io_cmd sqe) = of_nat tag \<and>
           IOC_NR (sqe_cmd_op sqe) = io_cmd_op (io_flags (ios q ! tag)) \<and>
           (io_cmd_op (io_flags (ios q ! tag)) = UBLK_IO_COMMIT_AND_FETCH_REQ \<longrightarrow>
              ic_result (sqe_io_cmd sqe) = io_result (ios q ! tag)) \<and>
           user_data_to_tag (sqe_user_data sqe) = of_nat tag \<and>
           user_data_to_op (sqe_user_data sqe) = io_cmd_op (io_flags (ios q ! tag)) \<and>
           \<not> is_target_io (sqe_user_data sqe) \<and>
           ios q' = (ios q)[tag := (ios q ! tag)\<lparr>io_flags := 0\<rparr>] \<and>
           cmd_inflight q' = cmd_inflight q + 1"
proof -
  let ?fill = "fill_io_cmd q (ios q ! tag) tag"
  obtain b r where a: "ublksrv_alloc_sqe U (ring q) ?fill = (b, r)" by fastforce
  have b using alloc_sqe_succeeds [OF U, of "ring q" ?fill] a by simp
  then obtain slot where "queued r = queued (ring q) @ [?fill slot]"
    using alloc_sqe_ok [OF U(1), of "ring q" ?fill r] a by auto
  then show ?thesis
    using q' a \<open>b\<close> by (intro exI [of _ "?fill slot"])
      (auto simp: queue_io_cmd_issue [OF io] fill_io_cmd_payload fill_io_cmd_op fill_io_cmd_decodes [OF tag])
qed

section \<open>A small queue\<close>

text \<open>A queue of depth two on a ring of four entries, as \<open>ublksrv_queue_init_flags\<close> leaves it.\<close>

definition sample_batch :: ublksrv_queue_batch where
  "sample_batch =
     (let cb = \<lparr>cb_buf = 0, cb_mem = (\<lambda>_. \<lparr>e_tag = 0, e_buf_index = 0, e_result = 0, e_buf_addr = 0\<rparr>),
                cb_done = 0, cb_count = 0\<rparr>
      in \<lparr>fetch_bufs = [\<lparr>fb_br = False, fb_buf = 0, fb_mem = (\<lambda>_. 0), fb_size = 0, fb_off = 0, fb_posted = 0\<rparr>],
          commit_bufs = [cb, cb], commit_buf_mem = 0, commit_buf_size = 0, commit_buf_elem_size = 0,
          cur_commit_buf = 0, prep_done = False, batch_cmd_flags = 0\<rparr>)"

definition sample_queue :: "u32 \<Rightarrow> 't \<Rightarrow> (fring, 't) ublksrv_queue" where
  "sample_queue st priv =
     \<lparr>q_id = 3, q_depth = 2,
      io_cmd_buf = [\<lparr>op_flags = 0, nr_sectors = 8, start_sector = 16, iod_addr = 0x1000\<rparr>,
                    \<lparr>op_flags = 1, nr_sectors = 2, start_sector = 64, iod_addr = 0x2000\<rparr>],
      cmd_inflight = 0, tgt_io_inflight = 0, qstate = st, epollfd = -1, epoll_callbacks = [],
      efd = -1, efd_count = 0, ring = \<lparr>fr_entries = 4, fr_pend = [], fr_sent = []\<rparr>, ctxs = [],
      batch = sample_batch,
      ios = [\<lparr>io_buf_addr = 0x1000, io_flags = 5, io_result = 0, io_tag = 0, io_iod = Some 0\<rparr>,
             \<lparr>io_buf_addr = 0x2000, io_flags = 5, io_result = 0, io_tag = 1, io_iod = Some 1\<rparr>],
      private_data = priv, freed = []\<rparr>"

section \<open>Properties\<close>

text \<open>C7: Issuing the command of an io that is free and has something to tell the driver queues
  exactly one submission entry: it is addressed to the ublk char device, names the queue and the tag,
  carries the result when it commits one, its user data decodes to tag and op as an io command, the
  flags of the io are cleared and one more command is in flight.\<close>

theorem queue_io_cmd_queues:
  assumes U: "uring_ok U queued" "uring_submits U" and io: "io_issuable (ios q ! tag)" and tag: "tag < 65536"
    and q': "ublksrv_queue_io_cmd U q tag = (ret, q')"
  shows "\<exists>sqe. queued (ring q') = queued (ring q) @ [sqe] \<and> ret = 1 \<and>
           sqe_opcode sqe = OP_URING_CMD \<and> sqe_fd sqe = 0 \<and> sqe_flags sqe = {IOSQE_FIXED_FILE} \<and>
           ic_q_id (sqe_io_cmd sqe) = of_nat (q_id q) \<and> ic_tag (sqe_io_cmd sqe) = of_nat tag \<and>
           IOC_NR (sqe_cmd_op sqe) = io_cmd_op (io_flags (ios q ! tag)) \<and>
           (io_cmd_op (io_flags (ios q ! tag)) = UBLK_IO_COMMIT_AND_FETCH_REQ \<longrightarrow>
              ic_result (sqe_io_cmd sqe) = io_result (ios q ! tag)) \<and>
           user_data_to_tag (sqe_user_data sqe) = of_nat tag \<and>
           user_data_to_op (sqe_user_data sqe) = io_cmd_op (io_flags (ios q ! tag)) \<and>
           \<not> is_target_io (sqe_user_data sqe) \<and>
           ios q' = (ios q)[tag := (ios q ! tag)\<lparr>io_flags := 0\<rparr>] \<and>
           cmd_inflight q' = cmd_inflight q + 1"
  using queue_io_cmd_sqe [OF assms] .

theorem queue_io_cmd_queues_witness:
  "\<exists>sqe. fr_queued (ring (snd (ublksrv_queue_io_cmd fring_api (sample_queue 4 ()) 1))) = [sqe] \<and>
         user_data_to_tag (sqe_user_data sqe) = 1"
proof -
  have "io_issuable (ios (sample_queue 4 ()) ! 1)" by (simp add: io_issuable_def sample_queue_def has_def)
  from queue_io_cmd_queues [OF fring_ok(1,2) this, of "fst (ublksrv_queue_io_cmd fring_api (sample_queue 4 ()) 1)"
    "snd (ublksrv_queue_io_cmd fring_api (sample_queue 4 ()) 1)"]
  show ?thesis by (auto simp: fr_queued_def sample_queue_def)
qed

end
