(* ===== verification/Ublk_Batch.thy ===== *)
theory Ublk_Batch
  imports Ublk_Queue
begin

text \<open>
  Batch mode (UBLK_F_BATCH_IO): lib/ublksrv_batch.c and \<open>ublksrv_batch_add_complete\<close> of
  include/ublksrv_priv.h. Instead of one command per tag, the server prepares all tags once,
  receives the tags of new requests through a multishot fetch command, and collects results in one
  of two commit buffers, which are handed to the driver alternately.

  The lemmas show that the byte offsets of the commit buffer stay inside it and that, seen as
  lists, adding a result appends it and committing hands over exactly what was added since the
  buffer became current.
\<close>

abbreviation (input) "UBLK_BATCH_NR_FETCH_BUFS \<equiv> (1::nat)"
abbreviation (input) "UBLK_BATCH_NR_COMMIT_BUFS \<equiv> (2::nat)"

section \<open>Sizes\<close>

definition ublk_batch_elem_buf_size :: "('r, 't) ublksrv_queue \<Rightarrow> u8" where
  "ublk_batch_elem_buf_size q =
     (if has (qstate q) (UBLKSRV_ZERO_COPY OR UBLKSRV_USER_COPY OR UBLKSRV_AUTO_ZC) then 8 else 16)"

definition ublk_batch_commit_buf_size :: "u32 \<Rightarrow> ('r, 't) ublksrv_queue \<Rightarrow> u32" where
  "ublk_batch_commit_buf_size page_sz q =
     round_up (ucast (ublk_batch_elem_buf_size q) * of_nat (q_depth q)) page_sz"

definition build_batch_user_data :: "u16 \<Rightarrow> u32 \<Rightarrow> u16 \<Rightarrow> u64" where
  "build_batch_user_data buf_idx op nr_elem = build_user_data (ucast buf_idx) op (ucast nr_elem) 0"

definition batch_user_data_to_nr_elem :: "u64 \<Rightarrow> u16" where
  "batch_user_data_to_nr_elem user_data = ucast (user_data_to_tgt_data user_data)"

section \<open>Buffers\<close>

text \<open>
  \<open>cmem\<close> and \<open>fmem\<close> are what \<open>posix_memalign\<close> stored for the commit and the fetch buffer (0 when it
  failed, which leaves the pointer as it was), \<open>br\<close> whether the buffer ring could be set up. With one fetch buffer the loop over the
  fetch buffers has one iteration, and its cleanup loop none.
\<close>

definition batch_setup_commit_bufs :: "u64 \<Rightarrow> ublksrv_queue_batch \<Rightarrow> ublksrv_queue_batch" where
  "batch_setup_commit_bufs buf b =
     b\<lparr>commit_bufs := map (\<lambda>i. (commit_bufs b ! i)
          \<lparr>cb_buf := buf + of_nat i * ucast (commit_buf_size b), cb_done := 0,
           cb_count := ucast (commit_buf_size b div ucast (commit_buf_elem_size b))\<rparr>)
        [0..<UBLK_BATCH_NR_COMMIT_BUFS]\<rparr>"

definition ublksrv_batch_alloc_bufs ::
  "u32 \<Rightarrow> u64 \<Rightarrow> u64 \<Rightarrow> bool \<Rightarrow> ('r, 't) ublksrv_queue \<Rightarrow> int \<times> ('r, 't) ublksrv_queue" where
  "ublksrv_batch_alloc_bufs page_sz cmem fmem br q =
     (let b0 = (batch q)\<lparr>commit_buf_elem_size := ublk_batch_elem_buf_size q,
                         commit_buf_size := ublk_batch_commit_buf_size page_sz q\<rparr>
      in if cmem = 0 then (- ENOMEM, q\<lparr>batch := b0\<rparr>)
      else let b1 = batch_setup_commit_bufs cmem (b0\<lparr>commit_buf_mem := cmem\<rparr>);
               fb0 = (fetch_bufs b1 ! 0)
                       \<lparr>fb_size := round_up (of_nat (q_depth q) * 2) page_sz\<rparr>;
               fb1 = fb0\<lparr>fb_buf := fmem\<rparr>
      in if fmem = 0 then
           (- ENOMEM, q\<lparr>batch := b1\<lparr>fetch_bufs := [fb0], commit_buf_mem := 0\<rparr>,
                        freed := freed q @ [cmem]\<rparr>)
      else if \<not> br then
           (- ENOMEM, q\<lparr>batch := b1\<lparr>fetch_bufs := [fb1\<lparr>fb_br := False\<rparr>], commit_buf_mem := 0\<rparr>,
                        freed := freed q @ [fmem, cmem]\<rparr>)
      else
           (0, q\<lparr>batch := b1\<lparr>fetch_bufs := [fb1\<lparr>fb_br := True, fb_off := 0\<rparr>],
                batch_cmd_flags := (if ublksrv_queue_use_buf q then UBLK_BATCH_F_HAS_BUF_ADDR else 0),
                cur_commit_buf := 0, prep_done := False\<rparr>\<rparr>))"

text \<open>
  Freeing: a buffer whose pointer is not null is passed to \<open>free\<close> and the pointer cleared.
\<close>

definition ublksrv_batch_free_bufs :: "('r, 't) ublksrv_queue \<Rightarrow> ('r, 't) ublksrv_queue" where
  "ublksrv_batch_free_bufs q =
     (let b = batch q; fb = fetch_bufs b ! 0;
          fl1 = (if fb_buf fb \<noteq> 0 then [fb_buf fb] else []);
          fl2 = (if commit_buf_mem b \<noteq> 0 then [commit_buf_mem b] else [])
      in q\<lparr>batch := b\<lparr>fetch_bufs := [fb\<lparr>fb_br := False, fb_buf := 0\<rparr>], commit_buf_mem := 0\<rparr>,
           freed := freed q @ fl1 @ fl2\<rparr>)"

section \<open>Batch commands\<close>

definition fill_batch_io_cmd ::
  "('r, 't) ublksrv_queue \<Rightarrow> u32 \<Rightarrow> u64 \<Rightarrow> u16 \<Rightarrow> u16 \<Rightarrow> uring_sqe \<Rightarrow> uring_sqe" where
  "fill_batch_io_cmd q cmd_op buf buf_idx nr_elem sqe0 =
     (let b = batch q in
      (ublksrv_set_sqe_cmd_op cmd_op sqe0)
        \<lparr>sqe_fd := 0, sqe_opcode := OP_URING_CMD, sqe_flags := {IOSQE_FIXED_FILE},
         sqe_addr := buf,
         sqe_len := ucast (commit_buf_elem_size b) * ucast nr_elem,
         sqe_batch_cmd := \<lparr>bi_q_id = of_nat (q_id q), bi_flags = batch_cmd_flags b,
                           bi_nr_elem = nr_elem, bi_elem_bytes = commit_buf_elem_size b\<rparr>,
         sqe_user_data := build_batch_user_data buf_idx (IOC_NR cmd_op) nr_elem\<rparr>)"

definition ublksrv_batch_io_cmd ::
  "'r uring_api \<Rightarrow> ('r, 't) ublksrv_queue \<Rightarrow> u32 \<Rightarrow> u64 \<Rightarrow> u16 \<Rightarrow> u16 \<Rightarrow>
     bool \<times> ('r, 't) ublksrv_queue" where
  "ublksrv_batch_io_cmd U q cmd_op buf buf_idx nr_elem =
     (case ublksrv_alloc_sqe U (ring q) (fill_batch_io_cmd q cmd_op buf buf_idx nr_elem) of
        (False, r) \<Rightarrow> (False, q\<lparr>ring := r\<rparr>)
      | (True, r) \<Rightarrow> (True, q\<lparr>ring := r, cmd_inflight := cmd_inflight q + 1\<rparr>))"

text \<open>The fields of one element that the code writes; the others keep their contents.\<close>

definition batch_write_elem ::
  "('r, 't) ublksrv_queue \<Rightarrow> nat \<Rightarrow> int \<Rightarrow> ublk_batch_elem \<Rightarrow> ublk_batch_elem" where
  "batch_write_elem q tag res elem =
     (let e = elem\<lparr>e_tag := of_nat tag, e_result := word_of_int res\<rparr> in
      if has (qstate q) UBLKSRV_AUTO_ZC then e\<lparr>e_buf_index := of_nat tag\<rparr>
      else if ublksrv_queue_use_buf q then e\<lparr>e_buf_addr := io_buf_addr (ios q ! tag)\<rparr>
      else e)"

text \<open>The byte offset of element \<open>i\<close> in a commit buffer.\<close>

definition elem_off :: "ublksrv_queue_batch \<Rightarrow> nat \<Rightarrow> nat" where
  "elem_off b i = i * unat (commit_buf_elem_size b)"

definition cb_write ::
  "('r, 't) ublksrv_queue \<Rightarrow> nat \<Rightarrow> nat \<Rightarrow> int \<Rightarrow> batch_commit_buf \<Rightarrow> batch_commit_buf" where
  "cb_write q i tag res cb =
     (let off = elem_off (batch q) i
      in cb\<lparr>cb_mem := (cb_mem cb)(off := batch_write_elem q tag res (cb_mem cb off))\<rparr>)"

definition ublksrv_batch_add_complete ::
  "('r, 't) ublksrv_queue \<Rightarrow> nat \<Rightarrow> int \<Rightarrow> ('r, 't) ublksrv_queue" where
  "ublksrv_batch_add_complete q tag result =
     (let b = batch q; cur = cur_commit_buf b; cb = commit_bufs b ! cur;
          cb1 = cb_write q (unat (cb_done cb)) tag result cb
      in q\<lparr>batch := b\<lparr>commit_bufs := (commit_bufs b)[cur := cb1\<lparr>cb_done := cb_done cb + 1\<rparr>]\<rparr>\<rparr>)"

definition ublksrv_batch_queue_prep_io_cmds ::
  "'r uring_api \<Rightarrow> ('r, 't) ublksrv_queue \<Rightarrow> int \<times> ('r, 't) ublksrv_queue" where
  "ublksrv_batch_queue_prep_io_cmds U q =
     (let b = batch q; nr_elem = (of_nat (q_depth q) :: u16);
          cb = fold (\<lambda>i cb. cb_write q i i 0 cb) [0..<unat nr_elem] (commit_bufs b ! 0);
          q1 = q\<lparr>batch := b\<lparr>commit_bufs := (commit_bufs b)[0 := cb]\<rparr>\<rparr>
      in case ublksrv_batch_io_cmd U q1 UBLK_U_IO_PREP_IO_CMDS (cb_buf cb) 0 nr_elem of
           (False, q2) \<Rightarrow> (-1, q2)
         | (True, q2) \<Rightarrow> (0, q2))"

definition fill_batch_fetch ::
  "('r, 't) ublksrv_queue \<Rightarrow> nat \<Rightarrow> u16 \<Rightarrow> uring_sqe \<Rightarrow> uring_sqe" where
  "fill_batch_fetch q buf_idx nr_elem sqe0 =
     (ublksrv_set_sqe_cmd_op UBLK_U_IO_FETCH_IO_CMDS sqe0)
       \<lparr>sqe_fd := 0, sqe_opcode := OP_URING_CMD,
        sqe_flags := {IOSQE_FIXED_FILE, IOSQE_BUFFER_SELECT}, sqe_rw_flags := 2,
        sqe_buf_index := of_nat buf_idx,
        sqe_batch_cmd := \<lparr>bi_q_id = of_nat (q_id q), bi_flags = 0, bi_nr_elem = nr_elem,
                          bi_elem_bytes = 2\<rparr>,
        sqe_user_data := build_batch_user_data (of_nat buf_idx)
                           (IOC_NR UBLK_U_IO_FETCH_IO_CMDS) nr_elem\<rparr>"

definition ublksrv_batch_queue_fetch ::
  "'r uring_api \<Rightarrow> ('r, 't) ublksrv_queue \<Rightarrow> nat \<Rightarrow> ('r, 't) ublksrv_queue" where
  "ublksrv_batch_queue_fetch U q buf_idx =
     (let b = batch q; fb0 = fetch_bufs b ! buf_idx;
          nr_elem = (ucast (fb_size fb0 div 2) :: u16);
          fb = fb0\<lparr>fb_posted := fb_posted fb0 + 1\<rparr>;
          q1 = q\<lparr>batch := b\<lparr>fetch_bufs := (fetch_bufs b)[buf_idx := fb]\<rparr>\<rparr>
      in case ublksrv_alloc_sqe U (ring q1) (fill_batch_fetch q1 buf_idx nr_elem) of
           (False, r) \<Rightarrow> q1\<lparr>ring := r\<rparr>
         | (True, r) \<Rightarrow> q1\<lparr>ring := r, cmd_inflight := cmd_inflight q1 + 1,
              batch := (batch q1)\<lparr>fetch_bufs := (fetch_bufs (batch q1))[buf_idx := fb\<lparr>fb_off := 0\<rparr>]\<rparr>\<rparr>)"

definition ublksrv_batch_start_fetch ::
  "'r uring_api \<Rightarrow> ('r, 't) ublksrv_queue \<Rightarrow> ('r, 't) ublksrv_queue" where
  "ublksrv_batch_start_fetch U q =
     (let q1 = snd (ublksrv_batch_queue_prep_io_cmds U q);
          q2 = fold (\<lambda>i q. ublksrv_batch_queue_fetch U q i) [0..<UBLK_BATCH_NR_FETCH_BUFS] q1
      in q2\<lparr>batch := (batch q2)\<lparr>prep_done := True\<rparr>\<rparr>)"

definition ublksrv_batch_submit_commit ::
  "'r uring_api \<Rightarrow> ('r, 't) ublksrv_queue \<Rightarrow> ('r, 't) ublksrv_queue" where
  "ublksrv_batch_submit_commit U q =
     (let b = batch q; cur = cur_commit_buf b; cb = commit_bufs b ! cur; nr_elem = cb_done cb
      in if nr_elem = 0 then q
      else case ublksrv_batch_io_cmd U q UBLK_U_IO_COMMIT_IO_CMDS (cb_buf cb) (of_nat cur) nr_elem of
             (False, q1) \<Rightarrow> q1
           | (True, q1) \<Rightarrow>
               (let b1 = batch q1; nxt = 1 - cur
                in q1\<lparr>batch := b1\<lparr>cur_commit_buf := nxt,
                     commit_bufs := (commit_bufs b1)[nxt := (commit_bufs b1 ! nxt)\<lparr>cb_done := 0\<rparr>]\<rparr>\<rparr>))"

section \<open>Completions\<close>

text \<open>
  The tags in the fetch buffer from offset \<open>start\<close>, two bytes each, up to \<open>stop\<close>: the loop
  \<open>for (i = start; i < end; i += 2)\<close>. A buffer is far smaller than the range of the 32-bit counter.
\<close>

function fetch_tags :: "(nat \<Rightarrow> u16) \<Rightarrow> nat \<Rightarrow> nat \<Rightarrow> u16 list" where
  "fetch_tags mem i stop = (if i < stop then mem i # fetch_tags mem (i + 2) stop else [])"
  by pat_completeness auto
termination
  by (relation "measure (\<lambda>(mem, i, stop). stop - i)") auto

declare fetch_tags.simps [simp del]

definition fetch_one ::
  "('r, 't) tgt_ops \<Rightarrow> ('r, 't) ublksrv_queue \<Rightarrow> u16 \<Rightarrow> ('r, 't) ublksrv_queue" where
  "fetch_one T q tag = (if unat tag \<ge> q_depth q then q else handle_io_async T q (unat tag))"

definition ublksrv_batch_handle_fetch_cqe ::
  "('r, 't) tgt_ops \<Rightarrow> ('r, 't) ublksrv_queue \<Rightarrow> uring_cqe \<Rightarrow> ('r, 't) ublksrv_queue" where
  "ublksrv_batch_handle_fetch_cqe T q cqe =
     (let buf_idx = unat (user_data_to_tag (cqe_user_data cqe));
          fb = fetch_bufs (batch q) ! buf_idx;
          start = fb_off fb; stop = start + word_of_int (cqe_res cqe)
      in if cqe_res cqe < 0 then q
      else let q1 = foldl (fetch_one T) q (fetch_tags (fb_mem fb) (unat start) (unat stop));
               fbs = fetch_bufs (batch q1)
           in q1\<lparr>batch := (batch q1)\<lparr>fetch_bufs := fbs[buf_idx := (fbs ! buf_idx)\<lparr>fb_off := stop\<rparr>]\<rparr>\<rparr>)"

text \<open>
  A completed prep or commit command is only logged: nothing of the queue changes, whatever the
  result says.
\<close>

definition ublksrv_batch_handle_commit_cqe ::
  "('r, 't) ublksrv_queue \<Rightarrow> uring_cqe \<Rightarrow> u32 \<Rightarrow> ('r, 't) ublksrv_queue" where
  "ublksrv_batch_handle_commit_cqe q cqe op = q"

definition ublksrv_batch_handle_cqe ::
  "'r uring_api \<Rightarrow> ('r, 't) tgt_ops \<Rightarrow> ('r, 't) ublksrv_queue \<Rightarrow> uring_cqe \<Rightarrow> u32 \<Rightarrow>
     bool \<times> ('r, 't) ublksrv_queue" where
  "ublksrv_batch_handle_cqe U T q cqe cmd_op =
     (if cmd_op = IOC_NR UBLK_U_IO_FETCH_IO_CMDS then
        if cqe_res cqe < 0 \<and> cqe_res cqe \<noteq> - ENOBUFS then
          (True, q\<lparr>cmd_inflight := cmd_inflight q - 1,
                   qstate := qstate q OR UBLKSRV_QUEUE_STOPPING\<rparr>)
        else
          (let q1 = ublksrv_batch_handle_fetch_cqe T q cqe
           in if \<not> cqe_more cqe \<or> cqe_res cqe = - ENOBUFS then
                (True, ublksrv_batch_queue_fetch U (q1\<lparr>cmd_inflight := cmd_inflight q1 - 1\<rparr>)
                         (unat (user_data_to_tag (cqe_user_data cqe))))
              else (True, q1))
      else if cmd_op = IOC_NR UBLK_U_IO_PREP_IO_CMDS \<or> cmd_op = IOC_NR UBLK_U_IO_COMMIT_IO_CMDS then
        (True, ublksrv_batch_handle_commit_cqe (q\<lparr>cmd_inflight := cmd_inflight q - 1\<rparr>) cqe cmd_op)
      else (False, q))"

section \<open>Lemmas\<close>

subsection \<open>Sizes\<close>

text \<open>A queue whose batch buffers are set up, with pages of \<open>2 ^ k\<close> bytes.\<close>

definition batch_ok :: "nat \<Rightarrow> ('r, 't) ublksrv_queue \<Rightarrow> bool" where
  "batch_ok k q \<longleftrightarrow> k \<le> 16 \<and> 0 < q_depth q \<and> q_depth q \<le> 4096 \<and>
     commit_buf_elem_size (batch q) = ublk_batch_elem_buf_size q \<and>
     commit_buf_size (batch q) = ublk_batch_commit_buf_size (2 ^ k) q \<and>
     length (commit_bufs (batch q)) = 2 \<and> cur_commit_buf (batch q) < 2"

lemma elem_buf_size_cases: "ublk_batch_elem_buf_size q = 8 \<or> ublk_batch_elem_buf_size q = 16"
  by (simp add: ublk_batch_elem_buf_size_def)

lemma elem_buf_size_unat: "unat (ublk_batch_elem_buf_size q) \<in> {8, 16}"
  using elem_buf_size_cases [of q] by auto

lemma commit_buf_size_spec:
  assumes "k \<le> 16" "q_depth q \<le> 4096"
  shows "q_depth q * unat (ublk_batch_elem_buf_size q) \<le> unat (ublk_batch_commit_buf_size (2 ^ k) q)"
    and "unat (ublk_batch_commit_buf_size (2 ^ k) q) < q_depth q * unat (ublk_batch_elem_buf_size q) + 2 ^ k"
proof -
  let ?e = "ublk_batch_elem_buf_size q"
  let ?v = "ucast ?e * of_nat (q_depth q) :: u32"
  have "(2::nat) ^ k \<le> 2 ^ 16" using assms(1) by (intro power_increasing) auto
  then have p: "(2::nat) ^ k \<le> 65536" by simp
  have n: "unat (of_nat (q_depth q) :: u32) = q_depth q" using assms(2) by (intro unat_of_nat_small) simp
  have v: "unat ?v = q_depth q * unat ?e"
    using elem_buf_size_cases [of q] assms(2) n by (auto simp: unat_word_ariths)
  have ub: "unat ?v \<le> 65536" unfolding v using elem_buf_size_unat [of q] assms(2) by auto
  have "k < LENGTH(32)" "unat ?v + (2 ^ k - 1) < 2 ^ LENGTH(32)" using assms(1) ub p by simp_all
  from round_up_spec [OF this]
  show "q_depth q * unat ?e \<le> unat (ublk_batch_commit_buf_size (2 ^ k) q)"
    and "unat (ublk_batch_commit_buf_size (2 ^ k) q) < q_depth q * unat ?e + 2 ^ k"
    unfolding ublk_batch_commit_buf_size_def v by simp_all
qed

lemma elem_off_inj: "batch_ok k q \<Longrightarrow> elem_off (batch q) i = elem_off (batch q) j \<longleftrightarrow> i = j"
  using elem_buf_size_unat [of q] by (auto simp: batch_ok_def elem_off_def)

text \<open>Element \<open>i\<close> of a buffer lies inside it for every \<open>i\<close> below the queue depth.\<close>

lemma elem_in_buf:
  assumes "batch_ok k q" "i < q_depth q"
  shows "elem_off (batch q) i + unat (commit_buf_elem_size (batch q)) \<le> unat (commit_buf_size (batch q))"
proof -
  let ?e = "unat (ublk_batch_elem_buf_size q)"
  have "elem_off (batch q) i + ?e = Suc i * ?e" using assms(1) by (simp add: batch_ok_def elem_off_def)
  also have "\<dots> \<le> q_depth q * ?e" using assms(2) by (intro mult_le_mono1) simp
  also have "\<dots> \<le> unat (commit_buf_size (batch q))"
    using commit_buf_size_spec(1) assms(1) by (auto simp: batch_ok_def)
  finally show ?thesis using assms(1) by (simp add: batch_ok_def)
qed

text \<open>The recorded capacity of a commit buffer covers every tag of the queue.\<close>

lemma commit_count_ge:
  assumes "k \<le> 16" "q_depth q \<le> 4096"
  shows "q_depth q \<le> unat (ucast (ublk_batch_commit_buf_size (2 ^ k) q div ucast (ublk_batch_elem_buf_size q)) :: u16)"
proof -
  let ?e = "unat (ublk_batch_elem_buf_size q)" and ?s = "unat (ublk_batch_commit_buf_size (2 ^ k) q)"
  have e: "unat (ucast (ublk_batch_elem_buf_size q) :: u32) = ?e" "?e = 8 \<or> ?e = 16"
    using elem_buf_size_cases [of q] by auto
  have "(2::nat) ^ k \<le> 2 ^ 16" using assms(1) by (intro power_increasing) auto
  then have s: "q_depth q * ?e \<le> ?s" "?s < q_depth q * ?e + 65536"
    using commit_buf_size_spec [OF assms] by simp_all
  have d: "unat (ublk_batch_commit_buf_size (2 ^ k) q div ucast (ublk_batch_elem_buf_size q)) = ?s div ?e"
    by (simp add: unat_div e(1))
  have "?s div ?e \<le> 65535" using s(2) e(2) assms(2) by auto
  then have "unat (ucast (ublk_batch_commit_buf_size (2 ^ k) q div ucast (ublk_batch_elem_buf_size q)) :: u16) = ?s div ?e"
    by (simp add: unsigned_ucast_eq d take_bit_nat_eq_self)
  moreover have "q_depth q \<le> ?s div ?e" using s(1) e(2) by auto
  ultimately show ?thesis by simp
qed

subsection \<open>A commit buffer as a list\<close>

definition cb_elems :: "ublksrv_queue_batch \<Rightarrow> batch_commit_buf \<Rightarrow> ublk_batch_elem list" where
  "cb_elems b cb = map (\<lambda>i. cb_mem cb (elem_off b i)) [0..<unat (cb_done cb)]"

definition cur_cb :: "('r, 't) ublksrv_queue \<Rightarrow> batch_commit_buf" where
  "cur_cb q = commit_bufs (batch q) ! cur_commit_buf (batch q)"

text \<open>What is waiting to be committed: tag and result of each element of the current buffer.\<close>

definition to_commit :: "('r, 't) ublksrv_queue \<Rightarrow> (u16 \<times> u32) list" where
  "to_commit q = map (\<lambda>e. (e_tag e, e_result e)) (cb_elems (batch q) (cur_cb q))"

lemma batch_write_elem_sel [simp]:
  "e_tag (batch_write_elem q tag res e) = of_nat tag"
  "e_result (batch_write_elem q tag res e) = word_of_int res"
  by (simp_all add: batch_write_elem_def Let_def)

lemma add_complete_cur:
  assumes "batch_ok k q"
  shows "cur_cb (ublksrv_batch_add_complete q tag res)
       = (cb_write q (unat (cb_done (cur_cb q))) tag res (cur_cb q))\<lparr>cb_done := cb_done (cur_cb q) + 1\<rparr>"
  using assms by (simp add: cur_cb_def ublksrv_batch_add_complete_def Let_def batch_ok_def)

lemma add_complete_sel [simp]:
  "q_depth (ublksrv_batch_add_complete q tag res) = q_depth q"
  "qstate (ublksrv_batch_add_complete q tag res) = qstate q"
  "ios (ublksrv_batch_add_complete q tag res) = ios q"
  "ring (ublksrv_batch_add_complete q tag res) = ring q"
  "cmd_inflight (ublksrv_batch_add_complete q tag res) = cmd_inflight q"
  "commit_buf_elem_size (batch (ublksrv_batch_add_complete q tag res)) = commit_buf_elem_size (batch q)"
  "commit_buf_size (batch (ublksrv_batch_add_complete q tag res)) = commit_buf_size (batch q)"
  "cur_commit_buf (batch (ublksrv_batch_add_complete q tag res)) = cur_commit_buf (batch q)"
  "length (commit_bufs (batch (ublksrv_batch_add_complete q tag res))) = length (commit_bufs (batch q))"
  by (simp_all add: ublksrv_batch_add_complete_def Let_def)

lemma add_complete_ok: "batch_ok k q \<Longrightarrow> batch_ok k (ublksrv_batch_add_complete q tag res)"
  by (simp add: batch_ok_def ublk_batch_elem_buf_size_def ublk_batch_commit_buf_size_def)

text \<open>Adding a result appends it to the list, as long as the buffer has room.\<close>

lemma add_complete_to_commit:
  assumes ok: "batch_ok k q" and room: "unat (cb_done (cur_cb q)) < q_depth q"
  shows "to_commit (ublksrv_batch_add_complete q tag res) = to_commit q @ [(of_nat tag, word_of_int res)]"
    and "unat (cb_done (cur_cb (ublksrv_batch_add_complete q tag res))) = Suc (unat (cb_done (cur_cb q)))"
proof -
  let ?q' = "ublksrv_batch_add_complete q tag res" and ?n = "unat (cb_done (cur_cb q))"
  have "?n + 1 < 2 ^ 16" using room ok by (simp add: batch_ok_def)
  then show n: "unat (cb_done (cur_cb ?q')) = Suc ?n"
    by (simp add: add_complete_cur [OF ok] unat_word_ariths)
  have off: "elem_off (batch ?q') i = elem_off (batch q) i" for i by (simp add: elem_off_def)
  have mem: "cb_mem (cur_cb ?q') (elem_off (batch ?q') i)
      = (if i = ?n then batch_write_elem q tag res (cb_mem (cur_cb q) (elem_off (batch q) i))
         else cb_mem (cur_cb q) (elem_off (batch q) i))" for i
    by (simp add: add_complete_cur [OF ok] cb_write_def Let_def elem_off_inj [OF ok]
        off)
  show "to_commit ?q' = to_commit q @ [(of_nat tag, word_of_int res)]"
    unfolding to_commit_def cb_elems_def n by (simp add: mem)
qed

lemma add_all_to_commit:
  assumes "batch_ok k q" "unat (cb_done (cur_cb q)) + length rs \<le> q_depth q"
  defines "q' \<equiv> foldl (\<lambda>q (tag, res). ublksrv_batch_add_complete q tag res) q rs"
  shows "to_commit q' = to_commit q @ map (\<lambda>(tag, res). (of_nat tag, word_of_int res)) rs"
    and "unat (cb_done (cur_cb q')) = unat (cb_done (cur_cb q)) + length rs"
    and "batch_ok k q'" "q_depth q' = q_depth q" "ring q' = ring q" "cur_commit_buf (batch q') = cur_commit_buf (batch q)"
proof -
  have "to_commit q' = to_commit q @ map (\<lambda>(tag, res). (of_nat tag, word_of_int res)) rs \<and>
    unat (cb_done (cur_cb q')) = unat (cb_done (cur_cb q)) + length rs \<and>
    batch_ok k q' \<and> q_depth q' = q_depth q \<and> ring q' = ring q \<and> cur_commit_buf (batch q') = cur_commit_buf (batch q)"
    using assms(1,2) unfolding q'_def
  proof (induction rs arbitrary: q)
    case (Cons r rs)
    obtain tag res where r: "r = (tag, res)" by fastforce
    let ?q1 = "ublksrv_batch_add_complete q tag res"
    have room: "unat (cb_done (cur_cb q)) < q_depth q" using Cons.prems by simp
    note add = add_complete_to_commit [OF Cons.prems(1) room, of tag res]
    show ?case
      using Cons.IH [of ?q1] add_complete_ok [OF Cons.prems(1)] add Cons.prems by (simp add: r)
  qed simp
  then show "to_commit q' = to_commit q @ map (\<lambda>(tag, res). (of_nat tag, word_of_int res)) rs"
    and "unat (cb_done (cur_cb q')) = unat (cb_done (cur_cb q)) + length rs"
    and "batch_ok k q'" "q_depth q' = q_depth q" "ring q' = ring q" "cur_commit_buf (batch q') = cur_commit_buf (batch q)" by auto
qed

subsection \<open>Committing\<close>

lemma batch_io_cmd_cases:
  assumes "ublksrv_batch_io_cmd U q op buf idx n = (b, q')"
  shows "q' = q\<lparr>ring := ring q', cmd_inflight := cmd_inflight q + of_bool b\<rparr>"
  using assms by (auto simp: ublksrv_batch_io_cmd_def split: prod.splits bool.splits)

lemma batch_io_cmd_queued:
  assumes "uring_ok U queued" "ublksrv_batch_io_cmd U q op buf idx n = (True, q')"
  shows "\<exists>slot. queued (ring q') = queued (ring q) @ [fill_batch_io_cmd q op buf idx n slot]"
  using assms alloc_sqe_ok [OF assms(1), of "ring q" "fill_batch_io_cmd q op buf idx n" "ring q'"]
  by (auto simp: ublksrv_batch_io_cmd_def split: prod.splits bool.splits)

lemma commit_elem_size_kept:
  "commit_buf_elem_size (batch (ublksrv_batch_submit_commit U q)) = commit_buf_elem_size (batch q)"
proof (cases "ublksrv_batch_io_cmd U q UBLK_U_IO_COMMIT_IO_CMDS (cb_buf (cur_cb q))
    (of_nat (cur_commit_buf (batch q))) (cb_done (cur_cb q))")
  case (Pair b q1)
  have "batch q1 = batch q" by (subst batch_io_cmd_cases [OF Pair]) simp
  then show ?thesis
    using Pair by (cases b) (simp_all add: ublksrv_batch_submit_commit_def cur_cb_def Let_def)
qed

lemma submit_commit_result:
  assumes ok: "batch_ok k q" and ne: "cb_done (cur_cb q) \<noteq> 0" and U: "uring_ok U queued" "uring_submits U"
  defines "q' \<equiv> ublksrv_batch_submit_commit U q"
  shows "\<exists>slot. queued (ring q') = queued (ring q) @
      [fill_batch_io_cmd q UBLK_U_IO_COMMIT_IO_CMDS (cb_buf (cur_cb q))
         (of_nat (cur_commit_buf (batch q))) (cb_done (cur_cb q)) slot]"
    and "cur_commit_buf (batch q') = 1 - cur_commit_buf (batch q)"
    and "commit_bufs (batch q') ! cur_commit_buf (batch q) = cur_cb q"
    and "cb_done (cur_cb q') = 0" "cmd_inflight q' = cmd_inflight q + 1" "batch_ok k q'"
proof -
  let ?cmd = "ublksrv_batch_io_cmd U q UBLK_U_IO_COMMIT_IO_CMDS (cb_buf (cur_cb q))
      (of_nat (cur_commit_buf (batch q))) (cb_done (cur_cb q))"
  obtain b q1 where c: "?cmd = (b, q1)" by fastforce
  have b: "b" using c alloc_sqe_succeeds [OF U, of "ring q"]
    by (auto simp: ublksrv_batch_io_cmd_def split: prod.splits bool.splits) (metis fst_conv)+
  note q1 = batch_io_cmd_cases [OF c]
  have cur: "cur_commit_buf (batch q) < 2" "length (commit_bufs (batch q)) = 2" using ok by (auto simp: batch_ok_def)
  have bq: "batch q1 = batch q" by (subst q1) simp
  have q': "q' = q1\<lparr>batch := (batch q)\<lparr>cur_commit_buf := 1 - cur_commit_buf (batch q),
      commit_bufs := (commit_bufs (batch q))[1 - cur_commit_buf (batch q) :=
        (commit_bufs (batch q) ! (1 - cur_commit_buf (batch q)))\<lparr>cb_done := 0\<rparr>]\<rparr>\<rparr>"
    using ne c b bq by (simp add: q'_def ublksrv_batch_submit_commit_def cur_cb_def Let_def)
  show "\<exists>slot. queued (ring q') = queued (ring q) @
      [fill_batch_io_cmd q UBLK_U_IO_COMMIT_IO_CMDS (cb_buf (cur_cb q))
         (of_nat (cur_commit_buf (batch q))) (cb_done (cur_cb q)) slot]"
    using batch_io_cmd_queued [OF U(1)] c b q' by simp
  show "cur_commit_buf (batch q') = 1 - cur_commit_buf (batch q)" by (simp add: q')
  have "cur_commit_buf (batch q) \<noteq> 1 - cur_commit_buf (batch q)" using cur by presburger
  then show "commit_bufs (batch q') ! cur_commit_buf (batch q) = cur_cb q" by (simp add: q' cur_cb_def)
  show "cb_done (cur_cb q') = 0" using cur by (simp add: q' cur_cb_def)
  show "cmd_inflight q' = cmd_inflight q + 1" using b by (simp add: q') (subst q1, simp)
  have "qstate q1 = qstate q" "q_depth q1 = q_depth q" by (subst q1, simp)+
  then show "batch_ok k q'"
    using ok cur by (simp add: q' batch_ok_def ublk_batch_elem_buf_size_def ublk_batch_commit_buf_size_def)
qed

subsection \<open>Fetched tags\<close>

lemma fetch_tags_split:
  assumes "i \<le> j" "j \<le> n" "even (j - i)"
  shows "fetch_tags mem i n = fetch_tags mem i j @ fetch_tags mem j n"
  using assms
proof (induction mem i j rule: fetch_tags.induct)
  case (1 mem i j)
  show ?case
  proof (cases "i < j")
    case True
    then have "i + 2 \<le> j" using 1(4) by presburger
    then show ?thesis using 1 True
      by (simp add: fetch_tags.simps [of mem i n] fetch_tags.simps [of mem i j])
  next
    case False
    then show ?thesis using 1 by (simp add: fetch_tags.simps [of mem j j])
  qed
qed

lemma fetch_tags_nth: "fetch_tags mem i (i + 2 * n) = map (\<lambda>k. mem (i + 2 * k)) [0..<n]"
proof (induction n)
  case (Suc n)
  have "fetch_tags mem i (i + 2 * Suc n) = fetch_tags mem i (i + 2 * n) @ fetch_tags mem (i + 2 * n) (i + 2 * Suc n)"
    by (rule fetch_tags_split) auto
  also have "fetch_tags mem (i + 2 * n) (i + 2 * Suc n) = [mem (i + 2 * n)]"
    by (simp add: fetch_tags.simps)
  finally show ?case using Suc by simp
qed (simp add: fetch_tags.simps)

subsection \<open>Calling the target for fetched tags\<close>

text \<open>
  A target that neither looks at the fetch buffers nor changes the queue depth: its handler commutes
  with an update of the fetch buffers.
\<close>

definition set_fetch :: "batch_fetch_buf list \<Rightarrow> ('r, 't) ublksrv_queue \<Rightarrow> ('r, 't) ublksrv_queue" where
  "set_fetch f q = q\<lparr>batch := (batch q)\<lparr>fetch_bufs := f\<rparr>\<rparr>"

definition fetch_blind :: "('r, 't) tgt_ops \<Rightarrow> bool" where
  "fetch_blind T \<longleftrightarrow>
     (\<forall>q tag f. handle_io_async T (set_fetch f q) tag = set_fetch f (handle_io_async T q tag)) \<and>
     (\<forall>q tag. q_depth (handle_io_async T q tag) = q_depth q)"

lemma set_fetch_sel [simp]:
  "q_depth (set_fetch f q) = q_depth q" "fetch_bufs (batch (set_fetch f q)) = f"
  "set_fetch f (set_fetch g q) = set_fetch f q"
  by (simp_all add: set_fetch_def)

lemma set_fetch_id: "set_fetch (fetch_bufs (batch q)) q = q"
  by (simp add: set_fetch_def)

lemma fetch_blind_bufs: "fetch_blind T \<Longrightarrow> fetch_bufs (batch (handle_io_async T q tag)) = fetch_bufs (batch q)"
  unfolding fetch_blind_def by (metis set_fetch_id set_fetch_sel(2))

lemma fetch_one_if:
  "fetch_one T q tag = (if unat tag < q_depth q then handle_io_async T q (unat tag) else q)"
  by (simp add: fetch_one_def)

lemma fetch_one_keeps:
  assumes "fetch_blind T"
  shows "q_depth (fetch_one T q tag) = q_depth q" "fetch_bufs (batch (fetch_one T q tag)) = fetch_bufs (batch q)"
  using assms fetch_blind_bufs [OF assms] by (simp_all add: fetch_one_if fetch_blind_def)

lemma fetch_one_fold_bufs:
  "fetch_blind T \<Longrightarrow> fetch_bufs (batch (foldl (fetch_one T) q tags)) = fetch_bufs (batch q)"
  by (induction tags arbitrary: q) (simp_all add: fetch_one_keeps)

lemma fetch_one_fold:
  assumes "fetch_blind T"
  shows "foldl (fetch_one T) q tags = foldl (handle_io_async T) q (filter (\<lambda>t. t < q_depth q) (map unat tags))"
proof (induction tags arbitrary: q)
  case (Cons tag tags)
  show ?case
    using Cons [of "fetch_one T q tag"] fetch_one_keeps(1) [OF assms, of q tag]
    by (cases "unat tag < q_depth q") (simp_all add: fetch_one_if [of T q tag])
qed simp

lemma handle_fold_set_fetch:
  assumes "fetch_blind T"
  shows "foldl (handle_io_async T) (set_fetch f q) tags = set_fetch f (foldl (handle_io_async T) q tags)"
  using assms by (induction tags arbitrary: q) (simp_all add: fetch_blind_def)

lemma handle_fold_depth: "fetch_blind T \<Longrightarrow> q_depth (foldl (handle_io_async T) q tags) = q_depth q"
  by (induction tags arbitrary: q) (simp_all add: fetch_blind_def)

lemma handle_fetch_cqe_result:
  assumes T: "fetch_blind T" and fb: "fetch_bufs (batch q) = [fb]" and off: "unat (fb_off fb) + 2 * m < 2 ^ 31"
    and c: "cqe_res c = int (2 * m)" "user_data_to_tag (cqe_user_data c) = 0"
  shows "ublksrv_batch_handle_fetch_cqe T q c = set_fetch [fb\<lparr>fb_off := fb_off fb + of_nat (2 * m)\<rparr>]
    (foldl (handle_io_async T) q
       (filter (\<lambda>t. t < q_depth q) (map (\<lambda>k. unat (fb_mem fb (unat (fb_off fb) + 2 * k))) [0..<m])))"
proof -
  have "unat (of_nat (2 * m) :: u32) = 2 * m" using off by (intro unat_of_nat_small) simp
  then have u: "unat (fb_off fb + of_nat (2 * m)) = unat (fb_off fb) + 2 * m"
    using off by (simp add: unat_word_ariths)
  have w: "word_of_int (cqe_res c) = (of_nat (2 * m) :: u32)" by (simp add: c(1))
  let ?tags = "map (\<lambda>k. fb_mem fb (unat (fb_off fb) + 2 * k)) [0..<m]"
  have "ublksrv_batch_handle_fetch_cqe T q c
      = set_fetch [fb\<lparr>fb_off := fb_off fb + of_nat (2 * m)\<rparr>] (foldl (fetch_one T) q ?tags)"
    using fetch_one_fold_bufs [OF T, of q ?tags] fb c(2)
    by (simp add: ublksrv_batch_handle_fetch_cqe_def Let_def set_fetch_def w u fetch_tags_nth c(1)
        del: of_nat_mult)
  then show ?thesis using fetch_one_fold [OF T, of q ?tags] by (simp add: comp_def)
qed

section \<open>Properties\<close>

text \<open>C5: In batch mode, results added to an empty commit buffer (no more than the queue depth of
  them) are handed to the driver exactly once and in order: submitting the commit queues one command
  for the start of that buffer with that many elements, the buffer then holds the tags and results in
  the order they were added, it is left alone, and the other buffer is current and empty.\<close>

theorem batch_commit_exact:
  assumes ok: "batch_ok k q" and empty: "cb_done (cur_cb q) = 0"
    and rs: "rs \<noteq> []" "length rs \<le> q_depth q" and U: "uring_ok U queued" "uring_submits U"
    and q1: "q1 = foldl (\<lambda>q (tag, res). ublksrv_batch_add_complete q tag res) q rs"
    and q2: "q2 = ublksrv_batch_submit_commit U q1"
  shows "(\<exists>sqe. queued (ring q2) = queued (ring q) @ [sqe] \<and>
            IOC_NR (sqe_cmd_op sqe) = IOC_NR UBLK_U_IO_COMMIT_IO_CMDS \<and>
            sqe_addr sqe = cb_buf (cur_cb q1) \<and> unat (bi_nr_elem (sqe_batch_cmd sqe)) = length rs \<and>
            unat (sqe_len sqe) = length rs * unat (commit_buf_elem_size (batch q1))) \<and>
         map (\<lambda>e. (e_tag e, e_result e))
             (cb_elems (batch q2) (commit_bufs (batch q2) ! cur_commit_buf (batch q)))
           = map (\<lambda>(tag, res). (of_nat tag, word_of_int res)) rs \<and>
         cur_commit_buf (batch q2) \<noteq> cur_commit_buf (batch q) \<and> to_commit q2 = []"
proof -
  have d: "to_commit q = []" using empty by (simp add: to_commit_def cb_elems_def)
  have "unat (cb_done (cur_cb q)) + length rs \<le> q_depth q" using empty rs by simp
  note add = add_all_to_commit [OF ok this, folded q1]
  have n: "unat (cb_done (cur_cb q1)) = length rs" using add(2) empty by simp
  then have ne: "cb_done (cur_cb q1) \<noteq> 0" using rs(1) by auto
  note sub = submit_commit_result [OF add(3) ne U, folded q2]
  obtain slot where sqe: "queued (ring q2) = queued (ring q) @
      [fill_batch_io_cmd q1 UBLK_U_IO_COMMIT_IO_CMDS (cb_buf (cur_cb q1))
         (of_nat (cur_commit_buf (batch q1))) (cb_done (cur_cb q1)) slot]"
    using sub(1) add(5) by auto
  have es: "unat (commit_buf_elem_size (batch q1)) \<le> 16" "commit_buf_elem_size (batch q1) = commit_buf_elem_size (batch q2)"
    "commit_buf_elem_size (batch q1) = ublk_batch_elem_buf_size q1"
    using add(3) sub(6) elem_buf_size_unat [of q1] commit_elem_size_kept [of U q1] by (auto simp: batch_ok_def q2)
  have len: "unat (ucast (commit_buf_elem_size (batch q1)) * ucast (cb_done (cur_cb q1)) :: u32)
      = length rs * unat (commit_buf_elem_size (batch q1))"
    using n es(3) rs(2) add(3,4) elem_buf_size_cases [of q1]
    by (auto simp: unat_word_ariths unsigned_ucast_eq batch_ok_def take_bit_nat_eq_self)
  have el: "cb_elems (batch q2) (cur_cb q1) = cb_elems (batch q1) (cur_cb q1)"
    using es(2) by (simp add: cb_elems_def elem_off_def)
  show ?thesis
  proof (intro conjI exI)
    show "queued (ring q2) = queued (ring q) @ [fill_batch_io_cmd q1 UBLK_U_IO_COMMIT_IO_CMDS (cb_buf (cur_cb q1))
         (of_nat (cur_commit_buf (batch q1))) (cb_done (cur_cb q1)) slot]" by (rule sqe)
    show "map (\<lambda>e. (e_tag e, e_result e))
             (cb_elems (batch q2) (commit_bufs (batch q2) ! cur_commit_buf (batch q)))
           = map (\<lambda>(tag, res). (of_nat tag, word_of_int res)) rs"
      using add(1,6) sub(3) d el by (simp add: to_commit_def)
    show "cur_commit_buf (batch q2) \<noteq> cur_commit_buf (batch q)"
      using sub(2) add(6) by presburger
    show "to_commit q2 = []" using sub(4) by (simp add: to_commit_def cb_elems_def)
  qed (use n len in \<open>simp_all add: fill_batch_io_cmd_def ublksrv_set_sqe_cmd_op_def Let_def\<close>)
qed

theorem batch_commit_exact_witness:
  "let q0 = snd (ublksrv_batch_alloc_bufs 4096 0x10000 0x20000 True (sample_queue 128 ()));
       q1 = foldl (\<lambda>q (tag, res). ublksrv_batch_add_complete q tag res) q0 [(1, 1024), (0, -5)]
   in to_commit (ublksrv_batch_submit_commit fring_api q1) = []"
proof -
  let ?q0 = "snd (ublksrv_batch_alloc_bufs 4096 0x10000 0x20000 True (sample_queue 128 ()))"
  have "batch_ok 12 ?q0" by (simp add: batch_ok_def ublksrv_batch_alloc_bufs_def sample_queue_def Let_def
      batch_setup_commit_bufs_def ublk_batch_elem_buf_size_def ublk_batch_commit_buf_size_def)
  moreover have "cb_done (cur_cb ?q0) = 0" "q_depth ?q0 = 2"
    by (simp_all add: cur_cb_def ublksrv_batch_alloc_bufs_def sample_queue_def Let_def batch_setup_commit_bufs_def)
  ultimately show ?thesis
    using batch_commit_exact [of 12 ?q0 "[(1, 1024), (0, -5)]" fring_api fr_queued] fring_ok by (simp add: Let_def)
qed



text \<open>C26: When the buffer ring of the fetch buffer cannot be set up, the error path of
  \<open>ublksrv_batch_alloc_bufs\<close> frees the fetch buffer but leaves the pointer in place, so that
  \<open>ublksrv_batch_free_bufs\<close>, which the failing queue setup then calls, frees the same address again.\<close>

theorem batch_alloc_double_free:
  assumes "cmem \<noteq> 0" "fmem \<noteq> 0" "ublksrv_batch_alloc_bufs page cmem fmem False q = (ret, q1)"
  shows "ret = - ENOMEM \<and> freed (ublksrv_batch_free_bufs q1) = freed q @ [fmem, cmem, fmem]"
  using assms by (auto simp: ublksrv_batch_alloc_bufs_def ublksrv_batch_free_bufs_def Let_def)

theorem batch_alloc_double_free_witness:
  "freed (ublksrv_batch_free_bufs (snd (ublksrv_batch_alloc_bufs 4096 0x10000 0x20000 False (sample_queue 128 ()))))
     = [0x20000, 0x10000, 0x20000]"
  using batch_alloc_double_free [of "0x10000" "0x20000" 4096 "sample_queue 128 ()"]
  by (cases "ublksrv_batch_alloc_bufs 4096 0x10000 0x20000 False (sample_queue 128 ())") (simp add: sample_queue_def)

text \<open>C9: The completions of one multishot fetch command deliver the tags the driver wrote, each
  exactly once and in order: handling completions of \<open>2 * m\<close> and then \<open>2 * n\<close> bytes calls the
  target for the tags at offsets \<open>start\<close>, \<open>start + 2\<close>, ... that are below the queue depth and skips the
  others, for a target that neither uses the fetch buffer nor changes the queue depth.\<close>

theorem batch_fetch_dispatch:
  assumes T: "fetch_blind T"
    and fb: "fetch_bufs (batch q) = [fb]" and off: "unat (fb_off fb) + 2 * m + 2 * n < 2 ^ 31"
    and c1: "cqe_res c1 = int (2 * m)" "user_data_to_tag (cqe_user_data c1) = 0"
    and c2: "cqe_res c2 = int (2 * n)" "user_data_to_tag (cqe_user_data c2) = 0"
  shows "ublksrv_batch_handle_fetch_cqe T (ublksrv_batch_handle_fetch_cqe T q c1) c2 =
     set_fetch [fb\<lparr>fb_off := fb_off fb + of_nat (2 * m + 2 * n)\<rparr>]
       (foldl (handle_io_async T) q (filter (\<lambda>t. t < q_depth q)
          (map (\<lambda>k. unat (fb_mem fb (unat (fb_off fb) + 2 * k))) [0..<m + n])))"
proof -
  let ?tag = "\<lambda>k. unat (fb_mem fb (unat (fb_off fb) + 2 * k))"
  define fb1 where "fb1 = fb\<lparr>fb_off := fb_off fb + of_nat (2 * m)\<rparr>"
  define q1 where "q1 = foldl (handle_io_async T) q (filter (\<lambda>t. t < q_depth q) (map ?tag [0..<m]))"
  have 1: "ublksrv_batch_handle_fetch_cqe T q c1 = set_fetch [fb1] q1"
    unfolding fb1_def q1_def using off by (intro handle_fetch_cqe_result [OF T fb _ c1]) simp
  have d: "q_depth q1 = q_depth q" by (simp add: q1_def handle_fold_depth [OF T])
  have "unat (of_nat (2 * m) :: u32) = 2 * m" using off by (intro unat_of_nat_small) simp
  then have u: "unat (fb_off fb1) = unat (fb_off fb) + 2 * m"
    using off by (simp add: fb1_def unat_word_ariths)
  have m: "unat (fb_mem fb1 (unat (fb_off fb1) + 2 * k)) = ?tag (m + k)" for k
    unfolding u by (simp add: fb1_def add.assoc)
  have b: "fetch_bufs (batch (set_fetch [fb1] q1)) = [fb1]" by simp
  have o: "unat (fb_off fb1) + 2 * n < 2 ^ 31" using off by (simp add: u)
  have 2: "ublksrv_batch_handle_fetch_cqe T (set_fetch [fb1] q1) c2
      = set_fetch [fb1\<lparr>fb_off := fb_off fb1 + of_nat (2 * n)\<rparr>] (foldl (handle_io_async T) q1
          (filter (\<lambda>t. t < q_depth q) (map (\<lambda>k. ?tag (m + k)) [0..<n])))"
    by (simp only: handle_fetch_cqe_result [OF T b o c2] m d handle_fold_set_fetch [OF T] set_fetch_sel)
  have "[0..<m + n] = [0..<m] @ map (\<lambda>k. m + k) [0..<n]"
    using upt_add_eq_append [of 0 m n] map_add_upt [of m n] by (simp add: add.commute)
  then have "map ?tag [0..<m + n] = map ?tag [0..<m] @ map (\<lambda>k. ?tag (m + k)) [0..<n]" by simp
  then show ?thesis unfolding 1 2 by (simp add: q1_def fb1_def add.assoc)
qed

theorem batch_fetch_dispatch_witness:
  "let T = \<lparr>handle_io_async = (\<lambda>q tag. ublksrv_batch_add_complete q tag 512), tgt_io_done = None,
            handle_event = None, handle_io_background = None, idle_fn = None, epoll_cb = (\<lambda>_ q _. q)\<rparr>;
       fb = \<lparr>fb_br = True, fb_buf = 0x20000, fb_mem = (\<lambda>i. if i = 0 then 1 else if i = 2 then 900 else 0),
             fb_size = 4096, fb_off = 0, fb_posted = 1\<rparr>;
       q = set_fetch [fb] (sample_queue 128 ());
       c = (\<lambda>n. \<lparr>cqe_user_data = build_batch_user_data 0 0x25 2048, cqe_res = n, cqe_more = True\<rparr>)
   in ublksrv_batch_handle_fetch_cqe T (ublksrv_batch_handle_fetch_cqe T q (c 2)) (c 4)
      = set_fetch [fb\<lparr>fb_off := 6\<rparr>] (ublksrv_batch_add_complete (ublksrv_batch_add_complete q 1 512) 0 512)"
proof -
  let ?T = "\<lparr>handle_io_async = (\<lambda>q tag. ublksrv_batch_add_complete q tag 512), tgt_io_done = None,
            handle_event = None, handle_io_background = None, idle_fn = None, epoll_cb = (\<lambda>_ q _. q)\<rparr>
       :: (fring, unit) tgt_ops"
  let ?fb = "\<lparr>fb_br = True, fb_buf = 0x20000, fb_mem = (\<lambda>i. if i = 0 then 1 else if i = 2 then 900 else 0),
             fb_size = 4096, fb_off = 0, fb_posted = 1\<rparr>"
  let ?q = "set_fetch [?fb] (sample_queue 128 ())"
  let ?c = "\<lambda>n. \<lparr>cqe_user_data = build_batch_user_data 0 0x25 2048, cqe_res = n, cqe_more = True\<rparr>"
  have T: "fetch_blind ?T"
    by (simp add: fetch_blind_def set_fetch_def ublksrv_batch_add_complete_def cb_write_def elem_off_def
        batch_write_elem_def ublksrv_queue_use_buf_def Let_def)
  have t: "user_data_to_tag (cqe_user_data (?c n)) = 0" for n
    by (simp add: user_data_to_tag_def build_batch_user_data_def build_user_data_def)
  have "[0..<3] = [0, 1, 2]" by (simp add: upt_rec)
  then show ?thesis
    using batch_fetch_dispatch [OF T, of ?q ?fb 1 2 "?c 2" "?c 4"] t
    by (simp add: Let_def sample_queue_def)
qed

end
