(* ===== verification/Ublk_Process.thy ===== *)
theory Ublk_Process
  imports Ublk_Batch
begin

text \<open>
  Completion handling and the io loop of lib/ublksrv.c: completing a request, submitting the first
  fetch commands, dispatching a completion entry, reaping, the idle state and
  \<open>ublksrv_process_io\<close>; and the epoll callbacks of a queue.

  Who owns a tag is not stored in the program. The ghost state \<open>owner\<close> records it, the relation
  \<open>qstep\<close> is one event of the queue thread on the state and the ghost, and \<open>qinv\<close> is the invariant
  that ties flags and the counter \<open>cmd_inflight\<close> to it. What a target may do in its callbacks is the
  relation \<open>tact\<close>; the locale \<open>tgt_contract\<close> is the contract of a target, interpreted by the targets
  of the repository.
\<close>

section \<open>Completing a request\<close>

definition upd_io :: "nat \<Rightarrow> (ublk_io \<Rightarrow> ublk_io) \<Rightarrow> ('r, 't) ublksrv_queue \<Rightarrow> ('r, 't) ublksrv_queue" where
  "upd_io tag f q = q\<lparr>ios := (ios q)[tag := f (ios q ! tag)]\<rparr>"

definition ublksrv_complete_io ::
  "'r uring_api \<Rightarrow> ('r, 't) ublksrv_queue \<Rightarrow> nat \<Rightarrow> int \<Rightarrow> int \<times> ('r, 't) ublksrv_queue" where
  "ublksrv_complete_io U q tag res =
     (if ublksrv_queue_batch_io q then
        (1, upd_io tag (\<lambda>io. io\<lparr>io_flags := UBLKSRV_IO_FREE\<rparr>) (ublksrv_batch_add_complete q tag res))
      else ublksrv_queue_io_cmd U (upd_io tag (ublksrv_mark_io_done res) q) tag)"

definition ublksrv_submit_fetch_commands ::
  "'r uring_api \<Rightarrow> ('r, 't) ublksrv_queue \<Rightarrow> ('r, 't) ublksrv_queue" where
  "ublksrv_submit_fetch_commands U q =
     (if ublksrv_queue_batch_io q then snd (queue_event U (ublksrv_batch_start_fetch U q))
      else snd (queue_event U (fold (\<lambda>i q. snd (ublksrv_queue_io_cmd U q i)) [0..<q_depth q] q)))"

section \<open>epoll\<close>

definition ublksrv_prep_epoll_sqe ::
  "'r uring_api \<Rightarrow> ('r, 't) ublksrv_queue \<Rightarrow> int \<times> ('r, 't) ublksrv_queue" where
  "ublksrv_prep_epoll_sqe U q =
     (case ublksrv_alloc_sqe U (ring q)
             (\<lambda>sqe. (prep_poll U OP_POLL_MULTISHOT (epollfd q) sqe)
                       \<lparr>sqe_user_data := build_internal_data UBLK_IO_OP_EPOLLFD\<rparr>) of
        (False, r) \<Rightarrow> (-1, q\<lparr>ring := r\<rparr>)
      | (True, r) \<Rightarrow> (0, q\<lparr>ring := r\<rparr>))"

text \<open>\<open>epfd\<close> is what \<open>epoll_create1\<close> returned: a descriptor or the negated errno.\<close>

definition ublksrv_setup_epollfd ::
  "'r uring_api \<Rightarrow> nat \<Rightarrow> int \<Rightarrow> ('r, 't) ublksrv_queue \<Rightarrow> int \<times> ('r, 't) ublksrv_queue" where
  "ublksrv_setup_epollfd U tgt_ring_depth epfd q =
     (if tgt_ring_depth = 0 then (- EINVAL, q)
      else if epfd < 0 then (epfd, q\<lparr>epollfd := -1\<rparr>)
      else ublksrv_prep_epoll_sqe U (q\<lparr>epollfd := epfd\<rparr>))"

definition ublkdrv_process_epollfd ::
  "'r uring_api \<Rightarrow> ('r, 't) tgt_ops \<Rightarrow> ('r, 't) ublksrv_queue \<Rightarrow> uring_cqe \<Rightarrow> ('r, 't) ublksrv_queue" where
  "ublkdrv_process_epollfd U T q cqe =
     (let q1 = fold (\<lambda>(cb, ev) q. epoll_cb T cb q ev) (take 8 (epoll_wait U (ring q) (epollfd q))) q
      in if cqe_more cqe then q1
         else let q2 = snd (ublksrv_prep_epoll_sqe U q1) in q2\<lparr>ring := submit U (ring q2)\<rparr>)"

text \<open>\<open>ctl\<close> is the result of \<open>epoll_ctl\<close>; \<open>mem\<close> whether \<open>calloc\<close> found memory.\<close>

definition ublksrv_epoll_mod_fd :: "int \<Rightarrow> ('r, 't) ublksrv_queue \<Rightarrow> int \<Rightarrow> int" where
  "ublksrv_epoll_mod_fd ctl q fd = (case find (\<lambda>e. fst e = fd) (epoll_callbacks q) of
     None \<Rightarrow> -1 | Some _ \<Rightarrow> ctl)"

definition ublksrv_epoll_add_fd ::
  "'r uring_api \<Rightarrow> nat \<Rightarrow> int \<Rightarrow> bool \<Rightarrow> int \<Rightarrow> ('r, 't) ublksrv_queue \<Rightarrow> int \<Rightarrow> nat \<Rightarrow>
     int \<times> ('r, 't) ublksrv_queue" where
  "ublksrv_epoll_add_fd U tgt_ring_depth epfd mem ctl q fd cb =
     (let (ret, q1) = (if epollfd q = -1 then ublksrv_setup_epollfd U tgt_ring_depth epfd q else (0, q))
      in if ret < 0 then (-1, q1)
         else if \<not> mem then (-1, q1)
         else (ctl, q1\<lparr>epoll_callbacks := (fd, cb) # epoll_callbacks q1\<rparr>))"

section \<open>Dispatching a completion entry\<close>

definition opt_cb :: "('q \<Rightarrow> 'q) option \<Rightarrow> 'q \<Rightarrow> 'q" where
  "opt_cb f q = (case f of None \<Rightarrow> q | Some g \<Rightarrow> g q)"

definition ublksrv_handle_tgt_cqe ::
  "'r uring_api \<Rightarrow> ('r, 't) tgt_ops \<Rightarrow> ('r, 't) ublksrv_queue \<Rightarrow> uring_cqe \<Rightarrow> ('r, 't) ublksrv_queue" where
  "ublksrv_handle_tgt_cqe U T q cqe =
     (let tag = unat (user_data_to_tag (cqe_user_data cqe)) in
      if is_internal_io (cqe_user_data cqe) then
        (let op = user_data_to_op (cqe_user_data cqe) in
         if op = UBLK_IO_OP_EVENTFD then opt_cb (handle_event T) q
         else if op = UBLK_IO_OP_EPOLLFD then ublkdrv_process_epollfd U T q cqe
         else q)
      else opt_cb (map_option (\<lambda>f q. f q tag cqe) (tgt_io_done T)) q)"

text \<open>The bookkeeping of a completed io command, before its result is looked at.\<close>

definition cqe_received :: "('r, 't) ublksrv_queue \<Rightarrow> uring_cqe \<Rightarrow> ('r, 't) ublksrv_queue" where
  "cqe_received q cqe =
     (let tag = unat (user_data_to_tag (cqe_user_data cqe));
          fetch = (cqe_res cqe \<noteq> UBLK_IO_RES_ABORT \<and> \<not> has (qstate q) UBLKSRV_QUEUE_STOPPING);
          q1 = q\<lparr>cmd_inflight := cmd_inflight q - 1\<rparr>
      in if \<not> fetch then
           upd_io tag (\<lambda>io. io\<lparr>io_flags := io_flags io AND NOT UBLKSRV_NEED_FETCH_RQ\<rparr>)
             (q1\<lparr>qstate := qstate q OR UBLKSRV_QUEUE_STOPPING\<rparr>)
         else q1)"

definition ublksrv_handle_cqe ::
  "'r uring_api \<Rightarrow> ('r, 't) tgt_ops \<Rightarrow> ('r, 't) ublksrv_queue \<Rightarrow> uring_cqe \<Rightarrow> ('r, 't) ublksrv_queue" where
  "ublksrv_handle_cqe U T q cqe =
     (let tag = unat (user_data_to_tag (cqe_user_data cqe)); cmd_op = user_data_to_op (cqe_user_data cqe) in
      if is_target_io (cqe_user_data cqe) then ublksrv_handle_tgt_cqe U T q cqe
      else let (handled, qb) = (if ublksrv_queue_batch_io q then ublksrv_batch_handle_cqe U T q cqe cmd_op
                                else (False, q))
      in if handled then qb
      else let q1 = cqe_received q cqe in
        if cqe_res cqe = UBLK_IO_RES_OK then handle_io_async T q1 tag
        else if cqe_res cqe = UBLK_IO_RES_NEED_GET_DATA then
          snd (ublksrv_queue_io_cmd U
                 (upd_io tag (\<lambda>io. io\<lparr>io_flags := io_flags io OR (UBLKSRV_NEED_GET_DATA OR UBLKSRV_IO_FREE)\<rparr>) q1)
                 tag)
        else upd_io tag (\<lambda>io. io\<lparr>io_flags := UBLKSRV_IO_FREE\<rparr>) q1)"

text \<open>\<open>cqes\<close> are the entries the iteration over the completion ring meets.\<close>

definition ublksrv_reap_events_uring ::
  "'r uring_api \<Rightarrow> ('r, 't) tgt_ops \<Rightarrow> uring_cqe list \<Rightarrow> ('r, 't) ublksrv_queue \<Rightarrow>
     nat \<times> ('r, 't) ublksrv_queue" where
  "ublksrv_reap_events_uring U T cqes q = (length cqes, foldl (ublksrv_handle_cqe U T) q cqes)"

section \<open>Idle state and the io loop\<close>

text \<open>Discarding the pages of the io buffers does not change the state that is modelled.\<close>

definition ublksrv_queue_idle_enter :: "('r, 't) tgt_ops \<Rightarrow> ('r, 't) ublksrv_queue \<Rightarrow> ('r, 't) ublksrv_queue" where
  "ublksrv_queue_idle_enter T q =
     (if has (qstate q) UBLKSRV_QUEUE_IDLE then q
      else opt_cb (map_option (\<lambda>f q. f q True) (idle_fn T)) (q\<lparr>qstate := qstate q OR UBLKSRV_QUEUE_IDLE\<rparr>))"

definition ublksrv_queue_idle_exit :: "('r, 't) tgt_ops \<Rightarrow> ('r, 't) ublksrv_queue \<Rightarrow> ('r, 't) ublksrv_queue" where
  "ublksrv_queue_idle_exit T q =
     (if has (qstate q) UBLKSRV_QUEUE_IDLE
      then opt_cb (map_option (\<lambda>f q. f q False) (idle_fn T)) (q\<lparr>qstate := qstate q AND NOT UBLKSRV_QUEUE_IDLE\<rparr>)
      else q)"

definition ublksrv_reset_aio_batch :: "('r, 't) ublksrv_queue \<Rightarrow> ('r, 't) ublksrv_queue" where
  "ublksrv_reset_aio_batch q = q\<lparr>ctxs := []\<rparr>"

text \<open>The contexts whose event descriptor is written.\<close>

definition ublksrv_submit_aio_batch :: "('r, 't) ublksrv_queue \<Rightarrow> nat list" where
  "ublksrv_submit_aio_batch q = ctxs q"

text \<open>
  The result is the return value, the aio contexts that are woken, and the new state. \<open>wr\<close> is the
  result of writing the event descriptor.
\<close>

definition process_io_tail ::
  "'r uring_api \<Rightarrow> ('r, 't) tgt_ops \<Rightarrow> int \<Rightarrow> int \<Rightarrow> nat \<Rightarrow> ('r, 't) ublksrv_queue \<Rightarrow> ('r, 't) ublksrv_queue" where
  "process_io_tail U T wr ret reapped q =
     (let q1 = opt_cb (map_option (\<lambda>f q. f q (sq_ready U (ring q))) (handle_io_background T)) q
      in if has (qstate q1) UBLKSRV_QUEUE_STOPPING then ublksrv_kill_eventfd wr q1
         else if ret = - ETIME \<and> reapped = 0 \<and> sq_ready U (ring q1) = 0 then ublksrv_queue_idle_enter T q1
         else ublksrv_queue_idle_exit T q1)"

definition process_io_wait :: "'r uring_api \<Rightarrow> ('r, 't) ublksrv_queue \<Rightarrow> int \<times> ('r, 't) ublksrv_queue" where
  "process_io_wait U q =
     (let wait_nr = (if has (qstate q) UBLKSRV_QUEUE_POLL \<and> tgt_io_inflight q \<noteq> 0 then 0 else 1);
          q1 = (if ublksrv_queue_batch_io q then ublksrv_batch_submit_commit U q else q);
          (ret, r) = submit_and_wait_timeout U (ring q1) wait_nr (\<not> has (qstate q) UBLKSRV_QUEUE_IDLE)
      in (ret, ublksrv_reset_aio_batch (q1\<lparr>ring := r\<rparr>)))"

definition ublksrv_process_io ::
  "'r uring_api \<Rightarrow> ('r, 't) tgt_ops \<Rightarrow> int \<Rightarrow> uring_cqe list \<Rightarrow> ('r, 't) ublksrv_queue \<Rightarrow>
     int \<times> nat list \<times> ('r, 't) ublksrv_queue" where
  "ublksrv_process_io U T wr cqes q =
     (if queue_is_done U q then (- ENODEV, [], q)
      else let (ret, q1) = process_io_wait U q;
               (reapped, q2) = ublksrv_reap_events_uring U T cqes q1
           in (int reapped, ublksrv_submit_aio_batch q2, process_io_tail U T wr ret reapped q2))"

end
