(* ===== verification/Ublk_Ownership.thy ===== *)
theory Ublk_Ownership
  imports Ublk_Process
begin

text \<open>
  Ownership of tags in a queue that issues one command per tag (batch mode has its own theory).

  The ghost list \<open>own\<close> has one entry per tag: the driver holds the tag's command, the target works on
  its request, the command is set aside because no submission entry was available, or the tag is
  finished after an abort. \<open>qinv\<close> ties the ghost to the program's state: the flags of each io, and
  \<open>cmd_inflight\<close> as the number of tags the driver holds. \<open>qstep\<close> is one event of the queue thread;
  every state reachable by it satisfies \<open>qinv\<close>.
\<close>

datatype owner = Driver | Target | Unissued | Finished

definition owner_flags :: "owner \<Rightarrow> u32 \<Rightarrow> bool" where
  "owner_flags ow f =
     (case ow of Driver \<Rightarrow> f = 0 | Target \<Rightarrow> f = 0 | Unissued \<Rightarrow> f \<in> {5, 6, 12} | Finished \<Rightarrow> f = 4)"

definition held :: "owner list \<Rightarrow> nat" where
  "held own = length (filter (\<lambda>ow. ow = Driver) own)"

definition qinv :: "('r, 't) ublksrv_queue \<Rightarrow> owner list \<Rightarrow> bool" where
  "qinv q own \<longleftrightarrow> \<not> ublksrv_queue_batch_io q \<and> length own = q_depth q \<and>
     q_depth q \<le> length (ios q) \<and> q_depth q \<le> 4096 \<and>
     (\<forall>tag < q_depth q. owner_flags (own ! tag) (io_flags (ios q ! tag))) \<and>
     cmd_inflight q = of_nat (held own)"

text \<open>The owner of a tag after its command was issued with result \<open>ret\<close>.\<close>

definition issued :: "int \<Rightarrow> owner" where
  "issued ret = (if ret = 1 then Driver else Unissued)"

section \<open>What a target may do\<close>

inductive tact ::
  "'r uring_api \<Rightarrow> ('r, 't) ublksrv_queue \<times> owner list \<Rightarrow> ('r, 't) ublksrv_queue \<times> owner list \<Rightarrow> bool"
  for U where
  tact_refl: "tact U (q, own) (q, own)"
| tact_private:
    "tact U (q, own) (q1, own1) \<Longrightarrow>
     tact U (q, own) (q1\<lparr>ring := r, private_data := p, tgt_io_inflight := n, ctxs := c,
                         efd_count := e, epollfd := fd, epoll_callbacks := cbs\<rparr>, own1)"
| tact_complete:
    "tact U (q, own) (q1, own1) \<Longrightarrow> tag < q_depth q1 \<Longrightarrow> own1 ! tag = Target \<Longrightarrow>
     ublksrv_complete_io U q1 tag res = (ret, q2) \<Longrightarrow>
     tact U (q, own) (q2, own1[tag := issued ret])"

section \<open>Events of the queue thread\<close>

definition cmd_cqe :: "('r, 't) ublksrv_queue \<Rightarrow> uring_cqe \<Rightarrow> nat \<Rightarrow> bool" where
  "cmd_cqe q cqe tag \<longleftrightarrow> tag < q_depth q \<and> \<not> is_target_io (cqe_user_data cqe) \<and>
     unat (user_data_to_tag (cqe_user_data cqe)) = tag"

inductive qstep ::
  "'r uring_api \<Rightarrow> ('r, 't) tgt_ops \<Rightarrow> ('r, 't) ublksrv_queue \<times> owner list \<Rightarrow>
     ('r, 't) ublksrv_queue \<times> owner list \<Rightarrow> bool"
  for U T where
  cmd_ok: "cmd_cqe q cqe tag \<Longrightarrow> own ! tag = Driver \<Longrightarrow> cqe_res cqe = UBLK_IO_RES_OK \<Longrightarrow>
     tact U (cqe_received q cqe, own[tag := Target]) (ublksrv_handle_cqe U T q cqe, own') \<Longrightarrow>
     qstep U T (q, own) (ublksrv_handle_cqe U T q cqe, own')"
| cmd_get_data: "cmd_cqe q cqe tag \<Longrightarrow> own ! tag = Driver \<Longrightarrow> cqe_res cqe = UBLK_IO_RES_NEED_GET_DATA \<Longrightarrow>
     ublksrv_queue_io_cmd U (upd_io tag (\<lambda>io. io\<lparr>io_flags := io_flags io OR
        (UBLKSRV_NEED_GET_DATA OR UBLKSRV_IO_FREE)\<rparr>) (cqe_received q cqe)) tag = (ret, q') \<Longrightarrow>
     qstep U T (q, own) (ublksrv_handle_cqe U T q cqe, own[tag := issued ret])"
| cmd_abort: "cmd_cqe q cqe tag \<Longrightarrow> own ! tag = Driver \<Longrightarrow>
     cqe_res cqe \<notin> {UBLK_IO_RES_OK, UBLK_IO_RES_NEED_GET_DATA} \<Longrightarrow>
     qstep U T (q, own) (ublksrv_handle_cqe U T q cqe, own[tag := Finished])"
| tgt_cqe: "is_target_io (cqe_user_data cqe) \<Longrightarrow>
     tact U (q, own) (ublksrv_handle_cqe U T q cqe, own') \<Longrightarrow>
     qstep U T (q, own) (ublksrv_handle_cqe U T q cqe, own')"
| callback: "tact U (q, own) (q', own') \<Longrightarrow> qstep U T (q, own) (q', own')"
| idle: "s \<in> {qstate q OR UBLKSRV_QUEUE_IDLE, qstate q AND NOT UBLKSRV_QUEUE_IDLE} \<Longrightarrow>
     qstep U T (q, own) (q\<lparr>qstate := s\<rparr>, own)"

definition queue_start :: "('r, 't) ublksrv_queue \<Rightarrow> bool" where
  "queue_start q \<longleftrightarrow> \<not> ublksrv_queue_batch_io q \<and> q_depth q \<le> length (ios q) \<and> q_depth q \<le> 4096 \<and>
     cmd_inflight q = 0 \<and>
     (\<forall>tag < q_depth q. io_flags (ios q ! tag) = UBLKSRV_NEED_FETCH_RQ OR UBLKSRV_IO_FREE)"

inductive reachable ::
  "'r uring_api \<Rightarrow> ('r, 't) tgt_ops \<Rightarrow> ('r, 't) ublksrv_queue \<times> owner list \<Rightarrow> bool"
  for U T where
  init: "queue_start q \<Longrightarrow> own = replicate (q_depth q) Unissued \<Longrightarrow> reachable U T (q, own)"
| issue: "reachable U T (q, own) \<Longrightarrow> tag < q_depth q \<Longrightarrow> own ! tag = Unissued \<Longrightarrow>
     ublksrv_queue_io_cmd U q tag = (ret, q') \<Longrightarrow> reachable U T (q', own[tag := issued ret])"
| step: "reachable U T s \<Longrightarrow> qstep U T s s' \<Longrightarrow> reachable U T s'"

section \<open>The invariant\<close>

lemma held_upd:
  "tag < length own \<Longrightarrow>
   int (held (own[tag := ow])) = int (held own) + of_bool (ow = Driver) - of_bool (own ! tag = Driver)"
  unfolding held_def by (subst length_filter_upd) auto

lemma held_le: "held own \<le> length own"
  by (simp add: held_def)

lemma of_nat_held_upd:
  assumes "tag < length own"
  shows "(of_nat (held (own[tag := ow])) :: 'a::len word)
       = of_nat (held own) + of_bool (ow = Driver) - of_bool (own ! tag = Driver)"
proof -
  have "(of_int (int (held (own[tag := ow]))) :: 'a word)
      = of_int (int (held own) + of_bool (ow = Driver) - of_bool (own ! tag = Driver))"
    using held_upd [OF assms] by (rule arg_cong)
  then show ?thesis by simp
qed

lemma qinvD:
  assumes "qinv q own"
  shows "\<not> ublksrv_queue_batch_io q" "length own = q_depth q" "q_depth q \<le> length (ios q)"
    "q_depth q \<le> 4096" "cmd_inflight q = of_nat (held own)"
    "tag < q_depth q \<Longrightarrow> owner_flags (own ! tag) (io_flags (ios q ! tag))"
  using assms by (auto simp: qinv_def)

lemma qinv_unat: "qinv q own \<Longrightarrow> unat (cmd_inflight q) = held own"
proof -
  assume h: "qinv q own"
  have "held own < 2 ^ 32" using held_le [of own] qinvD(2,4) [OF h] by simp
  then show ?thesis using qinvD(5) [OF h] by (simp add: unat_of_nat_small)
qed

text \<open>Changing the flags of one io and its owner together keeps the invariant.\<close>

lemma qinv_upd:
  assumes "qinv q own" "tag < q_depth q" "owner_flags ow (io_flags io)"
    and "q_depth q' = q_depth q" "ios q' = (ios q)[tag := io]"
    and "ublksrv_queue_batch_io q' = ublksrv_queue_batch_io q"
    and "cmd_inflight q' = cmd_inflight q + of_bool (ow = Driver) - of_bool (own ! tag = Driver)"
  shows "qinv q' (own[tag := ow])"
  using assms qinvD(2,3) [OF assms(1)]
  by (auto simp: qinv_def of_nat_held_upd nth_list_update)

lemma qinv_cong:
  assumes "qinv q own" "q_depth q' = q_depth q" "ios q' = ios q" "cmd_inflight q' = cmd_inflight q"
    "ublksrv_queue_batch_io q' = ublksrv_queue_batch_io q"
  shows "qinv q' own"
  using assms by (simp add: qinv_def)

lemma upd_io_sel [simp]:
  "q_depth (upd_io tag f q) = q_depth q" "ios (upd_io tag f q) = (ios q)[tag := f (ios q ! tag)]"
  "cmd_inflight (upd_io tag f q) = cmd_inflight q" "qstate (upd_io tag f q) = qstate q"
  "ring (upd_io tag f q) = ring q"
  by (simp_all add: upd_io_def)

text \<open>
  Issuing the command of a tag: either an entry was available and the driver holds the tag, or the
  flags stay as they are.
\<close>

lemma queue_io_cmd_cases:
  assumes "ublksrv_queue_io_cmd U q tag = (ret, q')" "io_issuable (ios q ! tag)"
  shows "ret = 1 \<and> ios q' = (ios q)[tag := (ios q ! tag)\<lparr>io_flags := 0\<rparr>] \<and>
           cmd_inflight q' = cmd_inflight q + 1 \<and> q_depth q' = q_depth q \<and> qstate q' = qstate q
       \<or> ret = -1 \<and> ios q' = ios q \<and> cmd_inflight q' = cmd_inflight q \<and> q_depth q' = q_depth q \<and>
           qstate q' = qstate q"
  using assms(1) unfolding queue_io_cmd_issue [OF assms(2)]
  by (auto split: prod.splits bool.splits)

lemma issue_qinv:
  assumes inv: "qinv q own" "tag < q_depth q" "own ! tag \<noteq> Driver"
    and f: "f \<in> {5, 6, 12}"
    and q1: "ios q1 = (ios q)[tag := io]" "io_flags io = f" "q_depth q1 = q_depth q"
            "cmd_inflight q1 = cmd_inflight q" "qstate q1 = qstate q"
    and cmd: "ublksrv_queue_io_cmd U q1 tag = (ret, q')"
  shows "qinv q' (own[tag := issued ret])"
proof -
  have io: "ios q1 ! tag = io" using q1(1) inv(2) qinvD(3) [OF inv(1)] by simp
  have "io_issuable (ios q1 ! tag)"
    using f q1(2) io by (auto simp: io_issuable_def has_def)
  from queue_io_cmd_cases [OF cmd this] show ?thesis
  proof
    assume "ret = 1 \<and> ios q' = (ios q1)[tag := (ios q1 ! tag)\<lparr>io_flags := 0\<rparr>] \<and>
           cmd_inflight q' = cmd_inflight q1 + 1 \<and> q_depth q' = q_depth q1 \<and> qstate q' = qstate q1"
    then show ?thesis
      using q1 inv io by (intro qinv_upd [where io = "io\<lparr>io_flags := 0\<rparr>"])
        (auto simp: owner_flags_def issued_def ublksrv_queue_batch_io_def)
  next
    assume "ret = -1 \<and> ios q' = ios q1 \<and> cmd_inflight q' = cmd_inflight q1 \<and> q_depth q' = q_depth q1 \<and>
           qstate q' = qstate q1"
    then show ?thesis
      using q1 inv f by (intro qinv_upd [where io = io])
        (auto simp: owner_flags_def issued_def ublksrv_queue_batch_io_def)
  qed
qed

lemma complete_io_qinv:
  assumes "qinv q own" "tag < q_depth q" "own ! tag = Target"
    and "ublksrv_complete_io U q tag res = (ret, q')"
  shows "qinv q' (own[tag := issued ret])"
proof (rule issue_qinv)
  show "qinv q own" "tag < q_depth q" by fact+
  show "own ! tag \<noteq> Driver" using assms(3) by simp
  show "(6::u32) \<in> {5, 6, 12}" by simp
  show "ios (upd_io tag (ublksrv_mark_io_done res) q) = (ios q)[tag := ublksrv_mark_io_done res (ios q ! tag)]"
    by simp
  show "io_flags (ublksrv_mark_io_done res (ios q ! tag)) = 6"
    using qinvD(6) [OF assms(1,2)] assms(3) by (simp add: ublksrv_mark_io_done_def owner_flags_def)
  show "ublksrv_queue_io_cmd U (upd_io tag (ublksrv_mark_io_done res) q) tag = (ret, q')"
    using assms(4) qinvD(1) [OF assms(1)] by (simp add: ublksrv_complete_io_def)
qed simp_all

lemma tact_qinv: "tact U s s' \<Longrightarrow> qinv (fst s) (snd s) \<Longrightarrow> qinv (fst s') (snd s')"
proof (induction rule: tact.induct)
  case (tact_private q own q1 own1 r p n c e fd cbs)
  then show ?case by (auto intro: qinv_cong simp: ublksrv_queue_batch_io_def)
next
  case (tact_complete q own q1 own1 tag res ret q2)
  then show ?case by (auto intro: complete_io_qinv)
qed simp

lemma cqe_received_qinv:
  assumes inv: "qinv q own" and cqe: "cmd_cqe q cqe tag" and own: "own ! tag = Driver"
    and ow: "owner_flags ow f" "ow \<noteq> Driver"
  shows "qinv (upd_io tag (\<lambda>io. io\<lparr>io_flags := f\<rparr>) (cqe_received q cqe)) (own[tag := ow])"
    and "io_flags (ios (cqe_received q cqe) ! tag) = 0"
    and "ublksrv_queue_batch_io (cqe_received q cqe) = ublksrv_queue_batch_io q"
proof -
  have tag: "tag < q_depth q" "tag < length (ios q)"
    using cqe qinvD(3) [OF inv] by (auto simp: cmd_cqe_def)
  have fl: "io_flags (ios q ! tag) = 0"
    using qinvD(6) [OF inv tag(1)] own by (simp add: owner_flags_def)
  have t: "unat (user_data_to_tag (cqe_user_data cqe)) = tag" using cqe by (simp add: cmd_cqe_def)
  show b: "ublksrv_queue_batch_io (cqe_received q cqe) = ublksrv_queue_batch_io q"
    by (auto simp: cqe_received_def Let_def ublksrv_queue_batch_io_def upd_io_def) (simp add: has_def)+
  show "io_flags (ios (cqe_received q cqe) ! tag) = 0"
    using fl tag t by (auto simp: cqe_received_def Let_def)
  let ?q' = "upd_io tag (\<lambda>io. io\<lparr>io_flags := f\<rparr>) (cqe_received q cqe)"
  let ?io = "(ios (cqe_received q cqe) ! tag)\<lparr>io_flags := f\<rparr>"
  have ios: "(ios (cqe_received q cqe))[tag := ?io] = (ios q)[tag := ?io]"
    using t by (simp add: cqe_received_def Let_def)
  show "qinv ?q' (own[tag := ow])"
  proof (rule qinv_upd [OF inv tag(1), where io = ?io])
    show "ios ?q' = (ios q)[tag := ?io]" using ios by simp
    show "ublksrv_queue_batch_io ?q' = ublksrv_queue_batch_io q"
      using b by (simp add: ublksrv_queue_batch_io_def)
    show "cmd_inflight ?q' = cmd_inflight q + of_bool (ow = Driver) - of_bool (own ! tag = Driver)"
      using ow own by (simp add: cqe_received_def Let_def)
  qed (use ow in \<open>simp_all add: cqe_received_def Let_def\<close>)
qed

lemma handle_cqe_cmd:
  assumes "\<not> ublksrv_queue_batch_io q" "cmd_cqe q cqe tag"
  shows "ublksrv_handle_cqe U T q cqe =
    (if cqe_res cqe = UBLK_IO_RES_OK then handle_io_async T (cqe_received q cqe) tag
     else if cqe_res cqe = UBLK_IO_RES_NEED_GET_DATA then
       snd (ublksrv_queue_io_cmd U (upd_io tag (\<lambda>io. io\<lparr>io_flags := io_flags io OR
         (UBLKSRV_NEED_GET_DATA OR UBLKSRV_IO_FREE)\<rparr>) (cqe_received q cqe)) tag)
     else upd_io tag (\<lambda>io. io\<lparr>io_flags := UBLKSRV_IO_FREE\<rparr>) (cqe_received q cqe))"
  using assms by (auto simp: ublksrv_handle_cqe_def Let_def cmd_cqe_def)

lemma upd_io_same_flags:
  "io_flags (ios q ! tag) = f \<Longrightarrow> upd_io tag (\<lambda>io. io\<lparr>io_flags := f\<rparr>) q = q"
  by (auto simp: upd_io_def)

lemma cqe_received_target:
  assumes "qinv q own" "cmd_cqe q cqe tag" "own ! tag = Driver"
  shows "qinv (cqe_received q cqe) (own[tag := Target])"
  using cqe_received_qinv(1) [OF assms, of Target 0] cqe_received_qinv(2) [OF assms, of Target 0]
  by (simp add: owner_flags_def upd_io_same_flags)

lemma get_data_qinv:
  assumes inv: "qinv q own" "cmd_cqe q cqe tag" "own ! tag = Driver"
    and cmd: "ublksrv_queue_io_cmd U (upd_io tag (\<lambda>io. io\<lparr>io_flags := io_flags io OR
        (UBLKSRV_NEED_GET_DATA OR UBLKSRV_IO_FREE)\<rparr>) (cqe_received q cqe)) tag = (ret, q')"
  shows "qinv q' (own[tag := issued ret])"
proof -
  have "qinv q' ((own[tag := Target])[tag := issued ret])"
  proof (rule issue_qinv [OF cqe_received_target [OF inv] _ _ _ _ _ _ _ _ cmd])
    show "tag < q_depth (cqe_received q cqe)"
      using inv(2) by (simp add: cmd_cqe_def cqe_received_def Let_def)
    show "own[tag := Target] ! tag \<noteq> Driver"
      using inv(2) qinvD(2) [OF inv(1)] by (simp add: cmd_cqe_def)
    show "(12::u32) \<in> {5, 6, 12}" by simp
    show "io_flags ((ios (cqe_received q cqe) ! tag)\<lparr>io_flags := io_flags (ios (cqe_received q cqe) ! tag) OR
        (UBLKSRV_NEED_GET_DATA OR UBLKSRV_IO_FREE)\<rparr>) = 12"
      using cqe_received_qinv(2) [OF inv, of Target 0] by (simp add: owner_flags_def)
  qed simp_all
  then show ?thesis by simp
qed

lemma qstep_qinv: "qstep U T s s' \<Longrightarrow> qinv (fst s) (snd s) \<Longrightarrow> qinv (fst s') (snd s')"
proof (induction rule: qstep.induct)
  case (cmd_ok q cqe tag own own')
  then show ?case using tact_qinv [OF cmd_ok(4)] cqe_received_target [of q own cqe tag] by simp
next
  case (cmd_get_data q cqe tag own ret q')
  then have inv: "qinv q own" by simp
  have "ublksrv_handle_cqe U T q cqe = q'"
    using cmd_get_data handle_cqe_cmd [OF qinvD(1) [OF inv], of cqe tag U T] by simp
  then show ?case using cmd_get_data get_data_qinv by auto
next
  case (cmd_abort q cqe tag own)
  then have inv: "qinv q own" by simp
  have "ublksrv_handle_cqe U T q cqe
      = upd_io tag (\<lambda>io. io\<lparr>io_flags := UBLKSRV_IO_FREE\<rparr>) (cqe_received q cqe)"
    using cmd_abort handle_cqe_cmd [OF qinvD(1) [OF inv], of cqe tag U T] by simp
  then show ?case
    using cmd_abort cqe_received_qinv(1) [of q own cqe tag Finished 4] by (simp add: owner_flags_def)
next
  case (tgt_cqe cqe q own own')
  then show ?case using tact_qinv [OF tgt_cqe(2)] by simp
next
  case (callback q own q' own')
  then show ?case using tact_qinv [OF callback(1)] by simp
next
  case (idle s q own)
  have "\<not> has (UBLKSRV_QUEUE_IDLE) UBLKSRV_QUEUE_BATCH_IO" by (simp add: has_def)
  moreover have "has (qstate q AND NOT UBLKSRV_QUEUE_IDLE) UBLKSRV_QUEUE_BATCH_IO
      = has (qstate q) UBLKSRV_QUEUE_BATCH_IO" by (rule has_clear) simp
  ultimately have "ublksrv_queue_batch_io (q\<lparr>qstate := s\<rparr>) = ublksrv_queue_batch_io q"
    using idle by (auto simp: ublksrv_queue_batch_io_def)
  with idle show ?case by (auto simp: qinv_def)
qed

lemma queue_start_qinv: "queue_start q \<Longrightarrow> qinv q (replicate (q_depth q) Unissued)"
  by (auto simp: queue_start_def qinv_def owner_flags_def held_def)

theorem reachable_qinv: "reachable U T s \<Longrightarrow> qinv (fst s) (snd s)"
proof (induction rule: reachable.induct)
  case (init q own)
  then show ?case by (simp add: queue_start_qinv)
next
  case (issue q own tag ret q')
  have "qinv q' (own[tag := issued ret])"
  proof (rule issue_qinv [OF _ issue(2) _ _ _ refl _ _ _ issue(4)])
    show "qinv q own" using issue by simp
    show "io_flags (ios q ! tag) \<in> {5, 6, 12}"
      using qinvD(6) [of q own tag] issue by (simp add: owner_flags_def)
    show "own ! tag \<noteq> Driver" using issue by simp
  qed simp_all
  then show ?case by simp
next
  case (step s s')
  then show ?case by (simp add: qstep_qinv)
qed

section \<open>Consequences\<close>

lemma held_0: "held own = 0 \<longleftrightarrow> (\<forall>tag < length own. own ! tag \<noteq> Driver)"
  by (auto simp: held_def filter_empty_conv in_set_conv_nth)

lemma is_done_iff:
  assumes "qinv q own"
  shows "queue_is_done U q \<longleftrightarrow> has (qstate q) UBLKSRV_QUEUE_STOPPING \<and> sq_ready U (ring q) = 0 \<and>
     (\<forall>tag < q_depth q. own ! tag \<noteq> Driver)"
proof -
  have "cmd_inflight q = 0 \<longleftrightarrow> held own = 0"
    using qinv_unat [OF assms] by (metis unat_eq_0)
  then show ?thesis using qinvD(2) [OF assms] by (simp add: queue_is_done_def held_0)
qed

lemma owned_not_issued:
  assumes "qinv q own" "tag < q_depth q" "own ! tag \<noteq> Unissued"
  shows "ublksrv_queue_io_cmd U q tag = (0, q)"
proof (rule queue_io_cmd_noop)
  show "\<not> io_issuable (ios q ! tag)"
    using qinvD(6) [OF assms(1,2)] assms(3)
    by (cases "own ! tag") (auto simp: owner_flags_def io_issuable_def has_def)
qed

section \<open>The contract of a target\<close>

lemma tact_trans: "tact U s2 s3 \<Longrightarrow> tact U s1 s2 \<Longrightarrow> tact U s1 s3"
proof (induction rule: tact.induct)
  case (tact_private q own q1 own1 r p n c e fd cbs)
  then show ?case by (cases s1) (auto intro: tact.tact_private)
next
  case (tact_complete q own q1 own1 tag res ret q2)
  then show ?case by (cases s1) (auto intro: tact.tact_complete)
qed

lemma tact_ring: "tact U (q, own) (q\<lparr>ring := r\<rparr>, own)"
proof -
  have "q\<lparr>ring := r\<rparr> = q\<lparr>ring := r, private_data := private_data q, tgt_io_inflight := tgt_io_inflight q,
      ctxs := ctxs q, efd_count := efd_count q, epollfd := epollfd q, epoll_callbacks := epoll_callbacks q\<rparr>"
    by simp
  then show ?thesis by (metis tact_private tact_refl)
qed

lemma tact_ctxs: "tact U (q, own) (q\<lparr>ctxs := c\<rparr>, own)"
proof -
  have "q\<lparr>ctxs := c\<rparr> = q\<lparr>ring := ring q, private_data := private_data q, tgt_io_inflight := tgt_io_inflight q,
      ctxs := c, efd_count := efd_count q, epollfd := epollfd q, epoll_callbacks := epoll_callbacks q\<rparr>"
    by simp
  then show ?thesis by (metis tact_private tact_refl)
qed

lemma tact_efd: "tact U (q, own) (q\<lparr>efd_count := c\<rparr>, own)"
proof -
  have "q\<lparr>efd_count := c\<rparr> = q\<lparr>ring := ring q, private_data := private_data q, tgt_io_inflight := tgt_io_inflight q,
      ctxs := ctxs q, efd_count := c, epollfd := epollfd q, epoll_callbacks := epoll_callbacks q\<rparr>"
    by simp
  then show ?thesis by (metis tact_private tact_refl)
qed

text \<open>
  A callback acts within the contract when all it does to the queue is private work and completing
  requests the target owns.
\<close>

definition acts :: "'r uring_api \<Rightarrow> (('r, 't) ublksrv_queue \<Rightarrow> ('r, 't) ublksrv_queue) \<Rightarrow> bool" where
  "acts U f \<longleftrightarrow> (\<forall>q own. qinv q own \<longrightarrow> (\<exists>own'. tact U (q, own) (f q, own')))"

definition acts_for ::
  "'r uring_api \<Rightarrow> (('r, 't) ublksrv_queue \<Rightarrow> nat \<Rightarrow> ('r, 't) ublksrv_queue) \<Rightarrow> bool" where
  "acts_for U f \<longleftrightarrow> (\<forall>q own tag. qinv q own \<longrightarrow> tag < q_depth q \<longrightarrow> own ! tag = Target \<longrightarrow>
     (\<exists>own'. tact U (q, own) (f q tag, own')))"

locale tgt_contract =
  fixes U :: "'r uring_api"
    and T :: "('r, 't) tgt_ops"
  assumes handle_io_async_acts: "acts_for U (handle_io_async T)"
    and tgt_io_done_acts: "tgt_io_done T = Some f \<Longrightarrow> acts_for U (\<lambda>q tag. f q tag cqe)"
    and handle_event_acts: "handle_event T = Some g \<Longrightarrow> acts U g"
    and background_acts: "handle_io_background T = Some h \<Longrightarrow> acts U (\<lambda>q. h q n)"
    and idle_acts: "idle_fn T = Some k \<Longrightarrow> acts U (\<lambda>q. k q b)"
    and epoll_acts: "acts U (\<lambda>q. epoll_cb T cb q ev)"

text \<open>The completion entries the kernel can deliver: each belongs to work in progress.\<close>

definition valid_cqe :: "('r, 't) ublksrv_queue \<Rightarrow> owner list \<Rightarrow> uring_cqe \<Rightarrow> bool" where
  "valid_cqe q own cqe \<longleftrightarrow>
     (let tag = unat (user_data_to_tag (cqe_user_data cqe)) in
      if is_target_io (cqe_user_data cqe)
      then is_internal_io (cqe_user_data cqe) \<or> tag < q_depth q \<and> own ! tag = Target
      else tag < q_depth q \<and> own ! tag = Driver)"

inductive reaps ::
  "'r uring_api \<Rightarrow> ('r, 't) tgt_ops \<Rightarrow> ('r, 't) ublksrv_queue \<times> owner list \<Rightarrow> uring_cqe list \<Rightarrow>
     ('r, 't) ublksrv_queue \<times> owner list \<Rightarrow> bool"
  for U T where
  reaps_nil: "reaps U T s [] s"
| reaps_cons: "valid_cqe q own cqe \<Longrightarrow> qstep U T (q, own) (ublksrv_handle_cqe U T q cqe, own1) \<Longrightarrow>
     reaps U T (ublksrv_handle_cqe U T q cqe, own1) cqes s \<Longrightarrow> reaps U T (q, own) (cqe # cqes) s"

inductive_cases reaps_consE: "reaps U T s (cqe # cqes) s'"

lemma reaps_state: "reaps U T s cqes s' \<Longrightarrow> fst s' = foldl (ublksrv_handle_cqe U T) (fst s) cqes"
  by (induction rule: reaps.induct) auto

lemma reaps_reachable: "reaps U T s cqes s' \<Longrightarrow> reachable U T s \<Longrightarrow> reachable U T s'"
  by (induction rule: reaps.induct) (auto intro: reachable.step)

lemma tact_reachable: "tact U s s' \<Longrightarrow> reachable U T s \<Longrightarrow> reachable U T s'"
  by (cases s; cases s') (auto intro: reachable.step qstep.callback)

lemma actsD: "acts U f \<Longrightarrow> qinv q own \<Longrightarrow> \<exists>own'. tact U (q, own) (f q, own')"
  by (simp add: acts_def)

lemma acts_forD:
  "acts_for U f \<Longrightarrow> qinv q own \<Longrightarrow> tag < q_depth q \<Longrightarrow> own ! tag = Target \<Longrightarrow>
   \<exists>own'. tact U (q, own) (f q tag, own')"
  by (simp add: acts_for_def)

lemma acts_comp:
  fixes f g :: "('a, 'b) ublksrv_queue \<Rightarrow> ('a, 'b) ublksrv_queue"
  assumes "acts U f" "acts U g"
  shows "acts U (\<lambda>q. g (f q))"
  unfolding acts_def
proof (intro allI impI)
  fix q :: "('a, 'b) ublksrv_queue" and own assume inv: "qinv q own"
  obtain own1 where 1: "tact U (q, own) (f q, own1)" using actsD [OF assms(1) inv] ..
  have "qinv (f q) own1" using tact_qinv [OF 1] inv by simp
  from actsD [OF assms(2) this] obtain own2 where "tact U (f q, own1) (g (f q), own2)" ..
  then show "\<exists>own'. tact U (q, own) (g (f q), own')" using 1 tact_trans by blast
qed

lemma acts_id: "acts U (\<lambda>q. q)"
  unfolding acts_def using tact_refl by blast

lemma acts_fold: "(\<And>x. acts U (f x)) \<Longrightarrow> acts U (fold f xs)"
proof (induction xs)
  case Nil
  then show ?case using acts_id by (simp add: id_def)
next
  case (Cons x xs)
  have "acts U (\<lambda>q. fold f xs (f x q))" using acts_comp [OF Cons.prems Cons.IH] Cons.prems by simp
  then show ?case by (simp add: comp_def)
qed

lemma acts_ring: "acts U (\<lambda>q. q\<lparr>ring := r q\<rparr>)"
  unfolding acts_def by (intro allI impI exI) (rule tact_ring)

lemma acts_prep_epoll: "acts U (\<lambda>q. snd (ublksrv_prep_epoll_sqe U q))"
  unfolding acts_def ublksrv_prep_epoll_sqe_def
  by (auto split: prod.splits bool.splits intro: tact_ring)

lemma acts_opt: "(\<And>g. f = Some g \<Longrightarrow> acts U g) \<Longrightarrow> acts U (opt_cb f)"
  using acts_id by (cases f) (auto simp: opt_cb_def acts_def)

lemma cmd_or_target: "valid_cqe q own cqe \<Longrightarrow> \<not> is_target_io (cqe_user_data cqe) \<Longrightarrow>
    \<exists>tag. cmd_cqe q cqe tag \<and> own ! tag = Driver"
  by (auto simp: valid_cqe_def cmd_cqe_def Let_def)

context tgt_contract
begin

lemma acts_process_epollfd: "acts U (\<lambda>q. ublkdrv_process_epollfd U T q cqe)"
proof -
  have cbs: "acts U (fold (\<lambda>(cb, ev) q. epoll_cb T cb q ev) es)" for es
    using epoll_acts by (intro acts_fold) (auto split: prod.splits)
  have fin: "acts U (\<lambda>q. (snd (ublksrv_prep_epoll_sqe U q))
      \<lparr>ring := submit U (ring (snd (ublksrv_prep_epoll_sqe U q)))\<rparr>)"
    by (rule acts_comp [OF acts_prep_epoll acts_ring])
  show ?thesis
    unfolding acts_def
  proof (intro allI impI)
    fix q :: "('r, 't) ublksrv_queue" and own assume inv: "qinv q own"
    let ?es = "take 8 (epoll_wait U (ring q) (epollfd q))"
    show "\<exists>own'. tact U (q, own) (ublkdrv_process_epollfd U T q cqe, own')"
      using actsD [OF cbs [of ?es] inv] actsD [OF acts_comp [OF cbs [of ?es] fin] inv]
      by (auto simp: ublkdrv_process_epollfd_def Let_def)
  qed
qed

lemma tgt_cqe_acts:
  assumes "qinv q own" "valid_cqe q own cqe" "is_target_io (cqe_user_data cqe)"
  shows "\<exists>own'. tact U (q, own) (ublksrv_handle_cqe U T q cqe, own')"
proof -
  let ?ud = "cqe_user_data cqe"
  have h: "ublksrv_handle_cqe U T q cqe = ublksrv_handle_tgt_cqe U T q cqe"
    using assms(3) by (simp add: ublksrv_handle_cqe_def Let_def)
  show ?thesis
  proof (cases "is_internal_io ?ud")
    case True
    then show ?thesis
      using actsD [OF acts_opt [OF handle_event_acts] assms(1)] actsD [OF acts_process_epollfd assms(1)]
        actsD [OF acts_id assms(1)]
      by (auto simp: h ublksrv_handle_tgt_cqe_def Let_def)
  next
    case False
    then have tag: "unat (user_data_to_tag ?ud) < q_depth q" "own ! unat (user_data_to_tag ?ud) = Target"
      using assms by (auto simp: valid_cqe_def Let_def)
    show ?thesis
    proof (cases "tgt_io_done T")
      case None
      then show ?thesis using False actsD [OF acts_id assms(1)]
        by (simp add: h ublksrv_handle_tgt_cqe_def opt_cb_def Let_def)
    next
      case (Some f)
      then show ?thesis using False acts_forD [OF tgt_io_done_acts [OF Some] assms(1) tag]
        by (simp add: h ublksrv_handle_tgt_cqe_def opt_cb_def Let_def)
    qed
  qed
qed

text \<open>Every completion entry of work in progress is a step of the queue thread.\<close>

lemma cqe_step:
  assumes inv: "qinv q own" and v: "valid_cqe q own cqe"
  shows "\<exists>own'. qstep U T (q, own) (ublksrv_handle_cqe U T q cqe, own')"
proof (cases "is_target_io (cqe_user_data cqe)")
  case True
  then show ?thesis using tgt_cqe_acts [OF inv v] qstep.tgt_cqe by blast
next
  case False
  then obtain tag where c: "cmd_cqe q cqe tag" "own ! tag = Driver" using cmd_or_target [OF v] by blast
  note h = handle_cqe_cmd [OF qinvD(1) [OF inv] c(1), of U T]
  have tg: "qinv (cqe_received q cqe) (own[tag := Target])" by (rule cqe_received_target [OF inv c])
  have dep: "q_depth (cqe_received q cqe) = q_depth q" by (simp add: cqe_received_def Let_def)
  have a: "\<exists>own'. tact U (cqe_received q cqe, own[tag := Target]) (handle_io_async T (cqe_received q cqe) tag, own')"
    using acts_forD [OF handle_io_async_acts tg] c dep qinvD(2) [OF inv] by (simp add: cmd_cqe_def)
  consider "cqe_res cqe = 0" | "cqe_res cqe = 1" | "cqe_res cqe \<notin> {0, 1}" by blast
  then show ?thesis
  proof cases
    case 1
    with a h obtain own' where
      "tact U (cqe_received q cqe, own[tag := Target]) (ublksrv_handle_cqe U T q cqe, own')" by auto
    then show ?thesis using qstep.cmd_ok [OF c 1] by blast
  next
    case 2
    then show ?thesis using qstep.cmd_get_data [OF c 2] by (meson surj_pair)
  next
    case 3
    then show ?thesis using qstep.cmd_abort [OF c 3] by blast
  qed
qed

lemma idle_reachable:
  assumes "reachable U T (q, own)"
  shows "\<exists>own'. reachable U T (ublksrv_queue_idle_enter T q, own')"
    and "\<exists>own'. reachable U T (ublksrv_queue_idle_exit T q, own')"
proof -
  have k: "acts U (opt_cb (map_option (\<lambda>f q. f q b) (idle_fn T)))" for b
    by (rule acts_opt) (auto intro: idle_acts)
  have st: "\<exists>own'. reachable U T (opt_cb (map_option (\<lambda>f q. f q b) (idle_fn T)) (q\<lparr>qstate := s\<rparr>), own')"
    if "s \<in> {qstate q OR UBLKSRV_QUEUE_IDLE, qstate q AND NOT UBLKSRV_QUEUE_IDLE}" for b s
  proof -
    have r: "reachable U T (q\<lparr>qstate := s\<rparr>, own)"
      using assms qstep.idle [OF that] by (rule reachable.step)
    have "qinv (q\<lparr>qstate := s\<rparr>) own" using reachable_qinv [OF r] by simp
    from actsD [OF k this] show ?thesis using tact_reachable [OF _ r] by blast
  qed
  show "\<exists>own'. reachable U T (ublksrv_queue_idle_enter T q, own')"
    using st assms by (auto simp: ublksrv_queue_idle_enter_def)
  show "\<exists>own'. reachable U T (ublksrv_queue_idle_exit T q, own')"
    using st assms by (auto simp: ublksrv_queue_idle_exit_def)
qed

lemma process_io_reachable:
  assumes r: "reachable U T (q, own)" and nd: "\<not> queue_is_done U q"
    and reap: "reaps U T (snd (process_io_wait U q), own) cqes (q2, own2)"
  shows "fst (ublksrv_process_io U T wr cqes q) = int (length cqes)"
    and "\<exists>own'. reachable U T (snd (snd (ublksrv_process_io U T wr cqes q)), own')"
proof -
  have nb: "\<not> ublksrv_queue_batch_io q" using reachable_qinv [OF r] qinvD(1) by simp
  have "\<exists>ret r1. process_io_wait U q = (ret, q\<lparr>ring := r1, ctxs := []\<rparr>)"
    using nb by (auto simp: process_io_wait_def ublksrv_reset_aio_batch_def Let_def case_prod_beta)
  then obtain ret r1 where w: "process_io_wait U q = (ret, q\<lparr>ring := r1, ctxs := []\<rparr>)" by blast
  have "tact U (q, own) (q\<lparr>ring := r1, ctxs := []\<rparr>, own)"
    using tact_trans [OF tact_ctxs tact_ring] by metis
  from tact_reachable [OF this r] have "reachable U T (snd (process_io_wait U q), own)" by (simp add: w)
  from reaps_reachable [OF reap this] have r2: "reachable U T (q2, own2)" .
  have q2: "ublksrv_reap_events_uring U T cqes (snd (process_io_wait U q)) = (length cqes, q2)"
    using reaps_state [OF reap] by (simp add: ublksrv_reap_events_uring_def)
  let ?bg = "opt_cb (map_option (\<lambda>f q. f q (sq_ready U (ring q))) (handle_io_background T))"
  have "acts U ?bg"
  proof (rule acts_opt)
    fix g assume "map_option (\<lambda>f q. f q (sq_ready U (ring q))) (handle_io_background T) = Some g"
    then obtain h where h: "handle_io_background T = Some h" "g = (\<lambda>q. h q (sq_ready U (ring q)))" by auto
    show "acts U g"
      unfolding acts_def h(2) by (intro allI impI) (rule actsD [OF background_acts [OF h(1)]])
  qed
  from actsD [OF this, of q2 own2] obtain own3 where "tact U (q2, own2) (?bg q2, own3)"
    using reachable_qinv [OF r2] by auto
  from tact_reachable [OF this r2] have r3: "reachable U T (?bg q2, own3)" .
  have "reachable U T (ublksrv_kill_eventfd wr (?bg q2), own3)"
    using tact_reachable [OF tact_efd r3] r3 by (simp add: ublksrv_kill_eventfd_def)
  then show "\<exists>own'. reachable U T (snd (snd (ublksrv_process_io U T wr cqes q)), own')"
    using idle_reachable [OF r3] nd q2 w
    by (auto simp: ublksrv_process_io_def process_io_tail_def Let_def)
  show "fst (ublksrv_process_io U T wr cqes q) = int (length cqes)"
    using nd w by (simp add: ublksrv_process_io_def ublksrv_reap_events_uring_def)
qed

end

lemma cqe_received_sel [simp]:
  "q_depth (cqe_received q cqe) = q_depth q" "q_id (cqe_received q cqe) = q_id q"
  "ring (cqe_received q cqe) = ring q" "io_cmd_buf (cqe_received q cqe) = io_cmd_buf q"
  "cmd_inflight (cqe_received q cqe) = cmd_inflight q - 1" "private_data (cqe_received q cqe) = private_data q"
  by (simp_all add: cqe_received_def Let_def upd_io_def)

lemma cqe_received_has:
  "m AND UBLKSRV_QUEUE_STOPPING = 0 \<Longrightarrow> has (qstate (cqe_received q cqe)) m = has (qstate q) m"
proof -
  assume "m AND UBLKSRV_QUEUE_STOPPING = 0"
  then have "\<not> has UBLKSRV_QUEUE_STOPPING m" by (simp add: has_def and.commute)
  then show ?thesis by (simp add: cqe_received_def Let_def)
qed

text \<open>Completing a request the target owns commits its result.\<close>

lemma complete_io_commits:
  assumes U: "uring_ok U queued" "uring_submits U" and inv: "qinv q own" "tag < q_depth q" "own ! tag = Target"
    and c: "ublksrv_complete_io U q tag res = (ret, q')"
  shows "\<exists>sqe. queued (ring q') = queued (ring q) @ [sqe] \<and> ret = 1 \<and>
    IOC_NR (sqe_cmd_op sqe) = UBLK_IO_COMMIT_AND_FETCH_REQ \<and>
    ic_q_id (sqe_io_cmd sqe) = of_nat (q_id q) \<and> ic_tag (sqe_io_cmd sqe) = of_nat tag \<and>
    ic_result (sqe_io_cmd sqe) = word_of_int res \<and> cmd_inflight q' = cmd_inflight q + 1"
proof -
  let ?q = "upd_io tag (ublksrv_mark_io_done res) q"
  have tag: "tag < length (ios q)" "tag < 65536" using inv qinvD(3,4) [OF inv(1)] by auto
  have fl: "io_flags (ios q ! tag) = 0" using qinvD(6) [OF inv(1,2)] inv(3) by (simp add: owner_flags_def)
  have io: "ios ?q ! tag = ublksrv_mark_io_done res (ios q ! tag)" using tag by simp
  have fl6: "io_flags (ios ?q ! tag) = 6" using fl unfolding io by (simp add: ublksrv_mark_io_done_def)
  have "ublksrv_queue_io_cmd U ?q tag = (ret, q')"
    using c qinvD(1) [OF inv(1)] by (simp add: ublksrv_complete_io_def)
  from queue_io_cmd_sqe [OF U _ tag(2) this] show ?thesis
    using fl6 io by (auto simp: io_issuable_def has_def io_cmd_op_def ublksrv_mark_io_done_def upd_io_def)
qed

section \<open>Properties\<close>

lemma sample_start: "queue_start (sample_queue 0 p)"
  by (auto simp: queue_start_def sample_queue_def less_2_cases_iff ublksrv_queue_batch_io_def)

lemma start_issue_reachable:
  assumes U: "uring_ok U queued" "uring_submits U" and q: "queue_start q" "0 < q_depth q"
  shows "reachable U T (snd (ublksrv_queue_io_cmd U q 0), (replicate (q_depth q) Unissued)[0 := Driver])"
proof -
  have 1: "reachable U T (q, replicate (q_depth q) Unissued)" by (rule reachable.init [OF q(1) refl])
  obtain ret q' where c: "ublksrv_queue_io_cmd U q 0 = (ret, q')" by fastforce
  have "io_issuable (ios q ! 0)" using q by (simp add: queue_start_def io_issuable_def has_def)
  from queue_io_cmd_sqe [OF U this _ c] have "ret = 1" by auto
  then show ?thesis using reachable.issue [OF 1 q(2) _ c] q(2) by (simp add: c issued_def)
qed

lemma sample_reachable:
  "reachable fring_api T (snd (ublksrv_queue_io_cmd fring_api (sample_queue 0 p) 0), [Driver, Unissued])"
proof -
  have "q_depth (sample_queue 0 p) = 2" by (simp add: sample_queue_def)
  then show ?thesis using start_issue_reachable [OF fring_ok(1,2) sample_start, of p T] by (simp add: numeral_2_eq_2)
qed

lemma sample_issued_sel:
  "q_depth (snd (ublksrv_queue_io_cmd fring_api (sample_queue 0 p) 0)) = 2"
  "q_id (snd (ublksrv_queue_io_cmd fring_api (sample_queue 0 p) 0)) = 3"
  "cmd_inflight (snd (ublksrv_queue_io_cmd fring_api (sample_queue 0 p) 0)) = 1"
  "qstate (snd (ublksrv_queue_io_cmd fring_api (sample_queue 0 p) 0)) = 0"
  "private_data (snd (ublksrv_queue_io_cmd fring_api (sample_queue 0 p) 0)) = p"
  "io_flags (ios (snd (ublksrv_queue_io_cmd fring_api (sample_queue 0 p) 0)) ! 0) = 0"
  "io_cmd_buf (snd (ublksrv_queue_io_cmd fring_api (sample_queue 0 p) 0)) = io_cmd_buf (sample_queue 0 p)"
  by (simp_all add: ublksrv_queue_io_cmd_def ublksrv_alloc_sqe_def fring_api_def sample_queue_def has_def Let_def)

text \<open>A target that keeps every request for later, for concrete runs.\<close>

definition keep_tgt :: "('r, 't) tgt_ops" where
  "keep_tgt = \<lparr>handle_io_async = (\<lambda>q tag. q), tgt_io_done = None, handle_event = None,
     handle_io_background = None, idle_fn = None, epoll_cb = (\<lambda>_ q _. q)\<rparr>"

definition sample_issued :: "(fring, unit) ublksrv_queue" where
  "sample_issued = snd (ublksrv_queue_io_cmd fring_api (sample_queue 0 ()) 0)"

lemma sample_issued_reachable: "reachable fring_api keep_tgt (sample_issued, [Driver, Unissued])"
  unfolding sample_issued_def by (rule sample_reachable)

lemmas sample_issued_ios = sample_issued_sel [where p = "()", folded sample_issued_def]

text \<open>C1: In every reachable state of a queue, \<open>cmd_inflight\<close> is the number of tags whose command the
  driver holds (it never wraps around), and the flags of each io agree with the owner of its tag: no
  flags while the driver or the target has it, free without a pending command once it is finished.\<close>

theorem cmd_inflight_exact:
  assumes "reachable U T (q, own)"
  shows "unat (cmd_inflight q) = card {tag. tag < q_depth q \<and> own ! tag = Driver} \<and>
         length own = q_depth q \<and>
         (\<forall>tag < q_depth q. owner_flags (own ! tag) (io_flags (ios q ! tag)))"
proof -
  have inv: "qinv q own" using reachable_qinv [OF assms] by simp
  have "held own = card {i. i < length own \<and> own ! i = Driver}"
    unfolding held_def by (rule length_filter_conv_card)
  then show ?thesis using qinv_unat [OF inv] qinvD(2,6) [OF inv] by simp
qed

theorem cmd_inflight_exact_witness:
  "unat (cmd_inflight sample_issued) = card {tag. tag < q_depth sample_issued \<and> [Driver, Unissued] ! tag = Driver}"
  using cmd_inflight_exact [OF sample_issued_reachable] by simp



text \<open>C3: The io loop ends exactly when it may: in every reachable state \<open>ublksrv_process_io\<close> returns
  -ENODEV if and only if the queue is stopping, nothing waits in the submission ring and the driver
  holds no command; the state is then unchanged, and otherwise the result is the number of
  completions handled.\<close>

theorem process_io_ends:
  assumes "reachable U T (q, own)"
  shows "(fst (ublksrv_process_io U T wr cqes q) = - ENODEV \<longleftrightarrow>
           has (qstate q) UBLKSRV_QUEUE_STOPPING \<and> sq_ready U (ring q) = 0 \<and>
           (\<forall>tag < q_depth q. own ! tag \<noteq> Driver)) \<and>
         (fst (ublksrv_process_io U T wr cqes q) = - ENODEV \<longrightarrow>
           snd (snd (ublksrv_process_io U T wr cqes q)) = q) \<and>
         (fst (ublksrv_process_io U T wr cqes q) \<noteq> - ENODEV \<longrightarrow>
           fst (ublksrv_process_io U T wr cqes q) = int (length cqes))"
proof -
  have inv: "qinv q own" using reachable_qinv [OF assms] by simp
  show ?thesis
    using is_done_iff [OF inv, of U]
    by (auto simp: ublksrv_process_io_def ublksrv_reap_events_uring_def split: prod.splits)
qed

theorem process_io_ends_witness:
  "fst (ublksrv_process_io fring_api keep_tgt 8 [] sample_issued) = 0"
  using process_io_ends [OF sample_issued_reachable, of 8 "[]"] by (simp add: sample_issued_ios)

end
