(* ===== verification/Ublk_Params.thy ===== *)
theory Ublk_Params
  imports Ublk_Prelude
begin

text \<open>
  The device parameters of include/ublk_cmd.h (\<open>struct ublk_params\<close> and the structures it holds) and
  the target description of include/ublksrv.h that is kept in json. Field names carry a prefix for
  their structure.
\<close>

abbreviation (input) "UBLK_ATTR_READ_ONLY \<equiv> (1::u32)"
abbreviation (input) "UBLK_ATTR_ROTATIONAL \<equiv> (2::u32)"
abbreviation (input) "UBLK_ATTR_VOLATILE_CACHE \<equiv> (4::u32)"
abbreviation (input) "UBLK_ATTR_FUA \<equiv> (8::u32)"

abbreviation (input) "UBLK_PARAM_TYPE_BASIC \<equiv> (1::u32)"
abbreviation (input) "UBLK_PARAM_TYPE_DISCARD \<equiv> (2::u32)"
abbreviation (input) "UBLK_PARAM_TYPE_DEVT \<equiv> (4::u32)"
abbreviation (input) "UBLK_PARAM_TYPE_ZONED \<equiv> (8::u32)"
abbreviation (input) "UBLK_PARAM_TYPE_DMA_ALIGN \<equiv> (16::u32)"
abbreviation (input) "UBLK_PARAM_TYPE_SEGMENT \<equiv> (32::u32)"
abbreviation (input) "UBLK_PARAM_TYPE_INTEGRITY \<equiv> (64::u32)"

record ublk_param_basic =
  pb_attrs :: u32
  pb_logical_bs_shift :: u8
  pb_physical_bs_shift :: u8
  pb_io_opt_shift :: u8
  pb_io_min_shift :: u8
  pb_max_sectors :: u32
  pb_chunk_sectors :: u32
  pb_dev_sectors :: u64
  pb_virt_boundary_mask :: u64

record ublk_param_discard =
  pd_alignment :: u32
  pd_granularity :: u32
  pd_max_discard_sectors :: u32
  pd_max_write_zeroes_sectors :: u32
  pd_max_discard_segments :: u16
  pd_reserved0 :: u16

record ublk_param_devt =
  pv_char_major :: u32
  pv_char_minor :: u32
  pv_disk_major :: u32
  pv_disk_minor :: u32

record ublk_param_zoned =
  pz_max_open_zones :: u32
  pz_max_active_zones :: u32
  pz_max_zone_append_sectors :: u32
  pz_reserved :: u32
  pz_reserved2 :: u64
  pz_reserved3 :: u64

record ublk_param_dma_align =
  pa_alignment :: u32
  pa_pad :: u32

record ublk_param_segment =
  ps_seg_boundary_mask :: u64
  ps_max_segment_size :: u32
  ps_max_segments :: u16
  ps_pad :: u16

record ublk_param_integrity =
  pi_flags :: u32
  pi_max_integrity_segments :: u16
  pi_interval_exp :: u8
  pi_metadata_size :: u8
  pi_pi_offset :: u8
  pi_csum_type :: u8
  pi_tag_size :: u8
  pi_pad :: "u8 list"

record ublk_params =
  p_len :: u32
  p_types :: u32
  p_basic :: ublk_param_basic
  p_discard :: ublk_param_discard
  p_devt :: ublk_param_devt
  p_zoned :: ublk_param_zoned
  p_dma :: ublk_param_dma_align
  p_seg :: ublk_param_segment
  p_integrity :: ublk_param_integrity

abbreviation (input) "UBLKSRV_TGT_NAME_MAX_LEN \<equiv> (32::nat)"

record ublksrv_tgt_base_json =
  tj_name :: string
  tj_type :: int
  tj_dev_size :: u64

text \<open>All fields zero, as a C initialiser leaves what it does not name.\<close>

definition zero_params :: ublk_params where
  "zero_params =
     \<lparr>p_len = 0, p_types = 0,
      p_basic = \<lparr>pb_attrs = 0, pb_logical_bs_shift = 0, pb_physical_bs_shift = 0, pb_io_opt_shift = 0,
        pb_io_min_shift = 0, pb_max_sectors = 0, pb_chunk_sectors = 0, pb_dev_sectors = 0,
        pb_virt_boundary_mask = 0\<rparr>,
      p_discard = \<lparr>pd_alignment = 0, pd_granularity = 0, pd_max_discard_sectors = 0,
        pd_max_write_zeroes_sectors = 0, pd_max_discard_segments = 0, pd_reserved0 = 0\<rparr>,
      p_devt = \<lparr>pv_char_major = 0, pv_char_minor = 0, pv_disk_major = 0, pv_disk_minor = 0\<rparr>,
      p_zoned = \<lparr>pz_max_open_zones = 0, pz_max_active_zones = 0, pz_max_zone_append_sectors = 0,
        pz_reserved = 0, pz_reserved2 = 0, pz_reserved3 = 0\<rparr>,
      p_dma = \<lparr>pa_alignment = 0, pa_pad = 0\<rparr>,
      p_seg = \<lparr>ps_seg_boundary_mask = 0, ps_max_segment_size = 0, ps_max_segments = 0, ps_pad = 0\<rparr>,
      p_integrity = \<lparr>pi_flags = 0, pi_max_integrity_segments = 0, pi_interval_exp = 0,
        pi_metadata_size = 0, pi_pi_offset = 0, pi_csum_type = 0, pi_tag_size = 0,
        pi_pad = [0, 0, 0, 0, 0]\<rparr>\<rparr>"

end
