(* ===== verification/Ublk_Utils.thy ===== *)
theory Ublk_Utils
  imports Ublk_Prelude
begin

text \<open>
  lib/utils.c and the string routines of lib/ublksrv.c: decimal numbers as \<open>snprintf\<close> prints and
  \<open>strtol\<close> reads them, the list of cpus of a queue (\<open>ublksrv_build_cpu_str\<close>), the parser of the
  \<open>--cpuset\<close> option (\<open>ublk_make_cpuset\<close>) and the pid file.

  A C string is a HOL string without its terminating null character; a cpu set is a set of numbers.
\<close>

section \<open>Strings of the C library\<close>

fun dec_string :: "nat \<Rightarrow> string" where
  "dec_string n = (if n < 10 then [char_of (48 + n)] else dec_string (n div 10) @ [char_of (48 + n mod 10)])"

declare dec_string.simps [simp del]

definition strchr :: "string \<Rightarrow> char \<Rightarrow> string option" where
  "strchr s c = (case dropWhile (\<lambda>x. x \<noteq> c) s of [] \<Rightarrow> None | r \<Rightarrow> Some r)"

definition isdigit :: "char \<Rightarrow> bool" where
  "isdigit c \<longleftrightarrow> 48 \<le> (of_char c :: nat) \<and> (of_char c :: nat) \<le> 57"

definition isspace :: "char \<Rightarrow> bool" where
  "isspace c \<longleftrightarrow> (of_char c :: nat) \<in> {32, 9, 10, 11, 12, 13}"

definition dec_val :: "string \<Rightarrow> nat" where
  "dec_val s = foldl (\<lambda>a c. a * 10 + (of_char c - 48)) 0 s"

text \<open>\<open>strtol\<close> with base 10 on a 64-bit machine: leading space, a sign, digits, saturating.\<close>

definition strtol10 :: "string \<Rightarrow> int" where
  "strtol10 s =
     (let t = dropWhile isspace s;
          (neg, u) = (case t of [] \<Rightarrow> (False, []) | c # r \<Rightarrow>
             if c = CHR ''-'' then (True, r) else if c = CHR ''+'' then (False, r) else (False, t));
          v = int (dec_val (takeWhile isdigit u))
      in if neg then max (- (2 ^ 63)) (- v) else min (2 ^ 63 - 1) v)"

section \<open>The cpus of a queue\<close>

text \<open>
  \<open>cpus\<close> are the cpus below the number of online cores that are in the set, \<open>buf\<close> the text written
  so far (its length is \<open>offset\<close>). \<open>snprintf\<close> cuts its output at the end of the buffer.
\<close>

fun build_cpu_str_loop :: "nat \<Rightarrow> nat list \<Rightarrow> string \<Rightarrow> string" where
  "build_cpu_str_loop len [] buf = buf"
| "build_cpu_str_loop len (i # is) buf =
     (let txt = dec_string i @ '' '' in
      if length txt \<ge> len - length buf then buf @ take (len - length buf - 1) txt
      else build_cpu_str_loop len is (buf @ txt))"

definition ublksrv_build_cpu_str :: "nat \<Rightarrow> nat \<Rightarrow> nat set \<Rightarrow> string" where
  "ublksrv_build_cpu_str len nr_cores cpuset = build_cpu_str_loop len (filter (\<lambda>i. i \<in> cpuset) [0..<nr_cores]) []"

section \<open>The cpuset option\<close>

abbreviation (input) "CPU_SETSIZE \<equiv> (1024::nat)"

definition CPU_SET :: "int \<Rightarrow> nat set \<Rightarrow> nat set" where
  "CPU_SET cpu cs = (if 0 \<le> cpu \<and> cpu < int CPU_SETSIZE then insert (nat cpu) cs else cs)"

text \<open>The number of bracketed groups: the first loop of \<open>ublk_make_cpuset\<close>.\<close>

lemma strchr_length: "strchr s c = Some r \<Longrightarrow> length r \<le> length s \<and> hd r = c \<and> r \<noteq> []"
proof -
  assume "strchr s c = Some r"
  then have r: "r = dropWhile (\<lambda>x. x \<noteq> c) s" "r \<noteq> []" by (auto simp: strchr_def split: list.splits)
  then show ?thesis
    using length_dropWhile_le [of "\<lambda>x. x \<noteq> c" s] hd_dropWhile [of "\<lambda>x. x \<noteq> c" s] by simp
qed

function count_groups :: "string \<Rightarrow> nat" where
  "count_groups ptr =
     (case strchr ptr (CHR ''['') of None \<Rightarrow> 0
      | Some p \<Rightarrow> (case strchr p (CHR '']'') of None \<Rightarrow> 0 | Some p' \<Rightarrow> Suc (count_groups p')))"
  by pat_completeness auto
termination
proof (relation "measure (\<lambda>p. length p + of_bool (p \<noteq> [] \<and> hd p = CHR ''[''))", goal_cases)
  case (2 ptr p p')
  have p: "length p \<le> length ptr" "hd p = CHR ''[''" "p \<noteq> []" using strchr_length [OF 2(1)] by auto
  obtain r where r: "p = CHR ''['' # r" using p by (cases p) auto
  have "strchr r (CHR '']'') = Some p'" using 2(2) by (simp add: r strchr_def)
  from strchr_length [OF this] have "length p' \<le> length r" "hd p' = CHR '']''" by auto
  then show ?case using p r by simp
qed simp

declare count_groups.simps [simp del]

text \<open>The numbers between commas: the inner loop, which stops at an empty rest.\<close>

function parse_cpus :: "string \<Rightarrow> nat set \<Rightarrow> nat set" where
  "parse_cpus ptr cs =
     (case strchr ptr (CHR '','') of
        None \<Rightarrow> CPU_SET (strtol10 ptr) cs
      | Some t \<Rightarrow>
          (let cs1 = CPU_SET (strtol10 (takeWhile (\<lambda>c. c \<noteq> CHR '','') ptr)) cs
           in if tl t = [] then cs1 else parse_cpus (tl t) cs1))"
  by pat_completeness auto
termination
proof (relation "measure (\<lambda>(p, _). length p)", goal_cases)
  case (2 ptr cs t cs1)
  then show ?case using strchr_length [OF 2(1)] by (cases t) auto
qed simp

declare parse_cpus.simps [simp del]

fun parse_groups :: "nat \<Rightarrow> string \<Rightarrow> nat set list option" where
  "parse_groups 0 ptr = Some []"
| "parse_groups (Suc n) ptr =
     (case strchr ptr (CHR ''['') of None \<Rightarrow> None
      | Some p \<Rightarrow> (case strchr (tl p) (CHR '']'') of None \<Rightarrow> None
          | Some next \<Rightarrow>
              (let cs = parse_cpus (takeWhile (\<lambda>c. c \<noteq> CHR '']'') (tl p)) {}
               in map_option (\<lambda>rest. cs # rest) (parse_groups n (tl next)))))"

definition ublk_make_cpuset :: "nat \<Rightarrow> string option \<Rightarrow> nat set list option" where
  "ublk_make_cpuset num_sets cpuset =
     (case cpuset of None \<Rightarrow> None
      | Some str \<Rightarrow> if count_groups str \<noteq> num_sets then None else parse_groups num_sets str)"

section \<open>The pid file\<close>

text \<open>
  The outcome of the system calls on the pid file: what \<open>open\<close> returned, whether truncating and
  writing worked. The file's contents are the optional text; the result is the return value, the
  descriptor that was stored, and the contents (no text when the file was removed).
\<close>

record pid_sys =
  ps_open :: int
  ps_trunc :: bool
  ps_write :: bool
  ps_pid :: nat

definition create_pid_file :: "pid_sys \<Rightarrow> string option \<Rightarrow> int \<times> int option \<times> string option" where
  "create_pid_file S file =
     (if ps_open S < 0 then (ps_open S, None, file)
      else if \<not> ps_trunc S then (-1, None, None)
      else if \<not> ps_write S then (-1, None, None)
      else (0, Some (ps_open S), Some (dec_string (ps_pid S) @ [CHR 0x0A])))"

section \<open>Lemmas\<close>

lemma of_char_digit [simp]: "d < 10 \<Longrightarrow> of_char (char_of (48 + d)) = (48 + d :: nat)"
  by simp

lemma isdigit_digit [simp]: "d < 10 \<Longrightarrow> isdigit (char_of (48 + d :: nat))"
  by (simp add: isdigit_def)

lemma dec_string_digits: "c \<in> set (dec_string n) \<Longrightarrow> isdigit c"
proof (induction n rule: dec_string.induct)
  case (1 n)
  then show ?case by (cases "n < 10") (auto simp: dec_string.simps [of n])
qed

lemma dec_string_ne [simp]: "dec_string n \<noteq> []"
  by (subst dec_string.simps) simp

lemma dec_val_snoc: "dec_val (s @ [c]) = dec_val s * 10 + (of_char c - 48)"
  by (simp add: dec_val_def)

lemma dec_val_string: "dec_val (dec_string n) = n"
proof (induction n rule: dec_string.induct)
  case (1 n)
  show ?case
  proof (cases "n < 10")
    case True
    then show ?thesis by (simp add: dec_string.simps [of n] dec_val_def)
  next
    case False
    then show ?thesis using 1 by (simp add: dec_string.simps [of n] dec_val_snoc)
  qed
qed

lemma strtol10_dec:
  assumes "n < 2 ^ 63" "r = [] \<or> \<not> isdigit (hd r)"
  shows "strtol10 (dec_string n @ r) = int n"
proof -
  let ?s = "dec_string n @ r"
  obtain c t where ct: "dec_string n = c # t" by (cases "dec_string n") auto
  have c: "isdigit c" using dec_string_digits [of c n] ct by simp
  then have nsp: "\<not> isspace c" "c \<noteq> CHR ''-''" "c \<noteq> CHR ''+''" by (auto simp: isdigit_def isspace_def)
  then have dw: "dropWhile isspace ?s = ?s" by (simp add: ct)
  have tw: "takeWhile isdigit ?s = dec_string n"
    using assms(2) dec_string_digits [of _ n] by (cases r) (auto simp: takeWhile_append2)
  have "int n < 2 ^ 63" using assms(1) by (metis of_nat_less_iff of_nat_numeral of_nat_power)
  moreover have "(case ?s of [] \<Rightarrow> (False, []) | c # r \<Rightarrow>
      if c = CHR ''-'' then (True, r) else if c = CHR ''+'' then (False, r) else (False, ?s)) = (False, ?s)"
    using nsp by (simp add: ct)
  ultimately show ?thesis
    unfolding strtol10_def dw Let_def by (simp add: tw dec_val_string)
qed

subsection \<open>Parsing a printed cpuset\<close>

text \<open>The text form of the option: each group in brackets, numbers separated by commas.\<close>

fun show_cpus :: "nat list \<Rightarrow> string" where
  "show_cpus [] = []"
| "show_cpus [i] = dec_string i"
| "show_cpus (i # is) = dec_string i @ '','' @ show_cpus is"

definition show_groups :: "nat list list \<Rightarrow> string" where
  "show_groups gs = concat (map (\<lambda>g. ''['' @ show_cpus g @ '']'') gs)"

lemma dec_string_not: "c \<in> set (dec_string n) \<Longrightarrow> c \<noteq> CHR ''['' \<and> c \<noteq> CHR '']'' \<and> c \<noteq> CHR '',''"
  using dec_string_digits [of c n] by (auto simp: isdigit_def)

lemma show_cpus_chars: "c \<in> set (show_cpus g) \<Longrightarrow> c \<noteq> CHR ''['' \<and> c \<noteq> CHR '']''"
proof (induction g rule: show_cpus.induct)
  case (3 i j js)
  then show ?case using dec_string_not [of c i] by auto
qed (auto dest: dec_string_not)

lemma strchr_skip: "(\<And>x. x \<in> set s \<Longrightarrow> x \<noteq> c) \<Longrightarrow> strchr (s @ c # r) c = Some (c # r)"
  by (simp add: strchr_def dropWhile_append2)

lemma strchr_none: "(\<And>x. x \<in> set s \<Longrightarrow> x \<noteq> c) \<Longrightarrow> strchr s c = None"
proof -
  assume "\<And>x. x \<in> set s \<Longrightarrow> x \<noteq> c"
  then have d: "dropWhile (\<lambda>x. x \<noteq> c) s = []" by auto
  show ?thesis unfolding strchr_def d by simp
qed

lemma strchr_here [simp]: "strchr (c # r) c = Some (c # r)"
  by (simp add: strchr_def)

lemma CPU_SET_small: "i < CPU_SETSIZE \<Longrightarrow> CPU_SET (int i) s = insert i s"
  by (simp add: CPU_SET_def)

lemma strtol10_small: "i < CPU_SETSIZE \<Longrightarrow> strtol10 (dec_string i) = int i"
  using strtol10_dec [of i "[]"] by simp

lemma show_cpus_ne: "g \<noteq> [] \<Longrightarrow> show_cpus g \<noteq> []"
  by (cases g rule: show_cpus.cases) auto

lemma parse_cpus_show:
  "g \<noteq> [] \<Longrightarrow> \<forall>i\<in>set g. i < CPU_SETSIZE \<Longrightarrow> parse_cpus (show_cpus g) s = s \<union> set g"
proof (induction g arbitrary: s rule: show_cpus.induct)
  case (2 i)
  have "strchr (dec_string i) (CHR '','') = None" by (rule strchr_none) (auto dest: dec_string_not)
  then show ?case using 2 by (simp add: parse_cpus.simps strtol10_small CPU_SET_small)
next
  case (3 i j js)
  have n: "x \<in> set (dec_string i) \<Longrightarrow> x \<noteq> CHR '',''" for x using dec_string_not by blast
  have a: "strchr (dec_string i @ CHR '','' # show_cpus (j # js)) (CHR '','') = Some (CHR '','' # show_cpus (j # js))"
    by (rule strchr_skip) (rule n)
  have b: "takeWhile (\<lambda>c. c \<noteq> CHR '','') (dec_string i @ CHR '','' # show_cpus (j # js)) = dec_string i"
    using n by (simp add: takeWhile_append2)
  show ?case
    using 3 show_cpus_ne [of "j # js"]
    by (simp add: parse_cpus.simps [of "dec_string i @ _"] a b strtol10_small CPU_SET_small insert_commute)
qed simp

lemma count_groups_show: "count_groups (show_groups gs) = length gs"
proof (induction gs)
  case Nil
  then show ?case by (simp add: count_groups.simps show_groups_def strchr_def)
next
  case (Cons g gs)
  let ?r = "show_groups gs"
  have s: "show_groups (g # gs) = CHR ''['' # show_cpus g @ CHR '']'' # ?r" by (simp add: show_groups_def)
  have k: "strchr (CHR ''['' # show_cpus g @ CHR '']'' # ?r) (CHR '']'') = Some (CHR '']'' # ?r)"
    using strchr_skip [of "CHR ''['' # show_cpus g" "CHR '']''" ?r] show_cpus_chars by auto
  have "count_groups (CHR '']'' # ?r) = count_groups ?r"
    by (simp add: count_groups.simps [of "CHR '']'' # ?r"] count_groups.simps [of ?r] strchr_def)
  then show ?case unfolding s using Cons by (subst count_groups.simps) (simp add: k)
qed

lemma parse_groups_show:
  "\<forall>g\<in>set gs. g \<noteq> [] \<and> (\<forall>i\<in>set g. i < CPU_SETSIZE) \<Longrightarrow>
   parse_groups (length gs) (show_groups gs) = Some (map set gs)"
proof (induction gs)
  case (Cons g gs)
  let ?r = "show_groups gs"
  have s: "show_groups (g # gs) = CHR ''['' # show_cpus g @ CHR '']'' # ?r" by (simp add: show_groups_def)
  have k: "strchr (show_cpus g @ CHR '']'' # ?r) (CHR '']'') = Some (CHR '']'' # ?r)"
    using strchr_skip [of "show_cpus g" "CHR '']''" ?r] show_cpus_chars by auto
  have t: "takeWhile (\<lambda>c. c \<noteq> CHR '']'') (show_cpus g @ CHR '']'' # ?r) = show_cpus g"
    using show_cpus_chars by (simp add: takeWhile_append2)
  show ?case unfolding s using Cons parse_cpus_show [of g "{}"] by (simp add: k t)
qed (simp add: show_groups_def)

subsection \<open>The list of cpus\<close>

lemma build_loop_bound: "length buf < len \<Longrightarrow> length (build_cpu_str_loop len is buf) < len"
  by (induction len "is" buf rule: build_cpu_str_loop.induct) (auto simp: Let_def)

lemma build_loop_full:
  "length buf + length (concat (map (\<lambda>i. dec_string i @ '' '') is)) < len \<Longrightarrow>
   build_cpu_str_loop len is buf = buf @ concat (map (\<lambda>i. dec_string i @ '' '') is)"
  by (induction len "is" buf rule: build_cpu_str_loop.induct) (auto simp: Let_def)

section \<open>Properties\<close>

text \<open>C27: The cpuset option is read back exactly: a text with one bracketed, comma separated and
  non-empty group of cpu numbers below 1024 per queue gives each queue the set of its numbers, and a
  text with another number of groups than there are queues gives no sets at all.\<close>

theorem make_cpuset_exact:
  assumes "\<forall>g\<in>set gs. g \<noteq> [] \<and> (\<forall>i\<in>set g. i < CPU_SETSIZE)"
  shows "ublk_make_cpuset n (Some (show_groups gs)) = (if n = length gs then Some (map set gs) else None)"
  using parse_groups_show [OF assms] by (simp add: ublk_make_cpuset_def count_groups_show)

theorem make_cpuset_exact_witness:
  "ublk_make_cpuset 2 (Some (show_groups [[0, 2, 11], [1023]])) = Some [{0, 2, 11}, {1023}]"
  using make_cpuset_exact [of "[[0, 2, 11], [1023]]" 2] by simp

text \<open>The list of cpus never overruns its buffer of \<open>len > 0\<close> bytes (the text is shorter than
  \<open>len\<close>, which leaves room for the null character), and it names every cpu of the set in increasing
  order whenever that text is shorter than \<open>len\<close>.\<close>

theorem build_cpu_str_spec:
  assumes "0 < len"
  shows "length (ublksrv_build_cpu_str len nr_cores cpuset) < len \<and>
         (let full = concat (map (\<lambda>i. dec_string i @ '' '') (filter (\<lambda>i. i \<in> cpuset) [0..<nr_cores]))
          in length full < len \<longrightarrow> ublksrv_build_cpu_str len nr_cores cpuset = full)"
  using build_loop_bound [of "[]" len] build_loop_full [of "[]" _ len] assms
  by (simp add: ublksrv_build_cpu_str_def Let_def)

theorem build_cpu_str_spec_witness: "length (ublksrv_build_cpu_str 512 64 {1, 3}) < 512"
  using build_cpu_str_spec [of 512 64 "{1, 3}"] by (simp add: Let_def)

end
