(* ===== verification/Ublk_Json.thy ===== *)
theory Ublk_Json
  imports Ublk_Cmd Ublk_Params Ublk_Utils
    "HOL-Library.List_Lexorder" "HOL-Library.Char_ord" "HOL-Library.Monad_Syntax"
begin

text \<open>
  The json description of a device (lib/ublksrv_json.cpp): device information, parameters, target and
  queue entries are kept as one json text in a buffer of the control device, which the server stores
  in the pid file and recovery reads back.

  The json library is not part of the model: parsing, printing and the length of a text are the
  fields of a record \<open>json_lib\<close>, and \<open>json_lib_ok\<close> is what the code relies on, that a printed value
  parses to itself. A json value is a datatype; an object keeps its entries sorted by key, as the
  library's map does. An operation that makes the library throw has no result (\<open>None\<close>).
\<close>

section \<open>Values\<close>

datatype json = JNull | JNum int | JStr string | JObj "(string \<times> json) list"

fun jput :: "string \<Rightarrow> json \<Rightarrow> (string \<times> json) list \<Rightarrow> (string \<times> json) list" where
  "jput k v [] = [(k, v)]"
| "jput k v ((k', v') # r) =
     (if k = k' then (k, v) # r else if k < k' then (k, v) # (k', v') # r else (k', v') # jput k v r)"

definition jobj :: "(string \<times> json) list \<Rightarrow> json" where
  "jobj kvs = JObj (fold (\<lambda>(k, v). jput k v) kvs [])"

text \<open>\<open>contains\<close> and the element of an object.\<close>

definition jget :: "string \<Rightarrow> json \<Rightarrow> json option" where
  "jget k j = (case j of JObj kvs \<Rightarrow> map_of kvs k | _ \<Rightarrow> None)"

text \<open>Assigning \<open>j[k]\<close>: a null value becomes an object, other values throw.\<close>

definition jset :: "string \<Rightarrow> json \<Rightarrow> json \<Rightarrow> json option" where
  "jset k v j = (case j of JObj kvs \<Rightarrow> Some (JObj (jput k v kvs)) | JNull \<Rightarrow> Some (JObj [(k, v)]) | _ \<Rightarrow> None)"

text \<open>Assigning \<open>j[k1][k2]\<close>: the inner value is created when it is missing.\<close>

definition jset2 :: "string \<Rightarrow> string \<Rightarrow> json \<Rightarrow> json \<Rightarrow> json option" where
  "jset2 k1 k2 v j = do {
     inner \<leftarrow> jset k2 v (case jget k1 j of None \<Rightarrow> JNull | Some i \<Rightarrow> i);
     jset k1 inner j }"

text \<open>\<open>value(k, d)\<close> of the library for the number types, and the conversions of elements.\<close>

definition jword :: "string \<Rightarrow> 'a::len word \<Rightarrow> json \<Rightarrow> 'a word option" where
  "jword k d j = (case j of
     JObj kvs \<Rightarrow> (case map_of kvs k of None \<Rightarrow> Some d | Some (JNum i) \<Rightarrow> Some (word_of_int i) | _ \<Rightarrow> None)
   | _ \<Rightarrow> None)"

definition jint :: "string \<Rightarrow> int \<Rightarrow> json \<Rightarrow> int option" where
  "jint k d j = (case j of
     JObj kvs \<Rightarrow> (case map_of kvs k of None \<Rightarrow> Some d | Some (JNum i) \<Rightarrow> Some i | _ \<Rightarrow> None)
   | _ \<Rightarrow> None)"

definition jsub :: "string \<Rightarrow> 'b \<Rightarrow> (json \<Rightarrow> 'b option) \<Rightarrow> json \<Rightarrow> 'b option" where
  "jsub k d conv j = (case j of
     JObj kvs \<Rightarrow> (case map_of kvs k of None \<Rightarrow> Some d | Some v \<Rightarrow> conv v)
   | _ \<Rightarrow> None)"

definition as_num :: "json \<Rightarrow> int option" where
  "as_num j = (case j of JNum i \<Rightarrow> Some i | _ \<Rightarrow> None)"

definition as_str :: "json \<Rightarrow> string option" where
  "as_str j = (case j of JStr s \<Rightarrow> Some s | _ \<Rightarrow> None)"

abbreviation (input) "jn w \<equiv> JNum (uint w)"

text \<open>Values that printing and parsing keep: 64-bit numbers, ASCII text, sorted keys.\<close>

definition ascii :: "string \<Rightarrow> bool" where
  "ascii s \<longleftrightarrow> (\<forall>c\<in>set s. (of_char c :: nat) < 128)"

fun json_wf :: "json \<Rightarrow> bool" where
  "json_wf JNull \<longleftrightarrow> True"
| "json_wf (JNum i) \<longleftrightarrow> - (2 ^ 63) \<le> i \<and> i < 2 ^ 64"
| "json_wf (JStr s) \<longleftrightarrow> ascii s"
| "json_wf (JObj kvs) \<longleftrightarrow> sorted_wrt (<) (map fst kvs) \<and> (\<forall>kv\<in>set kvs. ascii (fst kv) \<and> json_wf (snd kv))"

record 's json_lib =
  json_parse :: "'s \<Rightarrow> json option"
  json_dump :: "json \<Rightarrow> 's"
  json_len :: "'s \<Rightarrow> nat"

definition json_lib_ok :: "'s json_lib \<Rightarrow> bool" where
  "json_lib_ok J \<longleftrightarrow> (\<forall>j. json_wf j \<longrightarrow> json_parse J (json_dump J j) = Some j)"

section \<open>Structures as json\<close>

definition dev_info_to_json :: "ublksrv_ctrl_dev_info \<Rightarrow> json" where
  "dev_info_to_json i = jobj
     [(''nr_hw_queues'', jn (nr_hw_queues i)), (''queue_depth'', jn (queue_depth i)),
      (''state'', jn (info_state i)), (''pad0'', jn (info_pad0 i)),
      (''max_io_buf_bytes'', jn (max_io_buf_bytes i)), (''dev_id'', jn (info_dev_id i)),
      (''ublksrv_pid'', JNum (ublksrv_pid i)), (''pad1'', jn (info_pad1 i)),
      (''flags'', jn (info_flags i)), (''ublksrv_flags'', jn (info_ublksrv_flags i)),
      (''owner_uid'', jn (owner_uid i)), (''owner_gid'', jn (owner_gid i)),
      (''reserved1'', jn (info_reserved1 i)), (''reserved2'', jn (info_reserved2 i))]"

definition dev_info_from_json :: "ublksrv_ctrl_dev_info \<Rightarrow> json \<Rightarrow> ublksrv_ctrl_dev_info option" where
  "dev_info_from_json d j = do {
     a \<leftarrow> jword ''nr_hw_queues'' (nr_hw_queues d) j;
     b \<leftarrow> jword ''queue_depth'' (queue_depth d) j;
     c \<leftarrow> jword ''state'' (info_state d) j;
     e \<leftarrow> jword ''pad0'' (info_pad0 d) j;
     f \<leftarrow> jword ''max_io_buf_bytes'' (max_io_buf_bytes d) j;
     g \<leftarrow> jword ''dev_id'' (info_dev_id d) j;
     h \<leftarrow> jint ''ublksrv_pid'' (ublksrv_pid d) j;
     i \<leftarrow> jword ''pad1'' (info_pad1 d) j;
     k \<leftarrow> jword ''flags'' (info_flags d) j;
     l \<leftarrow> jword ''ublksrv_flags'' (info_ublksrv_flags d) j;
     m \<leftarrow> jword ''owner_uid'' (owner_uid d) j;
     n \<leftarrow> jword ''owner_gid'' (owner_gid d) j;
     p \<leftarrow> jword ''reserved1'' (info_reserved1 d) j;
     q \<leftarrow> jword ''reserved2'' (info_reserved2 d) j;
     Some \<lparr>nr_hw_queues = a, queue_depth = b, info_state = c, info_pad0 = e, max_io_buf_bytes = f,
           info_dev_id = g, ublksrv_pid = h, info_pad1 = i, info_flags = k, info_ublksrv_flags = l,
           owner_uid = m, owner_gid = n, info_reserved1 = p, info_reserved2 = q\<rparr> }"

definition basic_to_json :: "ublk_param_basic \<Rightarrow> json" where
  "basic_to_json b = jobj
     [(''attrs'', jn (pb_attrs b)), (''logical_bs_shift'', jn (pb_logical_bs_shift b)),
      (''physical_bs_shift'', jn (pb_physical_bs_shift b)), (''io_opt_shift'', jn (pb_io_opt_shift b)),
      (''io_min_shift'', jn (pb_io_min_shift b)), (''max_sectors'', jn (pb_max_sectors b)),
      (''chunk_sectors'', jn (pb_chunk_sectors b)), (''dev_sectors'', jn (pb_dev_sectors b)),
      (''virt_boundary_mask'', jn (pb_virt_boundary_mask b))]"

definition basic_from_json :: "ublk_param_basic \<Rightarrow> json \<Rightarrow> ublk_param_basic option" where
  "basic_from_json d j = do {
     a \<leftarrow> jword ''attrs'' (pb_attrs d) j;
     b \<leftarrow> jword ''logical_bs_shift'' (pb_logical_bs_shift d) j;
     c \<leftarrow> jword ''physical_bs_shift'' (pb_physical_bs_shift d) j;
     e \<leftarrow> jword ''io_opt_shift'' (pb_io_opt_shift d) j;
     f \<leftarrow> jword ''io_min_shift'' (pb_io_min_shift d) j;
     g \<leftarrow> jword ''max_sectors'' (pb_max_sectors d) j;
     h \<leftarrow> jword ''chunk_sectors'' (pb_chunk_sectors d) j;
     i \<leftarrow> jword ''dev_sectors'' (pb_dev_sectors d) j;
     k \<leftarrow> jword ''virt_boundary_mask'' (pb_virt_boundary_mask d) j;
     Some \<lparr>pb_attrs = a, pb_logical_bs_shift = b, pb_physical_bs_shift = c, pb_io_opt_shift = e,
           pb_io_min_shift = f, pb_max_sectors = g, pb_chunk_sectors = h, pb_dev_sectors = i,
           pb_virt_boundary_mask = k\<rparr> }"

definition discard_to_json :: "ublk_param_discard \<Rightarrow> json" where
  "discard_to_json b = jobj
     [(''discard_alignment'', jn (pd_alignment b)), (''discard_granularity'', jn (pd_granularity b)),
      (''max_discard_sectors'', jn (pd_max_discard_sectors b)),
      (''max_write_zeroes_sectors'', jn (pd_max_write_zeroes_sectors b)),
      (''max_discard_segments'', jn (pd_max_discard_segments b)), (''reserved0'', jn (pd_reserved0 b))]"

definition discard_from_json :: "ublk_param_discard \<Rightarrow> json \<Rightarrow> ublk_param_discard option" where
  "discard_from_json d j = do {
     a \<leftarrow> jword ''discard_alignment'' (pd_alignment d) j;
     b \<leftarrow> jword ''discard_granularity'' (pd_granularity d) j;
     c \<leftarrow> jword ''max_discard_sectors'' (pd_max_discard_sectors d) j;
     e \<leftarrow> jword ''max_write_zeroes_sectors'' (pd_max_write_zeroes_sectors d) j;
     f \<leftarrow> jword ''max_discard_segments'' (pd_max_discard_segments d) j;
     g \<leftarrow> jword ''reserved0'' (pd_reserved0 d) j;
     Some \<lparr>pd_alignment = a, pd_granularity = b, pd_max_discard_sectors = c,
           pd_max_write_zeroes_sectors = e, pd_max_discard_segments = f, pd_reserved0 = g\<rparr> }"

definition devt_to_json :: "ublk_param_devt \<Rightarrow> json" where
  "devt_to_json b = jobj
     [(''char_major'', jn (pv_char_major b)), (''char_minor'', jn (pv_char_minor b)),
      (''disk_major'', jn (pv_disk_major b)), (''disk_minor'', jn (pv_disk_minor b))]"

definition devt_from_json :: "ublk_param_devt \<Rightarrow> json \<Rightarrow> ublk_param_devt option" where
  "devt_from_json d j = do {
     a \<leftarrow> jword ''char_major'' (pv_char_major d) j;
     b \<leftarrow> jword ''char_minor'' (pv_char_minor d) j;
     c \<leftarrow> jword ''disk_major'' (pv_disk_major d) j;
     e \<leftarrow> jword ''disk_minor'' (pv_disk_minor d) j;
     Some \<lparr>pv_char_major = a, pv_char_minor = b, pv_disk_major = c, pv_disk_minor = e\<rparr> }"

definition zoned_to_json :: "ublk_param_zoned \<Rightarrow> json" where
  "zoned_to_json b = jobj
     [(''max_open_zones'', jn (pz_max_open_zones b)), (''max_active_zones'', jn (pz_max_active_zones b)),
      (''max_zone_append_sectors'', jn (pz_max_zone_append_sectors b)), (''reserved'', jn (pz_reserved b)),
      (''reserved2'', jn (pz_reserved2 b)), (''reserved3'', jn (pz_reserved3 b))]"

definition zoned_from_json :: "ublk_param_zoned \<Rightarrow> json \<Rightarrow> ublk_param_zoned option" where
  "zoned_from_json d j = do {
     a \<leftarrow> jword ''max_open_zones'' (pz_max_open_zones d) j;
     b \<leftarrow> jword ''max_active_zones'' (pz_max_active_zones d) j;
     c \<leftarrow> jword ''max_zone_append_sectors'' (pz_max_zone_append_sectors d) j;
     e \<leftarrow> jword ''reserved'' (pz_reserved d) j;
     f \<leftarrow> jword ''reserved2'' (pz_reserved2 d) j;
     g \<leftarrow> jword ''reserved3'' (pz_reserved3 d) j;
     Some \<lparr>pz_max_open_zones = a, pz_max_active_zones = b, pz_max_zone_append_sectors = c,
           pz_reserved = e, pz_reserved2 = f, pz_reserved3 = g\<rparr> }"

definition dma_to_json :: "ublk_param_dma_align \<Rightarrow> json" where
  "dma_to_json b = jobj [(''alignment'', jn (pa_alignment b)), (''pad'', jn (pa_pad b))]"

definition dma_from_json :: "ublk_param_dma_align \<Rightarrow> json \<Rightarrow> ublk_param_dma_align option" where
  "dma_from_json d j = do {
     a \<leftarrow> jword ''alignment'' (pa_alignment d) j;
     b \<leftarrow> jword ''pad'' (pa_pad d) j;
     Some \<lparr>pa_alignment = a, pa_pad = b\<rparr> }"

definition seg_to_json :: "ublk_param_segment \<Rightarrow> json" where
  "seg_to_json b = jobj
     [(''seg_boundary_mask'', jn (ps_seg_boundary_mask b)), (''max_segment_size'', jn (ps_max_segment_size b)),
      (''max_segments'', jn (ps_max_segments b)), (''pad'', jn (ps_pad b))]"

definition seg_from_json :: "ublk_param_segment \<Rightarrow> json \<Rightarrow> ublk_param_segment option" where
  "seg_from_json d j = do {
     a \<leftarrow> jword ''seg_boundary_mask'' (ps_seg_boundary_mask d) j;
     b \<leftarrow> jword ''max_segment_size'' (ps_max_segment_size d) j;
     c \<leftarrow> jword ''max_segments'' (ps_max_segments d) j;
     e \<leftarrow> jword ''pad'' (ps_pad d) j;
     Some \<lparr>ps_seg_boundary_mask = a, ps_max_segment_size = b, ps_max_segments = c, ps_pad = e\<rparr> }"

text \<open>The padding of the integrity parameters is not written; reading leaves it as it was.\<close>

definition integrity_to_json :: "ublk_param_integrity \<Rightarrow> json" where
  "integrity_to_json b = jobj
     [(''flags'', jn (pi_flags b)), (''max_integrity_segments'', jn (pi_max_integrity_segments b)),
      (''interval_exp'', jn (pi_interval_exp b)), (''metadata_size'', jn (pi_metadata_size b)),
      (''pi_offset'', jn (pi_pi_offset b)), (''csum_type'', jn (pi_csum_type b)),
      (''tag_size'', jn (pi_tag_size b))]"

definition integrity_from_json :: "ublk_param_integrity \<Rightarrow> json \<Rightarrow> ublk_param_integrity option" where
  "integrity_from_json d j = do {
     a \<leftarrow> jword ''flags'' (pi_flags d) j;
     b \<leftarrow> jword ''max_integrity_segments'' (pi_max_integrity_segments d) j;
     c \<leftarrow> jword ''interval_exp'' (pi_interval_exp d) j;
     e \<leftarrow> jword ''metadata_size'' (pi_metadata_size d) j;
     f \<leftarrow> jword ''pi_offset'' (pi_pi_offset d) j;
     g \<leftarrow> jword ''csum_type'' (pi_csum_type d) j;
     h \<leftarrow> jword ''tag_size'' (pi_tag_size d) j;
     Some \<lparr>pi_flags = a, pi_max_integrity_segments = b, pi_interval_exp = c, pi_metadata_size = e,
           pi_pi_offset = f, pi_csum_type = g, pi_tag_size = h, pi_pad = pi_pad d\<rparr> }"

definition params_to_json :: "ublk_params \<Rightarrow> json" where
  "params_to_json p = jobj
     [(''len'', jn (p_len p)), (''types'', jn (p_types p)), (''basic'', basic_to_json (p_basic p)),
      (''discard'', discard_to_json (p_discard p)), (''devt'', devt_to_json (p_devt p)),
      (''zoned'', zoned_to_json (p_zoned p)), (''dma'', dma_to_json (p_dma p)),
      (''seg'', seg_to_json (p_seg p)), (''integrity'', integrity_to_json (p_integrity p))]"

definition params_from_json :: "ublk_params \<Rightarrow> json \<Rightarrow> ublk_params option" where
  "params_from_json d j = do {
     a \<leftarrow> jword ''len'' (p_len d) j;
     b \<leftarrow> jword ''types'' (p_types d) j;
     c \<leftarrow> jsub ''basic'' (p_basic d) (basic_from_json (p_basic d)) j;
     e \<leftarrow> jsub ''discard'' (p_discard d) (discard_from_json (p_discard d)) j;
     f \<leftarrow> jsub ''devt'' (p_devt d) (devt_from_json (p_devt d)) j;
     g \<leftarrow> jsub ''zoned'' (p_zoned d) (zoned_from_json (p_zoned d)) j;
     h \<leftarrow> jsub ''dma'' (p_dma d) (dma_from_json (p_dma d)) j;
     i \<leftarrow> jsub ''seg'' (p_seg d) (seg_from_json (p_seg d)) j;
     k \<leftarrow> jsub ''integrity'' (p_integrity d) (integrity_from_json (p_integrity d)) j;
     Some \<lparr>p_len = a, p_types = b, p_basic = c, p_discard = e, p_devt = f, p_zoned = g, p_dma = h,
           p_seg = i, p_integrity = k\<rparr> }"

section \<open>Writing and reading a text\<close>

text \<open>
  A text buffer is an optional text (no text: nothing that parses, as in freshly allocated memory).
  The functions return the C result and the text, or nothing when the library throws.
\<close>

definition parse_json :: "'s json_lib \<Rightarrow> 's option \<Rightarrow> json option" where
  "parse_json J jbuf = (case jbuf of None \<Rightarrow> None | Some s \<Rightarrow> json_parse J s)"

definition dump_json_to_buf :: "'s json_lib \<Rightarrow> json \<Rightarrow> 's option \<Rightarrow> int \<Rightarrow> int \<times> 's option" where
  "dump_json_to_buf J j jbuf len =
     (let s = json_dump J j in
      if int (json_len J s) < len then (int (json_len J s), Some s) else (- EINVAL, jbuf))"

text \<open>The shape shared by the writers: parse, change the value, print.\<close>

definition json_update ::
  "'s json_lib \<Rightarrow> (json \<Rightarrow> json option) \<Rightarrow> 's option \<Rightarrow> int \<Rightarrow> (int \<times> 's option) option" where
  "json_update J f jbuf len = (case parse_json J jbuf of
     None \<Rightarrow> Some (- EINVAL, jbuf)
   | Some j \<Rightarrow> map_option (\<lambda>j'. dump_json_to_buf J j' jbuf len) (f j))"

definition ublksrv_json_write_dev_info ::
  "'s json_lib \<Rightarrow> ublksrv_ctrl_dev_info \<Rightarrow> 's option \<Rightarrow> int \<Rightarrow> (int \<times> 's option) option" where
  "ublksrv_json_write_dev_info J info jbuf len =
     Some (dump_json_to_buf J (JObj [(''dev_info'', dev_info_to_json info)]) jbuf len)"

definition ublksrv_json_read_dev_info ::
  "'s json_lib \<Rightarrow> 's option \<Rightarrow> ublksrv_ctrl_dev_info \<Rightarrow> (int \<times> ublksrv_ctrl_dev_info) option" where
  "ublksrv_json_read_dev_info J jbuf info = (case parse_json J jbuf of
     None \<Rightarrow> Some (- EINVAL, info)
   | Some j \<Rightarrow> (case jget ''dev_info'' j of None \<Rightarrow> Some (- EINVAL, info)
       | Some sj \<Rightarrow> map_option (Pair 0) (dev_info_from_json info sj)))"

definition ublksrv_json_write_params ::
  "'s json_lib \<Rightarrow> ublk_params \<Rightarrow> 's option \<Rightarrow> int \<Rightarrow> (int \<times> 's option) option" where
  "ublksrv_json_write_params J p = json_update J (jset ''params'' (params_to_json p))"

definition ublksrv_json_read_params ::
  "'s json_lib \<Rightarrow> ublk_params \<Rightarrow> 's option \<Rightarrow> (int \<times> ublk_params) option" where
  "ublksrv_json_read_params J p jbuf = (case parse_json J jbuf of
     None \<Rightarrow> Some (- EINVAL, p)
   | Some j \<Rightarrow> (case jget ''params'' j of None \<Rightarrow> Some (- EINVAL, p)
       | Some sj \<Rightarrow> map_option (Pair 0) (params_from_json p sj)))"

definition ublksrv_json_read_target_str_info ::
  "'s json_lib \<Rightarrow> 's option \<Rightarrow> nat \<Rightarrow> string \<Rightarrow> string \<Rightarrow> (int \<times> string) option" where
  "ublksrv_json_read_target_str_info J jbuf len name val = (case parse_json J jbuf of
     None \<Rightarrow> Some (- EINVAL, val)
   | Some j \<Rightarrow> (case jget ''target'' j of None \<Rightarrow> Some (- EINVAL, val)
       | Some tj \<Rightarrow> (case jget name tj of None \<Rightarrow> Some (- EINVAL, val)
           | Some v \<Rightarrow> map_option (\<lambda>str. if length str < len then (0, str) else (- EINVAL, val)) (as_str v))))"

definition ublksrv_json_read_target_ulong_info ::
  "'s json_lib \<Rightarrow> 's option \<Rightarrow> string \<Rightarrow> u64 \<Rightarrow> (int \<times> u64) option" where
  "ublksrv_json_read_target_ulong_info J jbuf name val = (case parse_json J jbuf of
     None \<Rightarrow> Some (- EINVAL, val)
   | Some j \<Rightarrow> (case jget ''target'' j of None \<Rightarrow> Some (- EINVAL, val)
       | Some tj \<Rightarrow> (case jget name tj of None \<Rightarrow> Some (- EINVAL, val)
           | Some v \<Rightarrow> map_option (\<lambda>i. (0, word_of_int i)) (as_num v))))"

definition ublksrv_json_write_target_str_info ::
  "'s json_lib \<Rightarrow> string \<Rightarrow> string \<Rightarrow> 's option \<Rightarrow> int \<Rightarrow> (int \<times> 's option) option" where
  "ublksrv_json_write_target_str_info J name val = json_update J (jset2 ''target'' name (JStr val))"

definition ublksrv_json_write_target_long_info ::
  "'s json_lib \<Rightarrow> string \<Rightarrow> int \<Rightarrow> 's option \<Rightarrow> int \<Rightarrow> (int \<times> 's option) option" where
  "ublksrv_json_write_target_long_info J name val = json_update J (jset2 ''target'' name (JNum val))"

definition ublksrv_json_write_target_ulong_info ::
  "'s json_lib \<Rightarrow> string \<Rightarrow> u64 \<Rightarrow> 's option \<Rightarrow> int \<Rightarrow> (int \<times> 's option) option" where
  "ublksrv_json_write_target_ulong_info J name val = json_update J (jset2 ''target'' name (jn val))"

definition ublksrv_json_write_target_base_info ::
  "'s json_lib \<Rightarrow> ublksrv_tgt_base_json \<Rightarrow> 's option \<Rightarrow> int \<Rightarrow> (int \<times> 's option) option" where
  "ublksrv_json_write_target_base_info J tgt = json_update J (\<lambda>j. do {
     j1 \<leftarrow> jset2 ''target'' ''name'' (JStr (tj_name tgt)) j;
     j2 \<leftarrow> jset2 ''target'' ''type'' (JNum (tj_type tgt)) j1;
     jset2 ''target'' ''dev_size'' (jn (tj_dev_size tgt)) j2 })"

definition ublksrv_json_read_target_base_info ::
  "'s json_lib \<Rightarrow> 's option \<Rightarrow> ublksrv_tgt_base_json \<Rightarrow> (int \<times> ublksrv_tgt_base_json) option" where
  "ublksrv_json_read_target_base_info J jbuf tgt = (case parse_json J jbuf of
     None \<Rightarrow> Some (- EINVAL, tgt)
   | Some j \<Rightarrow> (case jget ''target'' j of None \<Rightarrow> Some (- EINVAL, tgt)
       | Some tj \<Rightarrow> (case (jget ''name'' tj, jget ''type'' tj, jget ''dev_size'' tj) of
           (Some vn, Some vt, Some vd) \<Rightarrow> do {
             str \<leftarrow> as_str vn;
             if length str \<ge> UBLKSRV_TGT_NAME_MAX_LEN then Some (- EINVAL, tgt)
             else do {
               t \<leftarrow> as_num vt;
               d \<leftarrow> as_num vd;
               Some (0, tgt\<lparr>tj_name := str, tj_type := t, tj_dev_size := word_of_int d\<rparr>) } }
         | _ \<Rightarrow> Some (- EINVAL, tgt))))"

text \<open>The result is the text of the target part, when there is one.\<close>

definition ublksrv_json_read_target_info ::
  "'s json_lib \<Rightarrow> 's option \<Rightarrow> 's option \<Rightarrow> int \<Rightarrow> int \<times> 's option" where
  "ublksrv_json_read_target_info J jbuf tgt_buf len = (case parse_json J jbuf of
     None \<Rightarrow> (- EINVAL, tgt_buf)
   | Some j \<Rightarrow> (case jget ''target'' j of None \<Rightarrow> (0, tgt_buf)
       | Some tj \<Rightarrow> dump_json_to_buf J tj tgt_buf len))"

text \<open>\<open>cpus\<close> is the text \<open>ublksrv_build_cpu_str\<close> made of the affinity of the queue.\<close>

definition ublksrv_json_write_queue_info ::
  "'s json_lib \<Rightarrow> nat \<Rightarrow> int \<Rightarrow> string \<Rightarrow> 's option \<Rightarrow> int \<Rightarrow> (int \<times> 's option) option" where
  "ublksrv_json_write_queue_info J qid tid cpus = json_update J (\<lambda>j. do {
     q1 \<leftarrow> jset2 (dec_string qid) ''qid'' (JNum (int qid)) (case jget ''queues'' j of None \<Rightarrow> JNull | Some q \<Rightarrow> q);
     q2 \<leftarrow> jset2 (dec_string qid) ''tid'' (JNum tid) q1;
     q3 \<leftarrow> jset2 (dec_string qid) ''affinity'' (JStr cpus) q2;
     jset ''queues'' q3 j })"

definition ublksrv_json_read_queue_info ::
  "'s json_lib \<Rightarrow> 's option \<Rightarrow> nat \<Rightarrow> nat \<Rightarrow> string \<Rightarrow> (int \<times> int \<times> string) option" where
  "ublksrv_json_read_queue_info J jbuf qid len affinity_buf = (case parse_json J jbuf of
     None \<Rightarrow> Some (- EINVAL, 0, affinity_buf)
   | Some j \<Rightarrow> do {
       qs \<leftarrow> jget ''queues'' j;
       qj \<leftarrow> jget (dec_string qid) qs;
       vt \<leftarrow> jget ''tid'' qj;
       tid \<leftarrow> as_num vt;
       va \<leftarrow> jget ''affinity'' qj;
       str \<leftarrow> as_str va;
       Some (if length str < len then (0, tid, str) else (- EINVAL, tid, affinity_buf)) })"

section \<open>The buffer of the control device\<close>

text \<open>
  \<open>jb_ptr\<close> tells whether the pointer is set, \<open>jb_size\<close> is the field \<open>jbuf_size\<close>, and \<open>jb_alloc\<close> is
  the size that was last passed to \<open>realloc\<close>.
\<close>

abbreviation (input) "UBLK_TGT_MAX_JBUF_SZ \<equiv> (8192::int)"

record 's ublksrv_tgt_jbuf =
  jb_ptr :: bool
  jb_text :: "'s option"
  jb_size :: int
  jb_alloc :: int

definition tgt_realloc_jbuf :: "'s ublksrv_tgt_jbuf \<Rightarrow> bool \<times> 's ublksrv_tgt_jbuf" where
  "tgt_realloc_jbuf j =
     (let j1 = j\<lparr>jb_size := if \<not> jb_ptr j then 512 else jb_size j + 512\<rparr> in
      if jb_size j1 < UBLK_TGT_MAX_JBUF_SZ then (True, j1\<lparr>jb_ptr := True, jb_alloc := jb_size j1\<rparr>)
      else (False, j1))"

text \<open>\<open>saved\<close> is the text recovery found in the pid file.\<close>

definition ublksrv_tgt_jbuf_init ::
  "'s json_lib \<Rightarrow> 's option \<Rightarrow> bool \<Rightarrow> 's ublksrv_tgt_jbuf \<Rightarrow> 's ublksrv_tgt_jbuf" where
  "ublksrv_tgt_jbuf_init J saved recover j =
     (if recover then
        (case saved of None \<Rightarrow> j\<lparr>jb_ptr := False, jb_text := None\<rparr>
         | Some s \<Rightarrow> j\<lparr>jb_ptr := True, jb_text := Some s, jb_size := int (json_len J s) + 1,
                       jb_alloc := int (json_len J s) + 1\<rparr>)
      else snd (tgt_realloc_jbuf (j\<lparr>jb_ptr := False, jb_text := None, jb_size := 0\<rparr>)))"

text \<open>The loop \<open>do { ret = write(...) } while (ret < 0 && tgt_realloc_jbuf(j))\<close> of the writers.\<close>

function json_retry ::
  "('s option \<Rightarrow> int \<Rightarrow> (int \<times> 's option) option) \<Rightarrow> 's ublksrv_tgt_jbuf \<Rightarrow>
     (int \<times> 's ublksrv_tgt_jbuf) option" where
  "json_retry write j =
     (case write (jb_text j) (jb_size j) of
        None \<Rightarrow> None
      | Some (ret, txt) \<Rightarrow>
          if ret < 0 then
            (let (more, j1) = tgt_realloc_jbuf (j\<lparr>jb_text := txt\<rparr>)
             in if more then json_retry write j1 else Some (ret, j1))
          else Some (ret, j\<lparr>jb_text := txt\<rparr>))"
  by pat_completeness auto
termination
  by (relation "measure (\<lambda>(write, j). nat (UBLK_TGT_MAX_JBUF_SZ - jb_size j) + (if jb_ptr j then 0 else 10000))")
     (auto simp: tgt_realloc_jbuf_def Let_def split: if_splits)

declare json_retry.simps [simp del]

definition ublk_json_write_dev_info where
  "ublk_json_write_dev_info J info = json_retry (ublksrv_json_write_dev_info J info)"

definition ublk_json_write_params where
  "ublk_json_write_params J p = json_retry (ublksrv_json_write_params J p)"

definition ublk_json_read_params where
  "ublk_json_read_params J p j = ublksrv_json_read_params J p (jb_text j)"

definition ublk_json_read_target_str_info where
  "ublk_json_read_target_str_info J j name val =
     ublksrv_json_read_target_str_info J (jb_text j) (nat (jb_size j)) name val"

definition ublk_json_read_target_ulong_info where
  "ublk_json_read_target_ulong_info J j name val = ublksrv_json_read_target_ulong_info J (jb_text j) name val"

definition ublk_json_write_tgt_str where
  "ublk_json_write_tgt_str J name val = (case val of None \<Rightarrow> (\<lambda>j. Some (0, j))
     | Some v \<Rightarrow> json_retry (ublksrv_json_write_target_str_info J name v))"

definition ublk_json_write_tgt_long where
  "ublk_json_write_tgt_long J name val = json_retry (ublksrv_json_write_target_long_info J name val)"

definition ublk_json_write_tgt_ulong where
  "ublk_json_write_tgt_ulong J name val = json_retry (ublksrv_json_write_target_ulong_info J name val)"

definition ublk_json_write_target_base where
  "ublk_json_write_target_base J tgt = json_retry (ublksrv_json_write_target_base_info J tgt)"

definition ublk_json_write_queue_info where
  "ublk_json_write_queue_info J qid tid cpus = json_retry (ublksrv_json_write_queue_info J qid tid cpus)"

section \<open>Lemmas\<close>

subsection \<open>Objects\<close>

lemma map_of_jput [simp]: "map_of (jput k v r) = (map_of r)(k \<mapsto> v)"
  by (induction k v r rule: jput.induct) (auto simp: fun_eq_iff)

lemma jput_keys: "fst ` set (jput k v r) = insert k (fst ` set r)"
  by (induction k v r rule: jput.induct) auto

lemma jput_set: "set (jput k v r) \<subseteq> insert (k, v) (set r)"
  by (induction k v r rule: jput.induct) auto

lemma jput_sorted: "sorted_wrt (<) (map fst r) \<Longrightarrow> sorted_wrt (<) (map fst (jput k v r))"
proof (induction k v r rule: jput.induct)
  case (2 k v k' v' r)
  consider "k = k'" | "k < k'" | "k' < k" by (metis linorder_less_linear)
  then show ?case
  proof cases
    case 3
    have "k' < fst x" if "x \<in> set (jput k v r)" for x
    proof -
      have "fst x \<in> insert k (fst ` set r)" using that jput_keys [of k v r] by blast
      then show ?thesis using 2(2) 3 by auto
    qed
    then show ?thesis using 2 3 by auto
  next
    case 2
    then show ?thesis using \<open>sorted_wrt (<) (map fst ((k', v') # r))\<close> by (auto intro: less_trans)
  qed (use 2 in auto)
qed simp

lemma jput_wf:
  assumes "json_wf (JObj r)" "ascii k" "json_wf v"
  shows "json_wf (JObj (jput k v r))"
  using assms jput_set [of k v r] jput_sorted [of r k v] by auto

lemma fold_jput_wf:
  "json_wf (JObj r) \<Longrightarrow> \<forall>kv\<in>set kvs. ascii (fst kv) \<and> json_wf (snd kv) \<Longrightarrow>
   json_wf (JObj (fold (\<lambda>(k, v). jput k v) kvs r))"
proof (induction kvs arbitrary: r)
  case (Cons a kvs)
  have "json_wf (JObj (jput (fst a) (snd a) r))" 
    by (rule jput_wf [OF Cons.prems(1)]) (use Cons.prems(2) in simp_all)
  from Cons.IH [OF this] Cons.prems(2) show ?case by (simp add: case_prod_beta del: json_wf.simps)
qed simp

lemma jobj_wf: "\<forall>kv\<in>set kvs. ascii (fst kv) \<and> json_wf (snd kv) \<Longrightarrow> json_wf (jobj kvs)"
  unfolding jobj_def by (rule fold_jput_wf) simp

lemma jn_wf: "LENGTH('a) \<le> 64 \<Longrightarrow> json_wf (jn (w :: 'a::len word))"
proof -
  assume h: "LENGTH('a) \<le> 64"
  have "uint w < 2 ^ LENGTH('a)" by simp
  also have "(2::int) ^ LENGTH('a) \<le> 2 ^ 64" using h by (intro power_increasing) auto
  finally show ?thesis by (simp add: order_trans [OF _ uint_nonnegative])
qed

lemma jset_wf:
  assumes "json_wf j" "ascii k" "json_wf v" "jset k v j = Some j'"
  shows "json_wf j'"
proof (cases j)
  case (JObj kvs)
  then show ?thesis using jput_wf [of kvs k v] assms by (simp add: jset_def del: json_wf.simps)
qed (use assms in \<open>auto simp: jset_def\<close>)

lemma jget_wf: "json_wf j \<Longrightarrow> jget k j = Some v \<Longrightarrow> json_wf v"
  by (fastforce simp: jget_def split: json.splits dest: map_of_SomeD)

lemma jset2_wf:
  assumes "json_wf j" "ascii k1" "ascii k2" "json_wf v" "jset2 k1 k2 v j = Some j'"
  shows "json_wf j'"
proof -
  obtain i where i: "jset k2 v (case jget k1 j of None \<Rightarrow> JNull | Some i \<Rightarrow> i) = Some i" "jset k1 i j = Some j'"
    using assms(5) by (auto simp: jset2_def split: Option.bind_splits)
  have "json_wf (case jget k1 j of None \<Rightarrow> JNull | Some i \<Rightarrow> i)"
    using jget_wf [OF assms(1)] by (auto split: option.splits)
  from jset_wf [OF this assms(3,4) i(1)] show ?thesis using jset_wf [OF assms(1,2) _ i(2)] by simp
qed

lemma jset_get: "jset k v j = Some j' \<Longrightarrow> jget k' j' = (if k' = k then Some v else jget k' j)"
  by (auto simp: jset_def jget_def split: json.splits)

lemma jset2_get:
  assumes "jset2 k1 k2 v j = Some j'"
  shows "\<exists>i. jget k1 j' = Some i \<and> jget k2 i = Some v \<and>
     (\<forall>k. k \<noteq> k2 \<longrightarrow> jget k i = (case jget k1 j of None \<Rightarrow> None | Some i0 \<Rightarrow> jget k i0)) \<and>
     (\<forall>k. k \<noteq> k1 \<longrightarrow> jget k j' = jget k j)"
proof -
  obtain i where i: "jset k2 v (case jget k1 j of None \<Rightarrow> JNull | Some i \<Rightarrow> i) = Some i" "jset k1 i j = Some j'"
    using assms by (auto simp: jset2_def split: Option.bind_splits)
  have n: "jget k JNull = None" for k by (simp add: jget_def)
  show ?thesis
    using jset_get [OF i(1)] jset_get [OF i(2)] by (intro exI [of _ i]) (auto simp: n split: option.splits)
qed

subsection \<open>Structures survive the conversion\<close>

lemma map_of_fold_jput: "map_of (fold (\<lambda>(k, v). jput k v) kvs r) = map_of r ++ map_of (rev kvs)"
proof (induction kvs arbitrary: r)
  case (Cons a kvs)
  then show ?case by (cases a) (simp add: map_add_upd_left fun_eq_iff map_add_def split: option.splits)
qed simp

lemma struct_conv:
  "jword k d (jobj kvs) = (case map_of (rev kvs) k of None \<Rightarrow> Some d | Some (JNum i) \<Rightarrow> Some (word_of_int i) | _ \<Rightarrow> None)"
  "jint k e (jobj kvs) = (case map_of (rev kvs) k of None \<Rightarrow> Some e | Some (JNum i) \<Rightarrow> Some i | _ \<Rightarrow> None)"
  "jsub k x conv (jobj kvs) = (case map_of (rev kvs) k of None \<Rightarrow> Some x | Some v \<Rightarrow> conv v)"
  by (simp_all add: jword_def jint_def jsub_def jobj_def map_of_fold_jput)

lemma dev_info_conv [simp]: "dev_info_from_json d (dev_info_to_json i) = Some i"
  by (simp add: dev_info_from_json_def dev_info_to_json_def struct_conv)

lemma basic_conv [simp]: "basic_from_json d (basic_to_json b) = Some b"
  by (simp add: basic_from_json_def basic_to_json_def struct_conv)

lemma discard_conv [simp]: "discard_from_json d (discard_to_json b) = Some b"
  by (simp add: discard_from_json_def discard_to_json_def struct_conv)

lemma devt_conv [simp]: "devt_from_json d (devt_to_json b) = Some b"
  by (simp add: devt_from_json_def devt_to_json_def struct_conv)

lemma zoned_conv [simp]: "zoned_from_json d (zoned_to_json b) = Some b"
  by (simp add: zoned_from_json_def zoned_to_json_def struct_conv)

lemma dma_conv [simp]: "dma_from_json d (dma_to_json b) = Some b"
  by (simp add: dma_from_json_def dma_to_json_def struct_conv)

lemma seg_conv [simp]: "seg_from_json d (seg_to_json b) = Some b"
  by (simp add: seg_from_json_def seg_to_json_def struct_conv)

lemma integrity_conv [simp]: "integrity_from_json d (integrity_to_json b) = Some (b\<lparr>pi_pad := pi_pad d\<rparr>)"
  by (simp add: integrity_from_json_def integrity_to_json_def struct_conv)

lemma params_conv:
  "params_from_json d (params_to_json p)
     = Some (p\<lparr>p_integrity := (p_integrity p)\<lparr>pi_pad := pi_pad (p_integrity d)\<rparr>\<rparr>)"
  by (simp add: params_from_json_def params_to_json_def struct_conv)

lemma params_wf: "json_wf (params_to_json p)"
proof -
  have "json_wf (basic_to_json (p_basic p))" "json_wf (discard_to_json (p_discard p))"
    "json_wf (devt_to_json (p_devt p))" "json_wf (zoned_to_json (p_zoned p))" "json_wf (dma_to_json (p_dma p))"
    "json_wf (seg_to_json (p_seg p))" "json_wf (integrity_to_json (p_integrity p))"
    unfolding basic_to_json_def discard_to_json_def devt_to_json_def zoned_to_json_def dma_to_json_def
      seg_to_json_def integrity_to_json_def
    by (rule jobj_wf, simp add: ascii_def jn_wf del: json_wf.simps)+
  then show ?thesis
    unfolding params_to_json_def by (intro jobj_wf) (simp add: ascii_def jn_wf del: json_wf.simps)
qed

subsection \<open>Writers\<close>

lemma dump_ok:
  assumes "dump_json_to_buf J j buf len = (ret, buf')" "0 \<le> ret" "json_lib_ok J" "json_wf j"
  shows "parse_json J buf' = Some j"
  using assms by (auto simp: dump_json_to_buf_def Let_def parse_json_def json_lib_ok_def split: if_splits)

lemma json_update_ok:
  assumes "json_update J f buf len = Some (ret, buf')" "0 \<le> ret" "json_lib_ok J"
    and "parse_json J buf = Some j" "\<And>j'. f j = Some j' \<Longrightarrow> json_wf j'"
  shows "\<exists>j'. f j = Some j' \<and> parse_json J buf' = Some j'"
proof -
  obtain j' where "f j = Some j'" "dump_json_to_buf J j' buf len = (ret, buf')"
    using assms(1,4) by (auto simp: json_update_def)
  then show ?thesis using dump_ok [OF _ assms(2,3)] assms(5) by blast
qed

text \<open>Reading depends on the parsed value only, and on the entry that is read.\<close>

lemma read_cong:
  assumes "parse_json J b = Some j" "parse_json J b' = Some j'"
  shows "jget ''params'' j = jget ''params'' j' \<Longrightarrow> ublksrv_json_read_params J p b = ublksrv_json_read_params J p b'"
    and "jget ''dev_info'' j = jget ''dev_info'' j' \<Longrightarrow> ublksrv_json_read_dev_info J b i = ublksrv_json_read_dev_info J b' i"
    and "jget ''target'' j = jget ''target'' j' \<Longrightarrow> ublksrv_json_read_target_base_info J b t = ublksrv_json_read_target_base_info J b' t"
    and "jget ''target'' j = jget ''target'' j' \<Longrightarrow> ublksrv_json_read_target_str_info J b n nm v = ublksrv_json_read_target_str_info J b' n nm v"
    and "jget ''target'' j = jget ''target'' j' \<Longrightarrow> ublksrv_json_read_target_ulong_info J b nm u = ublksrv_json_read_target_ulong_info J b' nm u"
  using assms by (simp_all add: ublksrv_json_read_params_def ublksrv_json_read_dev_info_def
      ublksrv_json_read_target_base_info_def ublksrv_json_read_target_str_info_def
      ublksrv_json_read_target_ulong_info_def)

lemma json_wf_num: "- (2 ^ 63) \<le> i \<Longrightarrow> i < 2 ^ 64 \<Longrightarrow> json_wf (JNum i)"
  by simp

subsection \<open>The retry loop\<close>

lemma json_retry_fail:
  "json_retry w j = Some (ret, j1) \<Longrightarrow> ret < 0 \<Longrightarrow> jb_ptr j \<Longrightarrow> jb_alloc j = jb_size j \<Longrightarrow>
   jb_alloc j1 < jb_size j1 \<and> UBLK_TGT_MAX_JBUF_SZ \<le> jb_size j1"
proof (induction w j rule: json_retry.induct)
  case (1 w j)
  obtain r t where w: "w (jb_text j) (jb_size j) = Some (r, t)"
    using 1(2) by (subst (asm) json_retry.simps) (auto split: option.splits)
  have r: "r < 0" using 1(2,3) w by (subst (asm) json_retry.simps) (auto split: if_splits)
  obtain more j2 where g: "tgt_realloc_jbuf (j\<lparr>jb_text := t\<rparr>) = (more, j2)" by fastforce
  show ?case
  proof (cases more)
    case True
    then have "json_retry w j2 = Some (ret, j1)" using 1(2) w r g by (subst (asm) json_retry.simps) simp
    moreover have "jb_ptr j2" "jb_alloc j2 = jb_size j2"
      using g True by (auto simp: tgt_realloc_jbuf_def Let_def split: if_splits)
    ultimately show ?thesis
      using 1(1) [OF w refl r, of "(more, j2)" more j2] g True 1(3) by simp
  next
    case False
    then have "j1 = j2" using 1(2) w r g by (subst (asm) json_retry.simps) simp
    then show ?thesis using g False 1(4,5) by (auto simp: tgt_realloc_jbuf_def Let_def split: if_splits)
  qed
qed

text \<open>A writer of the text \<open>s\<close>: it fails exactly when the text does not fit.\<close>

definition writes :: "'s json_lib \<Rightarrow> 's \<Rightarrow> ('s option \<Rightarrow> int \<Rightarrow> (int \<times> 's option) option) \<Rightarrow> 's option \<Rightarrow> bool" where
  "writes J s w txt \<longleftrightarrow> (\<forall>len. w txt len =
     Some (if int (json_len J s) < len then (int (json_len J s), Some s) else (- EINVAL, txt)))"

lemma json_retry_ok:
  assumes "writes J s w (jb_text j)" "json_len J s < 7680" "jb_ptr j" "jb_alloc j = jb_size j"
    and "jb_size j \<le> 7680" "512 dvd jb_size j"
  shows "\<exists>j1. json_retry w j = Some (int (json_len J s), j1) \<and> jb_text j1 = Some s \<and>
     int (json_len J s) < jb_alloc j1 \<and> jb_alloc j1 = jb_size j1 \<and> jb_size j1 \<le> 7680"
  using assms
proof (induction w j rule: json_retry.induct)
  case (1 w j)
  show ?case
  proof (cases "int (json_len J s) < jb_size j")
    case True
    then show ?thesis using 1 by (simp add: json_retry.simps [of w j] writes_def)
  next
    case False
    have w: "w (jb_text j) (jb_size j) = Some (- EINVAL, jb_text j)" using 1(2) False by (simp add: writes_def)
    let ?j = "j\<lparr>jb_size := jb_size j + 512, jb_alloc := jb_size j + 512\<rparr>"
    have "jb_size j < 7680" using False 1(3) by linarith
    then have "jb_size j + 512 \<le> 7680" using 1(7) by (auto elim!: dvdE)
    then have g: "tgt_realloc_jbuf (j\<lparr>jb_text := jb_text j\<rparr>) = (True, ?j)"
      using 1(4) by (simp add: tgt_realloc_jbuf_def Let_def)
    have "json_retry w j = json_retry w ?j" using w g by (simp add: json_retry.simps [of w j])
    moreover have "\<exists>j1. json_retry w ?j = Some (int (json_len J s), j1) \<and> jb_text j1 = Some s \<and>
      int (json_len J s) < jb_alloc j1 \<and> jb_alloc j1 = jb_size j1 \<and> jb_size j1 \<le> 7680"
      using 1(2,3,4,7) \<open>jb_size j + 512 \<le> 7680\<close>
      by (intro 1(1) [OF w refl _ g [symmetric] refl]) simp_all
    ultimately show ?thesis by simp
  qed
qed

section \<open>A library for concrete runs\<close>

text \<open>Texts are the values themselves, all of the length given.\<close>

definition plain_json :: "nat \<Rightarrow> json json_lib" where
  "plain_json n = \<lparr>json_parse = Some, json_dump = (\<lambda>j. j), json_len = (\<lambda>_. n)\<rparr>"

lemma plain_json_ok: "json_lib_ok (plain_json n)"
  by (simp add: json_lib_ok_def plain_json_def)

section \<open>Properties\<close>



text \<open>A string of the target description that is written to the json text is read back, unless
  it is as long as the reader's limit (then the reader reports -EINVAL and leaves its argument), and
  the other entries of the target, the parameters and the device information stay as they were.\<close>

theorem json_target_str_roundtrip:
  assumes J: "json_lib_ok J" and b: "parse_json J buf = Some j" "json_wf j" "ascii name" "ascii val"
    and w: "ublksrv_json_write_target_str_info J name val buf len = Some (ret, buf')" "0 \<le> ret"
  shows "ublksrv_json_read_target_str_info J buf' n name v0
           = Some (if length val < n then (0, val) else (- EINVAL, v0)) \<and>
         (other \<noteq> name \<longrightarrow> ublksrv_json_read_target_str_info J buf' n other v0
            = (case jget ''target'' j of None \<Rightarrow> Some (- EINVAL, v0)
               | Some _ \<Rightarrow> ublksrv_json_read_target_str_info J buf n other v0)) \<and>
         ublksrv_json_read_params J p buf' = ublksrv_json_read_params J p buf \<and>
         ublksrv_json_read_dev_info J buf' info = ublksrv_json_read_dev_info J buf info"
proof -
  have wf: "json_wf j'" if "jset2 ''target'' name (JStr val) j = Some j'" for j'
    using jset2_wf [OF b(2) _ b(3) _ that] b(4) by (simp add: ascii_def)
  obtain j' where j': "jset2 ''target'' name (JStr val) j = Some j'" "parse_json J buf' = Some j'"
    using json_update_ok [OF w(1) [unfolded ublksrv_json_write_target_str_info_def] w(2) J b(1) wf] by blast
  obtain i where i: "jget ''target'' j' = Some i" "jget name i = Some (JStr val)"
      "\<forall>k. k \<noteq> name \<longrightarrow> jget k i = (case jget ''target'' j of None \<Rightarrow> None | Some i0 \<Rightarrow> jget k i0)"
      "\<forall>k. k \<noteq> ''target'' \<longrightarrow> jget k j' = jget k j"
    using jset2_get [OF j'(1)] by blast
  show ?thesis
    using i j'(2) b(1) read_cong(1,2) [OF j'(2) b(1)]
    by (auto simp: ublksrv_json_read_target_str_info_def as_str_def split: option.splits)
qed

theorem json_target_str_roundtrip_witness:
  "ublksrv_json_read_target_str_info (plain_json 100)
     (snd (the (ublksrv_json_write_target_str_info (plain_json 100) ''backing_file'' ''/img'' (Some (JObj [])) 512)))
     4096 ''backing_file'' [] = Some (0, ''/img'')"
proof -
  let ?b = "Some (JObj [(''target'', JObj [(''backing_file'', JStr ''/img'')])])"
  have w: "ublksrv_json_write_target_str_info (plain_json 100) ''backing_file'' ''/img'' (Some (JObj [])) 512
      = Some (100, ?b)"
    by (simp add: ublksrv_json_write_target_str_info_def json_update_def parse_json_def plain_json_def jset2_def
        jset_def jget_def dump_json_to_buf_def Let_def)
  have "parse_json (plain_json 100) (Some (JObj [])) = Some (JObj [])" "json_wf (JObj [])"
    "ascii ''backing_file''" "ascii ''/img''"
    by (simp_all add: parse_json_def plain_json_def ascii_def)
  from json_target_str_roundtrip [OF plain_json_ok this w, of 4096 "[]"] show ?thesis unfolding w by simp
qed

text \<open>A device description that fits the largest buffer is always stored: from a buffer whose size
  is a multiple of 512, the parameters are written, the buffer grown as needed, whenever the printed
  text is shorter than 7680 bytes, and the text with its null character then fits the memory that was
  allocated.\<close>

theorem json_write_params_grows:
  assumes "json_parse J t = Some (JObj kvs)" "jb_text j = Some t" "jb_ptr j" "jb_alloc j = jb_size j"
    and "jb_size j \<le> 7680" "512 dvd jb_size j"
    and "s = json_dump J (JObj (jput ''params'' (params_to_json p) kvs))" "json_len J s < 7680"
  shows "\<exists>j1. ublk_json_write_params J p j = Some (int (json_len J s), j1) \<and> jb_text j1 = Some s \<and>
           int (json_len J s) < jb_alloc j1"
proof -
  have "writes J s (ublksrv_json_write_params J p) (jb_text j)"
    using assms(1,2,7) by (simp add: writes_def ublksrv_json_write_params_def json_update_def parse_json_def
        jset_def dump_json_to_buf_def Let_def)
  from json_retry_ok [OF this assms(8,3,4,5,6)] show ?thesis
    unfolding ublk_json_write_params_def by blast
qed

theorem json_write_params_grows_witness:
  "\<exists>j1. ublk_json_write_params (plain_json 3000) zero_params
      \<lparr>jb_ptr = True, jb_text = Some (JObj []), jb_size = 512, jb_alloc = 512\<rparr> = Some (3000, j1) \<and> 3000 < jb_alloc j1"
  using json_write_params_grows [of "plain_json 3000" "JObj []" "[]"
      "\<lparr>jb_ptr = True, jb_text = Some (JObj []), jb_size = 512, jb_alloc = 512\<rparr>"
      "JObj (jput ''params'' (params_to_json zero_params) [])" zero_params]
  by (auto simp: plain_json_def)

text \<open>C25: Once a description was too large, the recorded size of the buffer no longer matches its
  memory: when a write fails for good, \<open>jbuf_size\<close> has been raised to 8192 or more without
  reallocating, so that a later text of at least \<open>jb_alloc\<close> and less than \<open>jbuf_size\<close> characters is
  accepted and copied past the end of the allocation.\<close>

theorem json_buffer_overflow:
  assumes "json_retry write j = Some (ret, j1)" "ret < 0" "jb_ptr j" "jb_alloc j = jb_size j"
  shows "jb_alloc j1 < jb_size j1 \<and>
         (jb_alloc j1 \<le> int (json_len J (json_dump J v)) \<and> int (json_len J (json_dump J v)) < jb_size j1 \<longrightarrow>
            dump_json_to_buf J v (jb_text j1) (jb_size j1)
              = (int (json_len J (json_dump J v)), Some (json_dump J v)))"
  using json_retry_fail [OF assms] by (simp add: dump_json_to_buf_def Let_def)

theorem json_buffer_overflow_witness:
  "\<exists>j1. ublk_json_write_params (plain_json 9000) zero_params
      \<lparr>jb_ptr = True, jb_text = Some (JObj []), jb_size = 7680, jb_alloc = 7680\<rparr> = Some (- EINVAL, j1) \<and>
      jb_alloc j1 < jb_size j1 \<and>
      dump_json_to_buf (plain_json 8000) JNull (jb_text j1) (jb_size j1) = (8000, Some JNull)"
proof -
  let ?j = "\<lparr>jb_ptr = True, jb_text = Some (JObj []), jb_size = 7680, jb_alloc = 7680\<rparr>"
  let ?w = "ublksrv_json_write_params (plain_json 9000) zero_params"
  have w: "json_retry ?w ?j = Some (- EINVAL, ?j\<lparr>jb_size := 8192\<rparr>)"
    by (subst json_retry.simps) (simp add: ublksrv_json_write_params_def json_update_def parse_json_def
        plain_json_def jset_def dump_json_to_buf_def tgt_realloc_jbuf_def Let_def)
  show ?thesis
    using json_buffer_overflow [OF w, of "plain_json 8000" JNull] w
    by (simp add: ublk_json_write_params_def plain_json_def)
qed

end
