(* ===== verification/Ublk_Init.thy ===== *)
theory Ublk_Init
  imports Ublk_Ownership Ublk_Json
begin

text \<open>
  Setting up and tearing down queues and devices (lib/ublksrv.c): buffer sizes and depths, the queue
  initialisation up to the first fetch commands, the target callbacks, the pid file and
  \<open>ublksrv_dev_init\<close>.

  Results of system calls and of liburing's setup functions are the fields of environment records.
  Memory that \<open>malloc\<close> returned and nobody wrote yet is an arbitrary initial queue (\<open>q0\<close>), so that
  reading a field before it is set is visible. The teardown functions return the descriptors they
  close, in order.
\<close>

section \<open>The device\<close>

record ublksrv_tgt_info =
  ti_dev_size :: u64
  ti_tgt_ring_depth :: u32
  ti_nr_fds :: nat
  ti_fds :: "int list"
  ti_extra_ios :: u32
  ti_io_data_size :: u32
  ti_ops :: bool

text \<open>
  \<open>cd_queues_cpuset\<close> is the buffer of cpu sets, by the byte offset of each set. \<open>cd_recovery_jbuf\<close> is
  the member of the union that recovery uses, when \<open>tgt_argc\<close> is -1.
\<close>

record 's ublksrv_ctrl_dev =
  cd_dev_info :: ublksrv_ctrl_dev_info
  cd_jbuf :: "'s ublksrv_tgt_jbuf"
  cd_recover :: bool
  cd_tgt_type :: "string option"
  cd_tgt_argc :: int
  cd_tgt_argv :: "string list"
  cd_run_dir :: "string option"
  cd_queues_cpuset :: "(nat \<rightharpoonup> nat set) option"
  cd_ctrl_fd :: int
  cd_recovery_jbuf :: "'s option"

record 's ublksrv_dev =
  dv_tgt :: ublksrv_tgt_info
  dv_cdev_fd :: int
  dv_pid_file_fd :: int
  dv_ctrl :: "'s ublksrv_ctrl_dev"
  dv_cq_depth :: int

definition ublksrv_is_recovering :: "'s ublksrv_ctrl_dev \<Rightarrow> bool" where
  "ublksrv_is_recovering c \<longleftrightarrow> cd_tgt_argc c = -1 \<or> cd_recover c"

section \<open>The target of a device\<close>

text \<open>The callbacks of the target type that concern the device, as far as they are set.\<close>

record 's tgt_dev_ops =
  to_name :: string
  to_handle_io_async :: bool
  to_alloc_io_buf :: bool
  to_free_io_buf :: bool
  to_handle_event :: bool
  to_init_tgt :: "('s ublksrv_dev \<Rightarrow> int \<times> 's ublksrv_dev) option"
  to_recovery_tgt :: "('s ublksrv_dev \<Rightarrow> int \<times> 's ublksrv_dev) option"
  to_deinit_tgt :: "('s ublksrv_dev \<Rightarrow> int list) option"

definition set_ops :: "bool \<Rightarrow> 's ublksrv_dev \<Rightarrow> 's ublksrv_dev" where
  "set_ops b dev = dev\<lparr>dv_tgt := (dv_tgt dev)\<lparr>ti_ops := b\<rparr>\<rparr>"

definition tgt_call_init :: "'s tgt_dev_ops \<Rightarrow> 's ublksrv_dev \<Rightarrow> int \<times> 's ublksrv_dev" where
  "tgt_call_init ops dev =
     (if \<not> ublksrv_is_recovering (dv_ctrl dev) then
        (case to_init_tgt ops of Some f \<Rightarrow> f dev | None \<Rightarrow> (0, dev))
      else
        (case to_recovery_tgt ops of Some f \<Rightarrow> f dev
         | None \<Rightarrow> (case to_init_tgt ops of Some f \<Rightarrow> f dev | None \<Rightarrow> (- ENOTSUP, dev))))"

definition tgt_init_type ::
  "'s tgt_dev_ops option \<Rightarrow> string \<Rightarrow> 's ublksrv_dev \<Rightarrow> int \<times> 's ublksrv_dev" where
  "tgt_init_type ops_opt type_name dev = (case ops_opt of
     None \<Rightarrow> (- EINVAL, dev)
   | Some ops \<Rightarrow>
       if to_name ops \<noteq> type_name then (- EINVAL, dev)
       else if \<not> to_handle_io_async ops then (- EINVAL, dev)
       else if to_alloc_io_buf ops \<noteq> to_free_io_buf ops then (- EINVAL, dev)
       else
         (let (ret, dev1) = tgt_call_init ops (set_ops True dev)
          in if ret \<noteq> 0 then (ret, set_ops False dev1) else (0, dev1)))"

definition ublksrv_tgt_init ::
  "'s tgt_dev_ops option \<Rightarrow> string option \<Rightarrow> 's ublksrv_dev \<Rightarrow> int \<times> 's ublksrv_dev" where
  "ublksrv_tgt_init ops type_name dev = (case type_name of
     None \<Rightarrow> (- EINVAL, dev)
   | Some nm \<Rightarrow> (case ops of None \<Rightarrow> (- EINVAL, dev) | Some _ \<Rightarrow> tgt_init_type ops nm dev))"

definition ublksrv_tgt_exit :: "ublksrv_tgt_info \<Rightarrow> int list" where
  "ublksrv_tgt_exit tgt = map (\<lambda>i. ti_fds tgt ! i) [1..<ti_nr_fds tgt]"

definition ublksrv_tgt_deinit :: "'s tgt_dev_ops option \<Rightarrow> 's ublksrv_dev \<Rightarrow> int list" where
  "ublksrv_tgt_deinit ops dev =
     ublksrv_tgt_exit (dv_tgt dev) @
     (if ti_ops (dv_tgt dev)
      then (case ops of None \<Rightarrow> [] | Some t \<Rightarrow> (case to_deinit_tgt t of None \<Rightarrow> [] | Some f \<Rightarrow> f dev))
      else [])"

section \<open>Sizes and depths\<close>

definition ublk_queue_single_io_buf_size :: "u32 \<Rightarrow> ublksrv_ctrl_dev_info \<Rightarrow> u32" where
  "ublk_queue_single_io_buf_size page_sz info = round_up (max_io_buf_bytes info) page_sz"

definition ublk_queue_io_buf_size :: "u32 \<Rightarrow> ublksrv_ctrl_dev_info \<Rightarrow> u32" where
  "ublk_queue_io_buf_size page_sz info = ublk_queue_single_io_buf_size page_sz info * ucast (queue_depth info)"

definition ublk_io_buf_size :: "u32 \<Rightarrow> ublksrv_ctrl_dev_info \<Rightarrow> u32" where
  "ublk_io_buf_size page_sz info = ublk_queue_io_buf_size page_sz info * ucast (nr_hw_queues info)"

definition ublksrv_queue_cmd_buf_sz :: "u32 \<Rightarrow> nat \<Rightarrow> u32" where
  "ublksrv_queue_cmd_buf_sz page_sz depth = round_up (of_nat depth * sizeof_ublksrv_io_desc) page_sz"

definition queue_max_cmd_buf_sz :: "u32 \<Rightarrow> u32" where
  "queue_max_cmd_buf_sz page_sz = round_up (UBLK_MAX_QUEUE_DEPTH * sizeof_ublksrv_io_desc) page_sz"

text \<open>Where the io descriptors of a queue are mapped from.\<close>

definition queue_cmd_buf_off :: "u32 \<Rightarrow> nat \<Rightarrow> u64" where
  "queue_cmd_buf_off page_sz qid = UBLKSRV_CMD_BUF_OFFSET + of_nat qid * ucast (queue_max_cmd_buf_sz page_sz)"

text \<open>Ring depth, completion ring depth and number of io slots.\<close>

definition ublksrv_calculate_depths :: "'s ublksrv_dev \<Rightarrow> int \<times> int \<times> int" where
  "ublksrv_calculate_depths dev =
     (let info = cd_dev_info (dv_ctrl dev);
          aio_depth = (if has (info_ublksrv_flags info) UBLKSRV_F_NEED_EVENTFD then 1 else 0);
          depth = uint (queue_depth info);
          tgt_depth = uint (ti_tgt_ring_depth (dv_tgt dev)) + aio_depth;
          nr_ios = depth + uint (ti_extra_ios (dv_tgt dev));
          ring_depth = (if depth > tgt_depth then depth else tgt_depth)
      in (ring_depth, if dv_cq_depth dev \<noteq> 0 then dv_cq_depth dev else ring_depth, nr_ios))"

section \<open>Queue initialisation\<close>

text \<open>\<open>qe_efd\<close> is what \<open>eventfd\<close> returned, a descriptor or the negated errno.\<close>

record 'r qinit_env =
  qe_page :: u32
  qe_mmap :: "ublksrv_io_desc list option"
  qe_buf :: "nat \<Rightarrow> u64"
  qe_ring :: "'r option"
  qe_register_files :: bool
  qe_register_buffers :: bool
  qe_commit_mem :: u64
  qe_fetch_mem :: u64
  qe_buf_ring :: bool
  qe_efd :: int

definition ublksrv_setup_eventfd ::
  "'r qinit_env \<Rightarrow> 's tgt_dev_ops \<Rightarrow> 's ublksrv_dev \<Rightarrow> ('r, 't) ublksrv_queue \<Rightarrow> int \<times> ('r, 't) ublksrv_queue" where
  "ublksrv_setup_eventfd E ops dev q =
     (let info = cd_dev_info (dv_ctrl dev) in
      if \<not> has (info_ublksrv_flags info) UBLKSRV_F_NEED_EVENTFD then (0, q\<lparr>efd := -1\<rparr>)
      else if ti_tgt_ring_depth (dv_tgt dev) = 0 then (- EINVAL, q)
      else if \<not> to_handle_event ops then (- EINVAL, q)
      else if qe_efd E < 0 then (qe_efd E, q\<lparr>efd := -1\<rparr>)
      else (0, q\<lparr>efd := qe_efd E\<rparr>))"

text \<open>The state flags of a queue from the flags of the device.\<close>

definition queue_state_of :: "ublksrv_ctrl_dev_info \<Rightarrow> u32" where
  "queue_state_of info =
     (if has (info_flags info) UBLK_F_CMD_IOCTL_ENCODE then UBLKSRV_QUEUE_IOCTL_OP else 0) OR
     (if has (info_flags info) UBLK_F_USER_COPY then UBLKSRV_USER_COPY else 0) OR
     (if has (info_flags info) UBLK_F_SUPPORT_ZERO_COPY then UBLKSRV_ZERO_COPY else 0) OR
     (if has (info_flags info) UBLK_F_AUTO_BUF_REG then UBLKSRV_AUTO_ZC else 0) OR
     (if has (info_ublksrv_flags info) UBLKSRV_F_NEED_POLL then UBLKSRV_QUEUE_POLL else 0) OR
     (if has (info_flags info) UBLK_F_BATCH_IO then UBLKSRV_QUEUE_BATCH_IO else 0)"

text \<open>
  One iteration of the loop over the io slots: the buffer is cleared, allocated for the tags of the
  queue (unless zero copy needs none), and the slot is set up to fetch a request.
\<close>

definition init_io_slot ::
  "'r qinit_env \<Rightarrow> nat \<Rightarrow> ('r, 't) ublksrv_queue \<Rightarrow> bool \<times> ('r, 't) ublksrv_queue" where
  "init_io_slot E i q =
     (let alloc = (i < q_depth q \<and> ublksrv_queue_alloc_buf q);
          io0 = (ios q ! i)\<lparr>io_buf_addr := if alloc then qe_buf E i else 0\<rparr>
      in if alloc \<and> qe_buf E i = 0 then (False, q\<lparr>ios := (ios q)[i := io0]\<rparr>)
         else (True, q\<lparr>ios := (ios q)[i := io0\<lparr>io_flags := UBLKSRV_NEED_FETCH_RQ OR UBLKSRV_IO_FREE,
                 io_tag := i, io_iod := if i < q_depth q then Some i else None\<rparr>]\<rparr>))"

fun init_io_slots ::
  "'r qinit_env \<Rightarrow> nat list \<Rightarrow> ('r, 't) ublksrv_queue \<Rightarrow> bool \<times> ('r, 't) ublksrv_queue" where
  "init_io_slots E [] q = (True, q)"
| "init_io_slots E (i # is) q = (case init_io_slot E i q of
     (False, q1) \<Rightarrow> (False, q1) | (True, q1) \<Rightarrow> init_io_slots E is q1)"

text \<open>
  Teardown: the descriptors closed, and the queue with the freed buffers in its log. \<open>rfd\<close> is the
  descriptor of a ring.
\<close>

definition ublksrv_queue_deinit ::
  "('r \<Rightarrow> int) \<Rightarrow> nat \<Rightarrow> ('r, 't) ublksrv_queue \<Rightarrow> int list \<times> u64 list" where
  "ublksrv_queue_deinit rfd nr_ios q =
     (let q1 = (if ublksrv_queue_batch_io q then ublksrv_batch_free_bufs q else q)
      in ((if epollfd q \<ge> 0 then [epollfd q] else []) @ (if efd q \<ge> 0 then [efd q] else []) @
          (if rfd (ring q) > 0 then [rfd (ring q)] else []),
          freed q1 @ filter (\<lambda>a. a \<noteq> 0) (map (\<lambda>i. io_buf_addr (ios q ! i)) [0..<nr_ios])))"

text \<open>
  The steps of \<open>ublksrv_queue_init_flags\<close> in their order. \<open>init_q\<close> is the callback \<open>init_queue\<close> of the
  target on its private data. The result is the queue, or the state in which a step failed.
\<close>

definition queue_init_fields ::
  "'s ublksrv_dev \<Rightarrow> nat \<Rightarrow> ('r, 't) ublksrv_queue \<Rightarrow> ('r, 't) ublksrv_queue" where
  "queue_init_fields dev qid q0 =
     (let info = cd_dev_info (dv_ctrl dev) in
      q0\<lparr>epollfd := -1, epoll_callbacks := [], qstate := queue_state_of info, q_id := qid,
         q_depth := unat (queue_depth info), io_cmd_buf := [], cmd_inflight := 0, tgt_io_inflight := 0\<rparr>)"

definition queue_init_batch ::
  "'r qinit_env \<Rightarrow> ('r, 't) ublksrv_queue \<Rightarrow> int \<times> ('r, 't) ublksrv_queue" where
  "queue_init_batch E q =
     (if ublksrv_queue_batch_io q
      then ublksrv_batch_alloc_bufs (qe_page E) (qe_commit_mem E) (qe_fetch_mem E) (qe_buf_ring E) q
      else (0, q))"

definition queue_init_rings ::
  "'r qinit_env \<Rightarrow> 's ublksrv_dev \<Rightarrow> ('r, 't) ublksrv_queue \<Rightarrow> ('r, 't) ublksrv_queue + ('r, 't) ublksrv_queue" where
  "queue_init_rings E dev q =
     (case qe_ring E of None \<Rightarrow> Inl q
      | Some r \<Rightarrow>
          (let q1 = q\<lparr>ring := r\<rparr>; info = cd_dev_info (dv_ctrl dev) in
           if \<not> qe_register_files E then Inl q1
           else if has (info_flags info) (UBLK_F_SUPPORT_ZERO_COPY OR UBLK_F_AUTO_BUF_REG) \<and> \<not> qe_register_buffers E
           then Inl q1
           else (let (ret, q2) = queue_init_batch E q1 in if ret \<noteq> 0 then Inl q2 else Inr q2)))"

definition queue_init_tail ::
  "'r uring_api \<Rightarrow> 'r qinit_env \<Rightarrow> 's tgt_dev_ops \<Rightarrow> ('t \<Rightarrow> int \<times> 't) option \<Rightarrow> 't \<Rightarrow> 's ublksrv_dev \<Rightarrow>
     ('r, 't) ublksrv_queue \<Rightarrow> ('r, 't) ublksrv_queue + ('r, 't) ublksrv_queue" where
  "queue_init_tail U E ops init_q data dev q =
     (let (ret, p) = (case init_q of None \<Rightarrow> (0, data) | Some f \<Rightarrow> f data);
          q1 = q\<lparr>private_data := p\<rparr>
      in if ret \<noteq> 0 then Inl q1
         else let (r2, q2) = ublksrv_setup_eventfd E ops dev q1
         in if r2 < 0 then Inl q2 else Inr (ublksrv_submit_fetch_commands U q2))"

definition queue_init_flags ::
  "'r uring_api \<Rightarrow> 'r qinit_env \<Rightarrow> 's tgt_dev_ops \<Rightarrow> ('t \<Rightarrow> int \<times> 't) option \<Rightarrow> 't \<Rightarrow> 's ublksrv_dev \<Rightarrow> nat \<Rightarrow>
     ('r, 't) ublksrv_queue \<Rightarrow> ('r, 't) ublksrv_queue + ('r, 't) ublksrv_queue" where
  "queue_init_flags U E ops init_q data dev qid q0 =
     (let (ring_depth, cq_depth, nr_ios) = ublksrv_calculate_depths dev;
          q1 = queue_init_fields dev qid q0
      in case qe_mmap E of None \<Rightarrow> Inl q1
         | Some iods \<Rightarrow>
             (let (ok, q2) = init_io_slots E [0..<nat nr_ios] (q1\<lparr>io_cmd_buf := iods\<rparr>)
              in if \<not> ok then Inl q2
                 else case queue_init_rings E dev q2 of Inl q3 \<Rightarrow> Inl q3
                      | Inr q3 \<Rightarrow> queue_init_tail U E ops init_q data dev q3))"

text \<open>The public function: too many extra slots give nothing, a failed step tears the queue down.\<close>

definition ublksrv_queue_init_flags ::
  "'r uring_api \<Rightarrow> 'r qinit_env \<Rightarrow> ('r \<Rightarrow> int) \<Rightarrow> 's tgt_dev_ops \<Rightarrow> ('t \<Rightarrow> int \<times> 't) option \<Rightarrow> 't \<Rightarrow> 's ublksrv_dev \<Rightarrow> nat \<Rightarrow>
     ('r, 't) ublksrv_queue \<Rightarrow> ('r, 't) ublksrv_queue option \<times> int list \<times> u64 list" where
  "ublksrv_queue_init_flags U E rfd ops init_q data dev qid q0 =
     (let (ring_depth, cq_depth, nr_ios) = ublksrv_calculate_depths dev;
          depth = uint (queue_depth (cd_dev_info (dv_ctrl dev)))
      in if nr_ios > depth * 3 then (None, [], [])
         else case queue_init_flags U E ops init_q data dev qid q0 of
                Inr q \<Rightarrow> (Some q, [], [])
              | Inl q \<Rightarrow> (None, ublksrv_queue_deinit rfd (nat nr_ios) q))"

section \<open>The pid file and the device\<close>

text \<open>
  The outcome of opening the char device at each attempt (a descriptor or an errno) and of the pid
  file calls. The pid files removed are those of the run directory.
\<close>

record dev_env =
  de_open :: "nat \<Rightarrow> int + int"
  de_pid :: pid_sys
  de_garbage_fd :: int

text \<open>
  The wrapper: \<open>de_garbage_fd\<close> is the uninitialised local \<open>pid_fd\<close>. Returned are the result, the
  device and the descriptors closed.
\<close>

definition ublksrv_create_pid_file :: "dev_env \<Rightarrow> 's ublksrv_dev \<Rightarrow> int \<times> 's ublksrv_dev \<times> int list" where
  "ublksrv_create_pid_file E dev = (case cd_run_dir (dv_ctrl dev) of
     None \<Rightarrow> (0, dev, [])
   | Some dir \<Rightarrow> (case create_pid_file (de_pid E) None of
       (ret, fd, txt) \<Rightarrow>
         (if ret < 0 then
            (ret, dev, if ret = -1 then [case fd of None \<Rightarrow> de_garbage_fd E | Some f \<Rightarrow> f] else [])
          else (0, dev\<lparr>dv_pid_file_fd := (case fd of None \<Rightarrow> de_garbage_fd E | Some f \<Rightarrow> f)\<rparr>, []))))"

definition ublksrv_remove_pid_file :: "'s ublksrv_dev \<Rightarrow> int list" where
  "ublksrv_remove_pid_file dev =
     (case cd_run_dir (dv_ctrl dev) of None \<Rightarrow> [] | Some _ \<Rightarrow> [dv_pid_file_fd dev])"

definition ublksrv_dev_deinit :: "'s tgt_dev_ops option \<Rightarrow> 's ublksrv_dev \<Rightarrow> int list" where
  "ublksrv_dev_deinit ops dev =
     ublksrv_remove_pid_file dev @ ublksrv_tgt_deinit ops dev @
     (if dv_cdev_fd dev \<ge> 0 then [dv_cdev_fd dev] else [])"

text \<open>Opening the char device: retry while it is busy, at most ten times.\<close>

function open_cdev :: "(nat \<Rightarrow> int + int) \<Rightarrow> nat \<Rightarrow> int option" where
  "open_cdev op tried = (case op tried of
     Inl fd \<Rightarrow> Some fd
   | Inr err \<Rightarrow> if err \<noteq> EBUSY \<or> tried \<ge> 10 then None else open_cdev op (Suc tried))"
  by pat_completeness auto
termination
  by (relation "measure (\<lambda>(op, tried). 10 - tried)") auto

declare open_cdev.simps [simp del]

definition new_dev :: "'s ublksrv_ctrl_dev \<Rightarrow> 's ublksrv_dev" where
  "new_dev ctrl =
     \<lparr>dv_tgt = \<lparr>ti_dev_size = 0, ti_tgt_ring_depth = 0, ti_nr_fds = 0, ti_fds = replicate 32 0,
                ti_extra_ios = 0, ti_io_data_size = 0, ti_ops = False\<rparr>,
      dv_cdev_fd = -1, dv_pid_file_fd = 0, dv_ctrl = ctrl, dv_cq_depth = 0\<rparr>"

definition ublksrv_dev_init ::
  "dev_env \<Rightarrow> 's tgt_dev_ops option \<Rightarrow> 's ublksrv_ctrl_dev \<Rightarrow> 's ublksrv_dev option \<times> int list" where
  "ublksrv_dev_init E ops ctrl =
     (let dev0 = new_dev ctrl in
      case open_cdev (de_open E) 0 of
        None \<Rightarrow> (None, ublksrv_dev_deinit ops dev0)
      | Some fd \<Rightarrow>
          (let dev1 = dev0\<lparr>dv_cdev_fd := fd, dv_tgt := (dv_tgt dev0)\<lparr>ti_fds := (ti_fds (dv_tgt dev0))[0 := fd]\<rparr>\<rparr>;
               (ret, dev2) = ublksrv_tgt_init ops (cd_tgt_type ctrl) dev1
           in if ret \<noteq> 0 then (None, ublksrv_dev_deinit ops dev2)
              else let (ret, dev3, closed) = ublksrv_create_pid_file E dev2
              in if ret \<noteq> 0 then (None, closed @ ublksrv_dev_deinit ops dev3) else (Some dev3, [])))"

section \<open>Lemmas\<close>

subsection \<open>The first fetch commands\<close>

definition fetch_sqe :: "('r, 't) ublksrv_queue \<Rightarrow> uring_sqe \<Rightarrow> nat \<Rightarrow> bool" where
  "fetch_sqe q sqe tag \<longleftrightarrow>
     sqe_opcode sqe = OP_URING_CMD \<and> sqe_fd sqe = 0 \<and> IOC_NR (sqe_cmd_op sqe) = UBLK_IO_FETCH_REQ \<and>
     ic_tag (sqe_io_cmd sqe) = of_nat tag \<and> ic_q_id (sqe_io_cmd sqe) = of_nat (q_id q) \<and>
     user_data_to_tag (sqe_user_data sqe) = of_nat tag \<and>
     user_data_to_op (sqe_user_data sqe) = UBLK_IO_FETCH_REQ \<and> \<not> is_target_io (sqe_user_data sqe)"

lemma fetch_flags: "io_flags io = 5 \<Longrightarrow> io_issuable io \<and> io_cmd_op (io_flags io) = UBLK_IO_FETCH_REQ"
  by (simp add: io_issuable_def io_cmd_op_def has_def)

lemma fetch_one_tag:
  assumes U: "uring_ok U queued" "uring_submits U" and "io_flags (ios q ! tag) = 5" "tag < 65536"
    and "ublksrv_queue_io_cmd U q tag = (ret, q')"
  shows "\<exists>sqe. queued (ring q') = queued (ring q) @ [sqe] \<and> fetch_sqe q sqe tag"
    and "ios q' = (ios q)[tag := (ios q ! tag)\<lparr>io_flags := 0\<rparr>]" "cmd_inflight q' = cmd_inflight q + 1"
    and "q_depth q' = q_depth q" "qstate q' = qstate q" "q_id q' = q_id q" "efd q' = efd q"
proof -
  have i: "io_issuable (ios q ! tag)" "io_cmd_op (io_flags (ios q ! tag)) = UBLK_IO_FETCH_REQ"
    using fetch_flags assms(3) by auto
  note s = queue_io_cmd_sqe [OF U i(1) assms(4,5)]
  from s i(2) show "\<exists>sqe. queued (ring q') = queued (ring q) @ [sqe] \<and> fetch_sqe q sqe tag"
    by (auto simp: fetch_sqe_def)
  from s show "ios q' = (ios q)[tag := (ios q ! tag)\<lparr>io_flags := 0\<rparr>]" "cmd_inflight q' = cmd_inflight q + 1"
    by auto
  show "q_depth q' = q_depth q" "qstate q' = qstate q" "q_id q' = q_id q" "efd q' = efd q"
    using assms(5) unfolding queue_io_cmd_issue [OF i(1)] by (auto split: prod.splits bool.splits)
qed

definition issue_all :: "'r uring_api \<Rightarrow> nat \<Rightarrow> ('r, 't) ublksrv_queue \<Rightarrow> ('r, 't) ublksrv_queue" where
  "issue_all U n q = fold (\<lambda>i q. snd (ublksrv_queue_io_cmd U q i)) [0..<n] q"

lemma issue_all_Suc: "issue_all U (Suc n) q = snd (ublksrv_queue_io_cmd U (issue_all U n q) n)"
  by (simp add: issue_all_def)

lemma fetch_sqe_cong: "q_id q' = q_id q \<Longrightarrow> fetch_sqe q' sqe tag = fetch_sqe q sqe tag"
  by (simp add: fetch_sqe_def)

lemma issue_all_fetch:
  assumes U: "uring_ok U queued" "uring_submits U"
    and q: "\<forall>i < n. io_flags (ios q ! i) = 5" "n \<le> length (ios q)" "n \<le> 65536"
  shows "(\<exists>sqes. queued (ring (issue_all U n q)) = queued (ring q) @ sqes \<and> list_all2 (fetch_sqe q) sqes [0..<n]) \<and>
    q_id (issue_all U n q) = q_id q \<and> qstate (issue_all U n q) = qstate q \<and> q_depth (issue_all U n q) = q_depth q \<and>
    efd (issue_all U n q) = efd q \<and>
    cmd_inflight (issue_all U n q) = cmd_inflight q + of_nat n \<and> length (ios (issue_all U n q)) = length (ios q) \<and>
    (\<forall>i < length (ios q). io_flags (ios (issue_all U n q) ! i) = (if i < n then 0 else io_flags (ios q ! i)))"
  using q
proof (induction n)
  case 0
  then show ?case by (simp add: issue_all_def)
next
  case (Suc n)
  let ?q = "issue_all U n q"
  have IH: "(\<exists>sqes. queued (ring ?q) = queued (ring q) @ sqes \<and> list_all2 (fetch_sqe q) sqes [0..<n])"
    "q_id ?q = q_id q" "qstate ?q = qstate q" "q_depth ?q = q_depth q" "efd ?q = efd q"
    "cmd_inflight ?q = cmd_inflight q + of_nat n" "length (ios ?q) = length (ios q)"
    "\<forall>i < length (ios q). io_flags (ios ?q ! i) = (if i < n then 0 else io_flags (ios q ! i))"
    using Suc by auto
  obtain ret q' where c: "ublksrv_queue_io_cmd U ?q n = (ret, q')" by fastforce
  have fl: "io_flags (ios ?q ! n) = 5" using IH(8) Suc.prems by simp
  have lt: "n < 65536" using Suc.prems by simp
  note one = fetch_one_tag [OF U fl lt c]
  obtain sqes sqe where "queued (ring ?q) = queued (ring q) @ sqes" "list_all2 (fetch_sqe q) sqes [0..<n]"
    "queued (ring q') = queued (ring ?q) @ [sqe]" "fetch_sqe q sqe n"
    using IH(1) one(1) fetch_sqe_cong [OF IH(2)] by blast
  then have "\<exists>sqes. queued (ring q') = queued (ring q) @ sqes \<and> list_all2 (fetch_sqe q) sqes [0..<Suc n]"
    by (intro exI [of _ "sqes @ [sqe]"]) (simp add: list_all2_appendI)
  moreover have "\<forall>i < length (ios q). io_flags (ios q' ! i) = (if i < Suc n then 0 else io_flags (ios q ! i))"
    using IH(7,8) one(2) Suc.prems by (auto simp: nth_list_update)
  ultimately show ?case
    using one IH unfolding issue_all_Suc c by simp
qed

lemma queue_event_ring:
  assumes "uring_ok U queued" "queue_event U q = (ret, q')"
  shows "\<exists>rest. queued (ring q') = queued (ring q) @ rest \<and> length rest \<le> 1"
    and "q' = q\<lparr>ring := ring q'\<rparr>"
proof -
  show "q' = q\<lparr>ring := ring q'\<rparr>"
    using assms(2) by (auto simp: queue_event_def split: if_splits option.splits)
  show "\<exists>rest. queued (ring q') = queued (ring q) @ rest \<and> length rest \<le> 1"
  proof (cases "ring q' = ring q")
    case False
    then obtain f where "get_sqe U (ring q) f = Some (ring q')"
      using assms(2) by (auto simp: queue_event_def split: if_splits option.splits)
    from uring_okD(1) [OF assms(1) this] show ?thesis by fastforce
  qed simp
qed

subsection \<open>The io slots\<close>

lemma init_io_slot_ok:
  assumes "init_io_slot E i q = (True, q')" "i < length (ios q)"
  shows "length (ios q') = length (ios q)" "io_flags (ios q' ! i) = 5"
    and "\<And>j. j \<noteq> i \<Longrightarrow> ios q' ! j = ios q ! j" and "q' = q\<lparr>ios := ios q'\<rparr>"
  using assms by (auto simp: init_io_slot_def Let_def split: if_splits)

lemma init_io_slots_ok:
  "init_io_slots E is q = (True, q') \<Longrightarrow> \<forall>i\<in>set is. i < length (ios q) \<Longrightarrow>
   length (ios q') = length (ios q) \<and> (\<forall>i\<in>set is. io_flags (ios q' ! i) = 5) \<and>
   (\<forall>j. j \<notin> set is \<longrightarrow> ios q' ! j = ios q ! j) \<and> q' = q\<lparr>ios := ios q'\<rparr>"
proof (induction "is" arbitrary: q)
  case (Cons i "is")
  obtain q1 where 1: "init_io_slot E i q = (True, q1)" "init_io_slots E is q1 = (True, q')"
    using Cons.prems(1) by (auto split: prod.splits bool.splits)
  have i: "i < length (ios q)" using Cons.prems by simp
  note s = init_io_slot_ok [OF 1(1) i]
  have IH: "length (ios q') = length (ios q1) \<and> (\<forall>i\<in>set is. io_flags (ios q' ! i) = 5) \<and>
     (\<forall>j. j \<notin> set is \<longrightarrow> ios q' ! j = ios q1 ! j) \<and> q' = q1\<lparr>ios := ios q'\<rparr>"
    using Cons.IH [OF 1(2)] Cons.prems(2) s(1) by auto
  have "q' = q\<lparr>ios := ios q'\<rparr>"
    using IH by (subst (asm) s(4)) simp
  moreover have "io_flags (ios q' ! i) = 5" using IH s(2) by (cases "i \<in> set is") auto
  ultimately show ?case using IH s by auto
qed simp

lemma queue_state_batch: "has (queue_state_of info) UBLKSRV_QUEUE_BATCH_IO = has (info_flags info) UBLK_F_BATCH_IO"
proof -
  have "\<not> has (4::u32) 128" "\<not> has (8::u32) 128" "\<not> has (16::u32) 128" "\<not> has (32::u32) 128"
    "\<not> has (64::u32) 128" "has (128::u32) 128" by (simp_all add: has_def)
  then show ?thesis by (simp add: queue_state_of_def)
qed

lemma queue_init_rings_Inr:
  assumes "queue_init_rings E dev q = Inr q'" "\<not> ublksrv_queue_batch_io q"
  shows "\<exists>r. qe_ring E = Some r \<and> q' = q\<lparr>ring := r\<rparr>"
proof -
  obtain r where r: "qe_ring E = Some r" using assms(1) by (auto simp: queue_init_rings_def split: option.splits)
  have "\<not> ublksrv_queue_batch_io (q\<lparr>ring := r\<rparr>)" using assms(2) by (simp add: ublksrv_queue_batch_io_def)
  then show ?thesis
    using assms(1) r by (auto simp: queue_init_rings_def queue_init_batch_def Let_def split: if_splits)
qed

lemma queue_init_tail_Inr:
  assumes "queue_init_tail U E ops init_q data dev q = Inr q'"
  shows "\<exists>p e. q' = ublksrv_submit_fetch_commands U (q\<lparr>private_data := p, efd := e\<rparr>)"
  using assms by (auto simp: queue_init_tail_def ublksrv_setup_eventfd_def Let_def split: prod.splits if_splits)

text \<open>The steps before the fetch commands leave a queue that is ready to start.\<close>

lemma queue_init_start:
  assumes init: "queue_init_flags U E ops init_q data dev qid q0 = Inr q"
    and nb: "\<not> has (info_flags (cd_dev_info (dv_ctrl dev))) UBLK_F_BATCH_IO"
    and len: "int (length (ios q0)) = snd (snd (ublksrv_calculate_depths dev))"
    and d: "unat (queue_depth (cd_dev_info (dv_ctrl dev))) \<le> 4096"
  shows "\<exists>q1 r. qe_ring E = Some r \<and> ring q1 = r \<and> queue_start q1 \<and> q_id q1 = qid \<and>
     q_depth q1 = unat (queue_depth (cd_dev_info (dv_ctrl dev))) \<and> q = ublksrv_submit_fetch_commands U q1"
proof -
  let ?info = "cd_dev_info (dv_ctrl dev)" and ?q1 = "queue_init_fields dev qid q0"
  obtain rd cd n where n: "ublksrv_calculate_depths dev = (rd, cd, n)" by (metis prod_cases3)
  obtain iods where m: "qe_mmap E = Some iods"
    using init by (auto simp: queue_init_flags_def n Let_def split: option.splits)
  obtain ok q2 where s: "init_io_slots E [0..<nat n] (?q1\<lparr>io_cmd_buf := iods\<rparr>) = (ok, q2)" by fastforce
  obtain q3 where q3: "ok" "queue_init_rings E dev q2 = Inr q3" "queue_init_tail U E ops init_q data dev q3 = Inr q"
    using init by (auto simp: queue_init_flags_def n m s Let_def split: if_splits sum.splits)
  have n0: "n = uint (queue_depth ?info) + uint (ti_extra_ios (dv_tgt dev))"
    using n by (simp add: ublksrv_calculate_depths_def Let_def)
  have ln: "length (ios q0) = nat n" using len by (simp add: n)
  have "nat (uint (queue_depth ?info)) \<le> nat n" by (rule nat_mono) (simp add: n0)
  then have ln2: "unat (queue_depth ?info) \<le> nat n" by simp
  have f: "ios ?q1 = ios q0" "q_depth ?q1 = unat (queue_depth ?info)" "qstate ?q1 = queue_state_of ?info"
    "cmd_inflight ?q1 = 0" "q_id ?q1 = qid" by (simp_all add: queue_init_fields_def Let_def)
  have "\<forall>i\<in>set [0..<nat n]. i < length (ios (?q1\<lparr>io_cmd_buf := iods\<rparr>))" using f ln by simp
  from init_io_slots_ok [OF s [unfolded eqTrueI [OF q3(1)]] this]
  have q2: "length (ios q2) = nat n" "\<forall>i < nat n. io_flags (ios q2 ! i) = 5" "q2 = ?q1\<lparr>io_cmd_buf := iods, ios := ios q2\<rparr>"
    using f ln by auto
  have q2f: "q_depth q2 = unat (queue_depth ?info)" "qstate q2 = queue_state_of ?info" "cmd_inflight q2 = 0" "q_id q2 = qid"
    by (subst q2(3), simp add: f)+
  have b: "\<not> ublksrv_queue_batch_io q2" using nb by (simp add: ublksrv_queue_batch_io_def q2f queue_state_batch)
  obtain r where r: "qe_ring E = Some r" "q3 = q2\<lparr>ring := r\<rparr>" using queue_init_rings_Inr [OF q3(2) b] by blast
  obtain p e where pe: "q = ublksrv_submit_fetch_commands U (q3\<lparr>private_data := p, efd := e\<rparr>)"
    using queue_init_tail_Inr [OF q3(3)] by blast
  let ?q = "q3\<lparr>private_data := p, efd := e\<rparr>"
  have "queue_start ?q"
    using b q2 q2f d ln2 by (auto simp: queue_start_def r(2) ublksrv_queue_batch_io_def)
  then show ?thesis using r pe q2f by (intro exI [of _ ?q]) simp
qed

lemma submit_fetch_all:
  assumes U: "uring_ok U queued" "uring_submits U" and q: "queue_start q"
    and q': "q' = ublksrv_submit_fetch_commands U q"
  shows "\<exists>sqes rest. queued (ring q') = queued (ring q) @ sqes @ rest \<and> length rest \<le> 1 \<and>
           list_all2 (fetch_sqe q) sqes [0..<q_depth q]"
    and "qinv q' (replicate (q_depth q) Driver)" "unat (cmd_inflight q') = q_depth q" "q_id q' = q_id q"
proof -
  let ?q = "issue_all U (q_depth q) q"
  have s: "\<forall>i < q_depth q. io_flags (ios q ! i) = 5" "q_depth q \<le> length (ios q)" "q_depth q \<le> 4096"
    "cmd_inflight q = 0" "\<not> ublksrv_queue_batch_io q" using q by (auto simp: queue_start_def)
  note all = issue_all_fetch [OF U s(1,2)]
  obtain ret qe where e: "queue_event U ?q = (ret, qe)" by fastforce
  have "q' = qe" using q' s(5) e by (simp add: ublksrv_submit_fetch_commands_def issue_all_def)
  note ev = queue_event_ring [OF U(1) e, folded \<open>q' = qe\<close>]
  show "\<exists>sqes rest. queued (ring q') = queued (ring q) @ sqes @ rest \<and> length rest \<le> 1 \<and>
           list_all2 (fetch_sqe q) sqes [0..<q_depth q]"
    using all ev(1) s(3) by fastforce
  have f: "ios q' = ios ?q" "cmd_inflight q' = cmd_inflight ?q" "q_depth q' = q_depth ?q" "qstate q' = qstate ?q"
    "q_id q' = q_id ?q" by (subst ev(2), simp)+
  show "q_id q' = q_id q" using f all s(3) by simp
  show "unat (cmd_inflight q') = q_depth q"
    using f(2) all s(3,4) by (simp add: unat_of_nat_small)
  show "qinv q' (replicate (q_depth q) Driver)"
    using f all s by (auto simp: qinv_def owner_flags_def held_def ublksrv_queue_batch_io_def)
qed

text \<open>Nothing but a failing system call or callback stops the initialisation.\<close>

lemma init_io_slots_succeeds: "(\<And>i. qe_buf E i \<noteq> 0) \<Longrightarrow> fst (init_io_slots E is q)"
  by (induction "is" arbitrary: q) (auto simp: init_io_slot_def Let_def)

lemma init_io_slots_state: "init_io_slots E is q = (b, q') \<Longrightarrow> qstate q' = qstate q"
  by (induction "is" arbitrary: q) (auto simp: init_io_slot_def Let_def split: if_splits)

lemma queue_init_succeeds:
  assumes "qe_mmap E = Some iods" "\<And>i. qe_buf E i \<noteq> 0" "qe_ring E = Some r" "qe_register_files E" "qe_register_buffers E"
    and "\<not> has (info_flags (cd_dev_info (dv_ctrl dev))) UBLK_F_BATCH_IO"
    and "\<not> has (info_ublksrv_flags (cd_dev_info (dv_ctrl dev))) UBLKSRV_F_NEED_EVENTFD"
  shows "\<exists>q. queue_init_flags U E ops None data dev qid q0 = Inr q"
proof -
  obtain rd cd n where n: "ublksrv_calculate_depths dev = (rd, cd, n)" by (metis prod_cases3)
  obtain q2 where s: "init_io_slots E [0..<nat n] ((queue_init_fields dev qid q0)\<lparr>io_cmd_buf := iods\<rparr>) = (True, q2)"
    using init_io_slots_succeeds [OF assms(2)] by (metis (full_types) prod.collapse)
  have "qstate q2 = queue_state_of (cd_dev_info (dv_ctrl dev))"
    using init_io_slots_state [OF s] by (simp add: queue_init_fields_def Let_def)
  then have "\<not> ublksrv_queue_batch_io (q2\<lparr>ring := r\<rparr>)"
    using assms(6) by (simp add: ublksrv_queue_batch_io_def queue_state_batch)
  then have "queue_init_rings E dev q2 = Inr (q2\<lparr>ring := r\<rparr>)"
    using assms(3,4,5) by (simp add: queue_init_rings_def queue_init_batch_def Let_def)
  then show ?thesis
    using assms(1,7) s n by (simp add: queue_init_flags_def queue_init_tail_def ublksrv_setup_eventfd_def Let_def)
qed

subsection \<open>Buffers of io descriptors\<close>

lemma cmd_buf_sizes:
  assumes "k \<le> 16" "d \<le> 4096"
  shows "d * 24 \<le> unat (ublksrv_queue_cmd_buf_sz (2 ^ k) d)"
    and "unat (ublksrv_queue_cmd_buf_sz (2 ^ k) d) \<le> unat (queue_max_cmd_buf_sz (2 ^ k))"
    and "unat (queue_max_cmd_buf_sz (2 ^ k)) \<le> 163840"
proof -
  have "(2::nat) ^ k \<le> 2 ^ 16" using assms(1) by (intro power_increasing) auto
  then have p: "(2::nat) ^ k \<le> 65536" by simp
  have d: "unat (of_nat d * sizeof_ublksrv_io_desc :: u32) = d * 24"
    using assms(2) by (simp add: unat_word_ariths unat_of_nat_small)
  have m: "unat (UBLK_MAX_QUEUE_DEPTH * sizeof_ublksrv_io_desc :: u32) = 98304" by simp
  have k: "k < LENGTH(32)" using assms(1) by simp
  have bd: "unat (of_nat d * sizeof_ublksrv_io_desc :: u32) + (2 ^ k - 1) < 2 ^ LENGTH(32)" using d p assms(2) by simp
  have bm: "unat (UBLK_MAX_QUEUE_DEPTH * sizeof_ublksrv_io_desc :: u32) + (2 ^ k - 1) < 2 ^ LENGTH(32)" using p by simp
  show "d * 24 \<le> unat (ublksrv_queue_cmd_buf_sz (2 ^ k) d)"
    using round_up_spec(1) [OF k bd] d by (simp add: ublksrv_queue_cmd_buf_sz_def)
  have "unat (queue_max_cmd_buf_sz (2 ^ k)) < 98304 + 2 ^ k"
    using round_up_spec(2) [OF k bm] by (simp add: queue_max_cmd_buf_sz_def)
  then show "unat (queue_max_cmd_buf_sz (2 ^ k)) \<le> 163840" using p by simp
  have "(d * 24 + (2 ^ k - 1)) div 2 ^ k \<le> (98304 + (2 ^ k - 1)) div 2 ^ k"
    using assms(2) by (intro div_le_mono) simp
  then show "unat (ublksrv_queue_cmd_buf_sz (2 ^ k) d) \<le> unat (queue_max_cmd_buf_sz (2 ^ k))"
    using unat_round_up [OF k bd] unat_round_up [OF k bm] d
    by (simp add: ublksrv_queue_cmd_buf_sz_def queue_max_cmd_buf_sz_def)
qed

lemma cmd_buf_off_unat:
  assumes "k \<le> 16" "qid < 32"
  shows "unat (queue_cmd_buf_off (2 ^ k) qid) = qid * unat (queue_max_cmd_buf_sz (2 ^ k))"
proof -
  let ?m = "unat (queue_max_cmd_buf_sz (2 ^ k))"
  have m: "?m \<le> 163840" using cmd_buf_sizes(3) [OF assms(1), of 0] by simp
  have "qid * ?m \<le> 31 * 163840" using assms(2) m by (intro mult_mono) auto
  then have "qid * ?m < 2 ^ 64" by simp
  moreover have "unat (ucast (queue_max_cmd_buf_sz (2 ^ k)) :: u64) = ?m"
    by (simp add: unsigned_ucast_eq take_bit_nat_eq_self unsigned_less [THEN order_less_le_trans])
  ultimately show ?thesis
    using assms(2) by (simp add: queue_cmd_buf_off_def unat_word_ariths unat_of_nat_small)
qed

subsection \<open>Opening the device\<close>

lemma open_cdev_from:
  "tried \<le> 10 \<Longrightarrow> open_cdev op tried = Some fd \<longleftrightarrow>
     (\<exists>n. tried \<le> n \<and> n \<le> 10 \<and> op n = Inl fd \<and> (\<forall>m. tried \<le> m \<and> m < n \<longrightarrow> op m = Inr EBUSY))"
proof (induction op tried rule: open_cdev.induct)
  case (1 op tried)
  show ?case
  proof (cases "op tried")
    case (Inl f)
    have "n = tried" if "tried \<le> n" "\<forall>m. tried \<le> m \<and> m < n \<longrightarrow> op m = Inr EBUSY" for n
    proof (rule ccontr)
      assume "n \<noteq> tried"
      then have "op tried = Inr EBUSY" using that by simp
      then show False using Inl by simp
    qed
    then have "(\<exists>n. tried \<le> n \<and> n \<le> 10 \<and> op n = Inl fd \<and> (\<forall>m. tried \<le> m \<and> m < n \<longrightarrow> op m = Inr EBUSY)) \<longleftrightarrow>
        op tried = Inl fd" using 1(2) by auto
    then show ?thesis using Inl by (simp add: open_cdev.simps [of op tried])
  next
    case (Inr e)
    show ?thesis
    proof (cases "e \<noteq> EBUSY \<or> tried \<ge> 10")
      case True
      have "\<not> (op n = Inl fd \<and> (\<forall>m. tried \<le> m \<and> m < n \<longrightarrow> op m = Inr EBUSY))" if "tried \<le> n" "n \<le> 10" for n
        using True Inr that 1(2) by (cases "n = tried") auto
      then show ?thesis using Inr True by (subst open_cdev.simps) auto
    next
      case False
      then have "open_cdev op tried = open_cdev op (Suc tried)" using Inr by (subst open_cdev.simps) simp
      also have "(open_cdev op (Suc tried) = Some fd) \<longleftrightarrow>
         (\<exists>n. Suc tried \<le> n \<and> n \<le> 10 \<and> op n = Inl fd \<and> (\<forall>m. Suc tried \<le> m \<and> m < n \<longrightarrow> op m = Inr EBUSY))"
        using 1(1) [OF Inr] False by simp
      also have "\<dots> \<longleftrightarrow> (\<exists>n. tried \<le> n \<and> n \<le> 10 \<and> op n = Inl fd \<and> (\<forall>m. tried \<le> m \<and> m < n \<longrightarrow> op m = Inr EBUSY))"
      proof (intro iffI; elim exE conjE)
        fix n assume n: "Suc tried \<le> n" "n \<le> 10" "op n = Inl fd" "\<forall>m. Suc tried \<le> m \<and> m < n \<longrightarrow> op m = Inr EBUSY"
        have "op m = Inr EBUSY" if "tried \<le> m" "m < n" for m
          using n(4) that False Inr by (cases "m = tried") auto
        then show "\<exists>n. tried \<le> n \<and> n \<le> 10 \<and> op n = Inl fd \<and> (\<forall>m. tried \<le> m \<and> m < n \<longrightarrow> op m = Inr EBUSY)"
          using n by (intro exI [of _ n]) auto
      next
        fix n assume n: "tried \<le> n" "n \<le> 10" "op n = Inl fd" "\<forall>m. tried \<le> m \<and> m < n \<longrightarrow> op m = Inr EBUSY"
        then have "n \<noteq> tried" using Inr by auto
        then show "\<exists>n. Suc tried \<le> n \<and> n \<le> 10 \<and> op n = Inl fd \<and> (\<forall>m. Suc tried \<le> m \<and> m < n \<longrightarrow> op m = Inr EBUSY)"
          using n by (intro exI [of _ n]) auto
      qed
      finally show ?thesis .
    qed
  qed
qed

section \<open>A small device\<close>

definition sample_info :: ublksrv_ctrl_dev_info where
  "sample_info = \<lparr>nr_hw_queues = 1, queue_depth = 2, info_state = 0, info_pad0 = 0, max_io_buf_bytes = 4096,
     info_dev_id = 7, ublksrv_pid = 100, info_pad1 = 0, info_flags = 0, info_ublksrv_flags = 0,
     owner_uid = 0, owner_gid = 0, info_reserved1 = 0, info_reserved2 = 0\<rparr>"

definition sample_ctrl :: "json ublksrv_ctrl_dev" where
  "sample_ctrl = \<lparr>cd_dev_info = sample_info,
     cd_jbuf = \<lparr>jb_ptr = True, jb_text = None, jb_size = 512, jb_alloc = 512\<rparr>, cd_recover = False,
     cd_tgt_type = Some ''null'', cd_tgt_argc = 1, cd_tgt_argv = [], cd_run_dir = Some ''/run/ublksrvd'',
     cd_queues_cpuset = None, cd_ctrl_fd = 3, cd_recovery_jbuf = None\<rparr>"

definition sample_ops :: "'s tgt_dev_ops" where
  "sample_ops = \<lparr>to_name = ''null'', to_handle_io_async = True, to_alloc_io_buf = False, to_free_io_buf = False,
     to_handle_event = False, to_init_tgt = None, to_recovery_tgt = None, to_deinit_tgt = None\<rparr>"

definition sample_env :: "fring qinit_env" where
  "sample_env = \<lparr>qe_page = 4096, qe_mmap = Some (io_cmd_buf (sample_queue 0 ())), qe_buf = (\<lambda>i. if i = 0 then 0x1000 else 0x2000),
     qe_ring = Some (ring (sample_queue 0 ())), qe_register_files = True, qe_register_buffers = True,
     qe_commit_mem = 0, qe_fetch_mem = 0, qe_buf_ring = False, qe_efd = 5\<rparr>"

section \<open>Properties\<close>

text \<open>C4: A queue that was set up (not in batch mode) has told the driver about every tag exactly
  once: the submission ring holds one fetch command per tag, in order, each naming the queue and its
  tag, followed by at most the poll of the event descriptor; the driver owns every tag and
  \<open>cmd_inflight\<close> is the queue depth.\<close>

theorem queue_init_fetches_all:
  assumes "uring_ok U queued" "uring_submits U"
    and "queue_init_flags U E ops init_q data dev qid q0 = Inr q"
    and "\<not> has (info_flags (cd_dev_info (dv_ctrl dev))) UBLK_F_BATCH_IO"
    and "int (length (ios q0)) = snd (snd (ublksrv_calculate_depths dev))"
    and "unat (queue_depth (cd_dev_info (dv_ctrl dev))) \<le> 4096"
    and "qe_ring E = Some r"
  shows "(\<exists>sqes rest. queued (ring q) = queued r @ sqes @ rest \<and> length rest \<le> 1 \<and>
            list_all2 (fetch_sqe q) sqes [0..<unat (queue_depth (cd_dev_info (dv_ctrl dev)))]) \<and>
         qinv q (replicate (unat (queue_depth (cd_dev_info (dv_ctrl dev)))) Driver) \<and>
         unat (cmd_inflight q) = unat (queue_depth (cd_dev_info (dv_ctrl dev)))"
proof -
  obtain q1 where q1: "ring q1 = r" "queue_start q1" "q_depth q1 = unat (queue_depth (cd_dev_info (dv_ctrl dev)))"
    "q = ublksrv_submit_fetch_commands U q1" using queue_init_start [OF assms(3-6)] assms(7) by auto
  note all = submit_fetch_all [OF assms(1,2) q1(2,4)]
  have "fetch_sqe q = fetch_sqe q1" using all(4) by (simp add: fetch_sqe_def fun_eq_iff)
  then show ?thesis using all q1 by auto
qed

theorem queue_init_fetches_all_witness:
  "\<exists>q. queue_init_flags fring_api sample_env sample_ops None () (new_dev sample_ctrl) 0 (sample_queue 1 ()) = Inr q \<and>
       unat (cmd_inflight q) = 2 \<and> qinv q [Driver, Driver]"
proof -
  let ?i = "queue_init_flags fring_api sample_env sample_ops None () (new_dev sample_ctrl) 0 (sample_queue 1 ())"
  have c: "ublksrv_calculate_depths (new_dev sample_ctrl) = (2, 2, 2)"
    by (simp add: ublksrv_calculate_depths_def new_dev_def sample_ctrl_def sample_info_def Let_def)
  have "\<exists>q. ?i = Inr q"
    by (rule queue_init_succeeds [where iods = "io_cmd_buf (sample_queue 0 ())" and r = "ring (sample_queue 0 ())"])
       (simp_all add: sample_env_def new_dev_def sample_ctrl_def sample_info_def)
  then obtain q where q: "?i = Inr q" ..
  have r: "qe_ring sample_env = Some (ring (sample_queue 0 ()))" by (simp add: sample_env_def)
  have d: "unat (queue_depth (cd_dev_info (dv_ctrl (new_dev sample_ctrl)))) = 2"
    "\<not> has (info_flags (cd_dev_info (dv_ctrl (new_dev sample_ctrl)))) UBLK_F_BATCH_IO"
    by (simp_all add: new_dev_def sample_ctrl_def sample_info_def)
  have l: "int (length (ios (sample_queue 1 ()))) = snd (snd (ublksrv_calculate_depths (new_dev sample_ctrl)))"
    by (simp add: c sample_queue_def)
  have "replicate 2 Driver = [Driver, Driver]" by (simp add: numeral_2_eq_2)
  then show ?thesis
    using queue_init_fetches_all [OF fring_ok(1,2) q d(2) l _ r] q unfolding d(1) by simp
qed

text \<open>The io descriptors of the queues are mapped from disjoint ranges of the char device that
  stay below the io buffers: for pages of up to 64 KiB, queues below the maximal number of 32 and a
  depth of at most 4096, the range of a queue holds its descriptors, ends where the next queue's may
  begin, and ends before offset 0x80000000.\<close>

theorem cmd_buf_ranges:
  assumes "k \<le> 16" "d \<le> 4096" "qid < qid'" "qid' < 32"
  shows "d * 24 \<le> unat (ublksrv_queue_cmd_buf_sz (2 ^ k) d) \<and>
         unat (queue_cmd_buf_off (2 ^ k) qid) + unat (ublksrv_queue_cmd_buf_sz (2 ^ k) d)
           \<le> unat (queue_cmd_buf_off (2 ^ k) qid') \<and>
         unat (queue_cmd_buf_off (2 ^ k) qid') + unat (ublksrv_queue_cmd_buf_sz (2 ^ k) d)
           \<le> unat UBLKSRV_IO_BUF_OFFSET"
proof -
  let ?m = "unat (queue_max_cmd_buf_sz (2 ^ k))"
  note sz = cmd_buf_sizes [OF assms(1,2)]
  have "qid * ?m + ?m = Suc qid * ?m" by simp
  also have "\<dots> \<le> qid' * ?m" using assms(3) by (intro mult_le_mono1) simp
  finally have "qid * ?m + ?m \<le> qid' * ?m" .
  moreover have "qid' * ?m \<le> 31 * 163840" using assms(4) sz(3) by (intro mult_mono) auto
  ultimately show ?thesis
    using sz cmd_buf_off_unat [OF assms(1), of qid] cmd_buf_off_unat [OF assms(1,4)] assms(3,4) by simp
qed

theorem cmd_buf_ranges_witness:
  "unat (queue_cmd_buf_off 4096 0) + unat (ublksrv_queue_cmd_buf_sz 4096 128) \<le> unat (queue_cmd_buf_off 4096 1)"
  using cmd_buf_ranges [of 12 128 0 1] by simp

text \<open>Opening the char device retries exactly while it is busy: the result is the descriptor of
  the first attempt that worked, if all attempts before it failed with EBUSY and it is one of the
  first eleven, and otherwise opening fails.\<close>

theorem open_cdev_retries:
  "open_cdev op 0 = (if \<exists>n fd. n \<le> 10 \<and> op n = Inl fd \<and> (\<forall>m < n. op m = Inr EBUSY)
     then (case op (LEAST n. \<exists>fd. op n = Inl fd) of Inl fd \<Rightarrow> Some fd | Inr _ \<Rightarrow> None) else None)"
proof (cases "\<exists>n fd. n \<le> 10 \<and> op n = Inl fd \<and> (\<forall>m < n. op m = Inr EBUSY)")
  case True
  then obtain n fd where n: "n \<le> 10" "op n = Inl fd" "\<forall>m < n. op m = Inr EBUSY" by blast
  have "(LEAST n. \<exists>fd. op n = Inl fd) = n"
    using n by (intro Least_equality) (auto simp: not_less [symmetric])
  moreover have "open_cdev op 0 = Some fd" using open_cdev_from [of 0 op fd] n by auto
  ultimately show ?thesis using True n by simp
next
  case False
  then have "open_cdev op 0 \<noteq> Some fd" for fd using open_cdev_from [of 0 op fd] by blast
  then show ?thesis using False by (cases "open_cdev op 0") auto
qed

theorem open_cdev_retries_witness: "open_cdev (\<lambda>n. if n < 3 then Inr EBUSY else Inl 42) 0 = Some 42"
proof -
  have "(LEAST n::nat. \<exists>fd. (if n < 3 then Inr EBUSY else Inl 42 :: int + int) = Inl fd) = 3"
    by (rule Least_equality) (auto split: if_splits)
  then show ?thesis
    unfolding open_cdev_retries [of "\<lambda>n. if n < 3 then Inr EBUSY else Inl 42"]
    by (auto intro: exI [of _ 3])
qed

text \<open>When \<open>ublksrv_dev_init\<close> fails before the pid file exists (the char device cannot be opened),
  its cleanup closes descriptor 0 of the process: the pid file descriptor of the zeroed device is
  closed as if it had been opened.\<close>

theorem dev_init_closes_fd0:
  assumes "open_cdev (de_open E) 0 = None" "cd_run_dir ctrl = Some dir"
  shows "ublksrv_dev_init E ops ctrl = (None, [0])"
  using assms by (simp add: ublksrv_dev_init_def ublksrv_dev_deinit_def ublksrv_remove_pid_file_def
      ublksrv_tgt_deinit_def ublksrv_tgt_exit_def new_dev_def Let_def)

theorem dev_init_closes_fd0_witness:
  "ublksrv_dev_init \<lparr>de_open = (\<lambda>_. Inr 2), de_pid = \<lparr>ps_open = 3, ps_trunc = True, ps_write = True, ps_pid = 9\<rparr>,
     de_garbage_fd = 0\<rparr> (Some sample_ops) sample_ctrl = (None, [0])"
  by (rule dev_init_closes_fd0 [where dir = "''/run/ublksrvd''"]) (simp_all add: open_cdev.simps sample_ctrl_def)

end
