(* ===== verification/Tgt_Common.thy ===== *)
theory Tgt_Common
  imports Ublk_Init
begin

text \<open>
  What the targets share (targets/include/ublksrv_tgt.h): small helpers, allocating several
  submission entries, and the coroutine that handles one request.

  The coroutine of a request submits its entries, waits for one completion per entry, retries on
  -EAGAIN and completes the request. Its local state at a suspension point is what the model keeps:
  the number of completions still awaited and the result so far; no state means that the coroutine
  has run to its end, and resuming it then (which would be undefined) changes nothing. A target
  supplies the function that queues the entries of a request and returns how many completions they
  have.
\<close>

section \<open>Helpers\<close>

text \<open>\<open>__builtin_clz\<close> on a non-zero 32-bit value.\<close>

definition clz :: "u32 \<Rightarrow> nat" where
  "clz x = length (takeWhile (\<lambda>i. \<not> bit x i) (rev [0..<32]))"

definition ilog2 :: "u32 \<Rightarrow> nat" where
  "ilog2 x = 4 * 8 - 1 - clz x"

abbreviation (input) "UBLK_UNIQUE_TAG_BITS \<equiv> (16::nat)"
abbreviation (input) "UBLK_UNIQUE_TAG_MASK \<equiv> (0xffff::u32)"

definition ublk_unique_tag :: "u16 \<Rightarrow> u16 \<Rightarrow> u32" where
  "ublk_unique_tag hwq tag = push_bit UBLK_UNIQUE_TAG_BITS (ucast hwq) OR (ucast tag AND UBLK_UNIQUE_TAG_MASK)"

definition ublk_unique_tag_to_hwq :: "u32 \<Rightarrow> u16" where
  "ublk_unique_tag_to_hwq unique_tag = ucast (drop_bit UBLK_UNIQUE_TAG_BITS unique_tag)"

definition ublk_unique_tag_to_tag :: "u32 \<Rightarrow> u16" where
  "ublk_unique_tag_to_tag unique_tag = ucast (unique_tag AND UBLK_UNIQUE_TAG_MASK)"

definition ublk_param_is_valid :: "ublk_params \<Rightarrow> bool" where
  "ublk_param_is_valid p \<longleftrightarrow>
     \<not> (pb_logical_bs_shift (p_basic p) < 9 \<or> pb_logical_bs_shift (p_basic p) > 12) \<and>
     \<not> pb_logical_bs_shift (p_basic p) > pb_physical_bs_shift (p_basic p)"

text \<open>The opcode for reading or writing a file; other operations fail the assertion.\<close>

definition ublk_to_uring_fs_op :: "ublksrv_io_desc \<Rightarrow> bool \<Rightarrow> uring_op option" where
  "ublk_to_uring_fs_op iod zc =
     (if ublksrv_get_op iod = ucast UBLK_IO_OP_READ then Some (if zc then OP_READ_FIXED else OP_READ)
      else if ublksrv_get_op iod = ucast UBLK_IO_OP_WRITE then Some (if zc then OP_WRITE_FIXED else OP_WRITE)
      else None)"

definition is_ublk_io_cmd :: "u32 \<Rightarrow> bool" where
  "is_ublk_io_cmd op \<longleftrightarrow> op < UBLK_IO_FETCH_REQ"

definition ublksrv_tgt_queue_zc :: "('r, 't) ublksrv_queue \<Rightarrow> bool" where
  "ublksrv_tgt_queue_zc q \<longleftrightarrow> has (qstate q) UBLKSRV_ZERO_COPY"

definition ublksrv_tgt_queue_auto_zc :: "('r, 't) ublksrv_queue \<Rightarrow> bool" where
  "ublksrv_tgt_queue_auto_zc q \<longleftrightarrow> has (qstate q) UBLKSRV_AUTO_ZC"

text \<open>The length of a request in bytes, at the width the code computes it with.\<close>

definition iod_bytes :: "ublksrv_io_desc \<Rightarrow> u32" where
  "iod_bytes iod = push_bit 9 (nr_sectors iod)"

definition sizeof_ublk_io_tgt :: u32 where
  "sizeof_ublk_io_tgt = 24"

text \<open>A write to the json buffer of the device, whose result the targets do not look at.\<close>

definition dev_json ::
  "('s ublksrv_tgt_jbuf \<Rightarrow> (int \<times> 's ublksrv_tgt_jbuf) option) \<Rightarrow> 's ublksrv_dev \<Rightarrow> 's ublksrv_dev option" where
  "dev_json w dev = map_option (\<lambda>(ret, j). dev\<lparr>dv_ctrl := (dv_ctrl dev)\<lparr>cd_jbuf := j\<rparr>\<rparr>) (w (cd_jbuf (dv_ctrl dev)))"

section \<open>Several submission entries\<close>

text \<open>
  The entries of one request with the assignments to each. The callers do not look at the number
  of entries that were available; entries that are missing are not queued.
\<close>

fun get_sqes :: "'r uring_api \<Rightarrow> 'r \<Rightarrow> (uring_sqe \<Rightarrow> uring_sqe) list \<Rightarrow> nat \<times> 'r" where
  "get_sqes U r [] = (0, r)"
| "get_sqes U r (f # fs) = (case get_sqe U r f of None \<Rightarrow> (0, r)
     | Some r1 \<Rightarrow> (let (n, r2) = get_sqes U r1 fs in (Suc n, r2)))"

definition ublk_queue_alloc_sqes :: "'r uring_api \<Rightarrow> 'r \<Rightarrow> (uring_sqe \<Rightarrow> uring_sqe) list \<Rightarrow> nat \<times> 'r" where
  "ublk_queue_alloc_sqes U r fills =
     get_sqes U (if sq_space_left U r < length fills then submit U r else r) fills"

text \<open>Registering and unregistering the buffer of a request.\<close>

definition fill_buf_cmd :: "'r uring_api \<Rightarrow> u32 \<Rightarrow> nat \<Rightarrow> nat \<Rightarrow> u64 \<Rightarrow> uring_sqe \<Rightarrow> uring_sqe" where
  "fill_buf_cmd U cmd_op tag qid index sqe0 =
     (let sqe1 = prep_rw U OP_READ 0 0 0 0 sqe0
      in (ublksrv_set_sqe_cmd_op cmd_op (sqe1\<lparr>sqe_opcode := OP_URING_CMD, sqe_flags := {}\<rparr>))
           \<lparr>sqe_io_cmd := (sqe_io_cmd sqe1)\<lparr>ic_tag := of_nat tag, ic_addr := index, ic_q_id := of_nat qid\<rparr>\<rparr>)"

definition io_uring_prep_buf_register :: "'r uring_api \<Rightarrow> nat \<Rightarrow> nat \<Rightarrow> u64 \<Rightarrow> uring_sqe \<Rightarrow> uring_sqe" where
  "io_uring_prep_buf_register U tag qid index = fill_buf_cmd U UBLK_U_IO_REGISTER_IO_BUF tag qid index"

definition io_uring_prep_buf_unregister :: "'r uring_api \<Rightarrow> nat \<Rightarrow> nat \<Rightarrow> u64 \<Rightarrow> uring_sqe \<Rightarrow> uring_sqe" where
  "io_uring_prep_buf_unregister U tag qid index = fill_buf_cmd U UBLK_U_IO_UNREGISTER_IO_BUF tag qid index"

text \<open>User data of an entry that works on the request of a tag.\<close>

definition tgt_user_data :: "nat \<Rightarrow> u32 \<Rightarrow> u64" where
  "tgt_user_data tag op = build_user_data (of_nat tag) op 0 1"

section \<open>The coroutine of a request\<close>

record ublk_io_tgt =
  co :: "(int \<times> int) option"

record 'd tgt_priv =
  tp_ios :: "ublk_io_tgt list"
  tp_dev :: 'd

type_synonym ('r, 'd) tgt_queue = "('r, 'd tgt_priv) ublksrv_queue"
type_synonym ('r, 'd) tgt_submit = "('r, 'd) tgt_queue \<Rightarrow> nat \<Rightarrow> int \<times> 'r"

definition set_co :: "nat \<Rightarrow> (int \<times> int) option \<Rightarrow> ('r, 'd) tgt_queue \<Rightarrow> ('r, 'd) tgt_queue" where
  "set_co tag c q =
     q\<lparr>private_data := (private_data q)\<lparr>tp_ios := (tp_ios (private_data q))[tag := \<lparr>co = c\<rparr>]\<rparr>\<rparr>"

definition ublksrv_tgt_process_cqe :: "uring_cqe \<Rightarrow> int \<Rightarrow> int \<times> int" where
  "ublksrv_tgt_process_cqe cqe io_res =
     (cqe_res cqe, if is_ublk_io_cmd (user_data_to_op (cqe_user_data cqe)) then cqe_res cqe else io_res)"

text \<open>The result of the request after one more completion.\<close>

definition co_next_res :: "int \<Rightarrow> uring_cqe \<Rightarrow> int" where
  "co_next_res io_res cqe =
     (let (res, io_res1) = ublksrv_tgt_process_cqe cqe io_res
      in if res < 0 \<and> io_res1 \<ge> 0 then res else io_res1)"

text \<open>
  The coroutine from \<open>again:\<close> to its first suspension or its end. \<open>zero_ok\<close> tells whether a request
  without entries is completed at once (null target) or reported as an error (loop target).
\<close>

definition co_begin ::
  "'r uring_api \<Rightarrow> ('r, 'd) tgt_submit \<Rightarrow> bool \<Rightarrow> ('r, 'd) tgt_queue \<Rightarrow> nat \<Rightarrow> ('r, 'd) tgt_queue" where
  "co_begin U sub zero_ok q tag =
     (let (ret, r) = sub q tag; q1 = q\<lparr>ring := r\<rparr>
      in if ret > 0 then set_co tag (Some (ret, 0)) q1
         else if ret = 0 \<and> zero_ok then set_co tag None (snd (ublksrv_complete_io U q1 tag 0))
         else set_co tag None q1)"

text \<open>Resuming with a completion: the body of the loop, the retry and the end.\<close>

definition co_resume ::
  "'r uring_api \<Rightarrow> ('r, 'd) tgt_submit \<Rightarrow> bool \<Rightarrow> ('r, 'd) tgt_queue \<Rightarrow> nat \<Rightarrow> uring_cqe \<Rightarrow> ('r, 'd) tgt_queue" where
  "co_resume U sub zero_ok q tag cqe =
     (case co (tp_ios (private_data q) ! tag) of
        None \<Rightarrow> q
      | Some (n, io_res) \<Rightarrow>
          (let res = co_next_res io_res cqe in
           if n - 1 > 0 then set_co tag (Some (n - 1, res)) q
           else if res = - EAGAIN then co_begin U sub zero_ok q tag
           else set_co tag None (snd (ublksrv_complete_io U q tag res))))"

section \<open>Lemmas\<close>

interpretation unique_tag_codec: codec
  "\<lambda>(hwq, tag). ublk_unique_tag hwq tag"
  "\<lambda>u. (ublk_unique_tag_to_hwq u, ublk_unique_tag_to_tag u)" "\<lambda>_. True"
proof
  fix x :: "u16 \<times> u16"
  show "(\<lambda>u. (ublk_unique_tag_to_hwq u, ublk_unique_tag_to_tag u)) ((\<lambda>(hwq, tag). ublk_unique_tag hwq tag) x) = x"
    unfolding ublk_unique_tag_def ublk_unique_tag_to_hwq_def ublk_unique_tag_to_tag_def mask_numerals
    by (cases x) (auto intro!: bit_word_eqI simp: bit_simps bit_out)
qed

lemma tact_priv: "tact U (q, own) (q\<lparr>private_data := p\<rparr>, own)"
proof -
  have "q\<lparr>private_data := p\<rparr> = q\<lparr>ring := ring q, private_data := p, tgt_io_inflight := tgt_io_inflight q,
      ctxs := ctxs q, efd_count := efd_count q, epollfd := epollfd q, epoll_callbacks := epoll_callbacks q\<rparr>"
    by simp
  then show ?thesis by (metis tact_private tact_refl)
qed

lemma tact_set_co: "tact U (q, own) (set_co tag c q, own)"
  unfolding set_co_def by (rule tact_priv)

lemma tact_complete_one:
  assumes "tag < q_depth q" "own ! tag = Target"
  shows "\<exists>own'. tact U (q, own) (snd (ublksrv_complete_io U q tag res), own')"
proof -
  obtain ret q2 where "ublksrv_complete_io U q tag res = (ret, q2)" by fastforce
  then show ?thesis using tact_complete [OF tact_refl assms] by fastforce
qed

lemma tact_then: "\<exists>own'. tact U (q, own) (q1, own') \<Longrightarrow> (\<And>own'. tact U (q1, own') (q2, own')) \<Longrightarrow>
    \<exists>own'. tact U (q, own) (q2, own')"
  using tact_trans by blast

text \<open>The coroutine keeps the contract of a target whatever entries it submits.\<close>

lemma co_begin_acts: "acts_for U (co_begin U sub z)"
  unfolding acts_for_def
proof (intro allI impI)
  fix q :: "('a, 'b) tgt_queue" and own tag
  assume h: "qinv q own" "tag < q_depth q" "own ! tag = Target"
  obtain ret r where s: "sub q tag = (ret, r)" by fastforce
  have ring: "tact U (q, own) (q\<lparr>ring := r\<rparr>, own)" by (rule tact_ring)
  have cmp: "\<exists>own'. tact U (q\<lparr>ring := r\<rparr>, own) (snd (ublksrv_complete_io U (q\<lparr>ring := r\<rparr>) tag 0), own')"
    using h by (intro tact_complete_one) simp_all
  have "\<exists>own'. tact U (q\<lparr>ring := r\<rparr>, own) (co_begin U sub z q tag, own')"
    using tact_set_co [of U "q\<lparr>ring := r\<rparr>" own] tact_then [OF cmp tact_set_co]
    by (auto simp: co_begin_def s Let_def)
  then show "\<exists>own'. tact U (q, own) (co_begin U sub z q tag, own')" using tact_trans ring by blast
qed

lemma co_resume_acts: "acts_for U (\<lambda>q tag. co_resume U sub z q tag cqe)"
  unfolding acts_for_def
proof (intro allI impI)
  fix q :: "('a, 'b) tgt_queue" and own tag
  assume h: "qinv q own" "tag < q_depth q" "own ! tag = Target"
  show "\<exists>own'. tact U (q, own) (co_resume U sub z q tag cqe, own')"
    using tact_refl [of U q own] tact_set_co [of U q own] acts_forD [OF co_begin_acts h]
      tact_then [OF tact_complete_one [OF h(2,3)] tact_set_co]
    by (auto simp: co_resume_def Let_def split: option.splits)
qed

lemma get_sqes_queued:
  assumes "uring_ok U queued" "get_sqes U r fs = (length fs, r')"
  shows "\<exists>sqes. queued r' = queued r @ sqes \<and> list_all2 (\<lambda>sqe f. \<exists>slot. sqe = f slot) sqes fs"
  using assms(2)
proof (induction fs arbitrary: r)
  case (Cons f fs)
  obtain r1 where r1: "get_sqe U r f = Some r1" "get_sqes U r1 fs = (length fs, r')"
    using Cons.prems by (auto split: option.splits prod.splits)
  obtain slot where "queued r1 = queued r @ [f slot]" using uring_okD(1) [OF assms(1) r1(1)] ..
  moreover obtain sqes where "queued r' = queued r1 @ sqes" "list_all2 (\<lambda>sqe f. \<exists>slot. sqe = f slot) sqes fs"
    using Cons.IH [OF r1(2)] by blast
  ultimately show ?case by (intro exI [of _ "f slot # sqes"]) auto
qed auto

lemma alloc_sqes_queued:
  assumes "uring_ok U queued" "ublk_queue_alloc_sqes U r fs = (length fs, r')"
  shows "\<exists>sqes. queued r' = queued r @ sqes \<and> list_all2 (\<lambda>sqe f. \<exists>slot. sqe = f slot) sqes fs"
proof -
  let ?r = "if sq_space_left U r < length fs then submit U r else r"
  have "queued ?r = queued r" using uring_okD(4) [OF assms(1)] by simp
  moreover have "get_sqes U ?r fs = (length fs, r')" using assms(2) by (simp add: ublk_queue_alloc_sqes_def)
  ultimately show ?thesis using get_sqes_queued [OF assms(1), of ?r fs r'] by simp
qed

text \<open>An entry takes one place of the ring.\<close>

definition uring_space :: "'r uring_api \<Rightarrow> bool" where
  "uring_space U \<longleftrightarrow> (\<forall>r f r'. get_sqe U r f = Some r' \<longrightarrow> sq_space_left U r = Suc (sq_space_left U r'))"

lemma get_sqes_all:
  assumes "uring_ok U queued" "uring_space U" "length fs \<le> sq_space_left U r"
  shows "fst (get_sqes U r fs) = length fs"
  using assms(3)
proof (induction fs arbitrary: r)
  case (Cons f fs)
  then obtain r1 where r1: "get_sqe U r f = Some r1"
    using uring_okD(3) [OF assms(1), of r f] by (cases "get_sqe U r f") auto
  then have "length fs \<le> sq_space_left U r1" using assms(2) Cons.prems by (fastforce simp: uring_space_def)
  then show ?case using Cons.IH [of r1] r1 by (auto split: prod.splits)
qed simp

lemma alloc_sqes_fills:
  assumes U: "uring_ok U queued" "uring_space U" and n: "length fs \<le> sq_space_left U (submit U r)"
  shows "\<exists>sqes. queued (snd (ublk_queue_alloc_sqes U r fs)) = queued r @ sqes \<and>
                list_all2 (\<lambda>sqe f. \<exists>slot. sqe = f slot) sqes fs"
proof -
  have "fst (ublk_queue_alloc_sqes U r fs) = length fs"
    using n get_sqes_all [OF U] by (simp add: ublk_queue_alloc_sqes_def)
  then show ?thesis using alloc_sqes_queued [OF U(1), of r fs "snd (ublk_queue_alloc_sqes U r fs)"]
    by (metis prod.collapse)
qed

lemma uring_prepsD:
  assumes "uring_preps U"
  shows "sqe_opcode (prep_rw U op fd addr len off s) = op" "sqe_fd (prep_rw U op fd addr len off s) = fd"
    "sqe_addr (prep_rw U op fd addr len off s) = addr" "sqe_len (prep_rw U op fd addr len off s) = len"
    "sqe_off (prep_rw U op fd addr len off s) = off" "sqe_flags (prep_rw U op fd addr len off s) = {}"
    "sqe_opcode (prep_fsync U fd fl s) = OP_FSYNC" "sqe_fd (prep_fsync U fd fl s) = fd"
    "sqe_opcode (prep_fallocate U fd mode off len64 s) = OP_FALLOCATE" "sqe_fd (prep_fallocate U fd mode off len64 s) = fd"
    "sqe_off (prep_fallocate U fd mode off len64 s) = off" "sqe_addr (prep_fallocate U fd mode off len64 s) = len64"
    "sqe_len (prep_fallocate U fd mode off len64 s) = mode"
  using assms by (auto simp: uring_preps_def Let_def)

lemma fring_space: "uring_space fring_api"
  by (auto simp: uring_space_def fring_api_def)

lemma tgt_user_data_decodes:
  assumes "tag < 65536" "drop_bit 8 op = 0"
  shows "user_data_to_tag (tgt_user_data tag op) = of_nat tag" "user_data_to_op (tgt_user_data tag op) = op"
    "is_target_io (tgt_user_data tag op)" "\<not> is_internal_io (tgt_user_data tag op)"
  using tag_user_data_assert [OF assms]
  by (simp_all add: tgt_user_data_def user_data_tag user_data_op user_data_is_target user_data_not_internal)

subsection \<open>The result of a request\<close>

lemma co_next_res_other:
  "\<not> is_ublk_io_cmd (user_data_to_op (cqe_user_data c)) \<Longrightarrow>
   co_next_res r c = (if cqe_res c < 0 \<and> r \<ge> 0 then cqe_res c else r)"
  by (simp add: co_next_res_def ublksrv_tgt_process_cqe_def Let_def)

lemma co_next_res_io:
  "is_ublk_io_cmd (user_data_to_op (cqe_user_data c)) \<Longrightarrow> co_next_res r c = cqe_res c"
  by (simp add: co_next_res_def ublksrv_tgt_process_cqe_def Let_def)

lemma co_res_post:
  "\<forall>c\<in>set post. \<not> is_ublk_io_cmd (user_data_to_op (cqe_user_data c)) \<Longrightarrow>
   foldl co_next_res r post
     = (if r < 0 then r else case find (\<lambda>c. cqe_res c < 0) post of None \<Rightarrow> r | Some c \<Rightarrow> cqe_res c)"
  by (induction post arbitrary: r) (auto simp: co_next_res_other)

lemma set_co_twice [simp]: "set_co tag c (set_co tag d q) = set_co tag c q"
  by (simp add: set_co_def)

lemma complete_io_set_co:
  "ublksrv_complete_io U (set_co t c q) tag res = map_prod id (set_co t c) (ublksrv_complete_io U q tag res)"
proof -
  have fill: "fill_io_cmd (set_co t c q') = fill_io_cmd q'" for q' :: "('a, 'b) tgt_queue"
    by (simp add: fill_io_cmd_def set_co_def ublksrv_queue_use_buf_def fun_eq_iff Let_def)
  have io: "ublksrv_queue_io_cmd U (set_co t c q') tag = map_prod id (set_co t c) (ublksrv_queue_io_cmd U q' tag)"
    for q' :: "('a, 'b) tgt_queue"
    unfolding ublksrv_queue_io_cmd_def Let_def fill
    by (auto simp: set_co_def split: prod.splits bool.splits)
  have upd: "upd_io tag f (set_co t c q') = set_co t c (upd_io tag f q')" for f and q' :: "('a, 'b) tgt_queue"
    by (simp add: upd_io_def set_co_def)
  have add: "ublksrv_batch_add_complete (set_co t c q) tag res = set_co t c (ublksrv_batch_add_complete q tag res)"
    by (simp add: ublksrv_batch_add_complete_def cb_write_def elem_off_def batch_write_elem_def set_co_def
        ublksrv_queue_use_buf_def Let_def)
  have "ublksrv_queue_batch_io (set_co t c q) = ublksrv_queue_batch_io q"
    by (simp add: ublksrv_queue_batch_io_def set_co_def)
  then show ?thesis unfolding ublksrv_complete_io_def upd io add by simp
qed

lemma co_resume_last:
  assumes "tag < length (tp_ios (private_data q))" "co (tp_ios (private_data q) ! tag) = Some (n, r)" "n \<le> 1"
    and "co_next_res r c \<noteq> - EAGAIN"
  shows "co_resume U sub z q tag c = set_co tag None (snd (ublksrv_complete_io U q tag (co_next_res r c)))"
  using assms by (simp add: co_resume_def)

lemma co_run:
  assumes "tag < length (tp_ios (private_data q))" "cqes \<noteq> []" "foldl co_next_res r cqes \<noteq> - EAGAIN"
    and "co (tp_ios (private_data q) ! tag) = Some (int (length cqes), r)"
  shows "foldl (\<lambda>q c. co_resume U sub z q tag c) q cqes
       = set_co tag None (snd (ublksrv_complete_io U q tag (foldl co_next_res r cqes)))"
  using assms
proof (induction cqes arbitrary: q r)
  case (Cons c cqes)
  show ?case
  proof (cases "cqes = []")
    case True
    then show ?thesis using Cons.prems by (simp add: co_resume_last)
  next
    case False
    let ?q = "set_co tag (Some (int (length cqes), co_next_res r c)) q"
    have step: "co_resume U sub z q tag c = ?q"
      using Cons.prems False by (simp add: co_resume_def Let_def)
    have "foldl (\<lambda>q c. co_resume U sub z q tag c) ?q cqes
        = set_co tag None (snd (ublksrv_complete_io U ?q tag (foldl co_next_res (co_next_res r c) cqes)))"
      using Cons.prems False by (intro Cons.IH) (auto simp: set_co_def)
    also have "\<dots> = set_co tag None (snd (ublksrv_complete_io U q tag (foldl co_next_res (co_next_res r c) cqes)))"
      by (simp add: complete_io_set_co)
    finally show ?thesis by (simp add: step)
  qed
qed simp

section \<open>Properties\<close>

text \<open>C8: A request that was submitted with \<open>n\<close> completions to come is completed by the last of them
  and not before, with the result of the completion of the request's own operation if that failed,
  otherwise the first failure of the entries after it, otherwise the operation's result; the coroutine
  is then finished (unless the result is -EAGAIN, which resubmits the request).\<close>

theorem coroutine_result:
  assumes "tag < length (tp_ios (private_data q))"
    and "co (tp_ios (private_data q) ! tag) = Some (int (length (pre @ [c] @ post)), 0)"
    and "is_ublk_io_cmd (user_data_to_op (cqe_user_data c))"
    and "\<forall>c\<in>set post. \<not> is_ublk_io_cmd (user_data_to_op (cqe_user_data c))"
    and "res = (if cqe_res c < 0 then cqe_res c
                else case find (\<lambda>c. cqe_res c < 0) post of None \<Rightarrow> cqe_res c | Some d \<Rightarrow> cqe_res d)"
    and "res \<noteq> - EAGAIN"
  shows "foldl (\<lambda>q c. co_resume U sub z q tag c) q (pre @ [c] @ post)
       = set_co tag None (snd (ublksrv_complete_io U q tag res))"
proof -
  have "foldl co_next_res 0 (pre @ [c] @ post) = res"
    using co_res_post [OF assms(4)] assms(3,5) by (simp add: co_next_res_io)
  then show ?thesis using co_run [OF assms(1) _ _ assms(2), of U sub z] assms(6) by simp
qed

theorem coroutine_result_witness:
  "let q = sample_queue 0 \<lparr>tp_ios = [\<lparr>co = Some (2, 0)\<rparr>, \<lparr>co = None\<rparr>], tp_dev = ()\<rparr>;
       c1 = \<lparr>cqe_user_data = tgt_user_data 0 1, cqe_res = 512, cqe_more = False\<rparr>;
       c2 = \<lparr>cqe_user_data = tgt_user_data 0 0x24, cqe_res = -5, cqe_more = False\<rparr>
   in foldl (\<lambda>q c. co_resume fring_api (\<lambda>q tag. (0, ring q)) False q 0 c) q [c1, c2]
      = set_co 0 None (snd (ublksrv_complete_io fring_api q 0 (-5)))"
proof -
  have "is_ublk_io_cmd (user_data_to_op (tgt_user_data 0 1))"
    "\<not> is_ublk_io_cmd (user_data_to_op (tgt_user_data 0 0x24))"
    by (simp_all add: is_ublk_io_cmd_def tgt_user_data_def user_data_op build_user_data_assert_def)
  then show ?thesis
    using coroutine_result [of 0 "sample_queue 0 \<lparr>tp_ios = [\<lparr>co = Some (2, 0)\<rparr>, \<lparr>co = None\<rparr>], tp_dev = ()\<rparr>" "[]"
      "\<lparr>cqe_user_data = tgt_user_data 0 1, cqe_res = 512, cqe_more = False\<rparr>"
      "[\<lparr>cqe_user_data = tgt_user_data 0 0x24, cqe_res = -5, cqe_more = False\<rparr>]" "-5" fring_api]
    by (simp add: Let_def sample_queue_def)
qed

end
