(* ===== verification/Tgt_Null.thy ===== *)
theory Tgt_Null
  imports Tgt_Common
begin

text \<open>
  The null target (targets/ublk.null.cpp), which answers every request without storing anything: its
  request handling as callbacks on the queue, and its initialisation with the json description. The
  locale \<open>tgt_contract\<close> is interpreted on its callbacks.
\<close>

section \<open>Handling requests\<close>

abbreviation (input) "IORING_NOP_INJECT_RESULT \<equiv> (1::u32)"
abbreviation (input) "IORING_NOP_FIXED_BUFFER \<equiv> (8::u32)"

definition fill_nop :: "'r uring_api \<Rightarrow> iosqe_flag set \<Rightarrow> ublksrv_io_desc \<Rightarrow> nat \<Rightarrow> uring_sqe \<Rightarrow> uring_sqe" where
  "fill_nop U flags iod tag sqe0 =
     (let sqe1 = prep_nop U sqe0
      in sqe1\<lparr>sqe_buf_index := of_nat tag, sqe_flags := sqe_flags sqe1 \<union> flags,
              sqe_rw_flags := IORING_NOP_FIXED_BUFFER OR IORING_NOP_INJECT_RESULT,
              sqe_len := iod_bytes iod,
              sqe_user_data := tgt_user_data tag (ucast (ublksrv_get_op iod))\<rparr>)"

definition null_submit_io :: "'r uring_api \<Rightarrow> ('r, 'd) tgt_submit" where
  "null_submit_io U q tag =
     (let iod = ublksrv_get_iod q tag in
      if ublksrv_tgt_queue_auto_zc q then
        (1, snd (ublk_queue_alloc_sqes U (ring q) [fill_nop U {IOSQE_FIXED_FILE} iod tag]))
      else if \<not> ublksrv_tgt_queue_zc q then (0, ring q)
      else
        (2, snd (ublk_queue_alloc_sqes U (ring q)
          [\<lambda>s. (let s1 = io_uring_prep_buf_register U tag (q_id q) (of_nat tag) s
                in s1\<lparr>sqe_flags := sqe_flags s1 \<union> {IOSQE_CQE_SKIP_SUCCESS, IOSQE_FIXED_FILE, IOSQE_IO_LINK},
                      sqe_user_data := tgt_user_data tag (IOC_NR UBLK_U_IO_REGISTER_IO_BUF)\<rparr>),
           fill_nop U {IOSQE_FIXED_FILE, IOSQE_IO_LINK} iod tag,
           \<lambda>s. (let s1 = io_uring_prep_buf_unregister U tag (q_id q) (of_nat tag) s
                in s1\<lparr>sqe_flags := sqe_flags s1 \<union> {IOSQE_FIXED_FILE},
                      sqe_user_data := tgt_user_data tag (IOC_NR UBLK_U_IO_UNREGISTER_IO_BUF)\<rparr>)])))"

definition null_handle_io_async ::
  "'r uring_api \<Rightarrow> ('r, 'd) tgt_queue \<Rightarrow> nat \<Rightarrow> ('r, 'd) tgt_queue" where
  "null_handle_io_async U q tag =
     (if ublksrv_tgt_queue_zc q then co_begin U (null_submit_io U) True q tag
      else snd (ublksrv_complete_io U q tag (sint (iod_bytes (ublksrv_get_iod q tag)))))"

definition null_tgt_io_done ::
  "'r uring_api \<Rightarrow> ('r, 'd) tgt_queue \<Rightarrow> nat \<Rightarrow> uring_cqe \<Rightarrow> ('r, 'd) tgt_queue" where
  "null_tgt_io_done U q tag cqe = co_resume U (null_submit_io U) True q tag cqe"

definition null_tgt_type :: "'r uring_api \<Rightarrow> ('r, 'd tgt_priv) tgt_ops" where
  "null_tgt_type U =
     \<lparr>handle_io_async = null_handle_io_async U, tgt_io_done = Some (null_tgt_io_done U),
      handle_event = None, handle_io_background = None, idle_fn = None, epoll_cb = (\<lambda>_ q _. q)\<rparr>"

section \<open>Initialisation\<close>

text \<open>The parameters read from json; the local variable they are read into starts undefined.\<close>

definition null_setup_tgt :: "'s json_lib \<Rightarrow> 's ublksrv_dev \<Rightarrow> (int \<times> 's ublksrv_dev) option" where
  "null_setup_tgt J dev = (case ublk_json_read_params J zero_params (cd_jbuf (dv_ctrl dev)) of
     None \<Rightarrow> None
   | Some (ret, p) \<Rightarrow>
       if ret \<noteq> 0 then Some (ret, dev)
       else
         (let info = cd_dev_info (dv_ctrl dev); depth = ucast (queue_depth info) in
          Some (0, dev\<lparr>dv_tgt := (dv_tgt dev)
            \<lparr>ti_dev_size := push_bit 9 (pb_dev_sectors (p_basic p)),
             ti_tgt_ring_depth := (if has (info_flags info) UBLK_F_SUPPORT_ZERO_COPY then depth * 2 else depth),
             ti_nr_fds := 0, ti_io_data_size := sizeof_ublk_io_tgt\<rparr>\<rparr>)))"

definition null_dev_size :: u64 where
  "null_dev_size = 250 * 1024 * 1024 * 1024"

definition null_params :: "ublksrv_ctrl_dev_info \<Rightarrow> ublk_params" where
  "null_params info = zero_params\<lparr>p_types := UBLK_PARAM_TYPE_BASIC,
     p_basic := (p_basic zero_params)\<lparr>pb_attrs := UBLK_ATTR_VOLATILE_CACHE, pb_logical_bs_shift := 9,
       pb_physical_bs_shift := 12, pb_io_opt_shift := 12, pb_io_min_shift := 9,
       pb_max_sectors := drop_bit 9 (max_io_buf_bytes info), pb_dev_sectors := drop_bit 9 null_dev_size\<rparr>\<rparr>"

definition null_init_tgt :: "'s json_lib \<Rightarrow> 's ublksrv_dev \<Rightarrow> (int \<times> 's ublksrv_dev) option" where
  "null_init_tgt J dev =
     (let info = cd_dev_info (dv_ctrl dev) in
      if has (info_flags info) UBLK_F_UNPRIVILEGED_DEV then Some (-1, dev)
      else if ublksrv_is_recovering (dv_ctrl dev) then null_setup_tgt J dev
      else do {
        d1 \<leftarrow> dev_json (ublk_json_write_dev_info J info) dev;
        d2 \<leftarrow> dev_json (ublk_json_write_target_base J \<lparr>tj_name = ''null'', tj_type = 0, tj_dev_size = 0\<rparr>) d1;
        d3 \<leftarrow> dev_json (ublk_json_write_params J (null_params info)) d2;
        null_setup_tgt J d3 })"

section \<open>The contract\<close>

lemma null_handle_acts: "acts_for U (null_handle_io_async U)"
  unfolding acts_for_def
proof (intro allI impI)
  fix q :: "('a, 'b) tgt_queue" and own tag
  assume h: "qinv q own" "tag < q_depth q" "own ! tag = Target"
  show "\<exists>own'. tact U (q, own) (null_handle_io_async U q tag, own')"
    using acts_forD [OF co_begin_acts h] tact_complete_one [OF h(2,3)] by (simp add: null_handle_io_async_def)
qed

interpretation null_tgt: tgt_contract U "null_tgt_type U" for U :: "'r uring_api"
  by unfold_locales
     (auto simp: null_tgt_type_def null_tgt_io_done_def null_handle_acts co_resume_acts acts_id)

section \<open>Properties\<close>

text \<open>Without zero copy the null target answers a request at once: when the driver hands over the
  request of a tag, exactly one command is queued, it commits the request of that tag with its length
  in bytes as the result and fetches the next one, and the driver holds the tag again, in a reachable
  state.\<close>

theorem null_commits_request:
  assumes U: "uring_ok U queued" "uring_submits U"
    and r: "reachable U (null_tgt_type U) (q, own)"
    and cqe: "cmd_cqe q cqe tag" "own ! tag = Driver" "cqe_res cqe = UBLK_IO_RES_OK"
    and nz: "\<not> ublksrv_tgt_queue_zc q"
  shows "\<exists>sqe. queued (ring (ublksrv_handle_cqe U (null_tgt_type U) q cqe)) = queued (ring q) @ [sqe] \<and>
    IOC_NR (sqe_cmd_op sqe) = UBLK_IO_COMMIT_AND_FETCH_REQ \<and>
    ic_q_id (sqe_io_cmd sqe) = of_nat (q_id q) \<and> ic_tag (sqe_io_cmd sqe) = of_nat tag \<and>
    ic_result (sqe_io_cmd sqe) = nr_sectors (ublksrv_get_iod q tag) * 512 \<and>
    cmd_inflight (ublksrv_handle_cqe U (null_tgt_type U) q cqe) = cmd_inflight q \<and>
    reachable U (null_tgt_type U) (ublksrv_handle_cqe U (null_tgt_type U) q cqe, own)"
proof -
  let ?T = "null_tgt_type U" and ?q1 = "cqe_received q cqe" and ?own = "own[tag := Target]"
  have inv: "qinv q own" using reachable_qinv [OF r] by simp
  have t: "tag < q_depth q" "tag < length own" using cqe qinvD(2) [OF inv] by (auto simp: cmd_cqe_def)
  have inv1: "qinv ?q1 ?own" by (rule cqe_received_target [OF inv cqe(1,2)])
  have zc: "\<not> ublksrv_tgt_queue_zc ?q1" using nz by (simp add: ublksrv_tgt_queue_zc_def cqe_received_has)
  let ?res = "sint (iod_bytes (ublksrv_get_iod q tag))"
  obtain ret q2 where c: "ublksrv_complete_io U ?q1 tag ?res = (ret, q2)" by fastforce
  have h: "ublksrv_handle_cqe U ?T q cqe = q2"
    using handle_cqe_cmd [OF qinvD(1) [OF inv] cqe(1), of U ?T] cqe(3) zc c
    by (simp add: null_tgt_type_def null_handle_io_async_def ublksrv_get_iod_def)
  have "word_of_int ?res = nr_sectors (ublksrv_get_iod q tag) * 512"
    by (simp add: iod_bytes_def push_bit_eq_mult)
  then obtain sqe where s: "queued (ring q2) = queued (ring q) @ [sqe]" "ret = 1"
      "IOC_NR (sqe_cmd_op sqe) = UBLK_IO_COMMIT_AND_FETCH_REQ" "ic_q_id (sqe_io_cmd sqe) = of_nat (q_id q)"
      "ic_tag (sqe_io_cmd sqe) = of_nat tag" "ic_result (sqe_io_cmd sqe) = nr_sectors (ublksrv_get_iod q tag) * 512"
      "cmd_inflight q2 = cmd_inflight q"
    using complete_io_commits [OF U inv1 _ _ c] t by auto
  have "tact U (?q1, ?own) (q2, ?own[tag := issued ret])"
    using tact_complete [OF tact_refl _ _ c, of ?own] t by simp
  moreover have "?own[tag := issued ret] = own" using s(2) cqe(2) t by (simp add: issued_def) (metis list_update_id)
  ultimately have "reachable U ?T (q2, own)"
    using reachable.step [OF r qstep.cmd_ok [OF cqe, of U ?T own]] h by simp
  with s show ?thesis unfolding h by blast
qed

definition sample_null :: "(fring, unit) tgt_queue" where
  "sample_null = snd (ublksrv_queue_io_cmd fring_api (sample_queue 0 \<lparr>tp_ios = [\<lparr>co = None\<rparr>, \<lparr>co = None\<rparr>], tp_dev = ()\<rparr>) 0)"

theorem null_commits_request_witness:
  "\<exists>sqe. last (fr_queued (ring (ublksrv_handle_cqe fring_api (null_tgt_type fring_api) sample_null
           \<lparr>cqe_user_data = 0, cqe_res = 0, cqe_more = False\<rparr>))) = sqe \<and> ic_result (sqe_io_cmd sqe) = 4096"
proof -
  let ?cqe = "\<lparr>cqe_user_data = 0, cqe_res = 0, cqe_more = False\<rparr>"
  have "cmd_cqe sample_null ?cqe 0" "\<not> ublksrv_tgt_queue_zc sample_null"
    by (simp_all add: cmd_cqe_def sample_null_def sample_issued_sel is_target_io_def user_data_to_tag_def
        ublksrv_tgt_queue_zc_def)
  moreover have "nr_sectors (ublksrv_get_iod sample_null 0) = 8"
    by (simp add: sample_null_def ublksrv_get_iod_def sample_issued_sel) (simp add: sample_queue_def)
  ultimately show ?thesis
    using null_commits_request [OF fring_ok(1,2), of sample_null "[Driver, Unissued]" ?cqe 0]
      sample_reachable [of "null_tgt_type fring_api" "\<lparr>tp_ios = [\<lparr>co = None\<rparr>, \<lparr>co = None\<rparr>], tp_dev = ()\<rparr>"] by (fastforce simp: sample_null_def)
qed

end
