(* ===== verification/Getopt.thy ===== *)
theory Getopt
  imports Ublk_Utils
begin

text \<open>
  \<open>getopt_long\<close> of the C library as the sources use it: the sequence of its results over an argument
  vector. An event holds the returned code, \<open>optarg\<close> and, for a long option, its index. A leading
  \<open>-\<close> of the option string returns other arguments in order with code 1, otherwise they are
  skipped; a following \<open>:\<close> makes a missing argument return \<open>:\<close> instead of \<open>?\<close>. A long option may be
  abbreviated as long as that is unambiguous.
\<close>

record long_opt =
  lo_name :: string
  lo_has_arg :: bool
  lo_val :: int

datatype getopt_ev = Ev (ev_code: int) (ev_arg: "string option") (ev_long: "nat option")

abbreviation (input) "chr_code c \<equiv> (of_char c :: int)"

fun short_spec :: "string \<Rightarrow> char \<Rightarrow> bool option" where
  "short_spec [] c = None"
| "short_spec [x] c = (if x = c then Some False else None)"
| "short_spec (x # y # r) c =
     (if y = CHR '':'' then (if x = c then Some True else short_spec r c)
      else if x = c then Some False else short_spec (y # r) c)"

fun getopt_cluster :: "int \<Rightarrow> string \<Rightarrow> string \<Rightarrow> string list \<Rightarrow> getopt_ev list \<times> string list" where
  "getopt_cluster miss opts [] rest = ([], rest)"
| "getopt_cluster miss opts (c # cs) rest =
     (case short_spec opts c of
        None \<Rightarrow> (let (es, r) = getopt_cluster miss opts cs rest in (Ev (chr_code (CHR ''?'')) None None # es, r))
      | Some False \<Rightarrow> (let (es, r) = getopt_cluster miss opts cs rest in (Ev (chr_code c) None None # es, r))
      | Some True \<Rightarrow>
          if cs \<noteq> [] then ([Ev (chr_code c) (Some cs) None], rest)
          else (case rest of [] \<Rightarrow> ([Ev miss None None], []) | a # r \<Rightarrow> ([Ev (chr_code c) (Some a) None], r)))"

text \<open>The long option a name stands for: an exact match, or the only one it abbreviates.\<close>

definition find_long :: "long_opt list \<Rightarrow> string \<Rightarrow> nat option" where
  "find_long lopts nm =
     (case filter (\<lambda>i. lo_name (lopts ! i) = nm) [0..<length lopts] of
        i # _ \<Rightarrow> Some i
      | [] \<Rightarrow> (case filter (\<lambda>i. take (length nm) (lo_name (lopts ! i)) = nm) [0..<length lopts] of
                 [i] \<Rightarrow> Some i | _ \<Rightarrow> None))"

definition opt_name_val :: "string \<Rightarrow> string \<times> string option" where
  "opt_name_val s =
     (takeWhile (\<lambda>c. c \<noteq> CHR ''='') s,
      case dropWhile (\<lambda>c. c \<noteq> CHR ''='') s of [] \<Rightarrow> None | _ # v \<Rightarrow> Some v)"

definition getopt_longarg :: "int \<Rightarrow> long_opt list \<Rightarrow> string \<Rightarrow> string list \<Rightarrow> getopt_ev \<times> string list" where
  "getopt_longarg miss lopts s rest =
     (let (nm, val) = opt_name_val s
      in case find_long lopts nm of
           None \<Rightarrow> (Ev (chr_code (CHR ''?'')) None None, rest)
         | Some i \<Rightarrow>
             if lo_has_arg (lopts ! i) then
               (case val of Some v \<Rightarrow> (Ev (lo_val (lopts ! i)) (Some v) (Some i), rest)
                | None \<Rightarrow> (case rest of [] \<Rightarrow> (Ev miss None None, [])
                             | a # r \<Rightarrow> (Ev (lo_val (lopts ! i)) (Some a) (Some i), r)))
             else if val = None then (Ev (lo_val (lopts ! i)) None (Some i), rest)
             else (Ev (chr_code (CHR ''?'')) None None, rest))"

lemma getopt_cluster_len: "getopt_cluster miss opts cs rest = (es, r) \<Longrightarrow> length r \<le> length rest"
  by (induction miss opts cs rest arbitrary: es r rule: getopt_cluster.induct)
     (auto split: option.splits bool.splits prod.splits list.splits if_splits)

lemma getopt_longarg_len: "getopt_longarg miss lopts s rest = (e, r) \<Longrightarrow> length r \<le> length rest"
  by (auto simp: getopt_longarg_def split: prod.splits option.splits list.splits if_splits)

text \<open>\<open>opts\<close> is the option string without its leading \<open>-\<close> and \<open>:\<close>.\<close>

function getopt_args :: "bool \<Rightarrow> int \<Rightarrow> string \<Rightarrow> long_opt list \<Rightarrow> string list \<Rightarrow> getopt_ev list" where
  "getopt_args in_order miss opts lopts [] = []"
| "getopt_args in_order miss opts lopts (a # rest) =
     (if a = ''--'' then []
      else if take 2 a = ''--'' then
        (let (e, r) = getopt_longarg miss lopts (drop 2 a) rest in e # getopt_args in_order miss opts lopts r)
      else if take 1 a = ''-'' \<and> a \<noteq> ''-'' then
        (let (es, r) = getopt_cluster miss opts (drop 1 a) rest in es @ getopt_args in_order miss opts lopts r)
      else (if in_order then [Ev 1 (Some a) None] else []) @ getopt_args in_order miss opts lopts rest)"
  by pat_completeness auto
termination
  by (relation "measure (\<lambda>(io, m, op, lo, args). length args)")
     (auto simp: less_Suc_eq_le dest: getopt_cluster_len [OF sym] getopt_longarg_len [OF sym])

declare getopt_args.simps(2) [simp del]

definition getopt_long :: "string \<Rightarrow> long_opt list \<Rightarrow> string list \<Rightarrow> getopt_ev list" where
  "getopt_long optstring lopts args =
     (let in_order = (take 1 optstring = ''-'');
          s1 = (if in_order then drop 1 optstring else optstring);
          quiet = (take 1 s1 = '':'')
      in getopt_args in_order (chr_code (if quiet then CHR '':'' else CHR ''?'')) (if quiet then drop 1 s1 else s1)
           lopts args)"

section \<open>Options with an argument\<close>

text \<open>A short option followed by its argument, and a long option in both of its forms.\<close>

lemma getopt_args_short:
  assumes "short_spec opts c = Some True" "c \<noteq> CHR ''-''"
  shows "getopt_args io miss opts lopts ([CHR ''-'', c] # v # rest)
       = Ev (chr_code c) (Some v) None # getopt_args io miss opts lopts rest"
  using assms by (simp add: getopt_args.simps(2))

lemma getopt_args_long:
  assumes "find_long lopts nm = Some i" "lo_has_arg (lopts ! i)" "CHR ''='' \<notin> set nm" "nm \<noteq> []"
  shows "getopt_args io miss opts lopts ((''--'' @ nm) # v # rest)
       = Ev (lo_val (lopts ! i)) (Some v) (Some i) # getopt_args io miss opts lopts rest"
    and "getopt_args io miss opts lopts ((''--'' @ nm @ ''='' @ v) # rest)
       = Ev (lo_val (lopts ! i)) (Some v) (Some i) # getopt_args io miss opts lopts rest"
proof -
  have d: "dropWhile (\<lambda>c. c \<noteq> CHR ''='') nm = []" "takeWhile (\<lambda>c. c \<noteq> CHR ''='') nm = nm"
    using assms(3) by auto
  have nm: "opt_name_val nm = (nm, None)" by (simp only: opt_name_val_def d list.case)
  have nv: "opt_name_val (nm @ CHR ''='' # v) = (nm, Some v)"
    using d by (simp add: opt_name_val_def takeWhile_tail dropWhile_append3)
  show "getopt_args io miss opts lopts ((''--'' @ nm) # v # rest)
       = Ev (lo_val (lopts ! i)) (Some v) (Some i) # getopt_args io miss opts lopts rest"
    using assms by (simp add: getopt_args.simps(2) getopt_longarg_def nm)
  show "getopt_args io miss opts lopts ((''--'' @ nm @ ''='' @ v) # rest)
       = Ev (lo_val (lopts ! i)) (Some v) (Some i) # getopt_args io miss opts lopts rest"
    using assms by (simp add: getopt_args.simps(2) getopt_longarg_def nv)
qed

end
