(* ===== verification/Tgt_Loop.thy ===== *)
theory Tgt_Loop
  imports Tgt_Common Getopt
begin

text \<open>
  The loop target (targets/ublk.loop.cpp), which serves a device from a backing file or block device:
  the entries of a request in its four data paths, the handling of requests as callbacks on the
  queue, and the initialisation from the command line and from json.

  \<open>ioctl_discard\<close> is the result of the BLKDISCARD ioctl for a start and a length. The results of the
  other system calls are the fields of \<open>loop_env\<close>.
\<close>

section \<open>Data\<close>

record loop_tgt_data =
  ld_user_copy :: bool
  ld_auto_zc :: bool
  ld_zero_copy :: bool
  ld_block_device :: bool
  ld_offset :: u64

abbreviation (input) "UBLK_USER_COPY_READ \<equiv> (0x80::u32)"
abbreviation (input) "UBLK_USER_COPY_WRITE \<equiv> (0x81::u32)"
abbreviation (input) "FALLOC_FL_KEEP_SIZE \<equiv> (1::u32)"
abbreviation (input) "FALLOC_FL_PUNCH_HOLE \<equiv> (2::u32)"
abbreviation (input) "FALLOC_FL_ZERO_RANGE \<equiv> (0x10::u32)"
abbreviation (input) "RWF_DSYNC \<equiv> (2::u32)"
abbreviation (input) "IORING_FSYNC_DATASYNC \<equiv> (1::u32)"

section \<open>The entries of a request\<close>

definition loop_fallocate_mode :: "ublksrv_io_desc \<Rightarrow> u32" where
  "loop_fallocate_mode iod =
     (let ublk_op = ucast (ublksrv_get_op iod) :: u32; flags = ublksrv_get_flags iod in
      FALLOC_FL_KEEP_SIZE OR
      (if ublk_op = UBLK_IO_OP_DISCARD then FALLOC_FL_PUNCH_HOLE
       else if ublk_op = UBLK_IO_OP_WRITE_ZEROES then
         (if has flags UBLK_IO_F_NOUNMAP then FALLOC_FL_ZERO_RANGE else FALLOC_FL_PUNCH_HOLE)
       else FALLOC_FL_ZERO_RANGE))"

definition lo_rw_handle_fua :: "ublksrv_io_desc \<Rightarrow> uring_sqe \<Rightarrow> uring_sqe" where
  "lo_rw_handle_fua iod sqe =
     (if ublksrv_get_op iod = ucast UBLK_IO_OP_WRITE \<and> has (op_flags iod) UBLK_IO_F_FUA
      then sqe\<lparr>sqe_rw_flags := sqe_rw_flags sqe OR RWF_DSYNC\<rparr> else sqe)"

text \<open>The position of a request in the backing file.\<close>

definition lo_off :: "loop_tgt_data \<Rightarrow> ublksrv_io_desc \<Rightarrow> u64" where
  "lo_off d iod = push_bit 9 (start_sector iod + ld_offset d)"

text \<open>An entry with its flags and user data set after the \<open>prep\<close> function.\<close>

definition sqe_with :: "iosqe_flag set \<Rightarrow> u64 \<Rightarrow> uring_sqe \<Rightarrow> uring_sqe" where
  "sqe_with flags ud sqe = sqe\<lparr>sqe_flags := flags, sqe_user_data := ud\<rparr>"

definition lo_rw_user_copy ::
  "'r uring_api \<Rightarrow> ('r, loop_tgt_data) tgt_queue \<Rightarrow> ublksrv_io_desc \<Rightarrow> nat \<Rightarrow> loop_tgt_data \<Rightarrow> int \<times> 'r" where
  "lo_rw_user_copy U q iod tag d =
     (let ublk_op = ucast (ublksrv_get_op iod) :: u32;
          pos = ublk_pos (of_nat (q_id q)) (of_nat tag) 0;
          buf = ublksrv_queue_get_io_buf q tag;
          fills =
            (if ublk_op = UBLK_IO_OP_READ then
               [sqe_with {IOSQE_FIXED_FILE, IOSQE_IO_LINK} (tgt_user_data tag ublk_op) \<circ>
                  prep_rw U OP_READ 1 buf (iod_bytes iod) (lo_off d iod),
                sqe_with {IOSQE_FIXED_FILE} (tgt_user_data tag UBLK_USER_COPY_WRITE) \<circ>
                  prep_rw U OP_WRITE 0 buf (iod_bytes iod) pos]
             else
               [sqe_with {IOSQE_FIXED_FILE, IOSQE_IO_LINK} (tgt_user_data tag UBLK_USER_COPY_READ) \<circ>
                  prep_rw U OP_READ 0 buf (iod_bytes iod) pos,
                (\<lambda>s. lo_rw_handle_fua iod
                       (sqe_with {IOSQE_FIXED_FILE} (tgt_user_data tag ublk_op)
                         (prep_rw U OP_WRITE 1 buf (iod_bytes iod) (lo_off d iod) s)))])
      in (2, snd (ublk_queue_alloc_sqes U (ring q) fills)))"

definition lo_rw ::
  "'r uring_api \<Rightarrow> ('r, loop_tgt_data) tgt_queue \<Rightarrow> ublksrv_io_desc \<Rightarrow> nat \<Rightarrow> loop_tgt_data \<Rightarrow> int \<times> 'r" where
  "lo_rw U q iod tag d =
     (let uring_op = the (ublk_to_uring_fs_op iod (ld_auto_zc d));
          buf = (if ld_auto_zc d then 0 else iod_addr iod)
      in (1, snd (ublk_queue_alloc_sqes U (ring q)
        [\<lambda>s. (let s1 = prep_rw U uring_op 1 buf (iod_bytes iod) (lo_off d iod) s;
                  s2 = (if ld_auto_zc d then s1\<lparr>sqe_buf_index := of_nat tag\<rparr> else s1)
              in lo_rw_handle_fua iod
                   (sqe_with {IOSQE_FIXED_FILE} (tgt_user_data tag (ucast (ublksrv_get_op iod))) s2))])))"

definition lo_rw_zero_copy ::
  "'r uring_api \<Rightarrow> ('r, loop_tgt_data) tgt_queue \<Rightarrow> ublksrv_io_desc \<Rightarrow> nat \<Rightarrow> loop_tgt_data \<Rightarrow> int \<times> 'r" where
  "lo_rw_zero_copy U q iod tag d =
     (let uring_op = the (ublk_to_uring_fs_op iod True) in
      (2, snd (ublk_queue_alloc_sqes U (ring q)
        [\<lambda>s. (let s1 = io_uring_prep_buf_register U tag (q_id q) (of_nat tag) s
              in s1\<lparr>sqe_user_data := tgt_user_data tag (IOC_NR UBLK_U_IO_REGISTER_IO_BUF),
                    sqe_flags := sqe_flags s1 \<union> {IOSQE_CQE_SKIP_SUCCESS, IOSQE_FIXED_FILE, IOSQE_IO_LINK}\<rparr>),
         \<lambda>s. (let s1 = prep_rw U uring_op 1 0 (iod_bytes iod) (lo_off d iod) s
              in s1\<lparr>sqe_buf_index := of_nat tag, sqe_flags := sqe_flags s1 \<union> {IOSQE_FIXED_FILE, IOSQE_IO_LINK},
                    sqe_user_data := tgt_user_data tag (ucast (ublksrv_get_op iod))\<rparr>),
         \<lambda>s. (let s1 = io_uring_prep_buf_unregister U tag (q_id q) (of_nat tag) s
              in s1\<lparr>sqe_flags := sqe_flags s1 \<union> {IOSQE_FIXED_FILE},
                    sqe_user_data := tgt_user_data tag (IOC_NR UBLK_U_IO_UNREGISTER_IO_BUF)\<rparr>)])))"

definition loop_queue_tgt_rw ::
  "'r uring_api \<Rightarrow> ('r, loop_tgt_data) tgt_queue \<Rightarrow> ublksrv_io_desc \<Rightarrow> nat \<Rightarrow> loop_tgt_data \<Rightarrow> int \<times> 'r" where
  "loop_queue_tgt_rw U q iod tag d =
     (if ld_auto_zc d then lo_rw U q iod tag d
      else if ld_zero_copy d then lo_rw_zero_copy U q iod tag d
      else if ld_user_copy d then lo_rw_user_copy U q iod tag d
      else lo_rw U q iod tag d)"

definition loop_handle_flush ::
  "'r uring_api \<Rightarrow> ('r, loop_tgt_data) tgt_queue \<Rightarrow> ublksrv_io_desc \<Rightarrow> nat \<Rightarrow> int \<times> 'r" where
  "loop_handle_flush U q iod tag =
     (1, snd (ublk_queue_alloc_sqes U (ring q)
       [sqe_with {IOSQE_FIXED_FILE} (tgt_user_data tag (ucast (ublksrv_get_op iod))) \<circ>
          prep_fsync U 1 IORING_FSYNC_DATASYNC]))"

definition loop_handle_discard ::
  "'r uring_api \<Rightarrow> ('r, loop_tgt_data) tgt_queue \<Rightarrow> ublksrv_io_desc \<Rightarrow> nat \<Rightarrow> loop_tgt_data \<Rightarrow> int \<times> 'r" where
  "loop_handle_discard U q iod tag d =
     (1, snd (ublk_queue_alloc_sqes U (ring q)
       [sqe_with {IOSQE_FIXED_FILE} (tgt_user_data tag (ucast (ublksrv_get_op iod))) \<circ>
          prep_fallocate U 1 (loop_fallocate_mode iod) (lo_off d iod) (ucast (iod_bytes iod))]))"

definition loop_queue_tgt_io :: "'r uring_api \<Rightarrow> ('r, loop_tgt_data) tgt_submit" where
  "loop_queue_tgt_io U q tag =
     (let iod = ublksrv_get_iod q tag; ublk_op = ucast (ublksrv_get_op iod) :: u32; d = tp_dev (private_data q) in
      if ublk_op = UBLK_IO_OP_FLUSH then loop_handle_flush U q iod tag
      else if ublk_op = UBLK_IO_OP_WRITE_ZEROES \<or> ublk_op = UBLK_IO_OP_DISCARD then loop_handle_discard U q iod tag d
      else if ublk_op = UBLK_IO_OP_READ \<or> ublk_op = UBLK_IO_OP_WRITE then loop_queue_tgt_rw U q iod tag d
      else (- EINVAL, ring q))"

section \<open>Handling requests\<close>

definition loop_handle_io_async ::
  "'r uring_api \<Rightarrow> (u64 \<Rightarrow> u64 \<Rightarrow> int) \<Rightarrow> ('r, loop_tgt_data) tgt_queue \<Rightarrow> nat \<Rightarrow> ('r, loop_tgt_data) tgt_queue" where
  "loop_handle_io_async U ioctl_discard q tag =
     (let iod = ublksrv_get_iod q tag; d = tp_dev (private_data q) in
      if ld_block_device d \<and> ublksrv_get_op iod = ucast UBLK_IO_OP_DISCARD
      then snd (ublksrv_complete_io U (q\<lparr>ring := submit U (ring q)\<rparr>) tag
                  (ioctl_discard (lo_off d iod) (ucast (iod_bytes iod))))
      else co_begin U (loop_queue_tgt_io U) False q tag)"

definition loop_tgt_io_done ::
  "'r uring_api \<Rightarrow> ('r, loop_tgt_data) tgt_queue \<Rightarrow> nat \<Rightarrow> uring_cqe \<Rightarrow> ('r, loop_tgt_data) tgt_queue" where
  "loop_tgt_io_done U q tag cqe = co_resume U (loop_queue_tgt_io U) False q tag cqe"

definition loop_tgt_type :: "'r uring_api \<Rightarrow> (u64 \<Rightarrow> u64 \<Rightarrow> int) \<Rightarrow> ('r, loop_tgt_data tgt_priv) tgt_ops" where
  "loop_tgt_type U ioctl_discard =
     \<lparr>handle_io_async = loop_handle_io_async U ioctl_discard, tgt_io_done = Some (loop_tgt_io_done U),
      handle_event = None, handle_io_background = None, idle_fn = None, epoll_cb = (\<lambda>_ q _. q)\<rparr>"

section \<open>Initialisation\<close>

datatype file_kind = S_ISBLK | S_ISREG | S_OTHER

record loop_stat =
  st_kind :: file_kind
  st_size :: u64
  st_blksize :: u64

text \<open>\<open>le_sysfs\<close> is what could be read of a file below /sys; \<open>le_direct\<close> whether O_DIRECT could be set.\<close>

record loop_env =
  le_open :: "string \<Rightarrow> int"
  le_fstat :: "int \<Rightarrow> loop_stat option"
  le_getsize64 :: "u64 option"
  le_sszget :: "u32 option"
  le_pbszget :: "u32 option"
  le_sysfs :: "string \<Rightarrow> string option"
  le_direct :: bool

text \<open>\<open>basename\<close> of a path that is not empty.\<close>

definition basename :: "string \<Rightarrow> string" where
  "basename path =
     (let p = rev (dropWhile (\<lambda>c. c = CHR ''/'') (rev path))
      in if p = [] then ''/'' else rev (takeWhile (\<lambda>c. c \<noteq> CHR ''/'') (rev p)))"

definition backing_supports_discard :: "loop_env \<Rightarrow> string \<Rightarrow> bool" where
  "backing_supports_discard E name =
     (case le_sysfs E (''/sys/block/'' @ basename name @ ''/queue/discard_max_hw_bytes'') of
        None \<Rightarrow> False
      | Some val \<Rightarrow> (word_of_int (strtol10 val) :: u64) > 0)"

text \<open>\<open>strtoul\<close> with base 10: saturating, a minus sign negates the value.\<close>

definition strtoul10 :: "string \<Rightarrow> u64" where
  "strtoul10 s =
     (let t = dropWhile isspace s;
          (neg, u) = (case t of [] \<Rightarrow> (False, []) | c # r \<Rightarrow>
             if c = CHR ''-'' then (True, r) else if c = CHR ''+'' then (False, r) else (False, t));
          v = dec_val (takeWhile isdigit u)
      in if v \<ge> 2 ^ 64 then - 1 else if neg then - of_nat v else of_nat v)"

definition loop_setup_tgt ::
  "'s json_lib \<Rightarrow> loop_env \<Rightarrow> loop_tgt_data \<Rightarrow> 's ublksrv_dev \<Rightarrow> (int \<times> 's ublksrv_dev \<times> loop_tgt_data) option" where
  "loop_setup_tgt J E d0 dev =
     (let jb = cd_jbuf (dv_ctrl dev); info = cd_dev_info (dv_ctrl dev) in do {
      (ret, file) \<leftarrow> ublk_json_read_target_str_info J jb ''backing_file'' [];
      if ret < 0 then Some (ret, dev, d0) else do {
      (ret, direct_io) \<leftarrow> ublk_json_read_target_ulong_info J jb ''direct_io'' 0;
      if ret \<noteq> 0 then Some (ret, dev, d0) else do {
      (ret, off) \<leftarrow> ublk_json_read_target_ulong_info J jb ''offset'' (ld_offset d0);
      if ret \<noteq> 0 then Some (ret, dev, d0) else do {
      (ret, p) \<leftarrow> ublk_json_read_params J zero_params jb;
      (let d1 = d0\<lparr>ld_offset := off\<rparr>; fd = le_open E file in
       if ret \<noteq> 0 then Some (ret, dev, d1)
       else if fd < 0 then Some (fd, dev, d1)
       else case le_fstat E fd of None \<Rightarrow> Some (-1, dev, d1)
       | Some sb \<Rightarrow>
           (let d2 = d1\<lparr>ld_block_device := (st_kind sb = S_ISBLK),
                        ld_auto_zc := has (info_flags info) UBLK_F_AUTO_BUF_REG,
                        ld_zero_copy := has (info_flags info) UBLK_F_SUPPORT_ZERO_COPY,
                        ld_user_copy := has (info_flags info) UBLK_F_USER_COPY\<rparr>;
                depth = ucast (queue_depth info);
                tgt = (dv_tgt dev)\<lparr>ti_io_data_size := sizeof_ublk_io_tgt,
                        ti_dev_size := push_bit 9 (pb_dev_sectors (p_basic p)),
                        ti_tgt_ring_depth := (if ld_zero_copy d2 \<or> ld_user_copy d2 then depth * 2 else depth),
                        ti_nr_fds := 1, ti_fds := (ti_fds (dv_tgt dev))[1 := fd]\<rparr>
            in Some (0, dev\<lparr>dv_tgt := tgt\<rparr>, d2))) }}}})"

definition zero_loop_data :: loop_tgt_data where
  "zero_loop_data = \<lparr>ld_user_copy = False, ld_auto_zc = False, ld_zero_copy = False, ld_block_device = False,
                     ld_offset = 0\<rparr>"

definition loop_recover_tgt where
  "loop_recover_tgt J E dev = loop_setup_tgt J E zero_loop_data dev"

definition loop_params :: "ublksrv_ctrl_dev_info \<Rightarrow> ublk_params" where
  "loop_params info = zero_params\<lparr>
     p_types := UBLK_PARAM_TYPE_BASIC OR UBLK_PARAM_TYPE_DISCARD OR UBLK_PARAM_TYPE_DMA_ALIGN,
     p_basic := (p_basic zero_params)\<lparr>pb_attrs := UBLK_ATTR_VOLATILE_CACHE OR UBLK_ATTR_FUA,
       pb_logical_bs_shift := 9, pb_physical_bs_shift := 12, pb_io_opt_shift := 12, pb_io_min_shift := 9,
       pb_max_sectors := drop_bit 9 (max_io_buf_bytes info)\<rparr>,
     p_discard := (p_discard zero_params)\<lparr>pd_max_discard_sectors := drop_bit 9 0xffffffff,
       pd_max_discard_segments := 1\<rparr>,
     p_dma := (p_dma zero_params)\<lparr>pa_alignment := 511\<rparr>\<rparr>"

definition set_bs_shifts :: "u8 \<Rightarrow> u8 \<Rightarrow> ublk_params \<Rightarrow> ublk_params" where
  "set_bs_shifts l ph p = p\<lparr>p_basic := (p_basic p)\<lparr>pb_logical_bs_shift := l, pb_physical_bs_shift := ph\<rparr>\<rparr>"

text \<open>Size, block sizes and discard support of the backing file; nothing when an ioctl fails.\<close>

definition loop_probe :: "loop_env \<Rightarrow> string \<Rightarrow> loop_stat \<Rightarrow> ublk_params \<Rightarrow> (u64 \<times> bool \<times> ublk_params) option" where
  "loop_probe E file st p = (case st_kind st of
     S_ISBLK \<Rightarrow> do {
       bytes \<leftarrow> le_getsize64 E; bs \<leftarrow> le_sszget E; pbs \<leftarrow> le_pbszget E;
       Some (bytes, backing_supports_discard E file, set_bs_shifts (of_nat (ilog2 bs)) (of_nat (ilog2 pbs)) p) }
   | S_ISREG \<Rightarrow>
       (let s = of_nat (ilog2 (ucast (st_blksize st))) in Some (st_size st, True, set_bs_shifts s s p))
   | S_OTHER \<Rightarrow> Some (0, False, p))"

text \<open>
  From opening the file to the finished parameters: an error code, or the size that is left, whether
  the file is used with buffered io, and the parameters.
\<close>

definition loop_geometry ::
  "loop_env \<Rightarrow> ublksrv_ctrl_dev_info \<Rightarrow> string \<Rightarrow> u64 \<Rightarrow> bool \<Rightarrow> int + u64 \<times> bool \<times> ublk_params" where
  "loop_geometry E info file offset buffered_io =
     (let fd = le_open E file in
      if fd < 0 then Inl (-2)
      else case le_fstat E fd of None \<Rightarrow> Inl (-2)
      | Some st \<Rightarrow> (case loop_probe E file st (loop_params info) of None \<Rightarrow> Inl (-1)
        | Some (bytes, can_discard, p1) \<Rightarrow>
            (let plain = (buffered_io \<or> \<not> ublk_param_is_valid p1 \<or> \<not> le_direct E);
                 p2 = (if plain then set_bs_shifts 9 12 p1 else p1);
                 offset_bytes = push_bit 9 offset in
             if bytes > 0 \<and> offset_bytes \<ge> bytes then Inl (-2)
             else
               (let left = (if bytes > 0 then bytes - offset_bytes else bytes);
                    p3 = p2\<lparr>p_basic := (p_basic p2)\<lparr>pb_dev_sectors := drop_bit 9 left\<rparr>\<rparr>;
                    p4 = (if st_blksize st \<noteq> 0 \<and> can_discard
                          then p3\<lparr>p_discard := (p_discard p3)\<lparr>pd_granularity := ucast (st_blksize st)\<rparr>\<rparr>
                          else p3\<lparr>p_types := p_types p3 AND NOT UBLK_PARAM_TYPE_DISCARD\<rparr>)
                in Inr (left, plain, p4)))))"

definition lo_longopts :: "long_opt list" where
  "lo_longopts =
     [\<lparr>lo_name = ''file'', lo_has_arg = True, lo_val = chr_code (CHR ''f'')\<rparr>,
      \<lparr>lo_name = ''buffered_io'', lo_has_arg = False, lo_val = 0\<rparr>,
      \<lparr>lo_name = ''offset'', lo_has_arg = True, lo_val = chr_code (CHR ''o'')\<rparr>]"

text \<open>The option loop: file, offset and the flag that \<open>getopt_long\<close> sets for \<open>--buffered_io\<close>.\<close>

definition loop_opt :: "getopt_ev \<Rightarrow> string option \<times> u64 \<times> bool \<Rightarrow> string option \<times> u64 \<times> bool" where
  "loop_opt e = (\<lambda>(file, offset, buffered).
     if ev_code e = chr_code (CHR ''f'') then (ev_arg e, offset, buffered)
     else if ev_code e = chr_code (CHR ''o'') then (file, strtoul10 (the (ev_arg e)), buffered)
     else (file, offset, buffered \<or> ev_long e = Some 1))"

definition loop_init_tgt ::
  "'s json_lib \<Rightarrow> loop_env \<Rightarrow> string list \<Rightarrow> 's ublksrv_dev \<Rightarrow> (int \<times> 's ublksrv_dev \<times> loop_tgt_data) option" where
  "loop_init_tgt J E args dev =
     (let info = cd_dev_info (dv_ctrl dev);
          (file, offset, buffered) = fold loop_opt (getopt_long ''-:f:o:'' lo_longopts args) (None, 0, False) in
      if ublksrv_is_recovering (dv_ctrl dev) then loop_recover_tgt J E dev
      else case file of None \<Rightarrow> Some (-1, dev, zero_loop_data)
      | Some f \<Rightarrow> (case loop_geometry E info f offset buffered of
          Inl err \<Rightarrow> Some (err, dev, zero_loop_data)
        | Inr (bytes, plain, p) \<Rightarrow> do {
            d1 \<leftarrow> dev_json (ublk_json_write_dev_info J info) dev;
            d2 \<leftarrow> dev_json (ublk_json_write_target_base J \<lparr>tj_name = ''loop'', tj_type = 0, tj_dev_size = bytes\<rparr>) d1;
            d3 \<leftarrow> dev_json (ublk_json_write_tgt_str J ''backing_file'' (Some f)) d2;
            d4 \<leftarrow> dev_json (ublk_json_write_tgt_long J ''direct_io'' (of_bool (\<not> plain))) d3;
            d5 \<leftarrow> dev_json (ublk_json_write_tgt_ulong J ''offset'' offset) d4;
            d6 \<leftarrow> dev_json (ublk_json_write_params J p) d5;
            loop_setup_tgt J E zero_loop_data d6 }))"

text \<open>The descriptors closed.\<close>

definition loop_deinit_tgt :: "'s ublksrv_dev \<Rightarrow> int list" where
  "loop_deinit_tgt dev = [ti_fds (dv_tgt dev) ! 1]"

section \<open>The contract\<close>

lemma loop_handle_acts: "acts_for U (loop_handle_io_async U io)"
  unfolding acts_for_def
proof (intro allI impI)
  fix q :: "('a, loop_tgt_data) tgt_queue" and own tag
  assume h: "qinv q own" "tag < q_depth q" "own ! tag = Target"
  let ?q = "q\<lparr>ring := submit U (ring q)\<rparr>"
  have "\<exists>own'. tact U (q, own) (snd (ublksrv_complete_io U ?q tag res), own')" for res
    using tact_trans [OF _ tact_ring] tact_complete_one [of tag ?q own U res] h by fastforce
  then show "\<exists>own'. tact U (q, own) (loop_handle_io_async U io q tag, own')"
    using acts_forD [OF co_begin_acts h] by (simp add: loop_handle_io_async_def Let_def)
qed

interpretation loop_tgt: tgt_contract U "loop_tgt_type U io" for U :: "'r uring_api" and io
  by unfold_locales
     (auto simp: loop_tgt_type_def loop_tgt_io_done_def loop_handle_acts co_resume_acts acts_id)

section \<open>The queued entries\<close>

text \<open>What is demanded of the entries of a request.\<close>

definition data_ops :: "uring_op set" where
  "data_ops = {OP_READ, OP_WRITE, OP_READ_FIXED, OP_WRITE_FIXED}"

definition entry_ok :: "loop_tgt_data \<Rightarrow> ublksrv_io_desc \<Rightarrow> nat \<Rightarrow> uring_sqe \<Rightarrow> bool" where
  "entry_ok d iod tag s \<longleftrightarrow>
     user_data_to_tag (sqe_user_data s) = of_nat tag \<and> is_target_io (sqe_user_data s) \<and>
     \<not> is_internal_io (sqe_user_data s) \<and> IOSQE_FIXED_FILE \<in> sqe_flags s \<and>
     (sqe_fd s = 1 \<and> sqe_opcode s \<in> data_ops \<longrightarrow> sqe_off s = lo_off d iod \<and> sqe_len s = iod_bytes iod) \<and>
     (sqe_fd s = 1 \<and> sqe_opcode s = OP_FALLOCATE \<longrightarrow> sqe_off s = lo_off d iod \<and> sqe_addr s = ucast (iod_bytes iod))"

lemma get_op_fits: "drop_bit 8 (ucast (ublksrv_get_op iod) :: u32) = 0"
  by (rule bit_word_eqI) (auto simp: bit_simps bit_out)

lemma ioc_nr_fits: "drop_bit 8 (IOC_NR x) = 0"
  by (rule IOC_NR_fits)

lemma ioc_nr_bufs:
  "IOC_NR UBLK_U_IO_REGISTER_IO_BUF = 0x23" "IOC_NR UBLK_U_IO_UNREGISTER_IO_BUF = 0x24"
  by (rule IOC_NR_IOC, simp)+

lemma fua_sel [simp]:
  "sqe_flags (lo_rw_handle_fua iod s) = sqe_flags s" "sqe_fd (lo_rw_handle_fua iod s) = sqe_fd s"
  "sqe_opcode (lo_rw_handle_fua iod s) = sqe_opcode s" "sqe_off (lo_rw_handle_fua iod s) = sqe_off s"
  "sqe_len (lo_rw_handle_fua iod s) = sqe_len s" "sqe_user_data (lo_rw_handle_fua iod s) = sqe_user_data s"
  "sqe_addr (lo_rw_handle_fua iod s) = sqe_addr s"
  by (simp_all add: lo_rw_handle_fua_def)

lemma buf_cmd_sel:
  "sqe_flags (fill_buf_cmd U op tag qid i s) = {}" "sqe_opcode (fill_buf_cmd U op tag qid i s) = OP_URING_CMD"
  by (simp_all add: fill_buf_cmd_def ublksrv_set_sqe_cmd_op_def Let_def)

lemma rw_op_not_falloc:
  "ublksrv_get_op iod \<in> {0, 1} \<Longrightarrow> the (ublk_to_uring_fs_op iod z) \<noteq> OP_FALLOCATE"
  by (auto simp: ublk_to_uring_fs_op_def)

text \<open>The shape of the entries: all marked for the tag, linked in a chain, one of them the request itself.\<close>

definition entries_ok :: "loop_tgt_data \<Rightarrow> ublksrv_io_desc \<Rightarrow> nat \<Rightarrow> int \<Rightarrow> uring_sqe list \<Rightarrow> bool" where
  "entries_ok d iod tag n sqes \<longleftrightarrow>
     int (length (filter (\<lambda>s. IOSQE_CQE_SKIP_SUCCESS \<notin> sqe_flags s) sqes)) = n \<and>
     map (\<lambda>s. IOSQE_IO_LINK \<in> sqe_flags s) sqes = replicate (length sqes - 1) True @ [False] \<and>
     list_all (entry_ok d iod tag) sqes \<and>
     length (filter (\<lambda>s. is_ublk_io_cmd (user_data_to_op (sqe_user_data s))) sqes) = 1"

lemmas entry_simps = entries_ok_def entry_ok_def tgt_user_data_decodes get_op_fits ioc_nr_bufs buf_cmd_sel
  is_ublk_io_cmd_def uring_prepsD sqe_with_def io_uring_prep_buf_register_def io_uring_prep_buf_unregister_def

text \<open>A function that queues the entries of a request and returns the number of their completions.\<close>

definition queues_entries ::
  "('r \<Rightarrow> uring_sqe list) \<Rightarrow> ('r, loop_tgt_data) tgt_queue \<Rightarrow> loop_tgt_data \<Rightarrow> ublksrv_io_desc \<Rightarrow> nat \<Rightarrow> int \<times> 'r \<Rightarrow> bool" where
  "queues_entries queued q d iod tag res \<longleftrightarrow>
     (\<exists>sqes. queued (snd res) = queued (ring q) @ sqes \<and> entries_ok d iod tag (fst res) sqes)"

lemma queues_entriesI:
  assumes U: "uring_ok U queued" "uring_space U" and n: "length fs \<le> sq_space_left U (submit U (ring q))"
    and ok: "\<And>sqes. list_all2 (\<lambda>sqe f. \<exists>slot. sqe = f slot) sqes fs \<Longrightarrow> entries_ok d iod tag k sqes"
  shows "queues_entries queued q d iod tag (k, snd (ublk_queue_alloc_sqes U (ring q) fs))"
  using alloc_sqes_fills [OF U n] ok by (auto simp: queues_entries_def)

lemma lo_rw_entries:
  assumes U: "uring_ok U queued" "uring_space U" "uring_preps U" and tag: "tag < 65536"
    and op: "ublksrv_get_op iod \<in> {0, 1}" and n: "3 \<le> sq_space_left U (submit U (ring q))"
  shows "queues_entries queued q d iod tag (lo_rw U q iod tag d)"
proof -
  have o: "(ucast (ublksrv_get_op iod) :: u32) < 0x20" using op by auto
  show ?thesis
    unfolding lo_rw_def Let_def using n o rw_op_not_falloc [OF op]
    by (intro queues_entriesI U(1,2)) (auto simp: list_all2_Cons2 entry_simps U(3) tag)
qed

lemma lo_rw_zero_copy_entries:
  assumes U: "uring_ok U queued" "uring_space U" "uring_preps U" and tag: "tag < 65536"
    and op: "ublksrv_get_op iod \<in> {0, 1}" and n: "3 \<le> sq_space_left U (submit U (ring q))"
  shows "queues_entries queued q d iod tag (lo_rw_zero_copy U q iod tag d)"
proof -
  have o: "(ucast (ublksrv_get_op iod) :: u32) < 0x20" using op by auto
  show ?thesis
    unfolding lo_rw_zero_copy_def Let_def using n o rw_op_not_falloc [OF op]
    by (intro queues_entriesI U(1,2)) (auto simp: list_all2_Cons2 entry_simps U(3) tag data_ops_def)
qed

lemma lo_rw_user_copy_entries:
  assumes U: "uring_ok U queued" "uring_space U" "uring_preps U" and tag: "tag < 65536"
    and op: "ublksrv_get_op iod \<in> {0, 1}" and n: "3 \<le> sq_space_left U (submit U (ring q))"
  shows "queues_entries queued q d iod tag (lo_rw_user_copy U q iod tag d)"
proof -
  have o: "(ucast (ublksrv_get_op iod) :: u32) < 0x20" using op by auto
  show ?thesis
    unfolding lo_rw_user_copy_def Let_def using n o
    by (intro queues_entriesI U(1,2)) (auto simp: list_all2_Cons2 entry_simps U(3) tag split: if_splits)
qed

lemma loop_flush_entries:
  assumes U: "uring_ok U queued" "uring_space U" "uring_preps U" and tag: "tag < 65536"
    and op: "ublksrv_get_op iod = 2" and n: "3 \<le> sq_space_left U (submit U (ring q))"
  shows "queues_entries queued q d iod tag (loop_handle_flush U q iod tag)"
  unfolding loop_handle_flush_def using n op
  by (intro queues_entriesI U(1,2)) (auto simp: list_all2_Cons2 entry_simps U(3) tag data_ops_def)

lemma loop_discard_entries:
  assumes U: "uring_ok U queued" "uring_space U" "uring_preps U" and tag: "tag < 65536"
    and op: "ublksrv_get_op iod \<in> {3, 5}" and n: "3 \<le> sq_space_left U (submit U (ring q))"
  shows "queues_entries queued q d iod tag (loop_handle_discard U q iod tag d)"
  unfolding loop_handle_discard_def using n op
  by (intro queues_entriesI U(1,2)) (auto simp: list_all2_Cons2 entry_simps U(3) tag data_ops_def)

lemma op_wide:
  fixes w :: u8
  shows "(ucast w :: u32) = 0 \<longleftrightarrow> w = 0" "(ucast w :: u32) = 1 \<longleftrightarrow> w = 1" "(ucast w :: u32) = 2 \<longleftrightarrow> w = 2"
    "(ucast w :: u32) = 3 \<longleftrightarrow> w = 3" "(ucast w :: u32) = 5 \<longleftrightarrow> w = 5"
proof -
  have inv: "ucast (ucast w :: u32) = w" by (rule bit_word_eqI) (auto simp: bit_simps bit_out)
  have "(ucast w :: u32) = ucast k \<longleftrightarrow> w = k" for k :: u8
  proof
    assume "(ucast w :: u32) = ucast k"
    then have "w = ucast (ucast k :: u32)" using inv by metis
    also have "\<dots> = k" by (rule bit_word_eqI) (auto simp: bit_simps bit_out)
    finally show "w = k" .
  qed simp
  from this [of 0] this [of 1] this [of 2] this [of 3] this [of 5]
  show "(ucast w :: u32) = 0 \<longleftrightarrow> w = 0" "(ucast w :: u32) = 1 \<longleftrightarrow> w = 1" "(ucast w :: u32) = 2 \<longleftrightarrow> w = 2"
    "(ucast w :: u32) = 3 \<longleftrightarrow> w = 3" "(ucast w :: u32) = 5 \<longleftrightarrow> w = 5" by simp_all
qed

text \<open>The operations the target knows.\<close>

definition loop_op_known :: "ublksrv_io_desc \<Rightarrow> bool" where
  "loop_op_known iod \<longleftrightarrow> ublksrv_get_op iod \<in> {0, 1, 2, 3, 5}"

lemma queue_tgt_io_entries:
  assumes U: "uring_ok U queued" "uring_space U" "uring_preps U" and tag: "tag < 65536"
    and op: "loop_op_known (ublksrv_get_iod q tag)" and n: "3 \<le> sq_space_left U (submit U (ring q))"
  shows "queues_entries queued q (tp_dev (private_data q)) (ublksrv_get_iod q tag) tag (loop_queue_tgt_io U q tag)"
  using op lo_rw_entries [OF U tag _ n, of "ublksrv_get_iod q tag"]
    lo_rw_zero_copy_entries [OF U tag _ n, of "ublksrv_get_iod q tag"]
    lo_rw_user_copy_entries [OF U tag _ n, of "ublksrv_get_iod q tag"]
    loop_flush_entries [OF U tag _ n, of "ublksrv_get_iod q tag"]
    loop_discard_entries [OF U tag _ n, of "ublksrv_get_iod q tag"]
  by (auto simp: loop_queue_tgt_io_def loop_queue_tgt_rw_def loop_op_known_def op_wide Let_def)

lemma queue_tgt_io_unknown:
  "\<not> loop_op_known (ublksrv_get_iod q tag) \<Longrightarrow> loop_queue_tgt_io U q tag = (- EINVAL, ring q)"
  by (auto simp: loop_queue_tgt_io_def loop_op_known_def op_wide Let_def)

section \<open>The size of the device\<close>

lemma shift_mult: "push_bit 9 (w :: u64) = w * 512"
  by (simp add: push_bit_eq_mult)

lemma unat_drop_shift: "unat (drop_bit 9 (w :: u64)) = unat w div 512"
  by (simp add: drop_bit_eq_div unat_div)

text \<open>The parameters keep the block sizes within the limits the driver accepts.\<close>

lemma geometry_cases:
  assumes "loop_geometry E info file offset buffered = Inr (left, plain, p)"
  obtains st bytes can p1 where "le_fstat E (le_open E file) = Some st"
    "loop_probe E file st (loop_params info) = Some (bytes, can, p1)"
    "bytes > 0 \<Longrightarrow> push_bit 9 offset < bytes \<and> left = bytes - push_bit 9 offset" "bytes = 0 \<Longrightarrow> left = 0"
    "pb_dev_sectors (p_basic p) = drop_bit 9 left"
    "plain = (buffered \<or> \<not> ublk_param_is_valid p1 \<or> \<not> le_direct E)"
    "pb_logical_bs_shift (p_basic p) = (if plain then 9 else pb_logical_bs_shift (p_basic p1))"
    "pb_physical_bs_shift (p_basic p) = (if plain then 12 else pb_physical_bs_shift (p_basic p1))"
proof -
  obtain st where st: "le_open E file \<ge> 0" "le_fstat E (le_open E file) = Some st"
    using assms by (auto simp: loop_geometry_def Let_def split: if_splits option.splits)
  obtain bytes can p1 where pr: "loop_probe E file st (loop_params info) = Some (bytes, can, p1)"
    using assms st by (auto simp: loop_geometry_def Let_def split: option.splits)
  show thesis
    using assms st pr by (intro that [OF st(2) pr])
      (auto simp: loop_geometry_def Let_def set_bs_shifts_def not_le split: if_splits)
qed

definition backing_bytes :: "loop_env \<Rightarrow> loop_stat \<Rightarrow> u64 option" where
  "backing_bytes E st = (case st_kind st of S_ISBLK \<Rightarrow> le_getsize64 E | S_ISREG \<Rightarrow> Some (st_size st) | S_OTHER \<Rightarrow> Some 0)"

lemma probe_bytes: "loop_probe E file st p = Some (bytes, can, p1) \<Longrightarrow> backing_bytes E st = Some bytes"
  by (auto simp: loop_probe_def backing_bytes_def Let_def split: file_kind.splits bind_splits)

lemma request_in_bytes:
  fixes bytes ob start :: u64
  assumes ob: "ob < bytes" and req: "unat start + n \<le> unat (bytes - ob) div 512"
  shows "unat (start * 512 + ob) + n * 512 \<le> unat bytes"
proof -
  have "(unat start + n) * 512 \<le> unat (bytes - ob)"
    using req by (meson div_le_mono le_trans mult_le_mono1 div_times_less_eq_dividend)
  also have "unat (bytes - ob) = unat bytes - unat ob" using ob by (simp add: unat_sub less_imp_le)
  finally have le: "unat start * 512 + unat ob + n * 512 \<le> unat bytes"
    using ob by (simp add: word_less_nat_alt algebra_simps)
  then have lt: "unat start * 512 + unat ob < 2 ^ 64" using unsigned_less [of bytes, where 'a = nat] by simp
  then have "unat (start * 512) = unat start * 512" by (simp add: unat_word_ariths)
  then have "unat (start * 512 + ob) = unat start * 512 + unat ob" using lt by (simp add: unat_word_ariths)
  then show ?thesis using le by simp
qed

lemma iod_bytes_le: "unat (iod_bytes iod) \<le> unat (nr_sectors iod) * 512"
  by (simp add: iod_bytes_def push_bit_eq_mult unat_word_ariths)

section \<open>Properties\<close>


text \<open>C28: A device never reaches past its backing file: with the parameters that initialisation computes
  and the offset it was given, the byte range of every request inside the device lies inside the
  backing file, also when shifting the offset to bytes wraps around.\<close>

theorem loop_request_in_file:
  assumes g: "loop_geometry E info file offset buffered = Inr (left, plain, p)"
    and st: "le_fstat E (le_open E file) = Some st" "backing_bytes E st = Some bytes"
    and d: "ld_offset d = offset"
    and req: "unat (start_sector iod) + unat (nr_sectors iod) \<le> unat (pb_dev_sectors (p_basic p))" "0 < nr_sectors iod"
  shows "unat (lo_off d iod) + unat (iod_bytes iod) \<le> unat bytes"
  using g
proof (rule geometry_cases)
  fix st' bytes' can p1
  assume h: "le_fstat E (le_open E file) = Some st'" "loop_probe E file st' (loop_params info) = Some (bytes', can, p1)"
    "bytes' > 0 \<Longrightarrow> push_bit 9 offset < bytes' \<and> left = bytes' - push_bit 9 offset" "bytes' = 0 \<Longrightarrow> left = 0"
    "pb_dev_sectors (p_basic p) = drop_bit 9 left"
  have b: "bytes' = bytes" using h(1) st probe_bytes [OF h(2)] by simp
  have pos: "bytes > 0"
  proof (rule ccontr)
    assume "\<not> bytes > 0"
    then have "pb_dev_sectors (p_basic p) = 0" using h(4,5) b by (simp add: word_gt_0)
    then show False using req by (simp add: word_less_nat_alt)
  qed
  have r: "unat (start_sector iod) + unat (nr_sectors iod) \<le> unat (bytes - push_bit 9 offset) div 512"
    using req(1) h(3,5) b pos by (simp add: unat_drop_shift)
  have "unat (start_sector iod * 512 + push_bit 9 offset) + unat (nr_sectors iod) * 512 \<le> unat bytes"
    using request_in_bytes [OF _ r] h(3) b pos by simp
  moreover have "lo_off d iod = start_sector iod * 512 + push_bit 9 offset"
    by (simp add: lo_off_def d shift_mult algebra_simps)
  ultimately show ?thesis using iod_bytes_le [of iod] by simp
qed

text \<open>The parameters initialisation computes always satisfy the limits on block sizes.\<close>

theorem loop_params_valid:
  assumes "loop_geometry E info file offset buffered = Inr (left, plain, p)"
  shows "ublk_param_is_valid p"
  using assms by (rule geometry_cases) (auto simp: ublk_param_is_valid_def split: if_splits)

text \<open>Writing zeroes punches a hole even when the driver asks to keep the blocks allocated: the flag
  is tested after it was shifted away, so no combination of the defined flags selects a zeroed range.\<close>

theorem loop_nounmap_ignored:
  assumes "ublksrv_get_op iod = ucast UBLK_IO_OP_WRITE_ZEROES" "has (op_flags iod) UBLK_IO_F_NOUNMAP"
    and "unat (op_flags iod) < 2 ^ 19"
  shows "loop_fallocate_mode iod = FALLOC_FL_KEEP_SIZE OR FALLOC_FL_PUNCH_HOLE"
proof -
  have "(0x8000 :: u32) = push_bit 15 1" by (simp add: push_bit_eq_mult)
  moreover have "\<not> bit (op_flags iod) 23" using unat_bit_less [OF assms(3), of 23] by simp
  ultimately have "\<not> has (ublksrv_get_flags iod) UBLK_IO_F_NOUNMAP"
    by (simp add: has_def ublksrv_get_flags_def and_push_bit_1 [where n = 15, simplified] bit_drop_bit_eq bit_iff_and_push_bit_not_eq_0)
  then show ?thesis using assms(1) by (simp add: loop_fallocate_mode_def Let_def)
qed


text \<open>The loop target keeps a queue consistent: from a reachable state, one round of the io loop over
  completions of work in progress ends in a reachable state and reports their number.\<close>

theorem loop_process_io:
  assumes "reachable U (loop_tgt_type U io) (q, own)" "\<not> queue_is_done U q"
    and "reaps U (loop_tgt_type U io) (snd (process_io_wait U q), own) cqes (q2, own2)"
  shows "fst (ublksrv_process_io U (loop_tgt_type U io) wr cqes q) = int (length cqes) \<and>
         (\<exists>own'. reachable U (loop_tgt_type U io) (snd (snd (ublksrv_process_io U (loop_tgt_type U io) wr cqes q)), own'))"
  using loop_tgt.process_io_reachable [OF assms] by blast

section \<open>Concrete runs\<close>

definition sample_loop_start :: "u32 \<Rightarrow> (fring, loop_tgt_data) tgt_queue" where
  "sample_loop_start opf =
     (sample_queue 0 \<lparr>tp_ios = [\<lparr>co = None\<rparr>, \<lparr>co = None\<rparr>], tp_dev = zero_loop_data\<lparr>ld_offset := 8\<rparr>\<rparr>)
       \<lparr>io_cmd_buf := [\<lparr>op_flags = opf, nr_sectors = 8, start_sector = 16, iod_addr = 0x1000\<rparr>]\<rparr>"

definition sample_loop :: "u32 \<Rightarrow> (fring, loop_tgt_data) tgt_queue" where
  "sample_loop opf = snd (ublksrv_queue_io_cmd fring_api (sample_loop_start opf) 0)"

definition sample_lenv :: loop_env where
  "sample_lenv = \<lparr>le_open = (\<lambda>_. 5), le_fstat = (\<lambda>_. Some \<lparr>st_kind = S_ISREG, st_size = 1048576, st_blksize = 4096\<rparr>),
     le_getsize64 = None, le_sszget = None, le_pbszget = None, le_sysfs = (\<lambda>_. None), le_direct = True\<rparr>"

lemma sample_loop_sel:
  "private_data (sample_loop f) = \<lparr>tp_ios = [\<lparr>co = None\<rparr>, \<lparr>co = None\<rparr>], tp_dev = zero_loop_data\<lparr>ld_offset := 8\<rparr>\<rparr>"
  "ublksrv_get_iod (sample_loop f) 0 = \<lparr>op_flags = f, nr_sectors = 8, start_sector = 16, iod_addr = 0x1000\<rparr>"
  "3 \<le> sq_space_left fring_api (submit fring_api (ring (sample_loop f)))"
  "q_depth (sample_loop f) = 2" "qstate (sample_loop f) = 0"
  by (simp_all add: sample_loop_def sample_loop_start_def ublksrv_get_iod_def ublksrv_queue_io_cmd_def
      ublksrv_alloc_sqe_def fring_api_def fr_submit_def sample_queue_def has_def Let_def)


lemma sample_geometry:
  "loop_geometry sample_lenv sample_info ''img'' 8 False =
     Inr (1044480, False, (loop_params sample_info)\<lparr>
       p_basic := (p_basic (loop_params sample_info))\<lparr>pb_logical_bs_shift := 12, pb_physical_bs_shift := 12,
         pb_dev_sectors := 2040\<rparr>,
       p_discard := (p_discard (loop_params sample_info))\<lparr>pd_granularity := 4096\<rparr>\<rparr>)"
proof -
  have "ilog2 4096 = 12" by code_simp
  then show ?thesis
    by (simp add: loop_geometry_def sample_lenv_def loop_probe_def set_bs_shifts_def ublk_param_is_valid_def
        loop_params_def Let_def push_bit_eq_mult)
qed

theorem loop_request_in_file_witness:
  "unat (lo_off (zero_loop_data\<lparr>ld_offset := 8\<rparr>) \<lparr>op_flags = 1, nr_sectors = 40, start_sector = 2000, iod_addr = 0\<rparr>)
   + unat (iod_bytes \<lparr>op_flags = 1, nr_sectors = 40, start_sector = 2000, iod_addr = 0\<rparr>) \<le> 1048576"
  using loop_request_in_file [OF sample_geometry, of "\<lparr>st_kind = S_ISREG, st_size = 1048576, st_blksize = 4096\<rparr>"
      1048576 "zero_loop_data\<lparr>ld_offset := 8\<rparr>" "\<lparr>op_flags = 1, nr_sectors = 40, start_sector = 2000, iod_addr = 0\<rparr>"]
  by (simp add: sample_lenv_def backing_bytes_def)

theorem loop_params_valid_witness:
  "\<exists>left plain p. loop_geometry sample_lenv sample_info ''img'' 8 False = Inr (left, plain, p) \<and> ublk_param_is_valid p"
  using loop_params_valid [OF sample_geometry] sample_geometry by blast

theorem loop_nounmap_ignored_witness:
  "loop_fallocate_mode \<lparr>op_flags = 0x8005, nr_sectors = 8, start_sector = 0, iod_addr = 0\<rparr> = 3"
  using loop_nounmap_ignored [of "\<lparr>op_flags = 0x8005, nr_sectors = 8, start_sector = 0, iod_addr = 0\<rparr>"]
  by (simp add: ublksrv_get_op_def has_def)

lemma sample_loop_reachable: "reachable fring_api T (sample_loop f, [Driver, Unissued])"
proof -
  let ?q = "sample_loop_start f"
  have d: "q_depth ?q = 2" by (simp add: sample_loop_start_def sample_queue_def)
  have "queue_start ?q"
    using sample_start by (simp add: sample_loop_start_def queue_start_def ublksrv_queue_batch_io_def)
  with d show ?thesis
    using start_issue_reachable [OF fring_ok(1,2), of ?q T] by (simp add: sample_loop_def numeral_2_eq_2)
qed


theorem loop_process_io_witness:
  "fst (ublksrv_process_io fring_api (loop_tgt_type fring_api (\<lambda>_ _. 0)) 8 [] (sample_loop 1)) = 0"
proof -
  have "\<not> queue_is_done fring_api (sample_loop 1)" by (simp add: queue_is_done_def sample_loop_sel)
  then show ?thesis
    using loop_process_io [OF sample_loop_reachable, OF _ reaps_nil, of 1 "\<lambda>_ _. 0" 8] by simp
qed

end
