(* ===== verification/Aio_List.thy ===== *)
theory Aio_List
  imports Ublk_Cmd
begin

text \<open>
  The singly linked lists of aio requests (include/ublksrv_aio.h) in a heap: addresses are numbers, 0
  is the null pointer, and the operations are functions on the heap and the list heads they change.
  \<open>aio_repr\<close> relates a list head to the sequence of requests it holds; the operations implement the
  queue operations on sequences, and leave lists that share no request alone. The locale \<open>aio_fifo\<close>
  is the contract the workers rely on.
\<close>

section \<open>Requests and lists\<close>

record ublksrv_aio =
  a_io :: ublksrv_io_desc
  a_res :: int
  a_id :: u32

record aio_node = ublksrv_aio +
  a_next :: nat

type_synonym aio_heap = "nat \<Rightarrow> aio_node option"

record aio_list =
  al_head :: nat
  al_tail :: nat

definition set_next :: "nat \<Rightarrow> nat \<Rightarrow> aio_heap \<Rightarrow> aio_heap" where
  "set_next p n h = h(p := map_option (\<lambda>a. a\<lparr>a_next := n\<rparr>) (h p))"

definition aio_list_init :: aio_list where
  "aio_list_init = \<lparr>al_head = 0, al_tail = 0\<rparr>"

definition aio_list_add :: "aio_heap \<Rightarrow> aio_list \<Rightarrow> nat \<Rightarrow> aio_heap \<times> aio_list" where
  "aio_list_add h al io =
     (let h1 = set_next io 0 h in
      if al_tail al \<noteq> 0 then (set_next (al_tail al) io h1, al\<lparr>al_tail := io\<rparr>)
      else (h1, al\<lparr>al_head := io, al_tail := io\<rparr>))"

definition aio_list_splice :: "aio_heap \<Rightarrow> aio_list \<Rightarrow> aio_list \<Rightarrow> aio_heap \<times> aio_list \<times> aio_list" where
  "aio_list_splice h n head =
     (if al_head n = 0 then (h, n, head)
      else if al_tail head \<noteq> 0
      then (set_next (al_tail head) (al_head n) h, aio_list_init, head\<lparr>al_tail := al_tail n\<rparr>)
      else (h, aio_list_init, head\<lparr>al_head := al_head n, al_tail := al_tail n\<rparr>))"

definition aio_list_empty :: "aio_list \<Rightarrow> bool" where
  "aio_list_empty al \<longleftrightarrow> al_head al = 0"

text \<open>The address popped, 0 for an empty list.\<close>

definition aio_list_pop :: "aio_heap \<Rightarrow> aio_list \<Rightarrow> nat \<times> aio_heap \<times> aio_list" where
  "aio_list_pop h al =
     (let io = al_head al in
      if io \<noteq> 0 then
        (let nx = (case h io of None \<Rightarrow> 0 | Some a \<Rightarrow> a_next a);
             al1 = al\<lparr>al_head := nx\<rparr>;
             al2 = (if nx = 0 then al1\<lparr>al_tail := 0\<rparr> else al1)
         in (io, set_next io 0 h, al2))
      else (io, h, al))"

section \<open>The sequence a list holds\<close>

fun path :: "aio_heap \<Rightarrow> nat \<Rightarrow> nat list \<Rightarrow> nat \<Rightarrow> bool" where
  "path h x [] y \<longleftrightarrow> x = y"
| "path h x (a # as) y \<longleftrightarrow> x \<noteq> 0 \<and> a = x \<and> (case h x of None \<Rightarrow> False | Some nd \<Rightarrow> path h (a_next nd) as y)"

definition aio_repr :: "aio_heap \<Rightarrow> aio_list \<Rightarrow> nat list \<Rightarrow> bool" where
  "aio_repr h al xs \<longleftrightarrow> path h (al_head al) xs 0 \<and> al_tail al = (if xs = [] then 0 else last xs) \<and> distinct xs"

section \<open>Lemmas\<close>

lemma set_next_same: "h p = Some a \<Longrightarrow> set_next p n h p = Some (a\<lparr>a_next := n\<rparr>)"
  by (simp add: set_next_def)

lemma set_next_other [simp]: "q \<noteq> p \<Longrightarrow> set_next p n h q = h q"
  by (simp add: set_next_def)

lemma set_next_dom [simp]: "set_next p n h q = None \<longleftrightarrow> h q = None"
  by (simp add: set_next_def)

lemma path_other [simp]: "p \<notin> set xs \<Longrightarrow> path (set_next p n h) x xs y = path h x xs y"
proof (induction xs arbitrary: x)
  case (Cons a as)
  then show ?case by (cases "a = x"; cases "h x") auto
qed simp

lemma path_append: "path h x (xs @ ys) z \<longleftrightarrow> (\<exists>y. path h x xs y \<and> path h y ys z)"
  by (induction xs arbitrary: x) (auto split: option.splits)

lemma path_null [simp]: "path h 0 xs y \<longleftrightarrow> xs = [] \<and> y = 0"
  by (cases xs) auto

lemma path_ne: "path h x xs 0 \<Longrightarrow> 0 \<notin> set xs"
  by (induction xs arbitrary: x) (auto split: option.splits)

lemma path_alloc: "path h x xs y \<Longrightarrow> p \<in> set xs \<Longrightarrow> h p \<noteq> None"
  by (induction xs arbitrary: x) (auto split: option.splits)

text \<open>Linking the last request of a path to another address.\<close>

lemma path_relink:
  assumes "path h x (xs @ [l]) y" "l \<notin> set xs"
  shows "path (set_next l z h) x (xs @ [l]) z"
  using assms by (auto simp: path_append set_next_same split: option.splits)

lemma aio_repr_empty: "aio_repr h al xs \<Longrightarrow> aio_list_empty al \<longleftrightarrow> xs = []"
  by (cases xs) (auto simp: aio_repr_def aio_list_empty_def)

lemma aio_repr_head: "aio_repr h al (x # xs) \<Longrightarrow> al_head al = x \<and> x \<noteq> 0"
  by (auto simp: aio_repr_def)

lemma aio_repr_init: "aio_repr h aio_list_init []"
  by (simp add: aio_repr_def aio_list_init_def)

lemma aio_add_repr:
  assumes r: "aio_repr h al xs" and io: "io \<notin> set xs" "io \<noteq> 0" "h io \<noteq> None"
    and a: "aio_list_add h al io = (h', al')"
  shows "aio_repr h' al' (xs @ [io])"
    and "aio_repr h bl ys \<Longrightarrow> set ys \<inter> insert io (set xs) = {} \<Longrightarrow> aio_repr h' bl ys"
proof -
  obtain nd where nd: "h io = Some nd" using io(3) by auto
  show "aio_repr h' al' (xs @ [io])"
  proof (cases xs rule: rev_cases)
    case Nil
    then show ?thesis using r a io nd by (auto simp: aio_repr_def aio_list_add_def Let_def set_next_same)
  next
    case (snoc zs l)
    have l: "l \<noteq> 0" "l \<noteq> io" "l \<notin> set zs" "al_tail al = l" "io \<notin> set zs"
      using r snoc io path_ne [of h "al_head al" xs] by (auto simp: aio_repr_def)
    have h': "h' = set_next l io (set_next io 0 h)" "al' = al\<lparr>al_tail := io\<rparr>"
      using a l by (auto simp: aio_list_add_def Let_def)
    have "path (set_next io 0 h) (al_head al) (zs @ [l]) 0"
      using r snoc io by (simp add: aio_repr_def)
    then have "path h' (al_head al) (zs @ [l]) io" unfolding h' using l(3) by (rule path_relink)
    moreover have "path h' io [io] 0" using l nd io by (simp add: h' set_next_same)
    ultimately have "path h' (al_head al) ((zs @ [l]) @ [io]) 0" unfolding path_append by blast
    then show ?thesis using r io snoc h'(2) by (simp add: aio_repr_def)
  qed
  show "aio_repr h' bl ys" if "aio_repr h bl ys" "set ys \<inter> insert io (set xs) = {}"
  proof -
    have "xs \<noteq> [] \<Longrightarrow> al_tail al \<notin> set ys" using r that(2) by (auto simp: aio_repr_def dest!: last_in_set)
    then show ?thesis
      using a that r by (auto simp: aio_repr_def aio_list_add_def Let_def split: if_splits)
  qed
qed

lemma aio_splice_repr:
  assumes n: "aio_repr h n xs" and hd: "aio_repr h head ys" and dis: "set xs \<inter> set ys = {}"
    and s: "aio_list_splice h n head = (h', n', head')"
  shows "aio_repr h' n' [] \<and> aio_repr h' head' (ys @ xs)"
proof (cases xs)
  case Nil
  then show ?thesis using assms by (auto simp: aio_list_splice_def aio_repr_def)
next
  case (Cons x xs')
  have x: "al_head n = x" "x \<noteq> 0" "al_tail n = last xs" using n Cons by (auto simp: aio_repr_def)
  show ?thesis
  proof (cases ys rule: rev_cases)
    case Nil
    then show ?thesis using s n hd x Cons by (auto simp: aio_list_splice_def aio_repr_def aio_list_init_def)
  next
    case (snoc zs l)
    have l: "l \<noteq> 0" "l \<notin> set zs" "al_tail head = l" "l \<notin> set xs"
      using hd dis snoc path_ne [of h "al_head head" ys] by (auto simp: aio_repr_def)
    have h': "h' = set_next l x h" "n' = aio_list_init" "head' = head\<lparr>al_tail := al_tail n\<rparr>"
      using s l x by (auto simp: aio_list_splice_def)
    have "path h' (al_head head) (zs @ [l]) x"
      unfolding h' using hd snoc l(2) by (intro path_relink) (auto simp: aio_repr_def)
    moreover have "path h' x xs 0" using n x l(4) by (simp add: h' aio_repr_def)
    ultimately have "path h' (al_head head) (ys @ xs) 0" unfolding snoc path_append by blast
    then show ?thesis
      using n hd dis x Cons h' by (auto simp: aio_repr_def aio_list_init_def)
  qed
qed

lemma aio_pop_repr:
  assumes r: "aio_repr h al (x # xs)" and p: "aio_list_pop h al = (io, h', al')"
  shows "io = x \<and> aio_repr h' al' xs"
    and "aio_repr h bl ys \<Longrightarrow> x \<notin> set ys \<Longrightarrow> aio_repr h' bl ys"
proof -
  obtain nd where nd: "al_head al = x" "x \<noteq> 0" "h x = Some nd" "path h (a_next nd) xs 0" "x \<notin> set xs" "distinct xs"
      "al_tail al = last (x # xs)"
    using r by (auto simp: aio_repr_def split: option.splits)
  have h': "io = x" "h' = set_next x 0 h" and al': "al' = (if a_next nd = 0 then al\<lparr>al_head := 0, al_tail := 0\<rparr>
      else al\<lparr>al_head := a_next nd\<rparr>)"
    using p nd by (auto simp: aio_list_pop_def Let_def)
  have "a_next nd = 0 \<longleftrightarrow> xs = []" using nd(4) by (cases xs) auto
  then show "io = x \<and> aio_repr h' al' xs" using nd h' al' by (auto simp: aio_repr_def)
  show "aio_repr h' bl ys" if "aio_repr h bl ys" "x \<notin> set ys"
    using that by (simp add: h' aio_repr_def)
qed

lemma aio_pop_none:
  "aio_repr h al [] \<Longrightarrow> aio_list_pop h al = (0, h, al)"
  by (simp add: aio_list_pop_def aio_repr_def)

text \<open>No operation changes the payload of a request.\<close>

definition payload :: "aio_heap \<Rightarrow> nat \<Rightarrow> (ublksrv_io_desc \<times> int \<times> u32) option" where
  "payload h p = map_option (\<lambda>a. (a_io a, a_res a, a_id a)) (h p)"

lemma set_next_payload [simp]: "payload (set_next p n h) = payload h"
  by (auto simp: payload_def set_next_def fun_eq_iff map_option_case split: option.splits)

lemma ops_payload:
  "payload (fst (aio_list_add h al io)) = payload h"
  "payload (fst (aio_list_splice h al bl)) = payload h"
  "payload (fst (snd (aio_list_pop h al))) = payload h"
  by (simp_all add: aio_list_add_def aio_list_splice_def aio_list_pop_def Let_def)

section \<open>Sequences of operations\<close>

text \<open>
  What happens to a pair of lists: a request is added to the shared one, the shared one is spliced
  onto the private one, a request is popped from the private one. The results of the pops are
  collected, 0 for an empty list. \<open>run_seq\<close> is the specification on sequences, \<open>run_ops\<close> runs given
  list operations on a heap.
\<close>

datatype aio_op = OAdd nat | OSplice | OPop

fun run_seq :: "aio_op list \<Rightarrow> nat list \<times> nat list \<Rightarrow> nat list \<times> nat list \<times> nat list" where
  "run_seq [] (xs, ys) = ([], xs, ys)"
| "run_seq (OAdd io # ops) (xs, ys) = run_seq ops (xs @ [io], ys)"
| "run_seq (OSplice # ops) (xs, ys) = run_seq ops ([], ys @ xs)"
| "run_seq (OPop # ops) (xs, ys) =
     (case ys of [] \<Rightarrow> apfst (Cons 0) (run_seq ops (xs, [])) | y # ys' \<Rightarrow> apfst (Cons y) (run_seq ops (xs, ys')))"

fun run_ops ::
  "('h \<Rightarrow> 'l \<Rightarrow> nat \<Rightarrow> 'h \<times> 'l) \<Rightarrow> ('h \<Rightarrow> 'l \<Rightarrow> 'l \<Rightarrow> 'h \<times> 'l \<times> 'l) \<Rightarrow> ('h \<Rightarrow> 'l \<Rightarrow> nat \<times> 'h \<times> 'l) \<Rightarrow>
     aio_op list \<Rightarrow> 'h \<times> 'l \<times> 'l \<Rightarrow> nat list \<times> 'h \<times> 'l \<times> 'l" where
  "run_ops add spl pop [] (h, a, b) = ([], h, a, b)"
| "run_ops add spl pop (OAdd io # ops) (h, a, b) =
     (let (h1, a1) = add h a io in run_ops add spl pop ops (h1, a1, b))"
| "run_ops add spl pop (OSplice # ops) (h, a, b) = run_ops add spl pop ops (spl h a b)"
| "run_ops add spl pop (OPop # ops) (h, a, b) =
     (let (io, h1, b1) = pop h b in apfst (Cons io) (run_ops add spl pop ops (h1, a, b1)))"

text \<open>A request is added only while it is in neither list.\<close>

fun ops_fresh :: "aio_op list \<Rightarrow> nat list \<times> nat list \<Rightarrow> bool" where
  "ops_fresh [] (xs, ys) \<longleftrightarrow> True"
| "ops_fresh (OAdd io # ops) (xs, ys) \<longleftrightarrow> io \<notin> set xs \<and> io \<notin> set ys \<and> ops_fresh ops (xs @ [io], ys)"
| "ops_fresh (OSplice # ops) (xs, ys) \<longleftrightarrow> ops_fresh ops ([], ys @ xs)"
| "ops_fresh (OPop # ops) (xs, ys) \<longleftrightarrow> ops_fresh ops (xs, tl ys)"

fun op_addrs :: "aio_op list \<Rightarrow> nat set" where
  "op_addrs [] = {}"
| "op_addrs (OAdd io # ops) = insert io (op_addrs ops)"
| "op_addrs (OSplice # ops) = op_addrs ops"
| "op_addrs (OPop # ops) = op_addrs ops"

text \<open>The contract of the lists: what each operation does to the sequence, and that it leaves a list
  without common requests alone.\<close>

locale aio_fifo =
  fixes repr :: "'h \<Rightarrow> 'l \<Rightarrow> nat list \<Rightarrow> bool"
    and valid :: "'h \<Rightarrow> nat \<Rightarrow> bool"
    and add :: "'h \<Rightarrow> 'l \<Rightarrow> nat \<Rightarrow> 'h \<times> 'l"
    and spl :: "'h \<Rightarrow> 'l \<Rightarrow> 'l \<Rightarrow> 'h \<times> 'l \<times> 'l"
    and pop :: "'h \<Rightarrow> 'l \<Rightarrow> nat \<times> 'h \<times> 'l"
  assumes add_repr: "repr h a xs \<Longrightarrow> io \<notin> set xs \<Longrightarrow> valid h io \<Longrightarrow> add h a io = (h', a') \<Longrightarrow> repr h' a' (xs @ [io])"
    and add_frame: "repr h a xs \<Longrightarrow> io \<notin> set xs \<Longrightarrow> valid h io \<Longrightarrow> add h a io = (h', a') \<Longrightarrow> repr h b ys \<Longrightarrow>
      set ys \<inter> insert io (set xs) = {} \<Longrightarrow> repr h' b ys"
    and splice_repr: "repr h a xs \<Longrightarrow> repr h b ys \<Longrightarrow> set xs \<inter> set ys = {} \<Longrightarrow> spl h a b = (h', a', b') \<Longrightarrow>
      repr h' a' [] \<and> repr h' b' (ys @ xs)"
    and pop_repr: "repr h b (y # ys) \<Longrightarrow> pop h b = (io, h', b') \<Longrightarrow> io = y \<and> repr h' b' ys"
    and pop_frame: "repr h b (y # ys) \<Longrightarrow> pop h b = (io, h', b') \<Longrightarrow> repr h a xs \<Longrightarrow> y \<notin> set xs \<Longrightarrow> repr h' a xs"
    and pop_none: "repr h b [] \<Longrightarrow> pop h b = (0, h, b)"
    and add_valid: "valid (fst (add h a io)) p = valid h p"
    and splice_valid: "valid (fst (spl h a b)) p = valid h p"
    and pop_valid: "valid (fst (snd (pop h b))) p = valid h p"
begin

lemma run_ops_refines:
  assumes "repr h a xs" "repr h b ys" "distinct (xs @ ys)" "ops_fresh ops (xs, ys)"
    and "\<And>p. p \<in> op_addrs ops \<Longrightarrow> valid h p"
  shows "\<exists>h' a' b' rs xs' ys'. run_ops add spl pop ops (h, a, b) = (rs, h', a', b') \<and>
    run_seq ops (xs, ys) = (rs, xs', ys') \<and> repr h' a' xs' \<and> repr h' b' ys'"
  using assms
proof (induction ops arbitrary: h a b xs ys)
  case (Cons op ops)
  note prems = Cons.prems and IH = Cons.IH
  have dis: "set xs \<inter> set ys = {}" using prems(3) by simp
  show ?case
  proof (cases op)
    case (OAdd io)
    obtain h1 a1 where e: "add h a io = (h1, a1)" by fastforce
    have io: "io \<notin> set xs" "valid h io" "io \<notin> set ys" using prems OAdd by auto
    note r1 = add_repr [OF prems(1) io(1,2) e]
    have r2: "repr h1 b ys" using add_frame [OF prems(1) io(1,2) e prems(2)] dis io by auto
    have "\<And>p. p \<in> op_addrs ops \<Longrightarrow> valid h1 p" using add_valid [of h a io] e prems(5) OAdd by simp
    then show ?thesis using IH [OF r1 r2] prems io OAdd e by auto
  next
    case OSplice
    obtain h1 a1 b1 where e: "spl h a b = (h1, a1, b1)" by (metis prod_cases3)
    from splice_repr [OF prems(1,2) dis e] have r: "repr h1 a1 []" "repr h1 b1 (ys @ xs)" by auto
    have "\<And>p. p \<in> op_addrs ops \<Longrightarrow> valid h1 p" using splice_valid [of h a b] e prems(5) OSplice by simp
    then show ?thesis using IH [OF r] prems OSplice e by (auto simp: Int_commute)
  next
    case OPop
    show ?thesis
    proof (cases ys)
      case Nil
      then show ?thesis
        using IH [OF prems(1,2)] prems pop_none [of h b] OPop by (fastforce simp: apfst_def)
    next
      case (Cons y ys')
      obtain io h1 b1 where e: "pop h b = (io, h1, b1)" by (metis prod_cases3)
      have rb: "repr h b (y # ys')" using prems(2) Cons by simp
      have r: "io = y" "repr h1 b1 ys'" using pop_repr [OF rb e] by auto
      have r2: "repr h1 a xs" using pop_frame [OF rb e prems(1)] dis Cons by auto
      have "\<And>p. p \<in> op_addrs ops \<Longrightarrow> valid h1 p" using pop_valid [of h b] e prems(5) OPop by simp
      then show ?thesis using IH [OF r2 r(2)] prems Cons OPop e r(1) by (fastforce simp: apfst_def)
    qed
  qed
qed auto

end

interpretation aio: aio_fifo aio_repr "\<lambda>h p. p \<noteq> 0 \<and> h p \<noteq> None" aio_list_add aio_list_splice aio_list_pop
proof unfold_locales
  fix h a b xs ys io h' a' b' y p
  show "aio_repr h a xs \<Longrightarrow> io \<notin> set xs \<Longrightarrow> io \<noteq> 0 \<and> h io \<noteq> None \<Longrightarrow> aio_list_add h a io = (h', a') \<Longrightarrow>
      aio_repr h' a' (xs @ [io])"
    using aio_add_repr(1) by blast
  show "aio_repr h a xs \<Longrightarrow> io \<notin> set xs \<Longrightarrow> io \<noteq> 0 \<and> h io \<noteq> None \<Longrightarrow> aio_list_add h a io = (h', a') \<Longrightarrow>
      aio_repr h b ys \<Longrightarrow> set ys \<inter> insert io (set xs) = {} \<Longrightarrow> aio_repr h' b ys"
    using aio_add_repr(2) by blast
  show "aio_repr h a xs \<Longrightarrow> aio_repr h b ys \<Longrightarrow> set xs \<inter> set ys = {} \<Longrightarrow> aio_list_splice h a b = (h', a', b') \<Longrightarrow>
      aio_repr h' a' [] \<and> aio_repr h' b' (ys @ xs)"
    using aio_splice_repr by blast
  show "aio_repr h b (y # ys) \<Longrightarrow> aio_list_pop h b = (io, h', b') \<Longrightarrow> io = y \<and> aio_repr h' b' ys"
    using aio_pop_repr(1) by blast
  show "aio_repr h b (y # ys) \<Longrightarrow> aio_list_pop h b = (io, h', b') \<Longrightarrow> aio_repr h a xs \<Longrightarrow> y \<notin> set xs \<Longrightarrow>
      aio_repr h' a xs"
    using aio_pop_repr(2) by blast
  show "aio_repr h b [] \<Longrightarrow> aio_list_pop h b = (0, h, b)" by (rule aio_pop_none)
qed (simp_all add: aio_list_add_def aio_list_splice_def aio_list_pop_def Let_def del: not_None_eq)

lemma run_ops_payload:
  "run_ops aio_list_add aio_list_splice aio_list_pop ops (h, a, b) = (rs, h', a', b') \<Longrightarrow> payload h' = payload h"
proof (induction ops arbitrary: h a b rs)
  case (Cons op ops)
  show ?case
  proof (cases op)
    case (OAdd io)
    then show ?thesis
      using Cons.prems Cons.IH ops_payload(1) [of h a io] by (auto split: prod.splits)
  next
    case OSplice
    obtain h1 a1 b1 where "aio_list_splice h a b = (h1, a1, b1)" by (metis prod_cases3)
    then show ?thesis using Cons.prems Cons.IH [of h1 a1 b1] ops_payload(2) [of h a b] OSplice by auto
  next
    case OPop
    obtain io h1 b1 where p: "aio_list_pop h b = (io, h1, b1)" by (metis prod_cases3)
    obtain rs1 where "run_ops aio_list_add aio_list_splice aio_list_pop ops (h1, a, b1) = (rs1, h', a', b')"
      using Cons.prems OPop p by (cases "run_ops aio_list_add aio_list_splice aio_list_pop ops (h1, a, b1)") auto
    then show ?thesis using Cons.IH ops_payload(3) [of h b] p by fastforce
  qed
qed simp

section \<open>Properties\<close>

text \<open>C11: The linked lists of requests implement queues: starting with two empty lists, any sequence of
  adding requests that are in neither list, splicing and popping returns the requests exactly as the
  operations on sequences do, in the order they were added, ends in well-formed lists, and changes
  nothing of a request but its link.\<close>

theorem aio_lists_fifo:
  assumes "ops_fresh ops ([], [])" "\<forall>p\<in>op_addrs ops. p \<noteq> 0 \<and> h p \<noteq> None"
    and "run_ops aio_list_add aio_list_splice aio_list_pop ops (h, aio_list_init, aio_list_init) = (rs, h', a', b')"
  shows "rs = fst (run_seq ops ([], [])) \<and> aio_repr h' a' (fst (snd (run_seq ops ([], [])))) \<and>
         aio_repr h' b' (snd (snd (run_seq ops ([], [])))) \<and> payload h' = payload h"
  using aio.run_ops_refines [OF aio_repr_init aio_repr_init, of ops h] assms run_ops_payload by fastforce

theorem aio_lists_fifo_witness:
  "fst (run_ops aio_list_add aio_list_splice aio_list_pop [OAdd 7, OAdd 5, OSplice, OAdd 9, OPop, OSplice, OPop, OPop, OPop]
     (\<lambda>_. Some \<lparr>a_io = \<lparr>op_flags = 0, nr_sectors = 0, start_sector = 0, iod_addr = 0\<rparr>, a_res = 0, a_id = 0, a_next = 3\<rparr>,
      aio_list_init, aio_list_init)) = [7, 5, 9, 0]"
  using aio_lists_fifo [of "[OAdd 7, OAdd 5, OSplice, OAdd 9, OPop, OSplice, OPop, OPop, OPop]"
    "\<lambda>_. Some \<lparr>a_io = \<lparr>op_flags = 0, nr_sectors = 0, start_sector = 0, iod_addr = 0\<rparr>, a_res = 0, a_id = 0, a_next = 3\<rparr>"]
  by (cases "run_ops aio_list_add aio_list_splice aio_list_pop [OAdd 7, OAdd 5, OSplice, OAdd 9, OPop, OSplice, OPop, OPop, OPop]
     (\<lambda>_. Some \<lparr>a_io = \<lparr>op_flags = 0, nr_sectors = 0, start_sector = 0, iod_addr = 0\<rparr>, a_res = 0, a_id = 0, a_next = 3\<rparr>,
      aio_list_init, aio_list_init)") (simp del: run_ops.simps)

end
