(* ===== verification/Ublk_Aio.thy ===== *)
theory Ublk_Aio
  imports Aio_List Ublk_Init
begin

text \<open>
  The aio contexts of lib/ublksrv_aio.c, with which a target hands requests to a thread of its own:
  the queue thread adds a request to the submit list of a context and wakes it, the context's thread
  submits the requests and moves finished ones to the completion list of their queue, and the queue
  thread commits their results when its event descriptor fires.

  The lists are sequences of requests; theory Aio_List shows that the linked lists behave like them.
  The spin locks make each access to a shared list one step. What other threads append to the submit
  list while the worker runs is an argument (\<open>arrivals\<close>, one entry per round of the worker).
\<close>

section \<open>Request identifiers\<close>

definition aio_qid :: "u32 \<Rightarrow> u32" where
  "aio_qid val = drop_bit 13 val AND 0x7ff"

definition aio_tag :: "u32 \<Rightarrow> u32" where
  "aio_tag val = val AND 0x1fff"

definition ublksrv_aio_pid_tag :: "u32 \<Rightarrow> u32 \<Rightarrow> u32" where
  "ublksrv_aio_pid_tag qid tag = tag OR push_bit 13 qid"

section \<open>Contexts\<close>

abbreviation (input) "UBLKSRV_AIO_QUEUE_WIDE \<equiv> (1::u32)"
abbreviation (input) "UBLKSRV_NR_CTX_BATCH \<equiv> (4::nat)"

record aio_ctx =
  ac_submit :: "ublksrv_aio list"
  ac_complete :: "ublksrv_aio list list"
  ac_efd_count :: u64
  ac_flags :: u32
  ac_dead :: bool

text \<open>\<open>mem\<close> tells whether the two allocations succeed.\<close>

definition ublksrv_aio_ctx_init :: "bool \<times> bool \<Rightarrow> ublksrv_ctrl_dev_info \<Rightarrow> u32 \<Rightarrow> aio_ctx option" where
  "ublksrv_aio_ctx_init mem info flags =
     (if \<not> has (info_ublksrv_flags info) UBLKSRV_F_NEED_EVENTFD then None
      else if \<not> fst mem then None
      else if \<not> snd mem then None
      else Some \<lparr>ac_submit = [], ac_complete = replicate (unat (nr_hw_queues info)) [], ac_efd_count = 0,
                 ac_flags = flags, ac_dead = False\<rparr>)"

definition ublksrv_aio_ctx_shutdown :: "int \<Rightarrow> aio_ctx \<Rightarrow> aio_ctx" where
  "ublksrv_aio_ctx_shutdown wr ctx =
     (let c1 = ctx\<lparr>ac_dead := True\<rparr> in if wr = 8 then c1\<lparr>ac_efd_count := ac_efd_count c1 + 1\<rparr> else c1)"

text \<open>The size of a request with a payload, rounded to the machine word.\<close>

definition aio_req_size :: "u32 \<Rightarrow> u32" where
  "aio_req_size payload_size = (40 + payload_size + 7) AND NOT 7"

section \<open>Submitting\<close>

text \<open>A context is identified by a number in the queue's batch of contexts.\<close>

definition ublksrv_aio_add_ctx_for_submit ::
  "nat \<Rightarrow> ('r, 't) ublksrv_queue \<Rightarrow> bool \<times> ('r, 't) ublksrv_queue" where
  "ublksrv_aio_add_ctx_for_submit c q =
     (if c \<in> set (ctxs q) then (True, q)
      else if length (ctxs q) < UBLKSRV_NR_CTX_BATCH - 1 then (True, q\<lparr>ctxs := ctxs q @ [c]\<rparr>)
      else (False, q))"

definition ublksrv_aio_submit_req ::
  "int \<Rightarrow> nat \<Rightarrow> ublksrv_aio \<Rightarrow> aio_ctx \<Rightarrow> ('r, 't) ublksrv_queue \<Rightarrow> aio_ctx \<times> ('r, 't) ublksrv_queue" where
  "ublksrv_aio_submit_req wr c req ctx q =
     (let ctx1 = ctx\<lparr>ac_submit := ac_submit ctx @ [req]\<rparr>;
          (added, q1) = ublksrv_aio_add_ctx_for_submit c q
      in if added then (ctx1, q1)
         else (if wr = 8 then ctx1\<lparr>ac_efd_count := ac_efd_count ctx1 + 1\<rparr> else ctx1, q1))"

section \<open>The submit worker\<close>

text \<open>
  The callback \<open>fn\<close> works on a state of its own and may change the request; a negative result is
  stored in it. A request with a non-zero result is done and goes to the list \<open>done\<close> when there is
  one. The last component counts the requests.
\<close>

definition submit_one ::
  "('c \<Rightarrow> ublksrv_aio \<Rightarrow> int \<times> ublksrv_aio \<times> 'c) \<Rightarrow> ublksrv_aio \<Rightarrow> 'c \<times> ublksrv_aio list option \<times> nat \<Rightarrow>
     'c \<times> ublksrv_aio list option \<times> nat" where
  "submit_one fn req = (\<lambda>(c, dn, total).
     let (ret, req1, c1) = fn c req;
         req2 = (if ret < 0 then req1\<lparr>a_res := ret\<rparr> else req1)
     in (c1, if ret \<noteq> 0 then map_option (\<lambda>d. d @ [req2]) dn else dn, Suc total))"

fun ublksrv_aio_submit_worker ::
  "('c \<Rightarrow> ublksrv_aio \<Rightarrow> int \<times> ublksrv_aio \<times> 'c) \<Rightarrow> ublksrv_aio list list \<Rightarrow> aio_ctx \<Rightarrow>
     'c \<times> ublksrv_aio list option \<times> nat \<Rightarrow> aio_ctx \<times> 'c \<times> ublksrv_aio list option \<times> nat" where
  "ublksrv_aio_submit_worker fn [] ctx st =
     (ctx\<lparr>ac_submit := [], ac_efd_count := 0\<rparr>, fold (submit_one fn) (ac_submit ctx) st)"
| "ublksrv_aio_submit_worker fn (a # arrivals) ctx st =
     (let st1 = fold (submit_one fn) (ac_submit ctx) st;
          ctx1 = ctx\<lparr>ac_submit := a, ac_efd_count := 0\<rparr>
      in if a \<noteq> [] then ublksrv_aio_submit_worker fn arrivals ctx1 st1 else (ctx1, st1))"

section \<open>The complete worker\<close>

definition move_to_queue_complete_list :: "nat \<Rightarrow> ublksrv_aio list \<Rightarrow> aio_ctx \<Rightarrow> aio_ctx" where
  "move_to_queue_complete_list qid list ctx =
     (if list = [] then ctx
      else ctx\<lparr>ac_complete := (ac_complete ctx)[qid := ac_complete ctx ! qid @ list]\<rparr>)"

abbreviation req_qid :: "ublksrv_aio \<Rightarrow> nat" where
  "req_qid req \<equiv> unat (aio_qid (a_id req))"

text \<open>The second component are the queues whose event is sent, in order.\<close>

function complete_loop :: "ublksrv_aio list \<Rightarrow> aio_ctx \<times> nat list \<Rightarrow> aio_ctx \<times> nat list" where
  "complete_loop [] st = st"
| "complete_loop (r # rs) (ctx, sent) =
     (let this = filter (\<lambda>x. req_qid x = req_qid r) (r # rs);
          others = filter (\<lambda>x. req_qid x \<noteq> req_qid r) (r # rs)
      in complete_loop others (move_to_queue_complete_list (req_qid r) this ctx, sent @ [req_qid r]))"
  by pat_completeness auto
termination
  by (relation "measure (\<lambda>(rs, st). length rs)") (auto simp: le_imp_less_Suc)

definition ublksrv_aio_complete_worker :: "ublksrv_aio list \<Rightarrow> aio_ctx \<Rightarrow> aio_ctx \<times> nat list" where
  "ublksrv_aio_complete_worker completed ctx =
     (case completed of [] \<Rightarrow> (ctx, [])
      | r # _ \<Rightarrow>
          if has (ac_flags ctx) UBLKSRV_AIO_QUEUE_WIDE
          then (move_to_queue_complete_list (req_qid r) completed ctx, [req_qid r])
          else complete_loop completed (ctx, []))"

section \<open>Collecting completed requests\<close>

definition ublksrv_aio_get_completed_reqs ::
  "('r, 't) ublksrv_queue \<Rightarrow> ublksrv_aio list \<Rightarrow> aio_ctx \<Rightarrow> ublksrv_aio list \<times> aio_ctx" where
  "ublksrv_aio_get_completed_reqs q al ctx =
     (al @ ac_complete ctx ! q_id q, ctx\<lparr>ac_complete := (ac_complete ctx)[q_id q := []]\<rparr>)"

abbreviation req_tag :: "ublksrv_aio \<Rightarrow> nat" where
  "req_tag req \<equiv> unat (aio_tag (a_id req))"

definition complete_req ::
  "'r uring_api \<Rightarrow> ('r, 't) ublksrv_queue \<Rightarrow> ublksrv_aio \<Rightarrow> ('r, 't) ublksrv_queue" where
  "complete_req U q req = snd (ublksrv_complete_io U q (req_tag req) (a_res req))"

definition ublksrv_aio_handle_event ::
  "'r uring_api \<Rightarrow> aio_ctx \<Rightarrow> ('r, 't) ublksrv_queue \<Rightarrow> aio_ctx \<times> ('r, 't) ublksrv_queue" where
  "ublksrv_aio_handle_event U ctx q =
     (let al = ac_complete ctx ! q_id q;
          ctx1 = ctx\<lparr>ac_complete := (ac_complete ctx)[q_id q := []]\<rparr>;
          q1 = ublksrv_queue_handled_event U q
      in (ctx1, foldl (complete_req U) q1 al))"

section \<open>Lemmas\<close>

interpretation aio_id_codec: codec
  "\<lambda>(qid, tag). ublksrv_aio_pid_tag qid tag" "\<lambda>v. (aio_qid v, aio_tag v)"
  "\<lambda>(qid, tag). drop_bit 11 qid = 0 \<and> drop_bit 13 tag = 0"
proof
  fix x :: "u32 \<times> u32"
  assume "case x of (qid, tag) \<Rightarrow> drop_bit 11 qid = 0 \<and> drop_bit 13 tag = 0"
  then show "(\<lambda>v. (aio_qid v, aio_tag v)) ((\<lambda>(qid, tag). ublksrv_aio_pid_tag qid tag) x) = x"
    unfolding ublksrv_aio_pid_tag_def aio_qid_def aio_tag_def mask_numerals drop_bit_0_iff
    by (cases x) (auto intro!: bit_word_eqI simp: bit_simps not_le, (rule ccontr, simp)+)
qed

lemma complete_loop_spec:
  assumes "complete_loop completed (ctx, sent) = (ctx', sent')"
    and "\<And>r. r \<in> set completed \<Longrightarrow> req_qid r < length (ac_complete ctx) \<and> req_qid r \<notin> set sent" "distinct sent"
  shows "length (ac_complete ctx') = length (ac_complete ctx) \<and>
    (\<forall>qid < length (ac_complete ctx). ac_complete ctx' ! qid
       = ac_complete ctx ! qid @ filter (\<lambda>r. req_qid r = qid) completed) \<and>
    distinct sent' \<and> set sent' = set sent \<union> req_qid ` set completed \<and>
    ac_submit ctx' = ac_submit ctx \<and> ac_efd_count ctx' = ac_efd_count ctx"
  using assms
proof (induction completed "(ctx, sent)" arbitrary: ctx sent rule: complete_loop.induct)
  case (2 r rs ctx sent)
  let ?this = "filter (\<lambda>x. req_qid x = req_qid r) (r # rs)"
    and ?others = "filter (\<lambda>x. req_qid x \<noteq> req_qid r) (r # rs)"
  let ?ctx = "move_to_queue_complete_list (req_qid r) ?this ctx"
  have c: "ac_complete ?ctx = (ac_complete ctx)[req_qid r := ac_complete ctx ! req_qid r @ ?this]"
    by (simp add: move_to_queue_complete_list_def)
  have rest: "ac_submit ?ctx = ac_submit ctx" "ac_efd_count ?ctx = ac_efd_count ctx"
    by (simp_all add: move_to_queue_complete_list_def)
  have rl: "req_qid r < length (ac_complete ctx)" using 2(3) by simp
  have run: "complete_loop ?others (?ctx, sent @ [req_qid r]) = (ctx', sent')" using 2(2) by (simp add: Let_def)
  have "length (ac_complete ctx') = length (ac_complete ?ctx) \<and>
    (\<forall>qid < length (ac_complete ?ctx). ac_complete ctx' ! qid
       = ac_complete ?ctx ! qid @ filter (\<lambda>r. req_qid r = qid) ?others) \<and>
    distinct sent' \<and> set sent' = set (sent @ [req_qid r]) \<union> req_qid ` set ?others \<and>
    ac_submit ctx' = ac_submit ?ctx \<and> ac_efd_count ctx' = ac_efd_count ?ctx"
    by (rule 2(1) [OF refl refl run]) (use 2(3,4) c in auto)
  moreover have "filter (\<lambda>x. req_qid x = qid) ?others = (if qid = req_qid r then [] else filter (\<lambda>x. req_qid x = qid) (r # rs))"
    for qid by (auto simp: filter_empty_conv intro: filter_cong)
  ultimately show ?case using c rl rest by (auto simp: nth_list_update)
qed auto

text \<open>Committing the results of requests the target owns, one after the other.\<close>

definition commit_sqe :: "('r, 't) ublksrv_queue \<Rightarrow> uring_sqe \<Rightarrow> ublksrv_aio \<Rightarrow> bool" where
  "commit_sqe q sqe req \<longleftrightarrow> IOC_NR (sqe_cmd_op sqe) = UBLK_IO_COMMIT_AND_FETCH_REQ \<and>
     ic_q_id (sqe_io_cmd sqe) = of_nat (q_id q) \<and> ic_tag (sqe_io_cmd sqe) = of_nat (unat (aio_tag (a_id req))) \<and>
     ic_result (sqe_io_cmd sqe) = word_of_int (a_res req)"

lemma complete_io_same:
  assumes "qinv q own" "ublksrv_complete_io U q tag res = (ret, q')"
  shows "q_id q' = q_id q" "q_depth q' = q_depth q"
  using assms qinvD(1) [OF assms(1)]
  by (auto simp: ublksrv_complete_io_def ublksrv_queue_io_cmd_def Let_def upd_io_def
      split: if_splits prod.splits bool.splits)

lemma complete_reqs_commit:
  assumes U: "uring_ok U queued" "uring_submits U" and inv: "qinv q own"
    and al: "distinct (map req_tag al)" "\<And>r. r \<in> set al \<Longrightarrow> req_tag r < q_depth q \<and> own ! req_tag r = Target"
  shows "\<exists>sqes own'. queued (ring (foldl (complete_req U) q al)) = queued (ring q) @ sqes \<and>
    list_all2 (commit_sqe q) sqes al \<and> qinv (foldl (complete_req U) q al) own' \<and>
    (\<forall>r\<in>set al. own' ! req_tag r = Driver)"
proof -
  have "\<exists>sqes own'. queued (ring (foldl (complete_req U) q al)) = queued (ring q) @ sqes \<and>
    list_all2 (commit_sqe q) sqes al \<and> qinv (foldl (complete_req U) q al) own' \<and>
    (\<forall>r\<in>set al. own' ! req_tag r = Driver) \<and> (\<forall>t. t \<notin> req_tag ` set al \<longrightarrow> own' ! t = own ! t)"
    using inv al
  proof (induction al arbitrary: q own)
    case (Cons r rs)
    obtain ret q1 where c: "ublksrv_complete_io U q (req_tag r) (a_res r) = (ret, q1)" by fastforce
    have r: "req_tag r < q_depth q" "own ! req_tag r = Target" using Cons.prems(3) by auto
    obtain sqe where s: "queued (ring q1) = queued (ring q) @ [sqe]" "ret = 1" "commit_sqe q sqe r"
      using complete_io_commits [OF U Cons.prems(1) r c] by (auto simp: commit_sqe_def)
    have inv1: "qinv q1 (own[req_tag r := Driver])"
      using complete_io_qinv [OF Cons.prems(1) r c] s(2) by (simp add: issued_def)
    note same = complete_io_same [OF Cons.prems(1) c]
    have len: "req_tag r < length own" using r qinvD(2) [OF Cons.prems(1)] by simp
    have "\<exists>sqes own'. queued (ring (foldl (complete_req U) q1 rs)) = queued (ring q1) @ sqes \<and>
      list_all2 (commit_sqe q1) sqes rs \<and> qinv (foldl (complete_req U) q1 rs) own' \<and>
      (\<forall>x\<in>set rs. own' ! req_tag x = Driver) \<and>
      (\<forall>t. t \<notin> req_tag ` set rs \<longrightarrow> own' ! t = own[req_tag r := Driver] ! t)"
    proof (rule Cons.IH [OF inv1])
      fix x assume x: "x \<in> set rs"
      have "req_tag r \<notin> req_tag ` set rs" using Cons.prems(2) by simp
      then have "req_tag x \<noteq> req_tag r" using x by (metis imageI)
      then show "req_tag x < q_depth q1 \<and> own[req_tag r := Driver] ! req_tag x = Target"
        using Cons.prems(3) [of x] x same by simp
    qed (use Cons.prems(2) in simp)
    then obtain sqes own' where IH: "queued (ring (foldl (complete_req U) q1 rs)) = queued (ring q1) @ sqes"
      "list_all2 (commit_sqe q1) sqes rs" "qinv (foldl (complete_req U) q1 rs) own'"
      "\<forall>x\<in>set rs. own' ! req_tag x = Driver"
      "\<forall>t. t \<notin> req_tag ` set rs \<longrightarrow> own' ! t = own[req_tag r := Driver] ! t" by blast
    have cr: "complete_req U q r = q1" by (simp add: complete_req_def c)
    have "commit_sqe q1 = commit_sqe q" using same by (simp add: commit_sqe_def fun_eq_iff)
    moreover have "own' ! req_tag r = Driver" using IH(5) Cons.prems(2) len by auto
    ultimately show ?case
      using IH s cr by (intro exI [of _ "sqe # sqes"] exI [of _ own']) (auto simp: nth_list_update)
  qed auto
  then show ?thesis by blast
qed

lemma handled_event_ring:
  assumes "uring_ok U queued"
  shows "\<exists>poll. queued (ring (ublksrv_queue_handled_event U q)) = queued (ring q) @ poll \<and> length poll \<le> 1"
    and "\<exists>r c. ublksrv_queue_handled_event U q = q\<lparr>ring := r, efd_count := c\<rparr>"
proof -
  obtain ret q2 where e: "queue_event U (q\<lparr>efd_count := 0\<rparr>) = (ret, q2)" by fastforce
  note ev = queue_event_ring [OF assms e]
  show "\<exists>poll. queued (ring (ublksrv_queue_handled_event U q)) = queued (ring q) @ poll \<and> length poll \<le> 1"
    using ev(1) uring_okD(4) [OF assms] by (auto simp: ublksrv_queue_handled_event_def e)
  have "q2 = (q\<lparr>efd_count := 0\<rparr>)\<lparr>ring := ring q2\<rparr>" by (rule ev(2))
  then have "q2 = q\<lparr>ring := ring q2, efd_count := 0\<rparr>" by (rule trans) simp
  then have "\<exists>r c. q2 = q\<lparr>ring := r, efd_count := c\<rparr>" by blast
  moreover have "\<exists>r c. q = q\<lparr>ring := r, efd_count := c\<rparr>"
    by (intro exI [of _ "ring q"] exI [of _ "efd_count q"]) simp
  moreover have "\<exists>r c. q\<lparr>efd_count := c0, ring := r0\<rparr> = q\<lparr>ring := r, efd_count := c\<rparr>" for c0 r0
    by (intro exI [of _ r0] exI [of _ c0]) simp
  ultimately show "\<exists>r c. ublksrv_queue_handled_event U q = q\<lparr>ring := r, efd_count := c\<rparr>"
    unfolding ublksrv_queue_handled_event_def Let_def e by auto
qed

text \<open>A round without completions wakes no context.\<close>

lemma no_wake: "fst (snd (ublksrv_process_io U T wr [] p)) = []"
  by (auto simp: ublksrv_process_io_def ublksrv_reap_events_uring_def ublksrv_submit_aio_batch_def
      process_io_wait_def ublksrv_reset_aio_batch_def Let_def split: prod.splits)

text \<open>A target whose background callback submits a request to a context.\<close>

definition bg_submit_tgt :: "nat \<Rightarrow> ublksrv_aio \<Rightarrow> ('r, aio_ctx) tgt_ops" where
  "bg_submit_tgt c req =
     \<lparr>handle_io_async = (\<lambda>q tag. q), tgt_io_done = None, handle_event = None,
      handle_io_background = Some (\<lambda>q _. (let (ctx1, q1) = ublksrv_aio_submit_req 8 c req (private_data q) q
                                          in q1\<lparr>private_data := ctx1\<rparr>)), idle_fn = None, epoll_cb = (\<lambda>_ q _. q)\<rparr>"

section \<open>Properties\<close>

text \<open>The submit worker misses nothing: its rounds, with requests arriving in between, do exactly what
  one pass over all requests in their order of arrival does, and the submit list is empty when it
  returns.\<close>

theorem aio_submit_worker_equiv:
  "snd (ublksrv_aio_submit_worker fn arrivals ctx st)
     = fold (submit_one fn) (ac_submit ctx @ concat (takeWhile (\<lambda>a. a \<noteq> []) arrivals)) st \<and>
   ac_submit (fst (ublksrv_aio_submit_worker fn arrivals ctx st)) = []"
  by (induction fn arrivals ctx st rule: ublksrv_aio_submit_worker.induct) (auto simp: Let_def)

text \<open>C33: The complete worker sorts finished requests by queue: every request reaches the completion list
  of its own queue, behind what was there and in its order, no other list changes, and the event of
  each queue concerned is sent exactly once.\<close>

theorem aio_complete_worker_exact:
  assumes "\<not> has (ac_flags ctx) UBLKSRV_AIO_QUEUE_WIDE" "\<forall>r\<in>set completed. req_qid r < length (ac_complete ctx)"
    and "ublksrv_aio_complete_worker completed ctx = (ctx', sent)"
  shows "(\<forall>qid < length (ac_complete ctx). ac_complete ctx' ! qid
            = ac_complete ctx ! qid @ filter (\<lambda>r. req_qid r = qid) completed) \<and>
         distinct sent \<and> set sent = req_qid ` set completed \<and> ac_submit ctx' = ac_submit ctx"
proof (cases completed)
  case Nil
  then show ?thesis using assms(3) by (simp add: ublksrv_aio_complete_worker_def)
next
  case (Cons r rs)
  then have "complete_loop completed (ctx, []) = (ctx', sent)"
    using assms by (simp add: ublksrv_aio_complete_worker_def)
  from complete_loop_spec [OF this] assms(2) show ?thesis by auto
qed

text \<open>C34: When the event descriptor of a queue fires, exactly one commit is queued for every completed
  request of the queue, in order, with its tag and result, after at most one entry that polls the
  descriptor again; the driver then holds these tags and the completion list is empty.\<close>

theorem aio_handle_event_commits:
  assumes U: "uring_ok U queued" "uring_submits U" and inv: "qinv q own"
    and al: "distinct (map req_tag (ac_complete ctx ! q_id q))"
      "\<forall>r\<in>set (ac_complete ctx ! q_id q). req_tag r < q_depth q \<and> own ! req_tag r = Target"
    and q: "q_id q < length (ac_complete ctx)"
    and e: "ublksrv_aio_handle_event U ctx q = (ctx', q')"
  shows "(\<exists>poll sqes own'. queued (ring q') = queued (ring q) @ poll @ sqes \<and> length poll \<le> 1 \<and>
            list_all2 (commit_sqe q) sqes (ac_complete ctx ! q_id q) \<and> qinv q' own' \<and>
            (\<forall>r\<in>set (ac_complete ctx ! q_id q). own' ! req_tag r = Driver)) \<and>
         ac_complete ctx' ! q_id q = []"
proof -
  let ?al = "ac_complete ctx ! q_id q" and ?q1 = "ublksrv_queue_handled_event U q"
  obtain r c where q1: "?q1 = q\<lparr>ring := r, efd_count := c\<rparr>" using handled_event_ring(2) [OF U(1)] by blast
  obtain poll where poll: "queued (ring ?q1) = queued (ring q) @ poll" "length poll \<le> 1"
    using handled_event_ring(1) [OF U(1), of q] by blast
  have inv1: "qinv ?q1 own" unfolding q1 by (rule qinv_cong [OF inv]) (simp_all add: ublksrv_queue_batch_io_def)
  have sel: "q_depth ?q1 = q_depth q" "q_id ?q1 = q_id q" by (simp_all add: q1)
  have q': "q' = foldl (complete_req U) ?q1 ?al" "ctx' = ctx\<lparr>ac_complete := (ac_complete ctx)[q_id q := []]\<rparr>"
    using e by (auto simp: ublksrv_aio_handle_event_def Let_def)
  obtain sqes own' where "queued (ring q') = queued (ring ?q1) @ sqes" "list_all2 (commit_sqe ?q1) sqes ?al"
      "qinv q' own'" "\<forall>r\<in>set ?al. own' ! req_tag r = Driver"
    using complete_reqs_commit [OF U inv1 al(1)] al(2) unfolding q' sel by blast
  moreover have "commit_sqe ?q1 = commit_sqe q" by (simp add: commit_sqe_def fun_eq_iff sel)
  ultimately show ?thesis using poll q by (auto simp: q'(2))
qed

text \<open>C35: A queue thread wakes a context only for requests submitted while completions are handled: when
  the background callback of a target submits a request, neither this round of the io loop nor the
  next one (without a new submission) wakes the context, although its submit list is not empty and
  its event descriptor was never written.\<close>

theorem aio_background_not_woken:
  fixes q :: "('r, aio_ctx) ublksrv_queue"
  assumes q: "\<not> queue_is_done U q" "\<not> ublksrv_queue_batch_io q"
    and q': "ublksrv_process_io U (bg_submit_tgt c req) wr [] q = (ret, woken, q')"
  shows "woken = [] \<and> ac_submit (private_data q') = ac_submit (private_data q) @ [req] \<and>
         ac_efd_count (private_data q') = ac_efd_count (private_data q) \<and>
         fst (snd (ublksrv_process_io U (bg_submit_tgt c req) wr [] q')) = []"
proof -
  obtain ret1 r1 where w: "process_io_wait U q = (ret1, q\<lparr>ring := r1, ctxs := []\<rparr>)"
    using q(2) by (cases "submit_and_wait_timeout U (ring q) (if has (qstate q) UBLKSRV_QUEUE_POLL \<and> tgt_io_inflight q \<noteq> 0
        then 0 else 1) (\<not> has (qstate q) UBLKSRV_QUEUE_IDLE)")
      (auto simp: process_io_wait_def ublksrv_reset_aio_batch_def Let_def)
  have "private_data (process_io_tail U (bg_submit_tgt c req) wr ret1 0 (q\<lparr>ring := r1, ctxs := []\<rparr>))
      = (private_data q)\<lparr>ac_submit := ac_submit (private_data q) @ [req]\<rparr>"
    by (auto simp: process_io_tail_def bg_submit_tgt_def opt_cb_def ublksrv_aio_submit_req_def
        ublksrv_aio_add_ctx_for_submit_def ublksrv_kill_eventfd_def ublksrv_queue_idle_enter_def
        ublksrv_queue_idle_exit_def Let_def)
  then show ?thesis
    using q q' no_wake [of U "bg_submit_tgt c req" wr q'] no_wake [of U "bg_submit_tgt c req" wr q] w
    by (auto simp: ublksrv_process_io_def ublksrv_reap_events_uring_def)
qed

section \<open>Concrete runs\<close>

definition sample_req :: "u32 \<Rightarrow> u32 \<Rightarrow> int \<Rightarrow> ublksrv_aio" where
  "sample_req qid tag res =
     \<lparr>a_io = \<lparr>op_flags = 0, nr_sectors = 8, start_sector = 0, iod_addr = 0\<rparr>, a_res = res,
      a_id = ublksrv_aio_pid_tag qid tag\<rparr>"

definition sample_ctx :: aio_ctx where
  "sample_ctx = \<lparr>ac_submit = [], ac_complete = [[], [], [], [sample_req 3 0 4096]], ac_efd_count = 0, ac_flags = 0,
     ac_dead = False\<rparr>"

definition sample_held :: "(fring, unit) ublksrv_queue" where
  "sample_held = upd_io 0 (\<lambda>io. io\<lparr>io_flags := 0\<rparr>) (sample_queue 0 ())"

lemma sample_held_qinv: "qinv sample_held [Target, Unissued]"
  by (auto simp: qinv_def sample_held_def sample_queue_def upd_io_def held_def owner_flags_def less_2_cases_iff
      ublksrv_queue_batch_io_def)

theorem aio_complete_worker_exact_witness:
  "let ctx' = fst (ublksrv_aio_complete_worker [sample_req 1 4 0, sample_req 0 5 0, sample_req 1 6 0] sample_ctx)
   in ac_complete ctx' ! 1 = [sample_req 1 4 0, sample_req 1 6 0]"
proof -
  have q: "req_qid (sample_req 1 4 0) = 1" "req_qid (sample_req 0 5 0) = 0" "req_qid (sample_req 1 6 0) = 1"
    by (simp_all add: sample_req_def ublksrv_aio_pid_tag_def aio_qid_def)
  show ?thesis
    using aio_complete_worker_exact [of sample_ctx "[sample_req 1 4 0, sample_req 0 5 0, sample_req 1 6 0]"
        "fst (ublksrv_aio_complete_worker [sample_req 1 4 0, sample_req 0 5 0, sample_req 1 6 0] sample_ctx)"
        "snd (ublksrv_aio_complete_worker [sample_req 1 4 0, sample_req 0 5 0, sample_req 1 6 0] sample_ctx)"]
    by (simp add: sample_ctx_def q)
qed

theorem aio_handle_event_commits_witness:
  "\<exists>poll sqes. fr_queued (ring (snd (ublksrv_aio_handle_event fring_api sample_ctx sample_held))) = poll @ sqes \<and>
     length sqes = 1"
proof -
  have t: "req_tag (sample_req 3 0 4096) = 0" by (simp add: sample_req_def ublksrv_aio_pid_tag_def aio_tag_def)
  have q: "q_id sample_held = 3" "q_depth sample_held = 2" "fr_queued (ring sample_held) = []"
    by (simp_all add: sample_held_def sample_queue_def upd_io_def fr_queued_def)
  have c: "ac_complete sample_ctx ! 3 = [sample_req 3 0 4096]" "length (ac_complete sample_ctx) = 4"
    by (simp_all add: sample_ctx_def)
  obtain poll sqes where "fr_queued (ring (snd (ublksrv_aio_handle_event fring_api sample_ctx sample_held))) = poll @ sqes"
    "list_all2 (commit_sqe sample_held) sqes [sample_req 3 0 4096]"
    using aio_handle_event_commits [OF fring_ok(1,2) sample_held_qinv, of sample_ctx
        "fst (ublksrv_aio_handle_event fring_api sample_ctx sample_held)"
        "snd (ublksrv_aio_handle_event fring_api sample_ctx sample_held)"]
    by (auto simp: q t c)
  then show ?thesis by (intro exI [of _ poll] exI [of _ sqes]) (auto dest: list_all2_lengthD)
qed

theorem aio_background_not_woken_witness:
  "ac_submit (private_data (snd (snd (ublksrv_process_io fring_api (bg_submit_tgt 0 (sample_req 3 1 0)) 8 []
     (sample_queue 0 sample_ctx))))) = [sample_req 3 1 0]"
proof -
  have "\<not> queue_is_done fring_api (sample_queue 0 sample_ctx)" "\<not> ublksrv_queue_batch_io (sample_queue 0 sample_ctx)"
    "ac_submit (private_data (sample_queue 0 sample_ctx)) = []"
    by (simp_all add: queue_is_done_def sample_queue_def ublksrv_queue_batch_io_def sample_ctx_def)
  then show ?thesis
    using aio_background_not_woken [of fring_api "sample_queue 0 sample_ctx" 0 "sample_req 3 1 0" 8]
    by (cases "ublksrv_process_io fring_api (bg_submit_tgt 0 (sample_req 3 1 0)) 8 [] (sample_queue 0 sample_ctx)") simp
qed

end
