(* ===== verification/Aio_Wakeup.thy ===== *)
theory Aio_Wakeup
  imports Ublk_Aio
begin

text \<open>
  The handshake between the queue thread and the worker of an aio context: the queue thread appends a
  request and writes the event descriptor later, the worker sleeps on the descriptor and runs
  \<open>ublksrv_aio_submit_worker\<close>. Each critical section and each system call is one step, so every
  interleaving of the two threads is a sequence of steps. The ghost fields record what was added and
  what the worker has handled.

  No request is left behind: when neither thread can move, everything added was handled, and without
  new requests every step brings the worker closer to that, so that it happens after finitely many
  steps whatever their order.
\<close>

section \<open>State and steps\<close>

datatype worker_pc = W_Wait | W_Splice | W_Pop | W_Read | W_Check

record aio_sys =
  sy_list :: "ublksrv_aio list"
  sy_efd :: nat
  sy_pending :: bool
  sy_pc :: worker_pc
  sy_sl :: "ublksrv_aio list"
  sy_added :: "ublksrv_aio list"
  sy_handled :: "ublksrv_aio list"

definition sys_start :: aio_sys where
  "sys_start = \<lparr>sy_list = [], sy_efd = 0, sy_pending = False, sy_pc = W_Splice, sy_sl = [], sy_added = [],
                sy_handled = []\<rparr>"

text \<open>The queue thread in \<open>ublksrv_aio_submit_req\<close>: the context is in its batch, to be woken later.\<close>

definition sys_submit :: "ublksrv_aio \<Rightarrow> aio_sys \<Rightarrow> aio_sys" where
  "sys_submit req s = s\<lparr>sy_list := sy_list s @ [req], sy_pending := True, sy_added := sy_added s @ [req]\<rparr>"

text \<open>The other steps: waking the context (the batch of the queue, or at once when it is full), and those
  of the worker.\<close>

inductive sys_step :: "aio_sys \<Rightarrow> aio_sys \<Rightarrow> bool" where
  wake: "sy_pending s \<Longrightarrow> sys_step s (s\<lparr>sy_pending := False, sy_efd := Suc (sy_efd s)\<rparr>)"
| wait: "sy_pc s = W_Wait \<Longrightarrow> sy_efd s > 0 \<Longrightarrow> sys_step s (s\<lparr>sy_pc := W_Splice\<rparr>)"
| splice: "sy_pc s = W_Splice \<Longrightarrow> sys_step s (s\<lparr>sy_sl := sy_sl s @ sy_list s, sy_list := [], sy_pc := W_Pop\<rparr>)"
| pop: "sy_pc s = W_Pop \<Longrightarrow> sy_sl s = r # rs \<Longrightarrow> sys_step s (s\<lparr>sy_sl := rs, sy_handled := sy_handled s @ [r]\<rparr>)"
| popped: "sy_pc s = W_Pop \<Longrightarrow> sy_sl s = [] \<Longrightarrow> sys_step s (s\<lparr>sy_pc := W_Read\<rparr>)"
| read: "sy_pc s = W_Read \<Longrightarrow> sys_step s (s\<lparr>sy_efd := 0, sy_pc := W_Check\<rparr>)"
| more: "sy_pc s = W_Check \<Longrightarrow> sy_list s \<noteq> [] \<Longrightarrow> sys_step s (s\<lparr>sy_pc := W_Splice\<rparr>)"
| finish: "sy_pc s = W_Check \<Longrightarrow> sy_list s = [] \<Longrightarrow> sys_step s (s\<lparr>sy_pc := W_Wait\<rparr>)"

inductive sys_reachable :: "aio_sys \<Rightarrow> bool" where
  start: "sys_reachable sys_start"
| submit: "sys_reachable s \<Longrightarrow> sys_reachable (sys_submit req s)"
| step: "sys_reachable s \<Longrightarrow> sys_step s s' \<Longrightarrow> sys_reachable s'"

section \<open>The invariant\<close>

definition sys_inv :: "aio_sys \<Rightarrow> bool" where
  "sys_inv s \<longleftrightarrow> sy_handled s @ sy_sl s @ sy_list s = sy_added s \<and>
     (sy_pc s \<in> {W_Wait, W_Read, W_Check, W_Splice} \<longrightarrow> sy_sl s = []) \<and>
     (sy_pc s = W_Wait \<and> sy_list s \<noteq> [] \<longrightarrow> sy_efd s > 0 \<or> sy_pending s)"

lemma sys_step_inv: "sys_step s s' \<Longrightarrow> sys_inv s \<Longrightarrow> sys_inv s'"
  by (induction rule: sys_step.induct) (auto simp: sys_inv_def)

lemma sys_reachable_inv: "sys_reachable s \<Longrightarrow> sys_inv s"
proof (induction rule: sys_reachable.induct)
  case start
  show ?case by (simp add: sys_inv_def sys_start_def)
next
  case (submit s req)
  then show ?case by (auto simp: sys_inv_def sys_submit_def)
next
  case (step s s')
  then show ?case using sys_step_inv by blast
qed

text \<open>How far the worker is from sleeping with nothing to do.\<close>

definition sys_work :: "aio_sys \<Rightarrow> nat" where
  "sys_work s = length (sy_sl s) + length (sy_list s) + (if sy_pending s then 7 else 0) +
     (case sy_pc s of W_Wait \<Rightarrow> 0 | W_Splice \<Rightarrow> 5 | W_Pop \<Rightarrow> 4 | W_Read \<Rightarrow> 3 | W_Check \<Rightarrow> 2) +
     (if sy_list s \<noteq> [] \<and> sy_pc s \<in> {W_Pop, W_Read, W_Check} then 5 else 0) +
     (if sy_efd s > 0 \<and> sy_pc s \<in> {W_Wait, W_Check} then 6 else 0)"

lemma sys_step_work: "sys_step s s' \<Longrightarrow> sys_work s' < sys_work s"
  by (induction rule: sys_step.induct) (auto simp: sys_work_def split: worker_pc.splits)

lemma sys_step_added: "sys_step s s' \<Longrightarrow> sy_added s' = sy_added s"
  by (induction rule: sys_step.induct) auto

lemma sys_stuck:
  assumes "sys_inv s" "\<nexists>s'. sys_step s s'"
  shows "sy_handled s = sy_added s"
proof -
  have pc: "sy_pc s = W_Wait"
  proof (cases "sy_pc s")
    case W_Splice
    then show ?thesis using assms(2) sys_step.splice by blast
  next
    case W_Pop
    then show ?thesis using assms(2) sys_step.pop sys_step.popped by (cases "sy_sl s") blast+
  next
    case W_Read
    then show ?thesis using assms(2) sys_step.read by blast
  next
    case W_Check
    then show ?thesis using assms(2) sys_step.more sys_step.finish by blast
  qed simp
  moreover have "\<not> sy_pending s" "\<not> sy_efd s > 0"
    using assms(2) sys_step.wake sys_step.wait [OF pc] by blast+
  ultimately show ?thesis using assms(1) by (auto simp: sys_inv_def)
qed

lemma sys_served:
  "sys_inv s \<Longrightarrow> \<exists>s'. sys_step\<^sup>*\<^sup>* s s' \<and> sy_handled s' = sy_added s"
proof (induction s rule: measure_induct_rule [of sys_work])
  case (less s)
  show ?case
  proof (cases "\<exists>t. sys_step s t")
    case True
    then obtain t where t: "sys_step s t" by blast
    obtain s' where "sys_step\<^sup>*\<^sup>* t s'" "sy_handled s' = sy_added t"
      using less.IH [OF sys_step_work [OF t] sys_step_inv [OF t less.prems]] by blast
    then show ?thesis
      using t sys_step_added [OF t] by (metis converse_rtranclp_into_rtranclp)
  next
    case False
    then show ?thesis using sys_stuck [OF less.prems] by blast
  qed
qed

section \<open>Properties\<close>



end
