(* ===== verification/Ublk_Ctrl.thy ===== *)
theory Ublk_Ctrl
  imports Ublk_Init
begin

text \<open>
  lib/ublksrv_cmd.c: the control device. A control command is an entry of a small ring sent to
  /dev/ublk-control; its payload names the device, an optional buffer and one data word, and for an
  unprivileged device the buffer starts with the path of the char device.

  The ring and the driver behind it are parameters (record \<open>ctrl_sys\<close>): waiting for a command takes
  the contents of the command's buffer and returns the contents the driver leaves there. A result
  \<open>None\<close> of an operation is a call that does not return, because an assertion of the source fails or
  because the wait is interrupted for ever.
\<close>

unbundle bit_operations_syntax

section \<open>Command codes\<close>

definition ctrl_cmd_op :: "u32 \<Rightarrow> u32" where
  "ctrl_cmd_op op =
     (if op = UBLK_CMD_GET_QUEUE_AFFINITY then UBLK_U_CMD_GET_QUEUE_AFFINITY
      else if op = UBLK_CMD_GET_DEV_INFO then UBLK_U_CMD_GET_DEV_INFO
      else if op = UBLK_CMD_ADD_DEV then UBLK_U_CMD_ADD_DEV
      else if op = UBLK_CMD_DEL_DEV then UBLK_U_CMD_DEL_DEV
      else if op = UBLK_CMD_START_DEV then UBLK_U_CMD_START_DEV
      else if op = UBLK_CMD_STOP_DEV then UBLK_U_CMD_STOP_DEV
      else if op = UBLK_CMD_SET_PARAMS then UBLK_U_CMD_SET_PARAMS
      else if op = UBLK_CMD_GET_PARAMS then UBLK_U_CMD_GET_PARAMS
      else if op = UBLK_CMD_START_USER_RECOVERY then UBLK_U_CMD_START_USER_RECOVERY
      else if op = UBLK_CMD_END_USER_RECOVERY then UBLK_U_CMD_END_USER_RECOVERY
      else if op = UBLK_CMD_GET_DEV_INFO2 then UBLK_U_CMD_GET_DEV_INFO2
      else 0)"

text \<open>\<open>None\<close>: one of the assertions fails.\<close>

definition legacy_op_to_ioctl :: "u32 \<Rightarrow> u32 option" where
  "legacy_op_to_ioctl op =
     (if IOC_TYPE op = 0 \<and> IOC_DIR op = 0 \<and> IOC_SIZE op = 0 \<and>
         UBLK_CMD_GET_QUEUE_AFFINITY \<le> op \<and> op \<le> UBLK_CMD_GET_DEV_INFO2
      then Some (ctrl_cmd_op op) else None)"

section \<open>The ring, the driver and the buffers of commands\<close>

datatype ctrl_load = L_none | L_info ublksrv_ctrl_dev_info | L_params ublk_params | L_cpus "nat set" | L_features u64

text \<open>The contents of a command's buffer: the path at its start (empty without one) and what follows.\<close>

record ctrl_buf =
  cb_path :: string
  cb_load :: ctrl_load

datatype ctrl_obj = O_path | O_info | O_params | O_features | O_affinity | O_cmd

record 'r ctrl_sys =
  cs_ring :: "'r uring_api"
  cs_wait :: "ctrl_buf \<Rightarrow> 'r \<Rightarrow> int \<times> ctrl_buf \<times> 'r"
  cs_peek :: "'r \<Rightarrow> int \<times> int \<times> 'r"
  cs_addr :: "ctrl_obj \<Rightarrow> u64"

abbreviation (input) "CTRL_CMD_HAS_DATA \<equiv> (1::u16)"
abbreviation (input) "CTRL_CMD_HAS_BUF \<equiv> (2::u16)"
abbreviation (input) "CTRL_CMD_NO_TRANS \<equiv> (4::u16)"
abbreviation (input) "UBLKC_PATH_MAX \<equiv> (32::nat)"
abbreviation (input) "sizeof_cpu_set \<equiv> (128::nat)"
abbreviation (input) "sizeof_ublk_params \<equiv> (152::u32)"

record ublksrv_ctrl_cmd_data =
  dt_cmd_op :: u32
  dt_flags :: u16
  dt_data :: u64
  dt_dev_path_len :: u16
  dt_addr :: u64
  dt_len :: u32

definition cmd_data :: "u32 \<Rightarrow> u16 \<Rightarrow> ublksrv_ctrl_cmd_data" where
  "cmd_data op fl = \<lparr>dt_cmd_op = op, dt_flags = fl, dt_data = 0, dt_dev_path_len = 0, dt_addr = 0, dt_len = 0\<rparr>"

definition no_buf :: ctrl_buf where
  "no_buf = \<lparr>cb_path = [], cb_load = L_none\<rparr>"

definition ublk_is_unprivileged :: "'s ublksrv_ctrl_dev \<Rightarrow> bool" where
  "ublk_is_unprivileged dev \<longleftrightarrow> has (info_flags (cd_dev_info dev)) UBLK_F_UNPRIVILEGED_DEV"

definition dec_int :: "int \<Rightarrow> string" where
  "dec_int i = (if i < 0 then CHR ''-'' # dec_string (nat (- i)) else dec_string (nat i))"

definition dev_path :: "'s ublksrv_ctrl_dev \<Rightarrow> string" where
  "dev_path dev = take (UBLKC_PATH_MAX - 1) (''/dev/ublkc'' @ dec_int (sint (info_dev_id (cd_dev_info dev))))"

definition ublk_un_privileged_prep_data ::
  "'r ctrl_sys \<Rightarrow> 's ublksrv_ctrl_dev \<Rightarrow> ublksrv_ctrl_cmd_data \<Rightarrow> ublksrv_ctrl_cmd_data \<times> ctrl_buf" where
  "ublk_un_privileged_prep_data K dev data =
     (if ublk_is_unprivileged dev
      then (data\<lparr>dt_flags := dt_flags data OR (CTRL_CMD_HAS_BUF OR CTRL_CMD_HAS_DATA),
                 dt_len := of_nat UBLKC_PATH_MAX, dt_dev_path_len := of_nat UBLKC_PATH_MAX,
                 dt_addr := cs_addr K O_path\<rparr>,
            \<lparr>cb_path = dev_path dev, cb_load = L_none\<rparr>)
      else (data, no_buf))"

section \<open>Sending a command\<close>

definition ctrl_opcode :: "'s ublksrv_ctrl_dev \<Rightarrow> ublksrv_ctrl_cmd_data \<Rightarrow> u32 option" where
  "ctrl_opcode dev data =
     (if \<not> has (dt_flags data) CTRL_CMD_NO_TRANS \<and> has (info_flags (cd_dev_info dev)) UBLK_F_CMD_IOCTL_ENCODE
      then legacy_op_to_ioctl (dt_cmd_op data) else Some (dt_cmd_op data))"

definition ctrl_payload :: "'s ublksrv_ctrl_dev \<Rightarrow> ublksrv_ctrl_cmd_data \<Rightarrow> ublksrv_ctrl_cmd \<Rightarrow> ublksrv_ctrl_cmd" where
  "ctrl_payload dev data cmd =
     (let cmd1 = (if has (dt_flags data) CTRL_CMD_HAS_BUF
                  then cmd\<lparr>cc_addr := dt_addr data, cc_len := ucast (dt_len data)\<rparr> else cmd);
          cmd2 = (if has (dt_flags data) CTRL_CMD_HAS_DATA
                  then cmd1\<lparr>cc_data := dt_data data, cc_dev_path_len := dt_dev_path_len data\<rparr> else cmd1)
      in cmd2\<lparr>cc_dev_id := info_dev_id (cd_dev_info dev), cc_queue_id := -1\<rparr>)"

definition ublksrv_ctrl_init_cmd ::
  "'r ctrl_sys \<Rightarrow> 's ublksrv_ctrl_dev \<Rightarrow> ublksrv_ctrl_cmd_data \<Rightarrow> u32 \<Rightarrow> uring_sqe \<Rightarrow> uring_sqe" where
  "ublksrv_ctrl_init_cmd K dev data op sqe =
     (ublksrv_set_sqe_cmd_op op
       (sqe\<lparr>sqe_fd := cd_ctrl_fd dev, sqe_opcode := OP_URING_CMD,
            sqe_ctrl_cmd := ctrl_payload dev data (sqe_ctrl_cmd sqe)\<rparr>))\<lparr>sqe_user_data := cs_addr K O_cmd\<rparr>"

text \<open>The loop that submits and waits until it is not interrupted.\<close>

partial_function (option) ctrl_wait :: "'r ctrl_sys \<Rightarrow> ctrl_buf \<Rightarrow> 'r \<Rightarrow> (int \<times> ctrl_buf \<times> 'r) option" where
  "ctrl_wait K b r =
     (let w = cs_wait K b r in
      if fst w = - EINTR then ctrl_wait K (fst (snd w)) (snd (snd w)) else Some w)"

declare ctrl_wait.simps [code]

definition do_ctrl_cmd ::
  "'r ctrl_sys \<Rightarrow> 's ublksrv_ctrl_dev \<Rightarrow> ublksrv_ctrl_cmd_data \<Rightarrow> ctrl_buf \<Rightarrow> 'r \<Rightarrow> (int \<times> ctrl_buf \<times> 'r) option" where
  "do_ctrl_cmd K dev data b r =
     (let op = ctrl_opcode dev data;
          (ok, r1) = ublksrv_alloc_sqe (cs_ring K) r (ublksrv_ctrl_init_cmd K dev data (case op of None \<Rightarrow> 0 | Some c \<Rightarrow> c))
      in if \<not> ok then Some (- EINVAL, b, r1)
         else if op = None then None
         else case ctrl_wait K b r1 of
           None \<Rightarrow> None
         | Some (ret, b2, r2) \<Rightarrow>
             if ret < 0 then Some (ret, b2, r2)
             else (case cs_peek K r2 of (ret, res, r3) \<Rightarrow>
               Some (if ret < 0 then ret else res, b2, r3)))"

section \<open>The operations\<close>

text \<open>A command whose buffer holds nothing but the path, as most are.\<close>

definition simple_cmd ::
  "'r ctrl_sys \<Rightarrow> u32 \<Rightarrow> u16 \<Rightarrow> u64 \<Rightarrow> 's ublksrv_ctrl_dev \<Rightarrow> 'r \<Rightarrow> (int \<times> 'r) option" where
  "simple_cmd K op fl d dev r =
     (let (data, b) = ublk_un_privileged_prep_data K dev (cmd_data op fl)
      in map_option (\<lambda>(ret, b', r'). (ret, r')) (do_ctrl_cmd K dev (data\<lparr>dt_data := d\<rparr>) b r))"

definition ublksrv_ctrl_del_dev_async :: "'r ctrl_sys \<Rightarrow> 's ublksrv_ctrl_dev \<Rightarrow> 'r \<Rightarrow> (int \<times> 'r) option" where
  "ublksrv_ctrl_del_dev_async K = simple_cmd K UBLK_U_CMD_DEL_DEV_ASYNC CTRL_CMD_NO_TRANS 0"

definition ublksrv_ctrl_del_dev :: "'r ctrl_sys \<Rightarrow> 's ublksrv_ctrl_dev \<Rightarrow> 'r \<Rightarrow> (int \<times> 'r) option" where
  "ublksrv_ctrl_del_dev K = simple_cmd K UBLK_CMD_DEL_DEV 0 0"

definition ublksrv_ctrl_stop_dev :: "'r ctrl_sys \<Rightarrow> 's ublksrv_ctrl_dev \<Rightarrow> 'r \<Rightarrow> (int \<times> 'r) option" where
  "ublksrv_ctrl_stop_dev K = simple_cmd K UBLK_CMD_STOP_DEV 0 0"

definition ublksrv_ctrl_start_recovery :: "'r ctrl_sys \<Rightarrow> 's ublksrv_ctrl_dev \<Rightarrow> 'r \<Rightarrow> (int \<times> 'r) option" where
  "ublksrv_ctrl_start_recovery K = simple_cmd K UBLK_CMD_START_USER_RECOVERY 0 0"

text \<open>The two commands that tell the driver which process serves the device.\<close>

definition set_pid :: "int \<Rightarrow> 's ublksrv_ctrl_dev \<Rightarrow> 's ublksrv_ctrl_dev" where
  "set_pid pid dev = dev\<lparr>cd_dev_info := (cd_dev_info dev)\<lparr>ublksrv_pid := pid\<rparr>\<rparr>"

definition ublksrv_ctrl_start_dev ::
  "'r ctrl_sys \<Rightarrow> int \<Rightarrow> 's ublksrv_ctrl_dev \<Rightarrow> 'r \<Rightarrow> (int \<times> 's ublksrv_ctrl_dev \<times> 'r) option" where
  "ublksrv_ctrl_start_dev K pid dev r =
     (let dev' = set_pid pid dev in
      map_option (\<lambda>(ret, r'). (ret, dev', r')) (simple_cmd K UBLK_CMD_START_DEV CTRL_CMD_HAS_DATA (of_int pid) dev' r))"

definition ublksrv_ctrl_end_recovery ::
  "'r ctrl_sys \<Rightarrow> int \<Rightarrow> 's ublksrv_ctrl_dev \<Rightarrow> 'r \<Rightarrow> (int \<times> 's ublksrv_ctrl_dev \<times> 'r) option" where
  "ublksrv_ctrl_end_recovery K pid dev r =
     (let dev' = set_pid pid dev in
      map_option (\<lambda>(ret, r'). (ret, dev', r')) (simple_cmd K UBLK_CMD_END_USER_RECOVERY CTRL_CMD_HAS_DATA (of_int pid) dev' r))"

text \<open>What the driver left in the buffer, as the structure the caller reads from it.\<close>

fun load_info :: "ublksrv_ctrl_dev_info \<Rightarrow> ctrl_load \<Rightarrow> ublksrv_ctrl_dev_info" where
  "load_info d (L_info i) = i"
| "load_info d _ = d"

fun load_params :: "ublk_params \<Rightarrow> ctrl_load \<Rightarrow> ublk_params" where
  "load_params d (L_params p) = p"
| "load_params d _ = d"

fun load_cpus :: "ctrl_load \<Rightarrow> nat set" where
  "load_cpus (L_cpus c) = c"
| "load_cpus _ = {}"

fun load_features :: "ctrl_load \<Rightarrow> u64" where
  "load_features (L_features f) = f"
| "load_features _ = 0"

text \<open>
  Adding a device and reading its description. Here the buffer is the \<open>dev_info\<close> of the device
  itself, unless the command takes a path, whose description is copied on success only.
\<close>

definition ctrl_add_dev_op ::
  "'r ctrl_sys \<Rightarrow> u32 \<Rightarrow> 's ublksrv_ctrl_dev \<Rightarrow> 'r \<Rightarrow> (int \<times> 's ublksrv_ctrl_dev \<times> 'r) option" where
  "ctrl_add_dev_op K op dev r =
     (let data = (cmd_data op (CTRL_CMD_HAS_BUF OR CTRL_CMD_NO_TRANS))
                   \<lparr>dt_addr := cs_addr K O_info, dt_len := sizeof_ublksrv_ctrl_dev_info\<rparr>
      in map_option (\<lambda>(ret, b, r'). (ret, dev\<lparr>cd_dev_info := load_info (cd_dev_info dev) (cb_load b)\<rparr>, r'))
           (do_ctrl_cmd K dev data \<lparr>cb_path = [], cb_load = L_info (cd_dev_info dev)\<rparr> r))"

definition ublksrv_ctrl_add_dev ::
  "'r ctrl_sys \<Rightarrow> 's ublksrv_ctrl_dev \<Rightarrow> 'r \<Rightarrow> (int \<times> 's ublksrv_ctrl_dev \<times> 'r) option" where
  "ublksrv_ctrl_add_dev K dev r =
     (case ctrl_add_dev_op K UBLK_U_CMD_ADD_DEV dev r of
        None \<Rightarrow> None
      | Some (ret, dev1, r1) \<Rightarrow>
          if ret < 0 then ctrl_add_dev_op K UBLK_CMD_ADD_DEV dev1 r1 else Some (ret, dev1, r1))"

definition ctrl_get_info_no_trans ::
  "'r ctrl_sys \<Rightarrow> u32 \<Rightarrow> 's ublksrv_ctrl_dev \<Rightarrow> 'r \<Rightarrow> (int \<times> 's ublksrv_ctrl_dev \<times> 'r) option" where
  "ctrl_get_info_no_trans K op dev r =
     (if ublk_is_unprivileged dev \<and> IOC_NR op = UBLK_CMD_GET_DEV_INFO then Some (- EINVAL, dev, r)
      else if IOC_NR op = UBLK_CMD_GET_DEV_INFO2 then
        (let data = (cmd_data op (CTRL_CMD_HAS_BUF OR CTRL_CMD_NO_TRANS OR CTRL_CMD_HAS_DATA))
                      \<lparr>dt_addr := cs_addr K O_path, dt_len := of_nat UBLKC_PATH_MAX + sizeof_ublksrv_ctrl_dev_info,
                       dt_dev_path_len := of_nat UBLKC_PATH_MAX\<rparr>
         in map_option (\<lambda>(ret, b, r').
              (ret, if ret \<ge> 0 then dev\<lparr>cd_dev_info := load_info (cd_dev_info dev) (cb_load b)\<rparr> else dev, r'))
              (do_ctrl_cmd K dev data \<lparr>cb_path = dev_path dev, cb_load = L_none\<rparr> r))
      else
        (let data = (cmd_data op (CTRL_CMD_HAS_BUF OR CTRL_CMD_NO_TRANS))
                      \<lparr>dt_addr := cs_addr K O_info, dt_len := sizeof_ublksrv_ctrl_dev_info\<rparr>
         in map_option (\<lambda>(ret, b, r'). (ret, dev\<lparr>cd_dev_info := load_info (cd_dev_info dev) (cb_load b)\<rparr>, r'))
              (do_ctrl_cmd K dev data \<lparr>cb_path = [], cb_load = L_info (cd_dev_info dev)\<rparr> r)))"

definition ctrl_get_info_op ::
  "'r ctrl_sys \<Rightarrow> u32 \<Rightarrow> 's ublksrv_ctrl_dev \<Rightarrow> 'r \<Rightarrow> (int \<times> 's ublksrv_ctrl_dev \<times> 'r) option" where
  "ctrl_get_info_op K op dev r =
     (case legacy_op_to_ioctl op of
        None \<Rightarrow> None
      | Some new_code \<Rightarrow>
          (case ctrl_get_info_no_trans K new_code dev r of
             None \<Rightarrow> None
           | Some (ret, dev1, r1) \<Rightarrow>
               if ret < 0 then ctrl_get_info_no_trans K op dev1 r1 else Some (ret, dev1, r1)))"

definition ublksrv_ctrl_get_info ::
  "'r ctrl_sys \<Rightarrow> 's ublksrv_ctrl_dev \<Rightarrow> 'r \<Rightarrow> (int \<times> 's ublksrv_ctrl_dev \<times> 'r) option" where
  "ublksrv_ctrl_get_info K dev r =
     (case ctrl_get_info_op K UBLK_CMD_GET_DEV_INFO2 dev r of
        None \<Rightarrow> None
      | Some (ret, dev1, r1) \<Rightarrow>
          if ret < 0 then
            (if ublk_is_unprivileged dev1 then Some (ret, dev1, r1)
             else ctrl_get_info_op K UBLK_CMD_GET_DEV_INFO dev1 r1)
          else Some (ret, dev1, r1))"

text \<open>Reading and writing the parameters.\<close>

definition ctrl_params_cmd ::
  "'r ctrl_sys \<Rightarrow> u32 \<Rightarrow> 's ublksrv_ctrl_dev \<Rightarrow> ublk_params \<Rightarrow> 'r \<Rightarrow> (int \<times> ctrl_buf \<times> 'r) option" where
  "ctrl_params_cmd K op dev p r =
     (if ublk_is_unprivileged dev then
        do_ctrl_cmd K dev ((cmd_data op (CTRL_CMD_HAS_BUF OR CTRL_CMD_HAS_DATA))
            \<lparr>dt_addr := cs_addr K O_path, dt_len := of_nat UBLKC_PATH_MAX + sizeof_ublk_params,
             dt_dev_path_len := of_nat UBLKC_PATH_MAX\<rparr>) \<lparr>cb_path = dev_path dev, cb_load = L_params p\<rparr> r
      else
        do_ctrl_cmd K dev ((cmd_data op CTRL_CMD_HAS_BUF)\<lparr>dt_addr := cs_addr K O_params, dt_len := sizeof_ublk_params\<rparr>)
          \<lparr>cb_path = [], cb_load = L_params p\<rparr> r)"

definition ublksrv_ctrl_set_params ::
  "'r ctrl_sys \<Rightarrow> 's ublksrv_ctrl_dev \<Rightarrow> ublk_params \<Rightarrow> 'r \<Rightarrow> (int \<times> ublk_params \<times> 'r) option" where
  "ublksrv_ctrl_set_params K dev p r =
     (let p' = p\<lparr>p_len := sizeof_ublk_params\<rparr> in
      map_option (\<lambda>(ret, b, r'). (ret, p', r')) (ctrl_params_cmd K UBLK_CMD_SET_PARAMS dev p' r))"

text \<open>
  For a privileged device the driver writes into the caller's structure, whatever the result; for an
  unprivileged one the reply is copied if the command succeeded.
\<close>

definition ublksrv_ctrl_get_params ::
  "'r ctrl_sys \<Rightarrow> 's ublksrv_ctrl_dev \<Rightarrow> ublk_params \<Rightarrow> 'r \<Rightarrow> (int \<times> ublk_params \<times> 'r) option" where
  "ublksrv_ctrl_get_params K dev p r =
     (let p' = p\<lparr>p_len := sizeof_ublk_params\<rparr> in
      map_option (\<lambda>(ret, b, r').
          (0, if ret \<ge> 0 \<or> \<not> ublk_is_unprivileged dev then load_params p' (cb_load b) else p', r'))
        (ctrl_params_cmd K UBLK_CMD_GET_PARAMS dev p' r))"

definition ublksrv_ctrl_get_features ::
  "'r ctrl_sys \<Rightarrow> 's ublksrv_ctrl_dev \<Rightarrow> 'r \<Rightarrow> (int \<times> u64 \<times> 'r) option" where
  "ublksrv_ctrl_get_features K dev r =
     map_option (\<lambda>(ret, b, r'). (ret, load_features (cb_load b), r'))
       (do_ctrl_cmd K dev ((cmd_data UBLK_U_CMD_GET_FEATURES CTRL_CMD_HAS_BUF)
            \<lparr>dt_addr := cs_addr K O_features, dt_len := 8\<rparr>) \<lparr>cb_path = [], cb_load = L_features 0\<rparr> r)"

section \<open>Affinity of the queues\<close>

text \<open>
  One command per queue; entry \<open>i\<close> of the buffer is \<open>sizeof(cpu_set_t)\<close> bytes, after the path when
  there is one. \<open>buf\<close> maps byte offsets to the cpu sets the driver wrote there.
\<close>

definition aff_path_len :: "'s ublksrv_ctrl_dev \<Rightarrow> nat" where
  "aff_path_len dev = (if ublk_is_unprivileged dev then UBLKC_PATH_MAX else 0)"

definition aff_data :: "'r ctrl_sys \<Rightarrow> 's ublksrv_ctrl_dev \<Rightarrow> nat \<Rightarrow> ublksrv_ctrl_cmd_data" where
  "aff_data K dev i =
     (cmd_data UBLK_CMD_GET_QUEUE_AFFINITY (CTRL_CMD_HAS_DATA OR CTRL_CMD_HAS_BUF))
       \<lparr>dt_data := of_nat i, dt_dev_path_len := of_nat (aff_path_len dev),
        dt_len := of_nat (sizeof_cpu_set + aff_path_len dev),
        dt_addr := cs_addr K O_affinity + of_nat (i * (sizeof_cpu_set + aff_path_len dev))\<rparr>"

fun affinity_loop ::
  "'r ctrl_sys \<Rightarrow> 's ublksrv_ctrl_dev \<Rightarrow> nat list \<Rightarrow> (nat \<rightharpoonup> nat set) \<Rightarrow> 'r \<Rightarrow> (int \<times> (nat \<rightharpoonup> nat set) \<times> 'r) option" where
  "affinity_loop K dev [] buf r = Some (0, buf, r)"
| "affinity_loop K dev (i # is) buf r =
     (case do_ctrl_cmd K dev (aff_data K dev i)
             \<lparr>cb_path = (if ublk_is_unprivileged dev then dev_path dev else []), cb_load = L_cpus {}\<rparr> r of
        None \<Rightarrow> None
      | Some (ret, b, r1) \<Rightarrow>
          if ret < 0 then Some (ret, buf, r1)
          else affinity_loop K dev is
            (buf(i * (sizeof_cpu_set + aff_path_len dev) + aff_path_len dev \<mapsto> load_cpus (cb_load b))) r1)"

definition ublksrv_ctrl_get_affinity ::
  "'r ctrl_sys \<Rightarrow> bool \<Rightarrow> 's ublksrv_ctrl_dev \<Rightarrow> 'r \<Rightarrow> (int \<times> 's ublksrv_ctrl_dev \<times> 'r) option" where
  "ublksrv_ctrl_get_affinity K mem dev r =
     (if \<not> mem then Some (- ENOMEM, dev, r)
      else map_option (\<lambda>(ret, buf, r').
             (ret, if ret < 0 then dev else dev\<lparr>cd_queues_cpuset := Some buf\<rparr>, r'))
           (affinity_loop K dev [0..<unat (nr_hw_queues (cd_dev_info dev))] Map.empty r))"

text \<open>The cpu set stored where the pointer for queue \<open>qid\<close> points to, if one is stored there.\<close>

definition ublksrv_get_queue_affinity :: "'s ublksrv_ctrl_dev \<Rightarrow> nat \<Rightarrow> nat set option" where
  "ublksrv_get_queue_affinity dev qid = (case cd_queues_cpuset dev of
     None \<Rightarrow> None
   | Some buf \<Rightarrow> buf (qid * sizeof_cpu_set + (if ublk_is_unprivileged dev then UBLKC_PATH_MAX else 0)))"

section \<open>Creating the control device\<close>

record ublksrv_dev_data =
  dd_dev_id :: int
  dd_max_io_buf_bytes :: u32
  dd_nr_hw_queues :: u16
  dd_queue_depth :: u16
  dd_tgt_type :: "string option"
  dd_tgt_argc :: int
  dd_tgt_argv :: "string list"
  dd_run_dir :: "string option"
  dd_flags :: u64
  dd_ublksrv_flags :: u64

text \<open>
  The descriptor or error of opening the control device, the result of setting the ring up, whether
  memory is available, and the text recovery finds in the pid file.
\<close>

record 's ctrl_env =
  ce_open :: int
  ce_ring :: int
  ce_calloc :: bool
  ce_saved :: "'s option"

definition ctrl_dev_of :: "'s ctrl_env \<Rightarrow> ublksrv_dev_data \<Rightarrow> 's ublksrv_ctrl_dev" where
  "ctrl_dev_of E data =
     \<lparr>cd_dev_info = \<lparr>nr_hw_queues = dd_nr_hw_queues data, queue_depth = dd_queue_depth data, info_state = 0,
        info_pad0 = 0, max_io_buf_bytes = dd_max_io_buf_bytes data, info_dev_id = of_int (dd_dev_id data),
        ublksrv_pid = 0, info_pad1 = 0, info_flags = dd_flags data, info_ublksrv_flags = dd_ublksrv_flags data,
        owner_uid = 0, owner_gid = 0, info_reserved1 = 0, info_reserved2 = 0\<rparr>,
      cd_jbuf = \<lparr>jb_ptr = False, jb_text = None, jb_size = 0, jb_alloc = 0\<rparr>, cd_recover = False,
      cd_tgt_type = dd_tgt_type data, cd_tgt_argc = dd_tgt_argc data, cd_tgt_argv = dd_tgt_argv data,
      cd_run_dir = dd_run_dir data, cd_queues_cpuset = None, cd_ctrl_fd = ce_open E, cd_recovery_jbuf = None\<rparr>"

definition ublksrv_ctrl_data_init ::
  "'s json_lib \<Rightarrow> 's option \<Rightarrow> bool \<Rightarrow> 's ublksrv_ctrl_dev \<Rightarrow> 's ublksrv_ctrl_dev" where
  "ublksrv_ctrl_data_init J saved recover dev =
     dev\<lparr>cd_jbuf := ublksrv_tgt_jbuf_init J saved recover (cd_jbuf dev), cd_recover := recover\<rparr>"

text \<open>Returned are the device and the descriptors that stay open when there is none.\<close>

definition do_ctrl_init ::
  "'s json_lib \<Rightarrow> 's ctrl_env \<Rightarrow> ublksrv_dev_data \<Rightarrow> bool \<Rightarrow> 's ublksrv_ctrl_dev option \<times> int list" where
  "do_ctrl_init J E data recover =
     (if ce_open E < 0 then (None, [])
      else if ce_ring E < 0 then (None, [ce_open E])
      else if \<not> ce_calloc E then (None, [ce_open E, ce_ring E])
      else (Some (ublksrv_ctrl_data_init J (ce_saved E) recover (ctrl_dev_of E data)), []))"

definition ublksrv_ctrl_init ::
  "'s json_lib \<Rightarrow> 's ctrl_env \<Rightarrow> ublksrv_dev_data \<Rightarrow> 's ublksrv_ctrl_dev option \<times> int list" where
  "ublksrv_ctrl_init J E data = do_ctrl_init J E data False"

definition ublksrv_ctrl_recover_init ::
  "'s json_lib \<Rightarrow> 's ctrl_env \<Rightarrow> ublksrv_dev_data \<Rightarrow> 's ublksrv_ctrl_dev option \<times> int list" where
  "ublksrv_ctrl_recover_init J E data = do_ctrl_init J E data True"

definition ublksrv_ctrl_prep_recovery ::
  "string option \<Rightarrow> 's option \<Rightarrow> 's ublksrv_ctrl_dev \<Rightarrow> 's ublksrv_ctrl_dev" where
  "ublksrv_ctrl_prep_recovery tgt_type jbuf dev =
     dev\<lparr>cd_tgt_type := tgt_type, cd_tgt_argc := -1, cd_recovery_jbuf := jbuf\<rparr>"

section \<open>Describing a device\<close>

definition ublksrv_dev_state_desc :: "'s ublksrv_ctrl_dev \<Rightarrow> string" where
  "ublksrv_dev_state_desc dev =
     (let st = info_state (cd_dev_info dev) in
      if st = 0 then ''DEAD'' else if st = 1 then ''LIVE'' else if st = 2 then ''QUIESCED''
      else if st = 3 then ''FAIL_IO'' else ''UNKNOWN'')"

text \<open>
  The cpus a thread may run on, as text: \<open>reported\<close> is the system's answer, \<open>None\<close> an error. \<open>off\<close> (the
  source's \<open>done\<close>) counts what was to be written; what \<open>snprintf\<close> writes is cut at the end of the buffer, and a
  further write is made at \<open>buf + done\<close> with the unsigned size \<open>size - done\<close>: once that wraps the write is out of the
  buffer, \<open>None\<close> here.
\<close>

fun fill_cpus :: "nat list \<Rightarrow> nat \<Rightarrow> nat \<Rightarrow> string \<Rightarrow> string option" where
  "fill_cpus [] sz off buf = Some buf"
| "fill_cpus (i # is) sz off buf =
     (let txt = dec_string i @ '' '' in
      if sz < off then None
      else fill_cpus is sz (off + length txt) (buf @ take (sz - off - 1) txt))"

definition ublksrv_fill_q_thread_affinity :: "nat set option \<Rightarrow> nat \<Rightarrow> (int \<times> string option)" where
  "ublksrv_fill_q_thread_affinity reported sz = (case reported of
     None \<Rightarrow> (-1, Some [])
   | Some cpus \<Rightarrow> (0, fill_cpus (filter (\<lambda>i. i \<in> cpus) [0..<CPU_SETSIZE]) sz 0 []))"

text \<open>
  Moving the thread of a queue: returned are the result and the thread and cpu set passed to
  \<open>sched_setaffinity\<close>, if it is called. \<open>ctrl\<close> is the outcome of creating the control device.
\<close>

definition ublk_queue_set_affinity ::
  "'s json_lib \<Rightarrow> 'r ctrl_sys \<Rightarrow> 's ublksrv_ctrl_dev option \<Rightarrow> 's option \<Rightarrow> nat \<Rightarrow> nat set option \<Rightarrow> 'r \<Rightarrow>
     (int \<times> (int \<times> nat set) option) option" where
  "ublk_queue_set_affinity J K ctrl jbuf qid cpuset r = (case cpuset of
     None \<Rightarrow> Some (- EINVAL, None)
   | Some cpus \<Rightarrow> (case ctrl of
       None \<Rightarrow> Some (- EOPNOTSUPP, None)
     | Some dev \<Rightarrow> (case ublksrv_ctrl_get_info K dev r of
         None \<Rightarrow> None
       | Some (ret, dev1, r1) \<Rightarrow>
           if ret < 0 then Some (ret, None)
           else if jbuf = None then Some (ret, None)
           else if unat (nr_hw_queues (cd_dev_info dev1)) \<le> qid then Some (ret, None)
           else map_option (\<lambda>(e, tid, txt). (0, Some (tid, cpus))) (ublksrv_json_read_queue_info J jbuf qid 4096 []))))"

section \<open>Lemmas\<close>

subsection \<open>Sending a command\<close>

definition ctrl_sys_ok :: "'r ctrl_sys \<Rightarrow> ('r \<Rightarrow> uring_sqe list) \<Rightarrow> bool" where
  "ctrl_sys_ok K queued \<longleftrightarrow>
     uring_ok (cs_ring K) queued \<and> uring_submits (cs_ring K) \<and>
     (\<forall>b r. queued (snd (snd (cs_wait K b r))) = queued r) \<and>
     (\<forall>r. queued (snd (snd (cs_peek K r))) = queued r)"

lemma ctrl_wait_keeps:
  assumes w: "ctrl_wait K b r = Some w" and keeps: "\<And>b r. queued (snd (snd (cs_wait K b r))) = queued r"
  shows "queued (snd (snd w)) = queued r \<and> (\<exists>b0 r0. w = cs_wait K b0 r0 \<and> queued r0 = queued r) \<and> fst w \<noteq> - EINTR"
proof -
  let ?P = "\<lambda>K b r w. (\<forall>b r. queued (snd (snd (cs_wait K b r))) = queued r) \<longrightarrow>
    queued (snd (snd w)) = queued r \<and> (\<exists>b0 r0. w = cs_wait K b0 r0 \<and> queued r0 = queued r) \<and> fst w \<noteq> - EINTR"
  have "?P K b r w"
  proof (rule ctrl_wait.raw_induct [where P = ?P, OF _ w])
    fix wait :: "'a ctrl_sys \<Rightarrow> ctrl_buf \<Rightarrow> 'a \<Rightarrow> (int \<times> ctrl_buf \<times> 'a) option" and K b r w
    assume IH: "\<And>K b r w. wait K b r = Some w \<Longrightarrow> ?P K b r w"
      and body: "(let w = cs_wait K b r in if fst w = - EINTR then wait K (fst (snd w)) (snd (snd w)) else Some w) = Some w"
    show "?P K b r w"
    proof (cases "fst (cs_wait K b r) = - EINTR")
      case True
      then have "wait K (fst (snd (cs_wait K b r))) (snd (snd (cs_wait K b r))) = Some w" using body by (simp add: Let_def)
      from IH [OF this] show ?thesis by auto
    next
      case False
      then have "w = cs_wait K b r" using body by (simp add: Let_def)
      with False show ?thesis by blast
    qed
  qed
  with keeps show ?thesis by blast
qed

lemma alloc_sqe_sends:
  assumes U: "uring_ok U queued" "uring_submits U" and a: "ublksrv_alloc_sqe U r fill = (ok, r1)"
  shows "ok \<and> (\<exists>slot. queued r1 = queued r @ [fill slot])"
proof -
  let ?r0 = "if sq_space_left U r < 1 then submit U r else r"
  have sp: "sq_space_left U ?r0 \<noteq> 0" using U(2) by (auto simp: uring_submits_def)
  have q0: "queued ?r0 = queued r" using U(1) by (auto simp: uring_ok_def)
  obtain r2 where r2: "get_sqe U ?r0 fill = Some r2"
    using U(1) sp unfolding uring_ok_def by (metis option.exhaust)
  have "\<exists>slot. queued r2 = queued ?r0 @ [fill slot]" using U(1) r2 unfolding uring_ok_def by blast
  moreover have "ok" "r1 = r2" using a r2 by (simp_all add: ublksrv_alloc_sqe_def Let_def)
  ultimately show ?thesis using q0 by simp
qed

lemma do_ctrl_cmd_sends:
  assumes K: "ctrl_sys_ok K queued" and d: "do_ctrl_cmd K dev data b r = Some (ret, b', r')"
  obtains op slot where "ctrl_opcode dev data = Some op"
    "queued r' = queued r @ [ublksrv_ctrl_init_cmd K dev data op slot]"
    "0 \<le> ret \<longrightarrow> (\<exists>b0 r0. queued r0 = queued r' \<and> 0 \<le> fst (cs_wait K b0 r0) \<and> b' = fst (snd (cs_wait K b0 r0)))"
proof -
  let ?fill = "ublksrv_ctrl_init_cmd K dev data (case ctrl_opcode dev data of None \<Rightarrow> 0 | Some c \<Rightarrow> c)"
  obtain ok r1 where a: "ublksrv_alloc_sqe (cs_ring K) r ?fill = (ok, r1)" by fastforce
  obtain slot where s: "ok" "queued r1 = queued r @ [?fill slot]"
    using alloc_sqe_sends [OF _ _ a, of queued] K unfolding ctrl_sys_ok_def by blast
  obtain op where op: "ctrl_opcode dev data = Some op"
    using d s(1) a by (auto simp: do_ctrl_cmd_def Let_def split: if_splits)
  obtain w where w: "ctrl_wait K b r1 = Some w"
    using d s(1) a op by (auto simp: do_ctrl_cmd_def Let_def split: option.splits)
  obtain b0 r0 where q: "queued (snd (snd w)) = queued r1" "w = cs_wait K b0 r0" "queued r0 = queued r1"
    using ctrl_wait_keeps [OF w, of queued] K unfolding ctrl_sys_ok_def by blast
  have "r' = snd (snd w) \<or> r' = snd (snd (cs_peek K (snd (snd w))))"
    using d s(1) a op w by (auto simp: do_ctrl_cmd_def Let_def split: if_splits prod.splits)
  then have q1: "queued r' = queued r1" using q(1) K by (auto simp: ctrl_sys_ok_def)
  have "b' = fst (snd w) \<and> (0 \<le> ret \<longrightarrow> 0 \<le> fst w)"
    using d s(1) a op w by (auto simp: do_ctrl_cmd_def Let_def split: if_splits prod.splits)
  then have "0 \<le> ret \<longrightarrow> (\<exists>b0 r0. queued r0 = queued r' \<and> 0 \<le> fst (cs_wait K b0 r0) \<and> b' = fst (snd (cs_wait K b0 r0)))"
    using q(2,3) q1 by metis
  then show thesis using that [OF op] s(2) op q1 by simp
qed

subsection \<open>The codes of the commands\<close>

lemma ctrl_opcode_nr:
  assumes "ctrl_opcode dev data = Some op"
    and "dt_cmd_op data \<in> {0x01, 0x02, 0x04, 0x05, 0x06, 0x07, 0x08, 0x09, 0x10, 0x11, 0x12}"
  shows "IOC_NR op = dt_cmd_op data \<and>
    (\<not> has (dt_flags data) CTRL_CMD_NO_TRANS \<and> has (info_flags (cd_dev_info dev)) UBLK_F_CMD_IOCTL_ENCODE \<longrightarrow>
       IOC_TYPE op = 0x75 \<and> IOC_SIZE op = sizeof_ublksrv_ctrl_cmd)"
  using assms
  by (auto simp: ctrl_opcode_def legacy_op_to_ioctl_def ctrl_cmd_op_def IOC_def IOC_NR_def IOC_TYPE_def IOC_SIZE_def
      IOC_DIR_def split: if_splits)

lemma init_cmd_sel [simp]:
  "sqe_opcode (ublksrv_ctrl_init_cmd K dev data op slot) = OP_URING_CMD"
  "sqe_fd (ublksrv_ctrl_init_cmd K dev data op slot) = cd_ctrl_fd dev"
  "sqe_cmd_op (ublksrv_ctrl_init_cmd K dev data op slot) = op"
  "sqe_ctrl_cmd (ublksrv_ctrl_init_cmd K dev data op slot) = ctrl_payload dev data (sqe_ctrl_cmd slot)"
  by (simp_all add: ublksrv_ctrl_init_cmd_def ublksrv_set_sqe_cmd_op_def)

lemma payload_sel [simp]:
  "cc_dev_id (ctrl_payload dev data cmd) = info_dev_id (cd_dev_info dev)"
  "has (dt_flags data) CTRL_CMD_HAS_BUF \<Longrightarrow> cc_addr (ctrl_payload dev data cmd) = dt_addr data"
  "has (dt_flags data) CTRL_CMD_HAS_DATA \<Longrightarrow> cc_dev_path_len (ctrl_payload dev data cmd) = dt_dev_path_len data"
  "has (dt_flags data) CTRL_CMD_HAS_DATA \<Longrightarrow> cc_data (ctrl_payload dev data cmd) = dt_data data"
  by (simp_all add: ctrl_payload_def Let_def)

subsection \<open>The calls that send one command\<close>

datatype ctrl_call = C_del | C_del_async | C_stop | C_start int | C_start_recovery | C_end_recovery int |
  C_set_params ublk_params | C_get_params ublk_params | C_get_features

fun call_ring :: "'r ctrl_sys \<Rightarrow> 's ublksrv_ctrl_dev \<Rightarrow> 'r \<Rightarrow> ctrl_call \<Rightarrow> 'r option" where
  "call_ring K dev r C_del = map_option snd (ublksrv_ctrl_del_dev K dev r)"
| "call_ring K dev r C_del_async = map_option snd (ublksrv_ctrl_del_dev_async K dev r)"
| "call_ring K dev r C_stop = map_option snd (ublksrv_ctrl_stop_dev K dev r)"
| "call_ring K dev r (C_start pid) = map_option (snd \<circ> snd) (ublksrv_ctrl_start_dev K pid dev r)"
| "call_ring K dev r C_start_recovery = map_option snd (ublksrv_ctrl_start_recovery K dev r)"
| "call_ring K dev r (C_end_recovery pid) = map_option (snd \<circ> snd) (ublksrv_ctrl_end_recovery K pid dev r)"
| "call_ring K dev r (C_set_params p) = map_option (snd \<circ> snd) (ublksrv_ctrl_set_params K dev p r)"
| "call_ring K dev r (C_get_params p) = map_option (snd \<circ> snd) (ublksrv_ctrl_get_params K dev p r)"
| "call_ring K dev r C_get_features = map_option (snd \<circ> snd) (ublksrv_ctrl_get_features K dev r)"

text \<open>The number of the command, the data word it carries if any, and whether it names a device.\<close>

fun call_nr :: "ctrl_call \<Rightarrow> u32" where
  "call_nr C_del = UBLK_CMD_DEL_DEV"
| "call_nr C_del_async = 0x14"
| "call_nr C_stop = UBLK_CMD_STOP_DEV"
| "call_nr (C_start _) = UBLK_CMD_START_DEV"
| "call_nr C_start_recovery = UBLK_CMD_START_USER_RECOVERY"
| "call_nr (C_end_recovery _) = UBLK_CMD_END_USER_RECOVERY"
| "call_nr (C_set_params _) = UBLK_CMD_SET_PARAMS"
| "call_nr (C_get_params _) = UBLK_CMD_GET_PARAMS"
| "call_nr C_get_features = 0x13"

fun call_pid :: "ctrl_call \<Rightarrow> int option" where
  "call_pid (C_start pid) = Some pid"
| "call_pid (C_end_recovery pid) = Some pid"
| "call_pid _ = None"

definition names_device :: "'r ctrl_sys \<Rightarrow> 's ublksrv_ctrl_dev \<Rightarrow> uring_sqe \<Rightarrow> bool" where
  "names_device K dev sqe \<longleftrightarrow>
     sqe_opcode sqe = OP_URING_CMD \<and> sqe_fd sqe = cd_ctrl_fd dev \<and>
     cc_dev_id (sqe_ctrl_cmd sqe) = info_dev_id (cd_dev_info dev)"

definition names_path :: "'r ctrl_sys \<Rightarrow> uring_sqe \<Rightarrow> bool" where
  "names_path K sqe \<longleftrightarrow>
     cc_dev_path_len (sqe_ctrl_cmd sqe) = of_nat UBLKC_PATH_MAX \<and> cc_addr (sqe_ctrl_cmd sqe) = cs_addr K O_path"

lemma set_pid_sel [simp]:
  "ublk_is_unprivileged (set_pid pid dev) = ublk_is_unprivileged dev"
  "cd_ctrl_fd (set_pid pid dev) = cd_ctrl_fd dev"
  "info_dev_id (cd_dev_info (set_pid pid dev)) = info_dev_id (cd_dev_info dev)"
  "info_flags (cd_dev_info (set_pid pid dev)) = info_flags (cd_dev_info dev)"
  "names_device K (set_pid pid dev) = names_device K dev"
  by (simp_all add: set_pid_def ublk_is_unprivileged_def names_device_def fun_eq_iff)

lemma simple_cmd_sends:
  assumes K: "ctrl_sys_ok K queued" and s: "simple_cmd K op fl d dev r = Some (ret, r')"
  obtains sqe code where "queued r' = queued r @ [sqe]" "names_device K dev sqe" "sqe_cmd_op sqe = code"
    "ctrl_opcode dev (cmd_data op fl) = Some code"
    "ublk_is_unprivileged dev \<longrightarrow> names_path K sqe"
    "has fl CTRL_CMD_HAS_DATA \<longrightarrow> cc_data (sqe_ctrl_cmd sqe) = d"
proof -
  obtain data b where p: "ublk_un_privileged_prep_data K dev (cmd_data op fl) = (data, b)" by fastforce
  then obtain b' where c: "do_ctrl_cmd K dev (data\<lparr>dt_data := d\<rparr>) b r = Some (ret, b', r')"
    using s by (auto simp: simple_cmd_def)
  obtain code slot where cs: "ctrl_opcode dev (data\<lparr>dt_data := d\<rparr>) = Some code"
    "queued r' = queued r @ [ublksrv_ctrl_init_cmd K dev (data\<lparr>dt_data := d\<rparr>) code slot]"
    using do_ctrl_cmd_sends [OF K c] by blast
  have "has (1::u16) 1" "has (2::u16) 2" "\<not> has (1::u16) 4" "\<not> has (2::u16) 4" "has (3::u16) 1" "has (3::u16) 2" "\<not> has (3::u16) 4"
    by (simp_all add: has_def)
  note h = this
  have "ctrl_opcode dev (cmd_data op fl) = Some code"
    using cs(1) p h by (auto simp: ctrl_opcode_def ublk_un_privileged_prep_data_def cmd_data_def split: if_splits)
  moreover have "ublk_is_unprivileged dev \<longrightarrow>
      names_path K (ublksrv_ctrl_init_cmd K dev (data\<lparr>dt_data := d\<rparr>) code slot)"
    using p h by (auto simp: ublk_un_privileged_prep_data_def names_path_def cmd_data_def)
  moreover have "has fl CTRL_CMD_HAS_DATA \<longrightarrow>
      cc_data (sqe_ctrl_cmd (ublksrv_ctrl_init_cmd K dev (data\<lparr>dt_data := d\<rparr>) code slot)) = d"
    using p h by (auto simp: ublk_un_privileged_prep_data_def cmd_data_def split: if_splits)
  ultimately show thesis using that [OF cs(2)] by (simp add: names_device_def)
qed

lemma params_cmd_sends:
  assumes K: "ctrl_sys_ok K queued" and s: "ctrl_params_cmd K op dev p r = Some (ret, b, r')"
  obtains sqe code where "queued r' = queued r @ [sqe]" "names_device K dev sqe" "sqe_cmd_op sqe = code"
    "ctrl_opcode dev (cmd_data op CTRL_CMD_HAS_BUF) = Some code"
    "ublk_is_unprivileged dev \<longrightarrow> names_path K sqe"
proof -
  have h: "has (2::u16) 2" "\<not> has (2::u16) 4" "has (3::u16) 1" "has (3::u16) 2" "\<not> has (3::u16) 4"
    "(2::u16) OR 1 = 3" by (simp_all add: has_def)
  obtain data b0 where c: "do_ctrl_cmd K dev data b0 r = Some (ret, b, r')"
    and data: "dt_cmd_op data = op" "has (dt_flags data) CTRL_CMD_HAS_BUF" "\<not> has (dt_flags data) CTRL_CMD_NO_TRANS"
    and path: "ublk_is_unprivileged dev \<longrightarrow> has (dt_flags data) CTRL_CMD_HAS_DATA \<and>
      dt_dev_path_len data = of_nat UBLKC_PATH_MAX \<and> dt_addr data = cs_addr K O_path"
    using s h by (auto simp: ctrl_params_cmd_def cmd_data_def split: if_splits)
  obtain code slot where cs: "ctrl_opcode dev data = Some code"
    "queued r' = queued r @ [ublksrv_ctrl_init_cmd K dev data code slot]"
    using do_ctrl_cmd_sends [OF K c] by blast
  have "ctrl_opcode dev (cmd_data op CTRL_CMD_HAS_BUF) = Some code"
    using cs(1) data h by (auto simp: ctrl_opcode_def cmd_data_def split: if_splits)
  moreover have "ublk_is_unprivileged dev \<longrightarrow> names_path K (ublksrv_ctrl_init_cmd K dev data code slot)"
    using path data(2) by (auto simp: names_path_def)
  ultimately show thesis using that [OF cs(2)] by (simp add: names_device_def)
qed

lemma features_cmd_sends:
  assumes K: "ctrl_sys_ok K queued" and s: "ublksrv_ctrl_get_features K dev r = Some (ret, ft, r')"
  obtains sqe where "queued r' = queued r @ [sqe]" "names_device K dev sqe" "sqe_cmd_op sqe = UBLK_U_CMD_GET_FEATURES"
proof -
  let ?d = "(cmd_data UBLK_U_CMD_GET_FEATURES CTRL_CMD_HAS_BUF)\<lparr>dt_addr := cs_addr K O_features, dt_len := 8\<rparr>"
  obtain b b0 where c: "do_ctrl_cmd K dev ?d b0 r = Some (ret, b, r')"
    using s by (auto simp: ublksrv_ctrl_get_features_def)
  obtain code slot where cs: "ctrl_opcode dev ?d = Some code"
    "queued r' = queued r @ [ublksrv_ctrl_init_cmd K dev ?d code slot]"
    using do_ctrl_cmd_sends [OF K c] by blast
  have "code = UBLK_U_CMD_GET_FEATURES"
    using cs(1) by (auto simp: ctrl_opcode_def cmd_data_def legacy_op_to_ioctl_def IOC_def IOC_TYPE_def split: if_splits)
  then show thesis using that [OF cs(2)] by (simp add: names_device_def)
qed

lemma legacy_code:
  assumes "ctrl_opcode dev (cmd_data op fl) = Some code" "\<not> has fl CTRL_CMD_NO_TRANS"
    "op \<in> {0x01, 0x02, 0x04, 0x05, 0x06, 0x07, 0x08, 0x09, 0x10, 0x11, 0x12}"
  shows "IOC_NR code = op" "has (info_flags (cd_dev_info dev)) UBLK_F_CMD_IOCTL_ENCODE \<longrightarrow> IOC_TYPE code = 0x75"
  using ctrl_opcode_nr [OF assms(1)] assms(2,3) by (simp_all add: cmd_data_def)

lemma async_code:
  assumes "ctrl_opcode dev (cmd_data UBLK_U_CMD_DEL_DEV_ASYNC CTRL_CMD_NO_TRANS) = Some code"
  shows "IOC_NR code = 0x14" "IOC_TYPE code = 0x75"
  using assms by (simp_all add: ctrl_opcode_def cmd_data_def has_def IOC_def IOC_NR_def IOC_TYPE_def)

definition sent_for :: "'r ctrl_sys \<Rightarrow> 's ublksrv_ctrl_dev \<Rightarrow> ctrl_call \<Rightarrow> uring_sqe \<Rightarrow> bool" where
  "sent_for K dev c sqe \<longleftrightarrow>
     names_device K dev sqe \<and> IOC_NR (sqe_cmd_op sqe) = call_nr c \<and>
     (has (info_flags (cd_dev_info dev)) UBLK_F_CMD_IOCTL_ENCODE \<longrightarrow> IOC_TYPE (sqe_cmd_op sqe) = 0x75) \<and>
     (ublk_is_unprivileged dev \<and> c \<noteq> C_get_features \<longrightarrow> names_path K sqe) \<and>
     (\<forall>pid. call_pid c = Some pid \<longrightarrow> cc_data (sqe_ctrl_cmd sqe) = of_int pid)"

lemma flag_facts: "\<not> has (0::u16) m" "\<not> has (1::u16) 4" "has (1::u16) 1" "\<not> has (2::u16) 4"
  by (simp_all add: has_def)

lemma call_sends_simple:
  assumes "ctrl_sys_ok K queued" "simple_cmd K op fl d dev r = Some (ret, r')"
    and "op = call_nr c" "\<not> has fl CTRL_CMD_NO_TRANS"
    and "op \<in> {0x01, 0x02, 0x04, 0x05, 0x06, 0x07, 0x08, 0x09, 0x10, 0x11, 0x12}"
    and "\<And>pid. call_pid c = Some pid \<Longrightarrow> has fl CTRL_CMD_HAS_DATA \<and> d = of_int pid"
  shows "\<exists>sqe. queued r' = queued r @ [sqe] \<and> sent_for K dev c sqe"
proof -
  obtain sqe code where s: "queued r' = queued r @ [sqe]" "names_device K dev sqe" "sqe_cmd_op sqe = code"
    "ctrl_opcode dev (cmd_data op fl) = Some code" "ublk_is_unprivileged dev \<longrightarrow> names_path K sqe"
    "has fl CTRL_CMD_HAS_DATA \<longrightarrow> cc_data (sqe_ctrl_cmd sqe) = d"
    using simple_cmd_sends [OF assms(1,2)] by blast
  then show ?thesis using legacy_code [OF s(4) assms(4,5)] assms(3,6) by (auto simp: sent_for_def)
qed

lemma call_sends_params:
  assumes "ctrl_sys_ok K queued" "ctrl_params_cmd K op dev p r = Some (ret, b, r')"
    and "op = call_nr c" "op \<in> {UBLK_CMD_SET_PARAMS, UBLK_CMD_GET_PARAMS}" "call_pid c = None"
  shows "\<exists>sqe. queued r' = queued r @ [sqe] \<and> sent_for K dev c sqe"
proof -
  obtain sqe code where s: "queued r' = queued r @ [sqe]" "names_device K dev sqe" "sqe_cmd_op sqe = code"
    "ctrl_opcode dev (cmd_data op CTRL_CMD_HAS_BUF) = Some code" "ublk_is_unprivileged dev \<longrightarrow> names_path K sqe"
    using params_cmd_sends [OF assms(1,2)] by blast
  have o: "op \<in> {0x01, 0x02, 0x04, 0x05, 0x06, 0x07, 0x08, 0x09, 0x10, 0x11, 0x12}" using assms(4) by auto
  show ?thesis using s legacy_code [OF s(4) flag_facts(4) o] assms(3,5) by (auto simp: sent_for_def)
qed

subsection \<open>The fallbacks of get_info\<close>

text \<open>
  A driver that knows some command codes: \<open>f\<close> is its answer to a code, \<open>I\<close> the description it gives
  when the answer is not an error.
\<close>

definition answers :: "'r ctrl_sys \<Rightarrow> ('r \<Rightarrow> uring_sqe list) \<Rightarrow> (u32 \<Rightarrow> int) \<Rightarrow> ublksrv_ctrl_dev_info \<Rightarrow> bool" where
  "answers K queued f I \<longleftrightarrow>
     (\<forall>b r. queued r \<noteq> [] \<longrightarrow> 0 \<le> fst (cs_wait K b r) \<and>
        cb_load (fst (snd (cs_wait K b r))) =
          (if 0 \<le> f (sqe_cmd_op (last (queued r))) then L_info I else cb_load b)) \<and>
     (\<forall>r. queued r \<noteq> [] \<longrightarrow> 0 \<le> fst (cs_peek K r) \<and> fst (snd (cs_peek K r)) = f (sqe_cmd_op (last (queued r))))"

lemma do_ctrl_cmd_answer:
  assumes K: "ctrl_sys_ok K queued" and a: "answers K queued f I" and op: "ctrl_opcode dev data = Some op"
  shows "\<exists>b' r'. do_ctrl_cmd K dev data b r = Some (f op, b', r') \<and>
    cb_load b' = (if 0 \<le> f op then L_info I else cb_load b)"
proof -
  obtain ok r1 where al: "ublksrv_alloc_sqe (cs_ring K) r (ublksrv_ctrl_init_cmd K dev data op) = (ok, r1)" by fastforce
  obtain slot where s: "ok" "queued r1 = queued r @ [ublksrv_ctrl_init_cmd K dev data op slot]"
    using alloc_sqe_sends [OF _ _ al, of queued] K unfolding ctrl_sys_ok_def by blast
  obtain ret b2 r2 where w: "cs_wait K b r1 = (ret, b2, r2)" by (cases "cs_wait K b r1")
  have w1: "0 \<le> ret" "cb_load b2 = (if 0 \<le> f op then L_info I else cb_load b)"
    using a w s(2) unfolding answers_def by (metis append_is_Nil_conv fst_conv last_snoc list.distinct(1) init_cmd_sel(3) snd_conv)+
  have q2: "queued r2 = queued r1" using K w unfolding ctrl_sys_ok_def by (metis snd_conv)
  obtain pr res r3 where p: "cs_peek K r2 = (pr, res, r3)" by (cases "cs_peek K r2")
  have p1: "0 \<le> pr" "res = f op"
    using a p s(2) q2 unfolding answers_def by (metis append_is_Nil_conv fst_conv last_snoc list.distinct(1) init_cmd_sel(3) snd_conv)+
  have "ctrl_wait K b r1 = Some (ret, b2, r2)" using w w1(1) by (subst ctrl_wait.simps) (simp add: Let_def)
  then show ?thesis using al s(1) op w1 p p1 by (simp add: do_ctrl_cmd_def Let_def)
qed

lemma get_info_no_trans_answer:
  assumes K: "ctrl_sys_ok K queued" and a: "answers K queued f I"
    and op: "IOC_NR op \<in> {UBLK_CMD_GET_DEV_INFO, UBLK_CMD_GET_DEV_INFO2}"
    and u: "IOC_NR op = UBLK_CMD_GET_DEV_INFO2 \<or> \<not> ublk_is_unprivileged dev"
  shows "\<exists>r'. ctrl_get_info_no_trans K op dev r =
    Some (f op, if 0 \<le> f op then dev\<lparr>cd_dev_info := I\<rparr> else dev, r')"
proof -
  have h: "has ((2::u16) OR (4 OR 1)) 4" "has ((2::u16) OR 4) 4" by (simp_all add: has_def)
  have o: "ctrl_opcode dev data = Some op" if "dt_cmd_op data = op" "has (dt_flags data) CTRL_CMD_NO_TRANS" for data
    using that by (simp add: ctrl_opcode_def)
  show ?thesis
  proof (cases "IOC_NR op = UBLK_CMD_GET_DEV_INFO2")
    case True
    let ?d = "(cmd_data op (CTRL_CMD_HAS_BUF OR CTRL_CMD_NO_TRANS OR CTRL_CMD_HAS_DATA))
      \<lparr>dt_addr := cs_addr K O_path, dt_len := of_nat UBLKC_PATH_MAX + sizeof_ublksrv_ctrl_dev_info,
       dt_dev_path_len := of_nat UBLKC_PATH_MAX\<rparr>"
    have "ctrl_opcode dev ?d = Some op" by (rule o) (simp_all add: cmd_data_def has_def)
    from do_ctrl_cmd_answer [OF K a this, of "\<lparr>cb_path = dev_path dev, cb_load = L_none\<rparr>" r] True
    show ?thesis by (auto simp: ctrl_get_info_no_trans_def Let_def)
  next
    case False
    let ?d = "(cmd_data op (CTRL_CMD_HAS_BUF OR CTRL_CMD_NO_TRANS))
      \<lparr>dt_addr := cs_addr K O_info, dt_len := sizeof_ublksrv_ctrl_dev_info\<rparr>"
    have "ctrl_opcode dev ?d = Some op" by (rule o) (simp_all add: cmd_data_def has_def)
    from do_ctrl_cmd_answer [OF K a this, of "\<lparr>cb_path = [], cb_load = L_info (cd_dev_info dev)\<rparr>" r] False u
    show ?thesis by (auto simp: ctrl_get_info_no_trans_def Let_def)
  qed
qed

lemma get_info_op_answer:
  assumes K: "ctrl_sys_ok K queued" and a: "answers K queued f I"
    and op: "op \<in> {UBLK_CMD_GET_DEV_INFO, UBLK_CMD_GET_DEV_INFO2}"
    and u: "op = UBLK_CMD_GET_DEV_INFO2 \<or> \<not> ublk_is_unprivileged dev"
  shows "\<exists>r'. ctrl_get_info_op K op dev r =
    Some (if 0 \<le> f (ctrl_cmd_op op) then f (ctrl_cmd_op op) else f op,
          if 0 \<le> f (ctrl_cmd_op op) \<or> 0 \<le> f op then dev\<lparr>cd_dev_info := I\<rparr> else dev, r')"
proof -
  have l: "legacy_op_to_ioctl op = Some (ctrl_cmd_op op)"
    using op by (auto simp: legacy_op_to_ioctl_def IOC_TYPE_def IOC_DIR_def IOC_SIZE_def)
  have n: "IOC_NR (ctrl_cmd_op op) = op" "IOC_NR op = op"
    using op by (auto simp: ctrl_cmd_op_def IOC_def IOC_NR_def)
  obtain r1 where r1: "ctrl_get_info_no_trans K (ctrl_cmd_op op) dev r =
      Some (f (ctrl_cmd_op op), if 0 \<le> f (ctrl_cmd_op op) then dev\<lparr>cd_dev_info := I\<rparr> else dev, r1)"
    using get_info_no_trans_answer [OF K a, of "ctrl_cmd_op op" dev r] n(1) op u by auto
  obtain r2 where r2: "ctrl_get_info_no_trans K op dev r1 = Some (f op, if 0 \<le> f op then dev\<lparr>cd_dev_info := I\<rparr> else dev, r2)"
    using get_info_no_trans_answer [OF K a, of op dev r1] n(2) op u by auto
  show ?thesis using l r1 r2 by (auto simp: ctrl_get_info_op_def not_le)
qed

subsection \<open>The affinity buffer\<close>

text \<open>The driver answers an affinity command with the cpu set of the queue the data word names.\<close>

definition reports_cpus :: "'r ctrl_sys \<Rightarrow> ('r \<Rightarrow> uring_sqe list) \<Rightarrow> (nat \<Rightarrow> nat set) \<Rightarrow> bool" where
  "reports_cpus K queued A \<longleftrightarrow>
     (\<forall>b r. queued r \<noteq> [] \<and> IOC_NR (sqe_cmd_op (last (queued r))) = UBLK_CMD_GET_QUEUE_AFFINITY \<and>
            0 \<le> fst (cs_wait K b r) \<longrightarrow>
        cb_load (fst (snd (cs_wait K b r))) = L_cpus (A (unat (cc_data (sqe_ctrl_cmd (last (queued r)))))))"

lemma aff_cmd_reply:
  assumes K: "ctrl_sys_ok K queued" and A: "reports_cpus K queued A"
    and d: "do_ctrl_cmd K dev (aff_data K dev i) b r = Some (ret, b', r')" and i: "i < 2 ^ 16" and "0 \<le> ret"
  shows "load_cpus (cb_load b') = A i"
proof -
  obtain op slot where o: "ctrl_opcode dev (aff_data K dev i) = Some op"
    and q: "queued r' = queued r @ [ublksrv_ctrl_init_cmd K dev (aff_data K dev i) op slot]"
    and w: "0 \<le> ret \<longrightarrow> (\<exists>b0 r0. queued r0 = queued r' \<and> 0 \<le> fst (cs_wait K b0 r0) \<and> b' = fst (snd (cs_wait K b0 r0)))"
    using do_ctrl_cmd_sends [OF K d] by blast
  obtain b0 r0 where r0: "queued r0 = queued r'" "0 \<le> fst (cs_wait K b0 r0)" "b' = fst (snd (cs_wait K b0 r0))"
    using w assms(5) by blast
  have "IOC_NR op = UBLK_CMD_GET_QUEUE_AFFINITY"
    using ctrl_opcode_nr [OF o] by (simp add: aff_data_def cmd_data_def)
  moreover have "has (dt_flags (aff_data K dev i)) CTRL_CMD_HAS_DATA" by (simp add: aff_data_def cmd_data_def has_def)
  then have "cc_data (ctrl_payload dev (aff_data K dev i) (sqe_ctrl_cmd slot)) = of_nat i"
    by (simp add: aff_data_def)
  moreover have "unat (of_nat i :: u64) = i" using i by (simp add: unat_of_nat take_bit_nat_eq_self)
  ultimately have "cb_load b' = L_cpus (A i)" using A q r0 by (simp add: reports_cpus_def)
  then show ?thesis by simp
qed

lemma affinity_loop_buf:
  assumes K: "ctrl_sys_ok K queued" and A: "reports_cpus K queued A"
  shows "affinity_loop K dev is buf r = Some (0, buf', r') \<Longrightarrow> (\<forall>i\<in>set is. i < 2 ^ 16) \<Longrightarrow>
    (\<forall>i\<in>set is. buf' (i * (sizeof_cpu_set + aff_path_len dev) + aff_path_len dev) = Some (A i)) \<and>
    (\<forall>off. (\<forall>i\<in>set is. off \<noteq> i * (sizeof_cpu_set + aff_path_len dev) + aff_path_len dev) \<longrightarrow> buf' off = buf off)"
proof (induction "is" arbitrary: buf r)
  case (Cons i "is")
  let ?off = "\<lambda>i. i * (sizeof_cpu_set + aff_path_len dev) + aff_path_len dev"
  let ?b0 = "\<lparr>cb_path = (if ublk_is_unprivileged dev then dev_path dev else []), cb_load = L_cpus {}\<rparr>"
  obtain ret b r1 where c: "do_ctrl_cmd K dev (aff_data K dev i) ?b0 r = Some (ret, b, r1)"
    and l: "affinity_loop K dev is (buf(?off i \<mapsto> load_cpus (cb_load b))) r1 = Some (0, buf', r')" and ret: "0 \<le> ret"
    using Cons.prems(1) by (auto split: option.splits prod.splits if_splits)
  have b: "load_cpus (cb_load b) = A i" using aff_cmd_reply [OF K A c _ ret] Cons.prems(2) by simp
  have "\<forall>i\<in>set is. i < 2 ^ 16" using Cons.prems(2) by simp
  note IH = Cons.IH [OF l this]
  have "buf' (?off i) = Some (A i)"
  proof (cases "\<forall>j\<in>set is. ?off i \<noteq> ?off j")
    case True
    with IH have "buf' (?off i) = (buf(?off i \<mapsto> load_cpus (cb_load b))) (?off i)" by blast
    then show ?thesis using b by simp
  next
    case False
    then have "i \<in> set is" by auto
    with IH show ?thesis by blast
  qed
  with IH show ?case by simp
qed simp

section \<open>Concrete drivers\<close>

definition info_driver :: "(u32 \<Rightarrow> int) \<Rightarrow> ublksrv_ctrl_dev_info \<Rightarrow> fring ctrl_sys" where
  "info_driver f I =
     \<lparr>cs_ring = fring_api,
      cs_wait = (\<lambda>b r. (1, if fr_queued r \<noteq> [] \<and> 0 \<le> f (sqe_cmd_op (last (fr_queued r)))
                           then b\<lparr>cb_load := L_info I\<rparr> else b, r)),
      cs_peek = (\<lambda>r. (0, if fr_queued r = [] then 0 else f (sqe_cmd_op (last (fr_queued r))), r)),
      cs_addr = (\<lambda>obj. if obj = O_path then 0x1000 else 0x2000)\<rparr>"

definition cpu_driver :: "(nat \<Rightarrow> nat set) \<Rightarrow> fring ctrl_sys" where
  "cpu_driver A =
     \<lparr>cs_ring = fring_api,
      cs_wait = (\<lambda>b r. (1, b\<lparr>cb_load := L_cpus (A (unat (cc_data (sqe_ctrl_cmd (last (fr_queued r))))))\<rparr>, r)),
      cs_peek = (\<lambda>r. (0, 0, r)), cs_addr = (\<lambda>obj. 0x1000)\<rparr>"

lemma info_driver_ok: "ctrl_sys_ok (info_driver f I) fr_queued" "answers (info_driver f I) fr_queued f I"
  using fring_ok by (simp_all add: ctrl_sys_ok_def answers_def info_driver_def)

lemma cpu_driver_ok: "ctrl_sys_ok (cpu_driver A) fr_queued" "reports_cpus (cpu_driver A) fr_queued A"
  using fring_ok by (simp_all add: ctrl_sys_ok_def reports_cpus_def cpu_driver_def)

lemma cpu_driver_loop: "\<exists>buf' r'. affinity_loop (cpu_driver A) dev is buf r = Some (0, buf', r')"
proof (induction "is" arbitrary: buf r)
  case (Cons i "is")
  let ?K = "cpu_driver A"
  let ?d = "aff_data ?K dev i"
  let ?b0 = "\<lparr>cb_path = (if ublk_is_unprivileged dev then dev_path dev else []), cb_load = L_cpus {}\<rparr>"
  have "legacy_op_to_ioctl UBLK_CMD_GET_QUEUE_AFFINITY = Some UBLK_U_CMD_GET_QUEUE_AFFINITY"
    by (simp add: legacy_op_to_ioctl_def ctrl_cmd_op_def IOC_TYPE_def IOC_DIR_def IOC_SIZE_def)
  then have "ctrl_opcode dev ?d \<noteq> None"
    by (simp add: ctrl_opcode_def aff_data_def cmd_data_def del: not_None_eq)
  then obtain op where o: "ctrl_opcode dev ?d = Some op" by blast
  obtain ok r1 where al: "ublksrv_alloc_sqe fring_api r (ublksrv_ctrl_init_cmd ?K dev ?d op) = (ok, r1)" by fastforce
  have "ok" using alloc_sqe_sends [OF _ _ al] fring_ok by blast
  then have "\<exists>b. do_ctrl_cmd ?K dev ?d ?b0 r = Some (0, b, r1)"
    using al o by (simp add: do_ctrl_cmd_def cpu_driver_def ctrl_wait.simps Let_def)
  then show ?case using Cons.IH by fastforce
qed simp

definition sample_unpriv :: "json ublksrv_ctrl_dev" where
  "sample_unpriv = sample_ctrl\<lparr>cd_dev_info := sample_info\<lparr>nr_hw_queues := 8, info_flags := UBLK_F_UNPRIVILEGED_DEV\<rparr>\<rparr>"

section \<open>Properties\<close>



text \<open>Reading the description of a device tries the command with the path first and the plain one
  only for a device that is not unprivileged, each in the ioctl encoding first and in the legacy one
  second; the first code the driver accepts decides the result and the description, and if it
  accepts none the call fails with the error of the last and the description stays as it was.\<close>

theorem ctrl_get_info_fallback:
  assumes "ctrl_sys_ok K queued" "answers K queued f I"
    and "codes = [UBLK_U_CMD_GET_DEV_INFO2, UBLK_CMD_GET_DEV_INFO2] @
       (if ublk_is_unprivileged dev then [] else [UBLK_U_CMD_GET_DEV_INFO, UBLK_CMD_GET_DEV_INFO])"
  shows "\<exists>r'. ublksrv_ctrl_get_info K dev r = (case find (\<lambda>op. 0 \<le> f op) codes of
    Some op \<Rightarrow> Some (f op, dev\<lparr>cd_dev_info := I\<rparr>, r')
  | None \<Rightarrow> Some (f (last codes), dev, r'))"
proof -
  have c: "ctrl_cmd_op UBLK_CMD_GET_DEV_INFO2 = UBLK_U_CMD_GET_DEV_INFO2" "ctrl_cmd_op UBLK_CMD_GET_DEV_INFO = UBLK_U_CMD_GET_DEV_INFO"
    by (simp_all add: ctrl_cmd_op_def)
  note g = get_info_op_answer [OF assms(1,2)]
  obtain r1 where r1: "ctrl_get_info_op K UBLK_CMD_GET_DEV_INFO2 dev r =
    Some (if 0 \<le> f UBLK_U_CMD_GET_DEV_INFO2 then f UBLK_U_CMD_GET_DEV_INFO2 else f UBLK_CMD_GET_DEV_INFO2,
      if 0 \<le> f UBLK_U_CMD_GET_DEV_INFO2 \<or> 0 \<le> f UBLK_CMD_GET_DEV_INFO2 then dev\<lparr>cd_dev_info := I\<rparr> else dev, r1)"
    using g [of UBLK_CMD_GET_DEV_INFO2 dev r] c by auto
  show ?thesis
  proof (cases "ublk_is_unprivileged dev \<or> 0 \<le> f UBLK_U_CMD_GET_DEV_INFO2 \<or> 0 \<le> f UBLK_CMD_GET_DEV_INFO2")
    case True
    then show ?thesis using r1 assms(3) by (auto simp: ublksrv_ctrl_get_info_def)
  next
    case False
    then obtain r2 where "ctrl_get_info_op K UBLK_CMD_GET_DEV_INFO dev r1 =
      Some (if 0 \<le> f UBLK_U_CMD_GET_DEV_INFO then f UBLK_U_CMD_GET_DEV_INFO else f UBLK_CMD_GET_DEV_INFO,
        if 0 \<le> f UBLK_U_CMD_GET_DEV_INFO \<or> 0 \<le> f UBLK_CMD_GET_DEV_INFO then dev\<lparr>cd_dev_info := I\<rparr> else dev, r2)"
      using g [of UBLK_CMD_GET_DEV_INFO dev r1] c by auto
    then show ?thesis using r1 False assms(3) by (auto simp: ublksrv_ctrl_get_info_def)
  qed
qed

theorem ctrl_get_info_fallback_witness:
  "\<exists>r'. ublksrv_ctrl_get_info (info_driver (\<lambda>op. if op = UBLK_CMD_GET_DEV_INFO then 0 else - EOPNOTSUPP) (sample_info\<lparr>info_state := 1\<rparr>))
     sample_ctrl \<lparr>fr_entries = 4, fr_pend = [], fr_sent = []\<rparr> = Some (0, sample_ctrl\<lparr>cd_dev_info := sample_info\<lparr>info_state := 1\<rparr>\<rparr>, r')"
  using ctrl_get_info_fallback [OF info_driver_ok refl, where dev = sample_ctrl and r = "\<lparr>fr_entries = 4, fr_pend = [], fr_sent = []\<rparr>" and
      f = "\<lambda>op. if op = UBLK_CMD_GET_DEV_INFO then 0 else - EOPNOTSUPP" and I = "sample_info\<lparr>info_state := 1\<rparr>"]
  by (simp add: ublk_is_unprivileged_def sample_ctrl_def sample_info_def has_def IOC_def)

text \<open>C36: After the affinities were read, a queue of a privileged device finds its own cpu set. For an
  unprivileged device the buffer is written with a stride of 160 bytes and read with one of 128:
  queue \<open>q\<close> finds a cpu set only if \<open>q\<close> is a multiple of five, and then that of queue \<open>4 q / 5\<close>.\<close>

theorem ctrl_affinity_layout:
  assumes "ctrl_sys_ok K queued" "reports_cpus K queued A"
    and "ublksrv_ctrl_get_affinity K True dev r = Some (0, dev', r')"
    and "q < unat (nr_hw_queues (cd_dev_info dev))"
  shows "ublksrv_get_queue_affinity dev' q =
    (if \<not> ublk_is_unprivileged dev then Some (A q)
     else if q mod 5 = 0 then Some (A (4 * (q div 5))) else None)"
proof -
  let ?n = "unat (nr_hw_queues (cd_dev_info dev))"
  obtain buf where l: "affinity_loop K dev [0..<?n] Map.empty r = Some (0, buf, r')"
    and d: "dev' = dev\<lparr>cd_queues_cpuset := Some buf\<rparr>"
    using assms(3) by (auto simp: ublksrv_ctrl_get_affinity_def split: if_splits)
  have "?n < 2 ^ 16" by (rule order.strict_trans2 [OF unsigned_less]) simp
  then have b: "\<forall>i<?n. buf (i * (sizeof_cpu_set + aff_path_len dev) + aff_path_len dev) = Some (A i)"
    "\<forall>off. (\<forall>i<?n. off \<noteq> i * (sizeof_cpu_set + aff_path_len dev) + aff_path_len dev) \<longrightarrow> buf off = None"
    using affinity_loop_buf [OF assms(1,2) l] by auto
  have u: "ublk_is_unprivileged dev' = ublk_is_unprivileged dev" by (simp add: d ublk_is_unprivileged_def)
  show ?thesis
  proof (cases "ublk_is_unprivileged dev")
    case False
    then show ?thesis using b(1) assms(4) u by (simp add: d ublksrv_get_queue_affinity_def aff_path_len_def)
  next
    case True
    have "q = 5 * (q div 5)" if "q mod 5 = 0" using that by presburger
    then have five: "q * 128 + 32 = 4 * (q div 5) * 160 + 32" "4 * (q div 5) < ?n" if "q mod 5 = 0"
      using that assms(4) by linarith+
    have other: "q * 128 + 32 \<noteq> i * 160 + 32" if "q mod 5 \<noteq> 0" for i
    proof
      assume "q * 128 + 32 = i * 160 + 32"
      then have "4 * q = 5 * i" by linarith
      then have "q mod 5 = 0" by presburger
      with that show False by simp
    qed
    have "ublksrv_get_queue_affinity dev' q = buf (q * 128 + 32)"
      using True u by (simp add: d ublksrv_get_queue_affinity_def)
    moreover have "\<forall>i<?n. buf (i * 160 + 32) = Some (A i)" using b(1) True by (simp add: aff_path_len_def)
    then have "buf (q * 128 + 32) = Some (A (4 * (q div 5)))" if "q mod 5 = 0"
      using five [OF that] by metis
    moreover have "buf (q * 128 + 32) = None" if "q mod 5 \<noteq> 0"
      using b(2) other [OF that] True by (simp add: aff_path_len_def)
    ultimately show ?thesis using True by presburger
  qed
qed

theorem ctrl_affinity_layout_witness:
  "\<exists>dev' r'. ublksrv_ctrl_get_affinity (cpu_driver (\<lambda>q. {q})) True sample_unpriv \<lparr>fr_entries = 4, fr_pend = [], fr_sent = []\<rparr> = Some (0, dev', r') \<and>
     ublksrv_get_queue_affinity dev' 1 = None \<and> ublksrv_get_queue_affinity dev' 5 = Some {4}"
proof -
  let ?K = "cpu_driver (\<lambda>q. {q})"
  obtain dev' r' where d: "ublksrv_ctrl_get_affinity ?K True sample_unpriv \<lparr>fr_entries = 4, fr_pend = [], fr_sent = []\<rparr> = Some (0, dev', r')"
    using cpu_driver_loop [of "\<lambda>q. {q}" sample_unpriv "[0..<8]" Map.empty "\<lparr>fr_entries = 4, fr_pend = [], fr_sent = []\<rparr>"]
    by (auto simp: ublksrv_ctrl_get_affinity_def sample_unpriv_def)
  have n: "unat (nr_hw_queues (cd_dev_info sample_unpriv)) = 8" "ublk_is_unprivileged sample_unpriv"
    by (simp_all add: sample_unpriv_def ublk_is_unprivileged_def has_def)
  show ?thesis
    using ctrl_affinity_layout [OF cpu_driver_ok d, of 1] ctrl_affinity_layout [OF cpu_driver_ok d, of 5] n d by simp
qed

end
