(* ===== verification/Tgt_Opts.thy ===== *)
theory Tgt_Opts
  imports Ublk_Ctrl Getopt
begin

text \<open>
  The options every target understands (\<open>ublksrv_parse_add_opts\<close> of targets/ublksrv_tgt.cpp): a loop
  over the results of \<open>getopt_long\<close> fills the description of the device, then the queue numbers are
  limited and the flags are combined. The debug mask only selects log messages and is left out.
\<close>

unbundle bit_operations_syntax

abbreviation (input) "MAX_NR_HW_QUEUES \<equiv> (32::u16)"
abbreviation (input) "MAX_QD \<equiv> (4096::u16)"

section \<open>The option loop\<close>

definition add_longopts :: "long_opt list" where
  "add_longopts =
     [\<lparr>lo_name = ''type'', lo_has_arg = True, lo_val = chr_code (CHR ''t'')\<rparr>,
      \<lparr>lo_name = ''number'', lo_has_arg = True, lo_val = chr_code (CHR ''n'')\<rparr>,
      \<lparr>lo_name = ''queues'', lo_has_arg = True, lo_val = chr_code (CHR ''q'')\<rparr>,
      \<lparr>lo_name = ''depth'', lo_has_arg = True, lo_val = chr_code (CHR ''d'')\<rparr>,
      \<lparr>lo_name = ''uring_comp'', lo_has_arg = True, lo_val = chr_code (CHR ''u'')\<rparr>,
      \<lparr>lo_name = ''need_get_data'', lo_has_arg = True, lo_val = chr_code (CHR ''g'')\<rparr>,
      \<lparr>lo_name = ''user_recovery'', lo_has_arg = True, lo_val = chr_code (CHR ''r'')\<rparr>,
      \<lparr>lo_name = ''user_recovery_fail_io'', lo_has_arg = True, lo_val = chr_code (CHR ''e'')\<rparr>,
      \<lparr>lo_name = ''user_recovery_reissue'', lo_has_arg = True, lo_val = chr_code (CHR ''i'')\<rparr>,
      \<lparr>lo_name = ''debug_mask'', lo_has_arg = True, lo_val = 0\<rparr>,
      \<lparr>lo_name = ''unprivileged'', lo_has_arg = False, lo_val = 0\<rparr>,
      \<lparr>lo_name = ''usercopy'', lo_has_arg = False, lo_val = 0\<rparr>,
      \<lparr>lo_name = ''eventfd'', lo_has_arg = True, lo_val = 0\<rparr>,
      \<lparr>lo_name = ''max_io_buf_bytes'', lo_has_arg = True, lo_val = 0\<rparr>,
      \<lparr>lo_name = ''zerocopy'', lo_has_arg = False, lo_val = chr_code (CHR ''z'')\<rparr>,
      \<lparr>lo_name = ''batch-io'', lo_has_arg = False, lo_val = chr_code (CHR ''b'')\<rparr>]"

text \<open>The local variables of the function; the flags are the integers they were assigned.\<close>

record add_opts =
  ao_data :: ublksrv_dev_data
  ao_efd :: int
  ao_uring_comp :: int
  ao_need_get_data :: int
  ao_user_recovery :: int
  ao_user_recovery_fail_io :: int
  ao_user_recovery_reissue :: int
  ao_unprivileged :: int
  ao_zero_copy :: int
  ao_batch_io :: int

definition to_int :: "int \<Rightarrow> int" where
  "to_int v = sint (word_of_int v :: 32 word)"

text \<open>The argument of an option, read as a number.\<close>

definition ev_num :: "getopt_ev \<Rightarrow> int" where
  "ev_num e = strtol10 (the (ev_arg e))"

definition add_long_opt :: "string \<Rightarrow> getopt_ev \<Rightarrow> add_opts \<Rightarrow> add_opts" where
  "add_long_opt name e st =
     (if name = ''unprivileged'' then st\<lparr>ao_unprivileged := 1\<rparr>
      else if name = ''usercopy'' then st\<lparr>ao_data := (ao_data st)\<lparr>dd_flags := dd_flags (ao_data st) OR UBLK_F_USER_COPY\<rparr>\<rparr>
      else if name = ''eventfd'' then st\<lparr>ao_efd := to_int (ev_num e)\<rparr>
      else if name = ''max_io_buf_bytes'' then
        st\<lparr>ao_data := (ao_data st)\<lparr>dd_max_io_buf_bytes := word_of_int (ev_num e)\<rparr>\<rparr>
      else st)"

definition add_opt :: "getopt_ev \<Rightarrow> add_opts \<Rightarrow> add_opts" where
  "add_opt e st =
     (let c = ev_code e in
      if c = chr_code (CHR ''n'') then st\<lparr>ao_data := (ao_data st)\<lparr>dd_dev_id := to_int (ev_num e)\<rparr>\<rparr>
      else if c = chr_code (CHR ''t'') then st\<lparr>ao_data := (ao_data st)\<lparr>dd_tgt_type := ev_arg e\<rparr>\<rparr>
      else if c = chr_code (CHR ''z'') then st\<lparr>ao_zero_copy := 1\<rparr>
      else if c = chr_code (CHR ''b'') then st\<lparr>ao_batch_io := 1\<rparr>
      else if c = chr_code (CHR ''q'') then st\<lparr>ao_data := (ao_data st)\<lparr>dd_nr_hw_queues := word_of_int (ev_num e)\<rparr>\<rparr>
      else if c = chr_code (CHR ''d'') then st\<lparr>ao_data := (ao_data st)\<lparr>dd_queue_depth := word_of_int (ev_num e)\<rparr>\<rparr>
      else if c = chr_code (CHR ''u'') then st\<lparr>ao_uring_comp := to_int (ev_num e)\<rparr>
      else if c = chr_code (CHR ''g'') then st\<lparr>ao_need_get_data := to_int (ev_num e)\<rparr>
      else if c = chr_code (CHR ''r'') then st\<lparr>ao_user_recovery := to_int (ev_num e)\<rparr>
      else if c = chr_code (CHR ''e'') then st\<lparr>ao_user_recovery_fail_io := to_int (ev_num e)\<rparr>
      else if c = chr_code (CHR ''i'') then st\<lparr>ao_user_recovery_reissue := to_int (ev_num e)\<rparr>
      else if c = 0 then (case ev_long e of None \<Rightarrow> st | Some i \<Rightarrow> add_long_opt (lo_name (add_longopts ! i)) e st)
      else st)"

abbreviation (input) "add_optstring \<equiv> ''-:t:n:d:q:u:g:r:e:i:zb''"

definition add_opt_loop :: "string list \<Rightarrow> add_opts \<Rightarrow> add_opts" where
  "add_opt_loop args st = fold add_opt (getopt_long add_optstring add_longopts args) st"

section \<open>The result\<close>

definition add_opts_start :: "string option \<Rightarrow> int \<Rightarrow> ublksrv_dev_data \<Rightarrow> add_opts" where
  "add_opts_start pid_dir evt data =
     \<lparr>ao_data = data\<lparr>dd_queue_depth := 128, dd_nr_hw_queues := 1, dd_max_io_buf_bytes := 524288, dd_dev_id := -1,
                     dd_run_dir := pid_dir\<rparr>,
      ao_efd = evt, ao_uring_comp = 0, ao_need_get_data = 0, ao_user_recovery = 0, ao_user_recovery_fail_io = 0,
      ao_user_recovery_reissue = 0, ao_unprivileged = 0, ao_zero_copy = 0, ao_batch_io = 0\<rparr>"

definition flag_if :: "int \<Rightarrow> u64 \<Rightarrow> u64 \<Rightarrow> u64" where
  "flag_if v m fl = (if v \<noteq> 0 then fl OR m else fl)"

definition add_opts_flags :: "add_opts \<Rightarrow> u64" where
  "add_opts_flags st =
     flag_if (ao_batch_io st) UBLK_F_BATCH_IO
     (flag_if (ao_zero_copy st) UBLK_F_SUPPORT_ZERO_COPY
     (flag_if (ao_unprivileged st) UBLK_F_UNPRIVILEGED_DEV
     (flag_if (ao_user_recovery_reissue st) (UBLK_F_USER_RECOVERY OR UBLK_F_USER_RECOVERY_REISSUE)
     (flag_if (ao_user_recovery_fail_io st) (UBLK_F_USER_RECOVERY OR UBLK_F_USER_RECOVERY_FAIL_IO)
     (flag_if (ao_user_recovery st) UBLK_F_USER_RECOVERY
     (flag_if (ao_need_get_data st) UBLK_F_NEED_GET_DATA
     (flag_if (ao_uring_comp st) UBLK_F_URING_CMD_COMP_IN_TASK (dd_flags (ao_data st)))))))))"

text \<open>Returned are the description of the device and the event descriptor.\<close>

definition ublksrv_parse_add_opts ::
  "string option \<Rightarrow> ublksrv_dev_data \<Rightarrow> int \<Rightarrow> string list \<Rightarrow> ublksrv_dev_data \<times> int" where
  "ublksrv_parse_add_opts pid_dir data evt args =
     (let st = add_opt_loop args (add_opts_start pid_dir evt data); d = ao_data st in
      (d\<lparr>dd_nr_hw_queues := if dd_nr_hw_queues d > MAX_NR_HW_QUEUES then MAX_NR_HW_QUEUES else dd_nr_hw_queues d,
         dd_queue_depth := if dd_queue_depth d > MAX_QD then MAX_QD else dd_queue_depth d,
         dd_flags := add_opts_flags st\<rparr>, ao_efd st))"

definition zero_dev_data :: ublksrv_dev_data where
  "zero_dev_data = \<lparr>dd_dev_id = 0, dd_max_io_buf_bytes = 0, dd_nr_hw_queues = 0, dd_queue_depth = 0, dd_tgt_type = None,
     dd_tgt_argc = 0, dd_tgt_argv = [], dd_run_dir = None, dd_flags = 0, dd_ublksrv_flags = 0\<rparr>"

section \<open>Lemmas\<close>

lemma fold_invariant:
  assumes "P s" "\<And>x s. P s \<Longrightarrow> P (f x s)"
  shows "P (fold f xs s)"
  using assms(1) by (induction xs arbitrary: s) (simp_all add: assms(2))

lemma add_opt_flags:
  "dd_flags (ao_data (add_opt e st)) = dd_flags (ao_data st) \<or>
   dd_flags (ao_data (add_opt e st)) = dd_flags (ao_data st) OR UBLK_F_USER_COPY"
  by (auto simp: add_opt_def add_long_opt_def Let_def split: option.splits)

lemma add_opt_loop_flags:
  assumes "dd_flags (ao_data st) \<in> {0, UBLK_F_USER_COPY}"
  shows "dd_flags (ao_data (add_opt_loop args st)) \<in> {0, UBLK_F_USER_COPY}"
  unfolding add_opt_loop_def
proof (rule fold_invariant [where P = "\<lambda>st. dd_flags (ao_data st) \<in> {0, UBLK_F_USER_COPY}", OF assms])
  fix e and s :: add_opts assume "dd_flags (ao_data s) \<in> {0, UBLK_F_USER_COPY}"
  then show "dd_flags (ao_data (add_opt e s)) \<in> {0, UBLK_F_USER_COPY}"
    using add_opt_flags [of e s] by auto
qed

lemma has_flag_if [simp]: "has (flag_if v m fl) k \<longleftrightarrow> has fl k \<or> (v \<noteq> 0 \<and> has m k)"
  by (auto simp: flag_if_def)

lemma has_literal:
  "has (numeral a :: u64) (numeral b) \<longleftrightarrow> (numeral a AND numeral b :: u64) \<noteq> 0"
  "has (1 :: u64) (numeral b) \<longleftrightarrow> (1 AND numeral b :: u64) \<noteq> 0" "\<not> has (0 :: u64) m"
  by (simp_all add: has_def)

text \<open>The options with a short and a long name that take an argument.\<close>

definition add_spellings :: "(char \<times> string) list" where
  "add_spellings =
     [(CHR ''t'', ''type''), (CHR ''n'', ''number''), (CHR ''q'', ''queues''), (CHR ''d'', ''depth''),
      (CHR ''u'', ''uring_comp''), (CHR ''g'', ''need_get_data''), (CHR ''r'', ''user_recovery''),
      (CHR ''e'', ''user_recovery_fail_io''), (CHR ''i'', ''user_recovery_reissue'')]"

lemma add_opt_code: "code \<noteq> 0 \<Longrightarrow> add_opt (Ev code a l) st = add_opt (Ev code a None) st"
  by (simp only: add_opt_def ev_num_def getopt_ev.sel Let_def if_False simp_thms)

lemma add_longopts_len: "[0..<length add_longopts] = [0, 1, 2, 3, 4, 5, 6, 7, 8, 9, 10, 11, 12, 13, 14, 15]"
  by (simp add: add_longopts_def upt_rec_numeral)

lemma add_longopts_names:
  "lo_name (add_longopts ! 0) = ''type''" "lo_name (add_longopts ! Suc 0) = ''number''"
  "lo_name (add_longopts ! 2) = ''queues''" "lo_name (add_longopts ! 3) = ''depth''"
  "lo_name (add_longopts ! 4) = ''uring_comp''" "lo_name (add_longopts ! 5) = ''need_get_data''"
  "lo_name (add_longopts ! 6) = ''user_recovery''" "lo_name (add_longopts ! 7) = ''user_recovery_fail_io''"
  "lo_name (add_longopts ! 8) = ''user_recovery_reissue''" "lo_name (add_longopts ! 9) = ''debug_mask''"
  "lo_name (add_longopts ! 10) = ''unprivileged''" "lo_name (add_longopts ! 11) = ''usercopy''"
  "lo_name (add_longopts ! 12) = ''eventfd''" "lo_name (add_longopts ! 13) = ''max_io_buf_bytes''"
  "lo_name (add_longopts ! 14) = ''zerocopy''" "lo_name (add_longopts ! 15) = ''batch-io''"
  by (simp_all add: add_longopts_def)

lemma find_long_exact:
  "find_long add_longopts ''type'' = Some 0" "find_long add_longopts ''number'' = Some 1"
  "find_long add_longopts ''queues'' = Some 2" "find_long add_longopts ''depth'' = Some 3"
  "find_long add_longopts ''uring_comp'' = Some 4" "find_long add_longopts ''need_get_data'' = Some 5"
  "find_long add_longopts ''user_recovery'' = Some 6" "find_long add_longopts ''user_recovery_fail_io'' = Some 7"
  "find_long add_longopts ''user_recovery_reissue'' = Some 8"
  by (simp_all add: find_long_def add_longopts_len add_longopts_names)

lemma add_spelling_spec:
  assumes "(c, name) \<in> set add_spellings"
  shows "short_spec ''t:n:d:q:u:g:r:e:i:zb'' c = Some True" "c \<noteq> CHR ''-''" "name \<noteq> []" "CHR ''='' \<notin> set name"
    "\<exists>i. find_long add_longopts name = Some i \<and> lo_has_arg (add_longopts ! i) \<and> lo_val (add_longopts ! i) = chr_code c"
    "chr_code c \<noteq> 0"
proof -
  show "short_spec ''t:n:d:q:u:g:r:e:i:zb'' c = Some True" "c \<noteq> CHR ''-''" "name \<noteq> []" "CHR ''='' \<notin> set name" "chr_code c \<noteq> 0"
    using assms by (auto simp: add_spellings_def)
  show "\<exists>i. find_long add_longopts name = Some i \<and> lo_has_arg (add_longopts ! i) \<and> lo_val (add_longopts ! i) = chr_code c"
    using assms by (auto simp: add_spellings_def find_long_exact) (simp_all add: add_longopts_def)
qed

lemma add_opt_loop_args:
  "add_opt_loop args st =
     fold add_opt (getopt_args True (chr_code (CHR '':'')) ''t:n:d:q:u:g:r:e:i:zb'' add_longopts args) st"
  by (simp add: add_opt_loop_def getopt_long_def Let_def)

definition opts_ok :: "ublksrv_dev_data \<Rightarrow> bool" where
  "opts_ok d \<longleftrightarrow>
     dd_nr_hw_queues d \<le> MAX_NR_HW_QUEUES \<and> dd_queue_depth d \<le> MAX_QD \<and>
     (has (dd_flags d) UBLK_F_USER_RECOVERY_FAIL_IO \<or> has (dd_flags d) UBLK_F_USER_RECOVERY_REISSUE \<longrightarrow>
        has (dd_flags d) UBLK_F_USER_RECOVERY) \<and>
     \<not> has (dd_flags d) (UBLK_F_CMD_IOCTL_ENCODE OR UBLK_F_ZONED OR UBLK_F_AUTO_BUF_REG)"

section \<open>Properties\<close>

text \<open>Whatever the arguments are, the options leave a description of the device that the rest of the
  program relies on: at most 32 queues and a depth of at most 4096, although the numbers read are
  cut to 16 bits first; a recovery variant is never set without recovery itself; and none of the
  flags that the driver or later steps decide is set.\<close>

theorem parse_add_opts_type: "opts_ok (fst (ublksrv_parse_add_opts pid_dir zero_dev_data evt args))"
proof -
  let ?st = "add_opt_loop args (add_opts_start pid_dir evt zero_dev_data)"
  have "dd_flags (ao_data (add_opts_start pid_dir evt zero_dev_data)) \<in> {0, UBLK_F_USER_COPY}"
    by (simp add: add_opts_start_def zero_dev_data_def)
  from add_opt_loop_flags [OF this] have f: "dd_flags (ao_data ?st) = 0 \<or> dd_flags (ao_data ?st) = UBLK_F_USER_COPY" by auto
  have "has (add_opts_flags ?st) UBLK_F_USER_RECOVERY"
    if "has (add_opts_flags ?st) UBLK_F_USER_RECOVERY_FAIL_IO \<or> has (add_opts_flags ?st) UBLK_F_USER_RECOVERY_REISSUE"
    using that f by (auto simp: add_opts_flags_def has_literal)
  moreover have "\<not> has (add_opts_flags ?st) (UBLK_F_CMD_IOCTL_ENCODE OR UBLK_F_ZONED OR UBLK_F_AUTO_BUF_REG)"
    using f by (auto simp: add_opts_flags_def has_literal)
  ultimately show ?thesis by (auto simp: ublksrv_parse_add_opts_def Let_def opts_ok_def not_less)
qed

text \<open>The spellings of an option are equivalent: a short name and its argument, either as two words
  or as one, and a long name with the argument as the next word or after an equals sign.\<close>

theorem add_opts_spelling:
  assumes "(c, name) \<in> set add_spellings" "v \<noteq> []"
  shows "add_opt_loop ([CHR ''-'', c] # v # rest) st = add_opt_loop ((CHR ''-'' # c # v) # rest) st \<and>
    add_opt_loop ((''--'' @ name) # v # rest) st = add_opt_loop ([CHR ''-'', c] # v # rest) st \<and>
    add_opt_loop ((''--'' @ name @ ''='' @ v) # rest) st = add_opt_loop ([CHR ''-'', c] # v # rest) st"
proof -
  note s = add_spelling_spec [OF assms(1)]
  obtain i where i: "find_long add_longopts name = Some i" "lo_has_arg (add_longopts ! i)"
    "lo_val (add_longopts ! i) = chr_code c" using s(5) by blast
  have "getopt_args io miss ''t:n:d:q:u:g:r:e:i:zb'' add_longopts ((CHR ''-'' # c # v) # rest) =
      Ev (chr_code c) (Some v) None # getopt_args io miss ''t:n:d:q:u:g:r:e:i:zb'' add_longopts rest" for io miss
    using s(1,2) assms(2) by (simp add: getopt_args.simps(2))
  then show ?thesis
    using getopt_args_short [OF s(1,2)] getopt_args_long [OF i(1,2) s(4,3)] i(3) add_opt_code [OF s(6), of "Some v" "Some i" st]
    by (simp add: add_opt_loop_args del: append.simps getopt_args.simps)
qed

theorem add_opts_spelling_witness:
  "add_opt_loop [''--depth=64'', ''-q'', ''2''] (add_opts_start None (-1) zero_dev_data) =
   add_opt_loop [''-d'', ''64'', ''-q'', ''2''] (add_opts_start None (-1) zero_dev_data)"
  using add_opts_spelling [of "CHR ''d''" "''depth''" "''64''" "[''-q'', ''2'']" "add_opts_start None (-1) zero_dev_data"]
  by (simp add: add_spellings_def)

text \<open>The standard options are read before the target reads its own, and an unknown letter does not
  end a word: in a word \<open>-f/d...\<close>, with which the loop target names its file, the letter \<open>d\<close> is taken
  for the queue depth and the rest of the path for its value.\<close>

theorem file_option_sets_depth:
  assumes "x \<noteq> []"
  shows "dd_queue_depth (ao_data (add_opt_loop [''-f/d'' @ x] st)) = word_of_int (strtol10 x)"
proof -
  have "getopt_args True m ''t:n:d:q:u:g:r:e:i:zb'' add_longopts [''-f/d'' @ x] =
      [Ev (chr_code (CHR ''?'')) None None, Ev (chr_code (CHR ''?'')) None None, Ev (chr_code (CHR ''d'')) (Some x) None]" for m
    using assms by (simp add: getopt_args.simps(2))
  moreover have "add_opt (Ev (chr_code (CHR ''?'')) None None) s = s" for s
    by (simp add: add_opt_def Let_def)
  moreover have "dd_queue_depth (ao_data (add_opt (Ev (chr_code (CHR ''d'')) (Some x) None) s)) = word_of_int (strtol10 x)" for s
    by (simp add: add_opt_def Let_def ev_num_def)
  ultimately show ?thesis unfolding add_opt_loop_args by (simp only: fold.simps id_apply o_apply)
qed

theorem file_option_sets_depth_witness:
  "dd_queue_depth (ao_data (add_opt_loop [''-f/dev/sdb''] (add_opts_start None (-1) zero_dev_data))) = 0"
proof -
  have "strtol10 ''ev/sdb'' = 0" by (simp add: strtol10_def isspace_def isdigit_def dec_val_def)
  then show ?thesis
    using file_option_sets_depth [of "''ev/sdb''" "add_opts_start None (-1) zero_dev_data"] by simp
qed

end
