(* ===== verification/Tgt_Thread.thy ===== *)
theory Tgt_Thread
  imports Ublk_Ctrl
begin

text \<open>
  The thread of a queue (targets/ublksrv_tgt.cpp): it writes its description into the json data,
  sets its queue up, pins itself to one cpu and runs the io loop until \<open>ublksrv_process_io\<close> fails.
  A run of the loop is driven by its rounds: the completions that each call finds and the result of
  writing the event descriptor. \<open>None\<close> stands for a loop that does not return.
\<close>

section \<open>The cpu of a thread\<close>

text \<open>
  \<open>seen\<close> is \<open>j\<close>, the number of cpus of the set met so far; the cpu met when it equals \<open>idx\<close> stays.
\<close>

fun keep_one_cpu :: "nat list \<Rightarrow> nat \<Rightarrow> nat \<Rightarrow> nat set \<Rightarrow> nat set" where
  "keep_one_cpu [] idx seen cpus = cpus"
| "keep_one_cpu (i # is) idx seen cpus =
     (if i \<in> cpus then keep_one_cpu is idx (Suc seen) (if seen = idx then cpus else cpus - {i})
      else keep_one_cpu is idx seen cpus)"

text \<open>\<open>reported\<close> is the answer of \<open>sched_getaffinity\<close>; returned is the set that is then set, if any.\<close>

definition ublk_set_queue_pthread_affinity :: "nat set option \<Rightarrow> nat \<Rightarrow> nat set option" where
  "ublk_set_queue_pthread_affinity reported rnd = (case reported of
     None \<Rightarrow> None
   | Some cpus \<Rightarrow> Some (keep_one_cpu [0..<CPU_SETSIZE] (rnd mod card cpus) 0 cpus))"

section \<open>The io loop of a thread\<close>

type_synonym round = "int \<times> uring_cqe list"

partial_function (option) queue_loop ::
  "'r uring_api \<Rightarrow> ('r, 't) tgt_ops \<Rightarrow> (nat \<Rightarrow> round) \<Rightarrow> nat \<Rightarrow> ('r, 't) ublksrv_queue \<Rightarrow>
     (nat \<times> ('r, 't) ublksrv_queue) option" where
  "queue_loop U T rounds n q =
     (let p = ublksrv_process_io U T (fst (rounds n)) (snd (rounds n)) q in
      if fst p < 0 then Some (n, snd (snd p)) else queue_loop U T rounds (Suc n) (snd (snd p)))"

text \<open>
  The thread. Returned are the json data, how often the semaphore was posted, and the queue when it
  ended together with the descriptors and buffers given back, if it could be set up.
\<close>

definition ublksrv_queue_handler ::
  "'s json_lib \<Rightarrow> 'r uring_api \<Rightarrow> 'r qinit_env \<Rightarrow> ('r \<Rightarrow> int) \<Rightarrow> 's tgt_dev_ops \<Rightarrow> ('r, 't) tgt_ops \<Rightarrow> 't \<Rightarrow>
     's ublksrv_dev \<Rightarrow> nat \<Rightarrow> int \<Rightarrow> string \<Rightarrow> ('r, 't) ublksrv_queue \<Rightarrow> (nat \<Rightarrow> round) \<Rightarrow>
     ('s ublksrv_tgt_jbuf \<times> nat \<times> (('r, 't) ublksrv_queue \<times> int list \<times> u64 list) option) option" where
  "ublksrv_queue_handler J U E rfd ops T data dev qid tid cpus q0 rounds =
     (case ublk_json_write_queue_info J qid tid cpus (cd_jbuf (dv_ctrl dev)) of
        None \<Rightarrow> None
      | Some (ret, jbuf) \<Rightarrow>
          (case ublksrv_queue_init_flags U E rfd ops None data dev qid q0 of
             (None, _) \<Rightarrow> Some (jbuf, 1, None)
           | (Some q, _) \<Rightarrow>
               map_option (\<lambda>(n, q'). (jbuf, 1, Some (q', ublksrv_queue_deinit rfd (nat (snd (snd (ublksrv_calculate_depths dev)))) q')))
                 (queue_loop U T rounds 0 q)))"

section \<open>Pinning\<close>

lemma keep_one_cpu_set:
  assumes "distinct is"
  shows "keep_one_cpu is idx seen cpus =
    (cpus - set is) \<union>
    (if seen \<le> idx \<and> idx - seen < length (filter (\<lambda>i. i \<in> cpus) is) then {filter (\<lambda>i. i \<in> cpus) is ! (idx - seen)} else {})"
  using assms
proof (induction "is" arbitrary: seen cpus)
  case (Cons i "is")
  have f: "filter (\<lambda>j. j \<in> cpus - {i}) is = filter (\<lambda>j. j \<in> cpus) is"
    using Cons.prems by (intro filter_cong) auto
  have n: "filter (\<lambda>j. j \<in> cpus) is ! k \<in> set is" if "k < length (filter (\<lambda>j. j \<in> cpus) is)" for k
    using nth_mem [OF that] by auto
  show ?case
  proof (cases "i \<in> cpus")
    case False
    then show ?thesis using Cons by auto
  next
    case True
    show ?thesis
    proof (cases "seen = idx")
      case eq: True
      then show ?thesis using True Cons by auto
    next
      case ne: False
      then have "idx - seen = Suc (idx - Suc seen)" if "seen \<le> idx" using that by simp
      then show ?thesis using True ne Cons f by auto
    qed
  qed
qed simp

section \<open>Stopping\<close>

text \<open>The completion of a command that the driver aborts.\<close>

definition abort_cqe :: "uring_cqe \<Rightarrow> bool" where
  "abort_cqe cqe \<longleftrightarrow> \<not> is_target_io (cqe_user_data cqe) \<and> cqe_res cqe = UBLK_IO_RES_ABORT"

definition cqe_tag :: "uring_cqe \<Rightarrow> nat" where
  "cqe_tag cqe = unat (user_data_to_tag (cqe_user_data cqe))"

lemma abort_one:
  assumes inv: "qinv q own" and c: "abort_cqe c" "cqe_tag c < q_depth q" "own ! cqe_tag c = Driver"
  shows "qinv (ublksrv_handle_cqe U T q c) (own[cqe_tag c := Finished])"
    and "ring (ublksrv_handle_cqe U T q c) = ring q" "q_depth (ublksrv_handle_cqe U T q c) = q_depth q"
    and "has (qstate (ublksrv_handle_cqe U T q c)) UBLKSRV_QUEUE_STOPPING"
proof -
  have cq: "cmd_cqe q c (cqe_tag c)" using c by (simp add: cmd_cqe_def abort_cqe_def cqe_tag_def)
  have h: "ublksrv_handle_cqe U T q c
      = upd_io (cqe_tag c) (\<lambda>io. io\<lparr>io_flags := UBLKSRV_IO_FREE\<rparr>) (cqe_received q c)"
    using handle_cqe_cmd [OF qinvD(1) [OF inv] cq, of U T] c(1) by (simp add: abort_cqe_def)
  show "qinv (ublksrv_handle_cqe U T q c) (own[cqe_tag c := Finished])"
    unfolding h using cqe_received_qinv(1) [OF inv cq c(3), of Finished 4] by (simp add: owner_flags_def)
  show "ring (ublksrv_handle_cqe U T q c) = ring q" "q_depth (ublksrv_handle_cqe U T q c) = q_depth q"
    by (simp_all add: h)
  show "has (qstate (ublksrv_handle_cqe U T q c)) UBLKSRV_QUEUE_STOPPING"
    using c(1) by (simp add: h abort_cqe_def cqe_received_def Let_def) (simp add: has_def)
qed

lemma abort_all:
  assumes "qinv q own" "distinct (map cqe_tag cqes)"
    and "\<And>c. c \<in> set cqes \<Longrightarrow> abort_cqe c \<and> cqe_tag c < q_depth q \<and> own ! cqe_tag c = Driver"
    and "cqes \<noteq> [] \<or> has (qstate q) UBLKSRV_QUEUE_STOPPING"
  shows "\<exists>own'. qinv (foldl (ublksrv_handle_cqe U T) q cqes) own' \<and>
    (\<forall>t < q_depth q. own' ! t = Driver \<longrightarrow> own ! t = Driver \<and> t \<notin> cqe_tag ` set cqes) \<and>
    ring (foldl (ublksrv_handle_cqe U T) q cqes) = ring q \<and>
    q_depth (foldl (ublksrv_handle_cqe U T) q cqes) = q_depth q \<and>
    has (qstate (foldl (ublksrv_handle_cqe U T) q cqes)) UBLKSRV_QUEUE_STOPPING"
  using assms
proof (induction cqes arbitrary: q own)
  case (Cons c cqes)
  let ?q = "ublksrv_handle_cqe U T q c" and ?own = "own[cqe_tag c := Finished]"
  have c: "abort_cqe c" "cqe_tag c < q_depth q" "own ! cqe_tag c = Driver" using Cons.prems(3) by auto
  note one = abort_one [OF Cons.prems(1) c, of U T]
  have len: "length own = q_depth q" by (rule qinvD(2) [OF Cons.prems(1)])
  have "\<exists>own'. qinv (foldl (ublksrv_handle_cqe U T) ?q cqes) own' \<and>
    (\<forall>t < q_depth ?q. own' ! t = Driver \<longrightarrow> ?own ! t = Driver \<and> t \<notin> cqe_tag ` set cqes) \<and>
    ring (foldl (ublksrv_handle_cqe U T) ?q cqes) = ring ?q \<and>
    q_depth (foldl (ublksrv_handle_cqe U T) ?q cqes) = q_depth ?q \<and>
    has (qstate (foldl (ublksrv_handle_cqe U T) ?q cqes)) UBLKSRV_QUEUE_STOPPING"
  proof (rule Cons.IH [OF one(1)])
    fix d assume d: "d \<in> set cqes"
    have "cqe_tag c \<notin> cqe_tag ` set cqes" using Cons.prems(2) by simp
    then have "cqe_tag d \<noteq> cqe_tag c" using d by (metis imageI)
    then show "abort_cqe d \<and> cqe_tag d < q_depth ?q \<and> ?own ! cqe_tag d = Driver"
      using Cons.prems(3) [of d] d one(3) by simp
  qed (use Cons.prems(2) one(4) in auto)
  then obtain own' where own': "qinv (foldl (ublksrv_handle_cqe U T) ?q cqes) own'"
    "\<forall>t < q_depth ?q. own' ! t = Driver \<longrightarrow> ?own ! t = Driver \<and> t \<notin> cqe_tag ` set cqes"
    "ring (foldl (ublksrv_handle_cqe U T) ?q cqes) = ring ?q"
    "q_depth (foldl (ublksrv_handle_cqe U T) ?q cqes) = q_depth ?q"
    "has (qstate (foldl (ublksrv_handle_cqe U T) ?q cqes)) UBLKSRV_QUEUE_STOPPING" by blast
  have "own ! t = Driver \<and> t \<notin> cqe_tag ` set (c # cqes)" if "t < q_depth q" "own' ! t = Driver" for t
    using own'(2) that one(3) len c(2) by (cases "t = cqe_tag c") auto
  then show ?case using own' one by (intro exI [of _ own']) auto
qed auto

text \<open>After a round in which the driver gives back every command it holds, the queue is done.\<close>

lemma abort_round_done:
  assumes inv: "qinv q own" and bg: "handle_io_background T = None"
    and c: "\<And>c. c \<in> set cqes \<Longrightarrow> abort_cqe c" "distinct (map cqe_tag cqes)"
      "cqe_tag ` set cqes = {t. t < q_depth q \<and> own ! t = Driver}"
    and ne: "cqes \<noteq> [] \<or> has (qstate q) UBLKSRV_QUEUE_STOPPING"
    and sub: "\<And>n b. sq_ready U (snd (submit_and_wait_timeout U (ring q) n b)) = 0"
  shows "queue_is_done U (snd (snd (ublksrv_process_io U T wr cqes q)))"
proof (cases "queue_is_done U q")
  case True
  then show ?thesis by (simp add: ublksrv_process_io_def)
next
  case False
  have "\<exists>ret r1. process_io_wait U q = (ret, q\<lparr>ring := r1, ctxs := []\<rparr>) \<and> sq_ready U r1 = 0"
    using qinvD(1) [OF inv] sub
    by (auto simp: process_io_wait_def ublksrv_reset_aio_batch_def Let_def case_prod_beta)
  then obtain ret r1 where w: "process_io_wait U q = (ret, q\<lparr>ring := r1, ctxs := []\<rparr>)" "sq_ready U r1 = 0"
    by blast
  let ?q1 = "q\<lparr>ring := r1, ctxs := []\<rparr>"
  let ?q2 = "foldl (ublksrv_handle_cqe U T) ?q1 cqes"
  have "qinv ?q1 own" by (rule qinv_cong [OF inv]) (simp_all add: ublksrv_queue_batch_io_def)
  then obtain own' where own': "qinv ?q2 own'" "\<forall>t < q_depth q. own' ! t \<noteq> Driver"
      "ring ?q2 = r1" "q_depth ?q2 = q_depth q" "has (qstate ?q2) UBLKSRV_QUEUE_STOPPING"
    using abort_all [of ?q1 own cqes U T] c ne by fastforce
  have "held own' = 0" using own'(2,4) qinvD(2) [OF own'(1)] by (simp add: held_0)
  then have "cmd_inflight ?q2 = 0" using qinvD(5) [OF own'(1)] by simp
  then have "queue_is_done U (ublksrv_kill_eventfd wr ?q2)"
    using own' w(2) by (simp add: queue_is_done_def ublksrv_kill_eventfd_def)
  then show ?thesis
    using False w(1) bg own'(5)
    by (simp add: ublksrv_process_io_def ublksrv_reap_events_uring_def process_io_tail_def opt_cb_def)
qed

subsection \<open>The loop ends\<close>

fun state_at ::
  "'r uring_api \<Rightarrow> ('r, 't) tgt_ops \<Rightarrow> (nat \<Rightarrow> round) \<Rightarrow> ('r, 't) ublksrv_queue \<Rightarrow> nat \<Rightarrow> ('r, 't) ublksrv_queue" where
  "state_at U T rounds q 0 = q"
| "state_at U T rounds q (Suc n) =
     snd (snd (ublksrv_process_io U T (fst (rounds n)) (snd (rounds n)) (state_at U T rounds q n)))"

lemma process_io_neg: "fst (ublksrv_process_io U T wr cqes q) < 0 \<longleftrightarrow> queue_is_done U q"
  by (auto simp: ublksrv_process_io_def Let_def split: prod.splits)

lemma queue_loop_from:
  assumes "queue_is_done U (state_at U T rounds q (n + k))"
  shows "\<exists>m q'. queue_loop U T rounds n (state_at U T rounds q n) = Some (m, q') \<and> n \<le> m \<and> m \<le> n + k \<and>
    q' = state_at U T rounds q m \<and> queue_is_done U q'"
  using assms
proof (induction k arbitrary: n)
  case 0
  then have d: "queue_is_done U (state_at U T rounds q n)" by simp
  then have "ublksrv_process_io U T (fst (rounds n)) (snd (rounds n)) (state_at U T rounds q n) = (- ENODEV, [], state_at U T rounds q n)"
    by (simp add: ublksrv_process_io_def)
  then show ?case using d by (subst queue_loop.simps) (simp add: Let_def)
next
  case (Suc k)
  show ?case
  proof (cases "queue_is_done U (state_at U T rounds q n)")
    case True
    then have "ublksrv_process_io U T (fst (rounds n)) (snd (rounds n)) (state_at U T rounds q n) = (- ENODEV, [], state_at U T rounds q n)"
      by (simp add: ublksrv_process_io_def)
    then show ?thesis using True by (subst queue_loop.simps) (auto simp: Let_def)
  next
    case False
    have "queue_loop U T rounds n (state_at U T rounds q n) = queue_loop U T rounds (Suc n) (state_at U T rounds q (Suc n))"
      using False process_io_neg [of U T] by (subst queue_loop.simps) (simp add: Let_def)
    moreover have "queue_is_done U (state_at U T rounds q (Suc n + k))" using Suc.prems by simp
    ultimately show ?thesis using Suc.IH [of "Suc n"] by auto
  qed
qed

section \<open>Properties\<close>

text \<open>What \<open>io_uring_submit_and_wait_timeout\<close> does with the entries that wait: it hands over all of them.\<close>

definition uring_flushes :: "'r uring_api \<Rightarrow> bool" where
  "uring_flushes U \<longleftrightarrow> (\<forall>r n b. sq_ready U (snd (submit_and_wait_timeout U r n b)) = 0)"

text \<open>The driver gives back, aborted, every command it holds, each once.\<close>

definition gives_back :: "('r, 't) ublksrv_queue \<Rightarrow> owner list \<Rightarrow> uring_cqe list \<Rightarrow> bool" where
  "gives_back q own cqes \<longleftrightarrow>
     list_all abort_cqe cqes \<and> distinct (map cqe_tag cqes) \<and> cqes \<noteq> [] \<and>
     cqe_tag ` set cqes = {t. t < q_depth q \<and> own ! t = Driver}"

text \<open>C13: The thread of a queue ends when the device is stopped: whatever its first \<open>k\<close> rounds were, if
  in the next one the driver gives back aborted every command it holds, the io loop returns, at the
  latest one round later, and leaves a queue that is done.\<close>

theorem queue_thread_ends:
  assumes "uring_flushes U" "handle_io_background T = None"
    and "qinv (state_at U T rounds q k) own" "gives_back (state_at U T rounds q k) own (snd (rounds k))"
  shows "\<exists>n q'. queue_loop U T rounds 0 q = Some (n, q') \<and> n \<le> Suc k \<and> queue_is_done U q'"
proof -
  have "queue_is_done U (snd (snd (ublksrv_process_io U T (fst (rounds k)) (snd (rounds k)) (state_at U T rounds q k))))"
    using assms by (intro abort_round_done) (auto simp: gives_back_def uring_flushes_def list_all_iff)
  then have "queue_is_done U (state_at U T rounds q (0 + Suc k))" by simp
  from queue_loop_from [OF this] show ?thesis by auto
qed

theorem queue_thread_ends_witness:
  "\<exists>n q'. queue_loop fring_api keep_tgt (\<lambda>_. (8, [\<lparr>cqe_user_data = 0, cqe_res = UBLK_IO_RES_ABORT, cqe_more = False\<rparr>]))
     0 sample_issued = Some (n, q') \<and> n \<le> 1 \<and> queue_is_done fring_api q'"
proof -
  let ?c = "\<lparr>cqe_user_data = 0, cqe_res = UBLK_IO_RES_ABORT, cqe_more = False\<rparr>"
  have "uring_flushes fring_api" by (simp add: uring_flushes_def fring_api_def fr_submit_def)
  moreover have "gives_back sample_issued [Driver, Unissued] [?c]"
    by (auto simp: gives_back_def abort_cqe_def cqe_tag_def is_target_io_def user_data_to_tag_def sample_issued_ios less_2_cases_iff)
  moreover have "handle_io_background keep_tgt = None" by (simp add: keep_tgt_def)
  ultimately show ?thesis
    using queue_thread_ends [of fring_api keep_tgt "\<lambda>_. (8, [?c])" sample_issued 0 "[Driver, Unissued]"]
      reachable_qinv [OF sample_issued_reachable] by simp
qed

text \<open>A queue thread ends up on exactly one cpu, one of those it was allowed to run on.\<close>

theorem thread_on_one_cpu:
  assumes "cpus \<noteq> {}" "cpus \<subseteq> {..<CPU_SETSIZE}"
  shows "\<exists>c\<in>cpus. ublk_set_queue_pthread_affinity (Some cpus) rnd = Some {c}"
proof -
  let ?f = "filter (\<lambda>i. i \<in> cpus) [0..<CPU_SETSIZE]" and ?k = "rnd mod card cpus"
  have s: "set ?f = cpus" using assms(2) by auto
  have "length ?f = card cpus" using distinct_card [of ?f] s by simp
  moreover have "0 < card cpus" using assms by (simp add: card_gt_0_iff finite_subset)
  ultimately have k: "?k < length ?f" by simp
  have "cpus - set [0..<CPU_SETSIZE] = {}" using assms(2) by auto
  then have "keep_one_cpu [0..<CPU_SETSIZE] ?k 0 cpus = {?f ! ?k}"
    using k keep_one_cpu_set [of "[0..<CPU_SETSIZE]" ?k 0 cpus] by auto
  moreover have "?f ! ?k \<in> cpus" using nth_mem [OF k] s by blast
  ultimately show ?thesis unfolding ublk_set_queue_pthread_affinity_def by simp
qed

theorem thread_on_one_cpu_witness: "\<exists>c\<in>{2, 5}. ublk_set_queue_pthread_affinity (Some {2, 5}) 7 = Some {c}"
  by (rule thread_on_one_cpu) auto

end
