(* ===== verification/Tgt_Main.thy ===== *)
theory Tgt_Main
  imports Tgt_Opts Tgt_Thread
begin

text \<open>
  The main program of a target (targets/ublksrv_tgt.cpp): adding a device, starting its daemon and
  recovering it. The results of system calls are the fields of an environment, the control device
  is the model of \<open>Ublk_Ctrl\<close>. Returned are the result, the values written to the event descriptor
  of the parent and the control ring; \<open>None\<close> is a run that does not return. The queue threads run
  in \<open>Tgt_Thread\<close>; here they add their description to the json data, in any order.
\<close>

unbundle bit_operations_syntax

section \<open>Events for the parent\<close>

abbreviation (input) "ERROR_EVTFD_DEVID \<equiv> (0xfffffffffffffffe :: u64)"

text \<open>The result, and the value written if any; \<open>ok\<close> tells whether all of it could be written.\<close>

definition ublksrv_tgt_send_dev_event :: "bool \<Rightarrow> int \<Rightarrow> int \<Rightarrow> int \<times> u64 list" where
  "ublksrv_tgt_send_dev_event ok evtfd dev_id =
     (if evtfd < 0 then (- EBADF, [])
      else let id = (if dev_id \<ge> 0 then word_of_int (dev_id + 1) else ERROR_EVTFD_DEVID)
           in if ok then (0, [id]) else (- EINVAL, []))"

section \<open>Starting a device\<close>

record 's main_env =
  me_ctrl :: "'s ctrl_env"
  me_ctrl2 :: "'s ctrl_env"
  me_mem :: bool
  me_dev :: dev_env
  me_infos :: "(nat \<times> int \<times> string) list"
  me_pid :: int
  me_evt_ok :: bool
  me_params :: ublk_params
  me_pid_dir :: "string option"

definition ublk_tgt_set_params ::
  "'s json_lib \<Rightarrow> 'r ctrl_sys \<Rightarrow> ublk_params \<Rightarrow> 's ublksrv_ctrl_dev \<Rightarrow> 'r \<Rightarrow> 'r option" where
  "ublk_tgt_set_params J K p0 dev r =
     (case ublk_json_read_params J p0 (cd_jbuf dev) of
        None \<Rightarrow> None
      | Some (ret, p) \<Rightarrow> if ret \<ge> 0 then map_option (snd \<circ> snd) (ublksrv_ctrl_set_params K dev p r) else Some r)"

definition tgt_start_cmd ::
  "'s json_lib \<Rightarrow> 'r ctrl_sys \<Rightarrow> 's main_env \<Rightarrow> 's ublksrv_ctrl_dev \<Rightarrow> 'r \<Rightarrow> (int \<times> 's ublksrv_ctrl_dev \<times> 'r) option" where
  "tgt_start_cmd J K E cdev r =
     (if ublksrv_is_recovering cdev then ublksrv_ctrl_end_recovery K (me_pid E) cdev r
      else case ublk_tgt_set_params J K (me_params E) cdev r of
             None \<Rightarrow> None | Some r1 \<Rightarrow> ublksrv_ctrl_start_dev K (me_pid E) cdev r1)"

text \<open>In the foreground the device is printed, for which its parameters are read.\<close>

definition ublksrv_tgt_start_dev ::
  "'s json_lib \<Rightarrow> 'r ctrl_sys \<Rightarrow> 's main_env \<Rightarrow> int \<Rightarrow> 's ublksrv_ctrl_dev \<Rightarrow> 'r \<Rightarrow>
     (int \<times> 's ublksrv_ctrl_dev \<times> u64 list \<times> 'r) option" where
  "ublksrv_tgt_start_dev J K E evtfd cdev r =
     (case tgt_start_cmd J K E cdev r of
        None \<Rightarrow> None
      | Some (ret, dev1, r1) \<Rightarrow>
          if ret < 0 then Some (ret, dev1, [], r1)
          else (case ublksrv_ctrl_get_info K dev1 r1 of
             None \<Rightarrow> None
           | Some (ret, dev2, r2) \<Rightarrow>
               if ret < 0 then Some (ret, dev2, [], r2)
               else if evtfd = -1 then
                 map_option (\<lambda>(e, p, r3). (0, dev2, [], r3)) (ublksrv_ctrl_get_params K dev2 (me_params E) r2)
               else (let (e, ids) = ublksrv_tgt_send_dev_event (me_evt_ok E) evtfd (sint (info_dev_id (cd_dev_info cdev)))
                     in Some (if e \<noteq> 0 then - EINVAL else 0, dev2, ids, r2))))"

text \<open>Each queue thread writes its description before the device is started.\<close>

fun write_queue_infos :: "'s json_lib \<Rightarrow> (nat \<times> int \<times> string) list \<Rightarrow> 's ublksrv_tgt_jbuf \<Rightarrow> 's ublksrv_tgt_jbuf option" where
  "write_queue_infos J [] j = Some j"
| "write_queue_infos J ((qid, tid, cpus) # is) j =
     (case ublk_json_write_queue_info J qid tid cpus j of None \<Rightarrow> None | Some (ret, j') \<Rightarrow> write_queue_infos J is j')"

definition ublksrv_device_handler ::
  "'s json_lib \<Rightarrow> 'r ctrl_sys \<Rightarrow> 's main_env \<Rightarrow> 's tgt_dev_ops option \<Rightarrow> int \<Rightarrow> 's ublksrv_ctrl_dev \<Rightarrow> 'r \<Rightarrow>
     (int \<times> 's ublksrv_ctrl_dev \<times> u64 list \<times> 'r) option" where
  "ublksrv_device_handler J K E ops evtfd ctrl r =
     (let del = (\<lambda>ret c ids r1. map_option (\<lambda>(e, r2). (ret, c, ids, r2)) (ublksrv_ctrl_del_dev K c r1))
      in case fst (ublksrv_dev_init (me_dev E) ops ctrl) of
           None \<Rightarrow> del (- EINVAL) ctrl [] r
         | Some dev \<Rightarrow>
             (case write_queue_infos J (me_infos E) (cd_jbuf (dv_ctrl dev)) of
                None \<Rightarrow> None
              | Some j \<Rightarrow>
                  (case ublksrv_tgt_start_dev J K E evtfd ((dv_ctrl dev)\<lparr>cd_jbuf := j\<rparr>) r of
                     None \<Rightarrow> None
                   | Some (ret, c, ids, r1) \<Rightarrow> if ret \<noteq> 0 then del ret c ids r1 else Some (0, c, ids, r1))))"

text \<open>Waiting for udev: at most ten attempts, \<open>op\<close> the result of each. The number of sleeps.\<close>

function ublksrv_check_dev :: "(nat \<Rightarrow> int) \<Rightarrow> nat \<Rightarrow> nat" where
  "ublksrv_check_dev op wait = (if wait < 10 then (if op wait > 0 then wait else ublksrv_check_dev op (Suc wait)) else wait)"
  by pat_completeness auto
termination
  by (relation "measure (\<lambda>(op, wait). 10 - wait)") auto

declare ublksrv_check_dev.simps [simp del]

definition ublksrv_start_daemon ::
  "'s json_lib \<Rightarrow> 'r ctrl_sys \<Rightarrow> 's main_env \<Rightarrow> 's tgt_dev_ops option \<Rightarrow> int \<Rightarrow> 's ublksrv_ctrl_dev \<Rightarrow> 'r \<Rightarrow>
     (int \<times> 's ublksrv_ctrl_dev \<times> u64 list \<times> 'r) option" where
  "ublksrv_start_daemon J K E ops evtfd ctrl r =
     (case ublksrv_ctrl_get_affinity K (me_mem E) ctrl r of
        None \<Rightarrow> None
      | Some (ret, c, r1) \<Rightarrow>
          if ret < 0 then Some (ret, c, [], r1) else ublksrv_device_handler J K E ops evtfd c r1)"

section \<open>Adding a device\<close>

record 's tgt_type =
  tt_name :: string
  tt_ublk_flags :: u64
  tt_ublksrv_flags :: u64
  tt_ops :: "'s tgt_dev_ops"

text \<open>The description passed to the control device, from the options and the target.\<close>

definition add_dev_data :: "'s tgt_type \<Rightarrow> string list \<Rightarrow> ublksrv_dev_data \<Rightarrow> ublksrv_dev_data" where
  "add_dev_data tgt args data =
     (let d = data\<lparr>dd_tgt_type := Some (tt_name tgt), dd_flags := dd_flags data OR tt_ublk_flags tgt,
                   dd_ublksrv_flags := dd_ublksrv_flags data OR tt_ublksrv_flags tgt,
                   dd_tgt_argc := int (length args) + 1, dd_tgt_argv := args\<rparr>
      in d\<lparr>dd_flags := if has (dd_flags d) UBLK_F_SUPPORT_ZERO_COPY then dd_flags d OR UBLK_F_AUTO_BUF_REG else dd_flags d\<rparr>)"

text \<open>
  What the features of the driver allow: \<open>Inl\<close> an error that is returned at once, \<open>Inr\<close> the device to
  go on with, created again when automatic buffer registration is not supported.
\<close>

definition add_check_features ::
  "'s json_lib \<Rightarrow> 'r ctrl_sys \<Rightarrow> 's main_env \<Rightarrow> ublksrv_dev_data \<Rightarrow> 's ublksrv_ctrl_dev \<Rightarrow> 'r \<Rightarrow>
     ((int + 's ublksrv_ctrl_dev option) \<times> 'r) option" where
  "add_check_features J K E data dev r =
     (if has (dd_flags data) (UBLK_F_SUPPORT_ZERO_COPY OR UBLK_F_BATCH_IO) then
        (case ublksrv_ctrl_get_features K dev r of
           None \<Rightarrow> None
         | Some (ret, features, r1) \<Rightarrow>
             Some (if ret \<noteq> 0 then Inl ret
                   else if has (dd_flags data) UBLK_F_SUPPORT_ZERO_COPY \<and> \<not> has features UBLK_F_SUPPORT_ZERO_COPY then Inl (- ENOTSUP)
                   else if has (dd_flags data) UBLK_F_BATCH_IO \<and> \<not> has features UBLK_F_BATCH_IO then Inl (- ENOTSUP)
                   else if has (dd_flags data) UBLK_F_SUPPORT_ZERO_COPY \<and> \<not> has features UBLK_F_AUTO_BUF_REG
                   then Inr (fst (ublksrv_ctrl_init J (me_ctrl2 E)
                          (data\<lparr>dd_flags := dd_flags data AND NOT UBLK_F_AUTO_BUF_REG\<rparr>)))
                   else Inr (Some dev), r1))
      else Some (Inr (Some dev), r))"

text \<open>
  The commands from adding the device on. A device that could not be created a second time is not
  checked for: the call with the null pointer does not return.
\<close>

definition add_and_start ::
  "'s json_lib \<Rightarrow> 'r ctrl_sys \<Rightarrow> 's main_env \<Rightarrow> 's tgt_type \<Rightarrow> int \<Rightarrow> 's ublksrv_ctrl_dev \<Rightarrow> 'r \<Rightarrow>
     (int \<times> u64 list \<times> 'r) option" where
  "add_and_start J K E tgt evt dev r =
     (let fail = snd (ublksrv_tgt_send_dev_event (me_evt_ok E) evt (-1))
      in case ublksrv_ctrl_add_dev K dev r of
           None \<Rightarrow> None
         | Some (ret, dev1, r1) \<Rightarrow>
             if ret < 0 then Some (ret, fail, r1)
             else (case ublksrv_start_daemon J K E (Some (tt_ops tgt)) evt dev1 r1 of
                None \<Rightarrow> None
              | Some (ret, dev2, ids, r2) \<Rightarrow>
                  if ret < 0 then map_option (\<lambda>(e, r3). (ret, ids @ fail, r3)) (ublksrv_ctrl_del_dev K dev2 r2)
                  else Some (0, ids, r2)))"

definition ublksrv_cmd_dev_add ::
  "'s json_lib \<Rightarrow> 'r ctrl_sys \<Rightarrow> 's main_env \<Rightarrow> 's tgt_type \<Rightarrow> string list \<Rightarrow> 'r \<Rightarrow> (int \<times> u64 list \<times> 'r) option" where
  "ublksrv_cmd_dev_add J K E tgt args r =
     (let (data0, evt) = ublksrv_parse_add_opts (me_pid_dir E) zero_dev_data (-1) args
      in if dd_tgt_type data0 \<noteq> None \<and> dd_tgt_type data0 \<noteq> Some (tt_name tgt) then Some (- EINVAL, [], r)
         else
           (let data = add_dev_data tgt args data0
            in case fst (ublksrv_ctrl_init J (me_ctrl E) data) of
                 None \<Rightarrow> Some (- EOPNOTSUPP, snd (ublksrv_tgt_send_dev_event (me_evt_ok E) evt (-1)), r)
               | Some dev \<Rightarrow>
                   (case add_check_features J K E data dev r of
                      None \<Rightarrow> None
                    | Some (Inl err, r1) \<Rightarrow> Some (err, [], r1)
                    | Some (Inr None, r1) \<Rightarrow> None
                    | Some (Inr (Some dev1), r1) \<Rightarrow> add_and_start J K E tgt evt dev1 r1)))"

section \<open>Recovering a device\<close>

text \<open>
  Announcing the recovery: repeated while the driver is busy, every 100 ms for at most 30 s. \<open>Inl\<close> is
  an error that ends the call; the last result is dropped otherwise.
\<close>

function recovery_loop :: "'r ctrl_sys \<Rightarrow> 's ublksrv_ctrl_dev \<Rightarrow> nat \<Rightarrow> 'r \<Rightarrow> ((int + int) \<times> 'r) option" where
  "recovery_loop K dev elapsed r =
     (if elapsed < 300 then
        (case ublksrv_ctrl_start_recovery K dev r of
           None \<Rightarrow> None
         | Some (ret, r1) \<Rightarrow>
             if ret < 0 \<and> ret \<noteq> - EBUSY then Some (Inl ret, r1)
             else if ret \<ge> 0 then Some (Inr ret, r1)
             else recovery_loop K dev (Suc elapsed) r1)
      else Some (Inr (- EBUSY), r))"
  by pat_completeness auto
termination
  by (relation "measure (\<lambda>(K, dev, elapsed, r). 300 - elapsed)") auto

declare recovery_loop.simps [simp del]

definition recover_data :: "'s main_env \<Rightarrow> 's tgt_type \<Rightarrow> int \<Rightarrow> ublksrv_dev_data" where
  "recover_data E tgt number =
     zero_dev_data\<lparr>dd_dev_id := number, dd_tgt_type := Some (tt_name tgt), dd_run_dir := me_pid_dir E\<rparr>"

text \<open>\<open>saved\<close> is the json data found in the pid file. An error event is sent at the end in every case.\<close>

definition recover_saved ::
  "'s json_lib \<Rightarrow> 'r ctrl_sys \<Rightarrow> 's main_env \<Rightarrow> 's tgt_type \<Rightarrow> int \<Rightarrow> int \<Rightarrow> 's option \<Rightarrow> 's ublksrv_ctrl_dev \<Rightarrow> 'r \<Rightarrow>
     (int \<times> u64 list \<times> 'r) option" where
  "recover_saved J K E tgt number evtfd saved dev r =
     (if saved = None then Some (-1, [], r)
      else case ublksrv_json_read_dev_info J saved (cd_dev_info dev) of
        None \<Rightarrow> None
      | Some (ret1, info) \<Rightarrow>
          if ret1 < 0 then Some (ret1, [], r)
          else if info_dev_id info \<noteq> word_of_int number then Some (ret1, [], r)
          else (case ublksrv_json_read_target_base_info J saved \<lparr>tj_name = [], tj_type = 0, tj_dev_size = 0\<rparr> of
             None \<Rightarrow> None
           | Some (ret2, base) \<Rightarrow>
               if ret2 < 0 then Some (ret2, [], r)
               else map_option (\<lambda>(ret3, c, ids, r'). (ret3, ids, r')) (ublksrv_start_daemon J K E (Some (tt_ops tgt)) evtfd dev r)))"

definition do_cmd_dev_user_recover ::
  "'s json_lib \<Rightarrow> 'r ctrl_sys \<Rightarrow> 's main_env \<Rightarrow> 's tgt_type \<Rightarrow> int \<Rightarrow> int \<Rightarrow> 's option \<Rightarrow> 'r \<Rightarrow> (int \<times> u64 list \<times> 'r) option" where
  "do_cmd_dev_user_recover J K E tgt number evtfd saved r =
     (let exit = (\<lambda>(ret, ids, r'). (ret, ids @ snd (ublksrv_tgt_send_dev_event (me_evt_ok E) evtfd (-1)), r'))
      in case fst (ublksrv_ctrl_recover_init J (me_ctrl E) (recover_data E tgt number)) of
           None \<Rightarrow> Some (exit (- EOPNOTSUPP, [], r))
         | Some dev \<Rightarrow>
             (case ublksrv_ctrl_get_info K dev r of
                None \<Rightarrow> None
              | Some (ret, dev1, r1) \<Rightarrow>
                  if ret < 0 then Some (exit (ret, [], r1))
                  else (case recovery_loop K dev1 0 r1 of
                     None \<Rightarrow> None
                   | Some (Inl err, r2) \<Rightarrow> Some (exit (err, [], r2))
                   | Some (Inr ret2, r2) \<Rightarrow>
                       map_option exit (recover_saved J K E tgt number evtfd saved dev1 r2))))"

definition recover_longopts :: "long_opt list" where
  "recover_longopts =
     [\<lparr>lo_name = ''number'', lo_has_arg = False, lo_val = chr_code (CHR ''n'')\<rparr>,
      \<lparr>lo_name = ''verbose'', lo_has_arg = False, lo_val = chr_code (CHR ''v'')\<rparr>,
      \<lparr>lo_name = ''eventfd'', lo_has_arg = True, lo_val = 0\<rparr>]"

text \<open>The device number and the event descriptor; \<open>None\<close> when the missing argument is read.\<close>

definition recover_opt :: "getopt_ev \<Rightarrow> (int \<times> int) option \<Rightarrow> (int \<times> int) option" where
  "recover_opt e st = (case st of
     None \<Rightarrow> None
   | Some (number, evtfd) \<Rightarrow>
       if ev_code e = chr_code (CHR ''n'') then
         (case ev_arg e of None \<Rightarrow> None | Some a \<Rightarrow> Some (to_int (strtol10 a), evtfd))
       else if ev_code e = 0 \<and> ev_long e = Some 2 then Some (number, to_int (ev_num e))
       else st)"

definition ublksrv_cmd_dev_user_recover ::
  "'s json_lib \<Rightarrow> 'r ctrl_sys \<Rightarrow> 's main_env \<Rightarrow> 's tgt_type \<Rightarrow> string list \<Rightarrow> 's option \<Rightarrow> 'r \<Rightarrow> (int \<times> u64 list \<times> 'r) option" where
  "ublksrv_cmd_dev_user_recover J K E tgt args saved r =
     (case fold recover_opt (getopt_long ''n:v'' recover_longopts args) (Some (-1, -1)) of
        None \<Rightarrow> None
      | Some (number, evtfd) \<Rightarrow> do_cmd_dev_user_recover J K E tgt number evtfd saved r)"

section \<open>The commands\<close>

definition ublksrv_pop_cmd :: "string list \<Rightarrow> (string \<times> string list) option" where
  "ublksrv_pop_cmd argv = (case argv of prog # cmd # rest \<Rightarrow> Some (cmd, prog # rest) | _ \<Rightarrow> None)"

definition ublksrv_main ::
  "'s json_lib \<Rightarrow> 'r ctrl_sys \<Rightarrow> 's main_env \<Rightarrow> 's tgt_type \<Rightarrow> 's option \<Rightarrow> string list \<Rightarrow> 'r \<Rightarrow> (int \<times> u64 list \<times> 'r) option" where
  "ublksrv_main J K E tgt saved argv r = (case ublksrv_pop_cmd argv of
     None \<Rightarrow> Some (1, [], r)
   | Some (cmd, argv') \<Rightarrow>
       if cmd = ''add'' then ublksrv_cmd_dev_add J K E tgt (drop 1 argv') r
       else if cmd = ''recover'' then ublksrv_cmd_dev_user_recover J K E tgt (drop 1 argv') saved r
       else if cmd \<in> {''help'', ''-h'', ''--help''} then Some (0, [], r)
       else Some (1, [], r))"

section \<open>Lemmas\<close>

text \<open>The numbers of the commands sent so far.\<close>

definition cmds :: "('r \<Rightarrow> uring_sqe list) \<Rightarrow> 'r \<Rightarrow> u32 list" where
  "cmds queued r = map (\<lambda>sqe. IOC_NR (sqe_cmd_op sqe)) (queued r)"

lemma cmds_one:
  assumes "ctrl_sys_ok K queued" "do_ctrl_cmd K dev data b r = Some (ret, b', r')"
  shows "\<exists>op. ctrl_opcode dev data = Some op \<and> cmds queued r' = cmds queued r @ [IOC_NR op]"
  using do_ctrl_cmd_sends [OF assms] by (metis (no_types, lifting) cmds_def init_cmd_sel(3) list.simps(8,9) map_append)

lemma cmds_sent: "queued r' = queued r @ [sqe] \<Longrightarrow> sent_for K dev c sqe \<Longrightarrow> cmds queued r' = cmds queued r @ [call_nr c]"
  by (simp add: cmds_def sent_for_def)

lemma cmds_simple:
  assumes "ctrl_sys_ok K queued" "simple_cmd K op fl d dev r = Some (ret, r')" "\<not> has fl CTRL_CMD_NO_TRANS"
    "op \<in> {0x01, 0x02, 0x04, 0x05, 0x06, 0x07, 0x08, 0x09, 0x10, 0x11, 0x12}"
  shows "cmds queued r' = cmds queued r @ [op]"
proof -
  obtain sqe code where s: "queued r' = queued r @ [sqe]" "sqe_cmd_op sqe = code" "ctrl_opcode dev (cmd_data op fl) = Some code"
    using simple_cmd_sends [OF assms(1,2)] by blast
  then show ?thesis using legacy_code(1) [OF s(3) assms(3,4)] by (simp add: cmds_def)
qed

lemma cmds_del: "ctrl_sys_ok K queued \<Longrightarrow> ublksrv_ctrl_del_dev K dev r = Some (ret, r') \<Longrightarrow>
    cmds queued r' = cmds queued r @ [UBLK_CMD_DEL_DEV]"
  unfolding ublksrv_ctrl_del_dev_def by (erule (1) cmds_simple) (simp_all add: has_def)

lemma cmds_start:
  assumes "ctrl_sys_ok K queued"
  shows "ublksrv_ctrl_start_dev K pid dev r = Some (ret, dev', r') \<Longrightarrow> cmds queued r' = cmds queued r @ [UBLK_CMD_START_DEV]"
    and "ublksrv_ctrl_end_recovery K pid dev r = Some (ret, dev', r') \<Longrightarrow>
      cmds queued r' = cmds queued r @ [UBLK_CMD_END_USER_RECOVERY]"
  unfolding ublksrv_ctrl_start_dev_def ublksrv_ctrl_end_recovery_def Let_def
  by (auto intro!: cmds_simple [OF assms] simp: flag_facts)

lemma cmds_set_params:
  assumes "ctrl_sys_ok K queued" "ublksrv_ctrl_set_params K dev p r = Some (ret, p', r')"
  shows "cmds queued r' = cmds queued r @ [UBLK_CMD_SET_PARAMS]"
proof -
  obtain b where c: "ctrl_params_cmd K UBLK_CMD_SET_PARAMS dev (p\<lparr>p_len := 152\<rparr>) r = Some (ret, b, r')"
    using assms(2) by (auto simp: ublksrv_ctrl_set_params_def Let_def)
  obtain sqe code where "queued r' = queued r @ [sqe]" "sqe_cmd_op sqe = code"
    and o: "ctrl_opcode dev (cmd_data UBLK_CMD_SET_PARAMS 2) = Some code"
    using params_cmd_sends [OF assms(1) c] by blast
  then show ?thesis using legacy_code(1) [OF o flag_facts(4)] by (simp add: cmds_def)
qed

lemma cmds_add_op:
  assumes "ctrl_sys_ok K queued" "ctrl_add_dev_op K op dev r = Some (ret, dev', r')"
  shows "cmds queued r' = cmds queued r @ [IOC_NR op]"
proof -
  let ?d = "(cmd_data op (CTRL_CMD_HAS_BUF OR CTRL_CMD_NO_TRANS))\<lparr>dt_addr := cs_addr K O_info, dt_len := 64\<rparr>"
  obtain b b0 where "do_ctrl_cmd K dev ?d b0 r = Some (ret, b, r')"
    using assms(2) by (auto simp: ctrl_add_dev_op_def Let_def)
  from cmds_one [OF assms(1) this] show ?thesis by (auto simp: ctrl_opcode_def cmd_data_def has_def)
qed

lemma cmds_add:
  assumes "ctrl_sys_ok K queued" "ublksrv_ctrl_add_dev K dev r = Some (ret, dev', r')"
  shows "\<exists>n\<in>{1, 2}. cmds queued r' = cmds queued r @ replicate n UBLK_CMD_ADD_DEV"
proof -
  have nr: "IOC_NR UBLK_U_CMD_ADD_DEV = UBLK_CMD_ADD_DEV" "IOC_NR UBLK_CMD_ADD_DEV = UBLK_CMD_ADD_DEV"
    by (simp_all add: IOC_def IOC_NR_def)
  obtain ret1 dev1 r1 where 1: "ctrl_add_dev_op K UBLK_U_CMD_ADD_DEV dev r = Some (ret1, dev1, r1)"
    and 2: "if ret1 < 0 then ctrl_add_dev_op K UBLK_CMD_ADD_DEV dev1 r1 = Some (ret, dev', r') else r' = r1"
    using assms(2) by (auto simp: ublksrv_ctrl_add_dev_def split: option.splits prod.splits if_splits)
  show ?thesis
    using cmds_add_op [OF assms(1) 1] 2 cmds_add_op [OF assms(1), of UBLK_CMD_ADD_DEV dev1 r1 ret dev' r'] nr
    by (auto simp: numeral_2_eq_2 split: if_splits)
qed

lemma cmds_affinity:
  assumes "ctrl_sys_ok K queued"
  shows "affinity_loop K dev is buf r = Some (0, buf', r') \<Longrightarrow>
    cmds queued r' = cmds queued r @ replicate (length is) UBLK_CMD_GET_QUEUE_AFFINITY"
proof (induction "is" arbitrary: buf r)
  case (Cons i "is")
  let ?b0 = "\<lparr>cb_path = (if ublk_is_unprivileged dev then dev_path dev else []), cb_load = L_cpus {}\<rparr>"
  obtain ret b r1 buf1 where c: "do_ctrl_cmd K dev (aff_data K dev i) ?b0 r = Some (ret, b, r1)"
    and l: "affinity_loop K dev is buf1 r1 = Some (0, buf', r')"
    using Cons.prems by (auto split: option.splits prod.splits if_splits)
  obtain op where o: "ctrl_opcode dev (aff_data K dev i) = Some op" "cmds queued r1 = cmds queued r @ [IOC_NR op]"
    using cmds_one [OF assms c] by blast
  have "IOC_NR op = UBLK_CMD_GET_QUEUE_AFFINITY"
    using ctrl_opcode_nr [OF o(1)] by (simp add: aff_data_def cmd_data_def)
  then show ?case using Cons.IH [OF l] o(2) by simp
qed simp

lemma cmds_info_no_trans:
  assumes "ctrl_sys_ok K queued" "ctrl_get_info_no_trans K op dev r = Some (ret, dev', r')"
  shows "\<exists>l. cmds queued r' = cmds queued r @ l \<and> set l \<subseteq> {IOC_NR op} \<and> (l = [] \<longrightarrow> ret < 0)"
proof -
  have nt: "IOC_NR c = IOC_NR op" if "ctrl_opcode dev d = Some c" "dt_cmd_op d = op" "has (dt_flags d) CTRL_CMD_NO_TRANS" for c d
    using that by (simp add: ctrl_opcode_def)
  have "(ret < 0 \<and> r' = r) \<or> (\<exists>d b0 b ret'. do_ctrl_cmd K dev d b0 r = Some (ret', b, r') \<and> dt_cmd_op d = op \<and>
      has (dt_flags d) CTRL_CMD_NO_TRANS)"
  proof (cases "ublk_is_unprivileged dev \<and> IOC_NR op = UBLK_CMD_GET_DEV_INFO")
    case True
    then show ?thesis using assms(2) by (simp add: ctrl_get_info_no_trans_def)
  next
    case False
    have h: "has (7::u16) 4" "has (6::u16) 4" by (simp_all add: has_def)
    from False assms(2) show ?thesis
      by (cases "IOC_NR op = UBLK_CMD_GET_DEV_INFO2") (fastforce simp: ctrl_get_info_no_trans_def Let_def cmd_data_def h split: if_splits)+
  qed
  then show ?thesis
  proof
    assume "ret < 0 \<and> r' = r"
    then show ?thesis by (intro exI [of _ "[]"]) simp
  next
    assume "\<exists>d b0 b ret'. do_ctrl_cmd K dev d b0 r = Some (ret', b, r') \<and> dt_cmd_op d = op \<and> has (dt_flags d) CTRL_CMD_NO_TRANS"
    then obtain d b0 b ret' where d: "do_ctrl_cmd K dev d b0 r = Some (ret', b, r')" "dt_cmd_op d = op"
      "has (dt_flags d) CTRL_CMD_NO_TRANS" by blast
    from cmds_one [OF assms(1) d(1)] nt [OF _ d(2,3)] show ?thesis by fastforce
  qed
qed

lemma cmds_info_op:
  assumes "ctrl_sys_ok K queued" "ctrl_get_info_op K op dev r = Some (ret, dev', r')"
    "op \<in> {UBLK_CMD_GET_DEV_INFO, UBLK_CMD_GET_DEV_INFO2}"
  shows "\<exists>l. cmds queued r' = cmds queued r @ l \<and> set l \<subseteq> {UBLK_CMD_GET_DEV_INFO, UBLK_CMD_GET_DEV_INFO2} \<and> (l = [] \<longrightarrow> ret < 0)"
proof -
  have n: "IOC_NR (ctrl_cmd_op op) = op" "IOC_NR op = op"
    using assms(3) by (auto simp: ctrl_cmd_op_def IOC_def IOC_NR_def)
  obtain code ret1 dev1 r1 where 0: "legacy_op_to_ioctl op = Some code"
    and 1: "ctrl_get_info_no_trans K code dev r = Some (ret1, dev1, r1)"
    and 2: "if ret1 < 0 then ctrl_get_info_no_trans K op dev1 r1 = Some (ret, dev', r') else r' = r1 \<and> ret = ret1"
    using assms(2) by (auto simp: ctrl_get_info_op_def split: option.splits prod.splits if_splits)
  have c: "code = ctrl_cmd_op op" using 0 by (auto simp: legacy_op_to_ioctl_def split: if_splits)
  obtain l1 where l1: "cmds queued r1 = cmds queued r @ l1" "set l1 \<subseteq> {op}" "l1 = [] \<longrightarrow> ret1 < 0"
    using cmds_info_no_trans [OF assms(1) 1] n c by auto
  show ?thesis
  proof (cases "ret1 < 0")
    case True
    then obtain l2 where "cmds queued r' = cmds queued r1 @ l2" "set l2 \<subseteq> {op}" "l2 = [] \<longrightarrow> ret < 0"
      using cmds_info_no_trans [OF assms(1), of op dev1 r1 ret dev' r'] 2 n by auto
    then show ?thesis using l1 assms(3) by (intro exI [of _ "l1 @ l2"]) auto
  next
    case False
    then show ?thesis using 2 l1 assms(3) by auto
  qed
qed

lemma cmds_info:
  assumes "ctrl_sys_ok K queued" "ublksrv_ctrl_get_info K dev r = Some (ret, dev', r')" "0 \<le> ret"
  shows "\<exists>l. cmds queued r' = cmds queued r @ l \<and> set l \<subseteq> {UBLK_CMD_GET_DEV_INFO, UBLK_CMD_GET_DEV_INFO2} \<and> l \<noteq> []"
proof -
  obtain ret1 dev1 r1 where 1: "ctrl_get_info_op K UBLK_CMD_GET_DEV_INFO2 dev r = Some (ret1, dev1, r1)"
    and 2: "(ret1 < 0 \<and> ctrl_get_info_op K UBLK_CMD_GET_DEV_INFO dev1 r1 = Some (ret, dev', r')) \<or> (r' = r1 \<and> ret = ret1)"
    using assms(2) by (auto simp: ublksrv_ctrl_get_info_def split: option.splits prod.splits if_splits)
  obtain l1 where l1: "cmds queued r1 = cmds queued r @ l1" "set l1 \<subseteq> {UBLK_CMD_GET_DEV_INFO, UBLK_CMD_GET_DEV_INFO2}"
    "l1 = [] \<longrightarrow> ret1 < 0"
    using cmds_info_op [OF assms(1) 1] by auto
  from 2 show ?thesis
  proof
    assume "ret1 < 0 \<and> ctrl_get_info_op K UBLK_CMD_GET_DEV_INFO dev1 r1 = Some (ret, dev', r')"
    then obtain l2 where "cmds queued r' = cmds queued r1 @ l2" "set l2 \<subseteq> {UBLK_CMD_GET_DEV_INFO, UBLK_CMD_GET_DEV_INFO2}"
      "l2 = [] \<longrightarrow> ret < 0"
      using cmds_info_op [OF assms(1), of UBLK_CMD_GET_DEV_INFO dev1 r1 ret dev' r'] by auto
    then show ?thesis using l1 assms(3) by (intro exI [of _ "l1 @ l2"]) auto
  next
    assume "r' = r1 \<and> ret = ret1"
    then show ?thesis using l1 assms(3) by auto
  qed
qed

lemma cmds_start_cmd:
  assumes "ctrl_sys_ok K queued" "tgt_start_cmd J K E cdev r = Some (ret, dev', r')"
  shows "\<exists>l\<in>{[UBLK_CMD_START_DEV], [UBLK_CMD_SET_PARAMS, UBLK_CMD_START_DEV], [UBLK_CMD_END_USER_RECOVERY]}.
    cmds queued r' = cmds queued r @ l"
proof (cases "ublksrv_is_recovering cdev")
  case True
  then have "ublksrv_ctrl_end_recovery K (me_pid E) cdev r = Some (ret, dev', r')" using assms(2) by (simp add: tgt_start_cmd_def)
  from cmds_start(2) [OF assms(1) this] show ?thesis by simp
next
  case False
  then obtain r1 where p: "ublk_tgt_set_params J K (me_params E) cdev r = Some r1"
    and s: "ublksrv_ctrl_start_dev K (me_pid E) cdev r1 = Some (ret, dev', r')"
    using assms(2) by (auto simp: tgt_start_cmd_def split: option.splits)
  have "cmds queued r1 = cmds queued r \<or> cmds queued r1 = cmds queued r @ [UBLK_CMD_SET_PARAMS]"
    using p by (auto simp: ublk_tgt_set_params_def dest: cmds_set_params [OF assms(1)] split: option.splits prod.splits if_splits)
  then show ?thesis using cmds_start(1) [OF assms(1) s] by auto
qed

lemma start_dev_cases:
  assumes "ublksrv_tgt_start_dev J K E evt cdev r = Some (ret, dev', ids, r')"
  shows "ret \<le> 0"
    and "ret = 0 \<Longrightarrow> evt \<noteq> -1 \<Longrightarrow> \<exists>ret1 dev1 r1 ret2. tgt_start_cmd J K E cdev r = Some (ret1, dev1, r1) \<and>
      ublksrv_ctrl_get_info K dev1 r1 = Some (ret2, dev', r') \<and> 0 \<le> ret2 \<and> length ids = 1"
  using assms
  by (auto simp: ublksrv_tgt_start_dev_def ublksrv_tgt_send_dev_event_def Let_def not_less split: option.splits prod.splits if_splits)

lemma cmds_start_dev:
  assumes "ctrl_sys_ok K queued" "ublksrv_tgt_start_dev J K E evt cdev r = Some (0, dev', ids, r')" "evt \<noteq> -1"
  shows "\<exists>starts infos. cmds queued r' = cmds queued r @ starts @ infos \<and>
    starts \<in> {[UBLK_CMD_START_DEV], [UBLK_CMD_SET_PARAMS, UBLK_CMD_START_DEV], [UBLK_CMD_END_USER_RECOVERY]} \<and>
    infos \<noteq> [] \<and> set infos \<subseteq> {UBLK_CMD_GET_DEV_INFO, UBLK_CMD_GET_DEV_INFO2} \<and> length ids = 1"
proof -
  obtain ret1 dev1 r1 ret2 where s: "tgt_start_cmd J K E cdev r = Some (ret1, dev1, r1)"
    and g: "ublksrv_ctrl_get_info K dev1 r1 = Some (ret2, dev', r')" "0 \<le> ret2" and ids: "length ids = 1"
    using start_dev_cases(2) [OF assms(2)] assms(3) by blast
  obtain l where l: "l \<in> {[UBLK_CMD_START_DEV], [UBLK_CMD_SET_PARAMS, UBLK_CMD_START_DEV], [UBLK_CMD_END_USER_RECOVERY]}"
    "cmds queued r1 = cmds queued r @ l" using cmds_start_cmd [OF assms(1) s] by blast
  obtain infos where "cmds queued r' = cmds queued r1 @ infos" "set infos \<subseteq> {UBLK_CMD_GET_DEV_INFO, UBLK_CMD_GET_DEV_INFO2}"
    "infos \<noteq> []" using cmds_info [OF assms(1) g] by blast
  with l ids show ?thesis by (intro exI [of _ l] exI [of _ infos]) simp
qed

lemma affinity_loop_ret: "affinity_loop K dev is buf r = Some (ret, buf', r') \<Longrightarrow> ret \<le> 0"
  by (induction K dev "is" buf r rule: affinity_loop.induct) (auto split: option.splits prod.splits if_splits)

lemma get_affinity_cases:
  assumes "ublksrv_ctrl_get_affinity K mem dev r = Some (ret, dev', r')" "0 \<le> ret"
  shows "\<exists>buf. affinity_loop K dev [0..<unat (nr_hw_queues (cd_dev_info dev))] Map.empty r = Some (0, buf, r')"
proof -
  obtain buf where l: "affinity_loop K dev [0..<unat (nr_hw_queues (cd_dev_info dev))] Map.empty r = Some (ret, buf, r')"
    using assms by (cases mem) (auto simp: ublksrv_ctrl_get_affinity_def)
  then show ?thesis using affinity_loop_ret [OF l] assms(2) by auto
qed

lemma device_handler_cases:
  assumes "ublksrv_device_handler J K E ops evt ctrl r = Some (ret, dev', ids, r')" "0 \<le> ret"
  shows "\<exists>cdev. ublksrv_tgt_start_dev J K E evt cdev r = Some (0, dev', ids, r')"
proof -
  have "\<exists>dev j. fst (ublksrv_dev_init (me_dev E) ops ctrl) = Some dev \<and>
      write_queue_infos J (me_infos E) (cd_jbuf (dv_ctrl dev)) = Some j"
    using assms by (auto simp: ublksrv_device_handler_def Let_def split: option.splits)
  then obtain dev j where d: "fst (ublksrv_dev_init (me_dev E) ops ctrl) = Some dev"
    "write_queue_infos J (me_infos E) (cd_jbuf (dv_ctrl dev)) = Some j" by blast
  let ?c = "(dv_ctrl dev)\<lparr>cd_jbuf := j\<rparr>"
  obtain ret1 c1 ids1 r1 where s: "ublksrv_tgt_start_dev J K E evt ?c r = Some (ret1, c1, ids1, r1)"
    using assms d by (cases "ublksrv_tgt_start_dev J K E evt ?c r") (auto simp: ublksrv_device_handler_def Let_def)
  show ?thesis using assms d s start_dev_cases(1) [OF s]
    by (auto simp: ublksrv_device_handler_def Let_def split: if_splits)
qed

section \<open>A concrete target\<close>

definition sample_main :: "json main_env" where
  "sample_main =
     \<lparr>me_ctrl = \<lparr>ce_open = 3, ce_ring = 4, ce_calloc = True, ce_saved = None\<rparr>,
      me_ctrl2 = \<lparr>ce_open = 3, ce_ring = 4, ce_calloc = True, ce_saved = None\<rparr>, me_mem = True,
      me_dev = \<lparr>de_open = (\<lambda>_. Inl 5), de_pid = \<lparr>ps_open = 6, ps_trunc = True, ps_write = True, ps_pid = 77\<rparr>, de_garbage_fd = 0\<rparr>,
      me_infos = [], me_pid = 77, me_evt_ok = True, me_params = zero_params, me_pid_dir = Some ''/run/ublksrvd''\<rparr>"

definition sample_tgt :: "json tgt_type" where
  "sample_tgt = \<lparr>tt_name = ''null'', tt_ublk_flags = 0, tt_ublksrv_flags = 0, tt_ops = sample_ops\<rparr>"

abbreviation (input) "sample_ring0 \<equiv> \<lparr>fr_entries = 4, fr_pend = [], fr_sent = []\<rparr>"

section \<open>Properties\<close>



text \<open>If the device was added but its char device cannot be opened, the daemon fails and the device
  is deleted twice: once by the handler of the daemon and once more by the command that called it.\<close>

theorem add_failure_deletes_twice:
  assumes "ctrl_sys_ok K queued" "\<forall>n. de_open (me_dev E) n = Inr ENODEV"
    and "ublksrv_ctrl_add_dev K dev r = Some (ret1, dev1, r1)" "0 \<le> ret1"
    and "ublksrv_ctrl_get_affinity K (me_mem E) dev1 r1 = Some (0, c, r2)"
    and "add_and_start J K E tgt evt dev r = Some (ret, ids, r')"
  shows "ret = - EINVAL \<and> cmds queued r' = cmds queued r2 @ [UBLK_CMD_DEL_DEV, UBLK_CMD_DEL_DEV]"
proof -
  let ?ops = "Some (tt_ops tgt)"
  have "fst (ublksrv_dev_init (me_dev E) ?ops c) = None"
    using assms(2) by (simp add: ublksrv_dev_init_def Let_def open_cdev.simps)
  then have h: "ublksrv_start_daemon J K E ?ops evt dev1 r1 = map_option (\<lambda>(e, r3). (- EINVAL, c, [], r3)) (ublksrv_ctrl_del_dev K c r2)"
    using assms(5) by (simp add: ublksrv_start_daemon_def ublksrv_device_handler_def Let_def)
  then obtain e3 r3 where d3: "ublksrv_ctrl_del_dev K c r2 = Some (e3, r3)"
    using assms(3,4,6) by (cases "ublksrv_ctrl_del_dev K c r2") (auto simp: add_and_start_def Let_def)
  then obtain e4 where d4: "ret = - EINVAL" "ublksrv_ctrl_del_dev K c r3 = Some (e4, r')"
    using assms(3,4,6) h by (auto simp: add_and_start_def Let_def)
  then show ?thesis using cmds_del [OF assms(1) d3] cmds_del [OF assms(1) d4(2)] by simp
qed

theorem add_failure_deletes_twice_witness:
  "\<exists>ids r'. add_and_start (plain_json 100) (info_driver (\<lambda>_. 0) sample_info)
     (sample_main\<lparr>me_dev := (me_dev sample_main)\<lparr>de_open := (\<lambda>_. Inr ENODEV)\<rparr>\<rparr>) sample_tgt 7 sample_ctrl sample_ring0 = Some (- EINVAL, ids, r') \<and>
     drop 2 (cmds fr_queued r') = [UBLK_CMD_DEL_DEV, UBLK_CMD_DEL_DEV]"
proof -
  let ?K = "info_driver (\<lambda>_. 0) sample_info" and ?E = "sample_main\<lparr>me_dev := (me_dev sample_main)\<lparr>de_open := (\<lambda>_. Inr ENODEV)\<rparr>\<rparr>"
  have "case ublksrv_ctrl_add_dev ?K sample_ctrl sample_ring0 of None \<Rightarrow> False
      | Some (ret1, dev1, r1) \<Rightarrow> 0 \<le> ret1 \<and> (case ublksrv_ctrl_get_affinity ?K True dev1 r1 of None \<Rightarrow> False
         | Some (ret2, c, r2) \<Rightarrow> ret2 = 0 \<and> cmds fr_queued r2 = [4, 1])" by code_simp
  then obtain ret1 dev1 r1 c r2 where p: "ublksrv_ctrl_add_dev ?K sample_ctrl sample_ring0 = Some (ret1, dev1, r1)" "0 \<le> ret1"
    "ublksrv_ctrl_get_affinity ?K (me_mem ?E) dev1 r1 = Some (0, c, r2)" "cmds fr_queued r2 = [4, 1]"
    by (auto simp: sample_main_def split: option.splits)
  have "case add_and_start (plain_json 100) ?K ?E sample_tgt 7 sample_ctrl sample_ring0 of None \<Rightarrow> False | Some x \<Rightarrow> True" by code_simp
  then obtain ret ids r' where a: "add_and_start (plain_json 100) ?K ?E sample_tgt 7 sample_ctrl sample_ring0 = Some (ret, ids, r')"
    by (auto split: option.splits)
  have "\<forall>n. de_open (me_dev ?E) n = Inr ENODEV" by simp
  from add_failure_deletes_twice [OF info_driver_ok(1) this p(1-3) a] a p(4) show ?thesis by simp
qed

end
