(* ===== verification/Dma_Buf.thy ===== *)
theory Dma_Buf
  imports Ublk_Prelude
begin

text \<open>
  targets/dma_buf.c: a pool of memory with the physical addresses of its pages. The page map of the
  process is a parameter: its entry for a virtual page number. Results of system calls are arguments;
  an error is an errno.
\<close>

unbundle bit_operations_syntax

abbreviation (input) "PAGE_SIZE \<equiv> (4096::u64)"
abbreviation (input) "DMA_BUF_PHYS_ERROR \<equiv> (-1::u64)"
abbreviation (input) "PM_PRESENT \<equiv> (0x8000000000000000::u64)"
abbreviation (input) "PM_PFN \<equiv> (0x007fffffffffffff::u64)"

section \<open>The pool\<close>

record dma_buf_pool =
  dp_base :: u64
  dp_size :: u64
  dp_cache :: "u64 list option"
  dp_nr_pages :: u64

definition dma_buf_pool_init :: "int + u64 \<Rightarrow> u64 \<Rightarrow> dma_buf_pool \<Rightarrow> int \<times> dma_buf_pool" where
  "dma_buf_pool_init mmap_res sz pool = (case mmap_res of
     Inl errno \<Rightarrow> (- errno, pool\<lparr>dp_base := 0\<rparr>)
   | Inr addr \<Rightarrow> (0, \<lparr>dp_base = addr, dp_size = sz, dp_cache = None, dp_nr_pages = 0\<rparr>))"

text \<open>
  Reading the page map: \<open>rd off n\<close> is the outcome of reading \<open>n\<close> bytes at offset \<open>off\<close>, an errno or
  the entries read.
\<close>

record pagemap_sys =
  pm_malloc :: bool
  pm_open :: "int option"
  pm_read :: "u64 \<Rightarrow> u64 \<Rightarrow> int + u64 list"

definition dma_buf_pool_read_pagemap :: "pagemap_sys \<Rightarrow> dma_buf_pool \<Rightarrow> int \<times> dma_buf_pool" where
  "dma_buf_pool_read_pagemap S pool =
     (let nr_pages = dp_size pool div PAGE_SIZE in
      if \<not> pm_malloc S then (- ENOMEM, pool\<lparr>dp_cache := None\<rparr>)
      else case pm_open S of
        Some errno \<Rightarrow> (- errno, pool\<lparr>dp_cache := None\<rparr>)
      | None \<Rightarrow>
          (case pm_read S ((dp_base pool div PAGE_SIZE) * 8) (nr_pages * 8) of
             Inl errno \<Rightarrow> (- errno, pool\<lparr>dp_cache := None\<rparr>)
           | Inr entries \<Rightarrow>
               if int (length entries * 8) \<noteq> uint (nr_pages * 8) then (- EIO, pool\<lparr>dp_cache := None\<rparr>)
               else (0, pool\<lparr>dp_cache := Some entries, dp_nr_pages := nr_pages\<rparr>)))"

text \<open>\<open>None\<close>: the array of entries is read out of its bounds.\<close>

definition dma_buf_pool_virt_to_phys :: "dma_buf_pool \<Rightarrow> u64 \<Rightarrow> u64 option" where
  "dma_buf_pool_virt_to_phys pool va = (case dp_cache pool of
     None \<Rightarrow> Some DMA_BUF_PHYS_ERROR
   | Some cache \<Rightarrow>
       if va < dp_base pool \<or> va \<ge> dp_base pool + dp_size pool then Some DMA_BUF_PHYS_ERROR
       else (let page_idx = unat ((va - dp_base pool) div PAGE_SIZE)
             in if page_idx \<ge> length cache then None
                else let entry = cache ! page_idx
                     in if \<not> has entry PM_PRESENT then Some DMA_BUF_PHYS_ERROR
                        else Some ((entry AND PM_PFN) * PAGE_SIZE + (va AND (PAGE_SIZE - 1)))))"

text \<open>The unmapped area, if any.\<close>

definition dma_buf_pool_deinit :: "dma_buf_pool \<Rightarrow> (u64 \<times> u64) option \<times> dma_buf_pool" where
  "dma_buf_pool_deinit pool =
     (if dp_base pool \<noteq> 0 \<and> dp_base pool \<noteq> -1 then Some (dp_base pool, dp_size pool) else None,
      \<lparr>dp_base = (if dp_base pool \<noteq> 0 \<and> dp_base pool \<noteq> -1 then 0 else dp_base pool), dp_size = 0,
       dp_cache = None, dp_nr_pages = 0\<rparr>)"

section \<open>Lemmas\<close>

text \<open>The page map as the documentation of /proc/pid/pagemap has it: entry \<open>i\<close> is at offset \<open>8 i\<close>.\<close>

definition pagemap_reads :: "pagemap_sys \<Rightarrow> (nat \<Rightarrow> u64) \<Rightarrow> bool" where
  "pagemap_reads S pm \<longleftrightarrow> pm_malloc S \<and> pm_open S = None \<and>
     (\<forall>page n. page + n < 2 ^ 52 \<longrightarrow>
        pm_read S (of_nat page * 8) (of_nat n * 8) = Inr (map pm [page..<page + n]))"

text \<open>What the page map says of an address.\<close>

definition phys_of :: "(nat \<Rightarrow> u64) \<Rightarrow> u64 \<Rightarrow> u64" where
  "phys_of pm va =
     (let entry = pm (unat va div 4096)
      in if has entry PM_PRESENT then (entry AND PM_PFN) * PAGE_SIZE + va mod PAGE_SIZE else DMA_BUF_PHYS_ERROR)"

definition pool_area :: "u64 \<Rightarrow> u64 \<Rightarrow> bool" where
  "pool_area base sz \<longleftrightarrow> unat base mod 4096 = 0 \<and> unat sz mod 4096 = 0 \<and> unat base + unat sz < 2 ^ 64"

lemma and_page_mask: "(va::u64) AND 4095 = va mod 4096"
proof -
  have "va AND 4095 = va AND mask 12" by (simp add: mask_eq_exp_minus_1)
  also have "\<dots> = va mod 2 ^ 12" by (simp only: take_bit_eq_mask [symmetric] take_bit_eq_mod)
  finally show ?thesis by simp
qed

lemma page_div: "(w::u64) div 4096 = of_nat (unat w div 4096)"
proof -
  have "unat w < 18446744073709551616" by (rule order.strict_trans2 [OF unsigned_less]) simp
  then have "unat w div 4096 < 18446744073709551616" by (rule le_less_trans [OF div_le_dividend])
  then show ?thesis by (intro word_unat_eq_iff [THEN iffD2]) (simp add: unat_div_distrib unat_of_nat take_bit_nat_eq_self)
qed

lemma read_pagemap_ok:
  assumes "pagemap_reads S pm" "pool_area (dp_base pool) (dp_size pool)"
  shows "dma_buf_pool_read_pagemap S pool = (0, pool\<lparr>
    dp_cache := Some (map pm [unat (dp_base pool) div 4096..<unat (dp_base pool) div 4096 + unat (dp_size pool) div 4096]),
    dp_nr_pages := dp_size pool div PAGE_SIZE\<rparr>)"
proof -
  let ?b = "unat (dp_base pool)" and ?s = "unat (dp_size pool)"
  have "?b + ?s < 18446744073709551616" using assms(2) by (simp add: pool_area_def)
  then have "?b div 4096 + ?s div 4096 < 4503599627370496" by linarith
  then have p: "?b div 4096 + ?s div 4096 < 2 ^ 52" by simp
  have r: "pm_read S (dp_base pool div 4096 * 8) (dp_size pool div 4096 * 8) = Inr (map pm [?b div 4096..<?b div 4096 + ?s div 4096])"
    using assms(1) p by (simp add: pagemap_reads_def page_div)
  have "unat (of_nat (?s div 4096) * 8 :: u64) = ?s div 4096 * 8"
    using p by (subst unat_word_ariths) (simp add: unat_of_nat take_bit_nat_eq_self)
  then have "uint (dp_size pool div 4096 * 8) = int (?s div 4096 * 8)"
    by (metis page_div uint_nat)
  then show ?thesis
    using assms(1) r by (simp add: dma_buf_pool_read_pagemap_def pagemap_reads_def Let_def)
qed

lemma virt_to_phys_in:
  assumes area: "pool_area b s" and c: "dp_base pool = b" "dp_size pool = s"
    "dp_cache pool = Some (map pm [unat b div 4096..<unat b div 4096 + unat s div 4096])"
    and va: "b \<le> va" "unat va < unat b + unat s"
  shows "dma_buf_pool_virt_to_phys pool va = Some (phys_of pm va)"
proof -
  let ?i = "unat ((va - b) div 4096)"
  have sum: "unat (b + s) = unat b + unat s" using area by (simp add: pool_area_def unat_word_ariths)
  have le: "unat b \<le> unat va" using va(1) by (simp add: word_le_nat_alt)
  have i: "?i = (unat va - unat b) div 4096" using va(1) by (simp add: unat_div_distrib unat_sub)
  have al: "unat b mod 4096 = 0" "unat s mod 4096 = 0" using area by (simp_all add: pool_area_def)
  obtain k m where k: "unat b = 4096 * k" "unat s = 4096 * m" using al by (metis mod_0_imp_dvd dvdE)
  have "unat va - unat b < m * 4096" using va(2) le k by simp
  then have lt: "?i < unat s div 4096" using i k(2) by (simp add: div_less_iff_less_mult)
  have "unat va div 4096 = (4096 * k + (unat va - unat b)) div 4096" using le k(1) by simp
  then have pg: "unat b div 4096 + ?i = unat va div 4096" using i k(1) by simp
  have "\<not> va < b" "\<not> b + s \<le> va" using va sum by (simp_all add: word_le_nat_alt word_less_nat_alt)
  then show ?thesis
    using c lt pg by (simp add: dma_buf_pool_virt_to_phys_def phys_of_def Let_def and_page_mask)
qed

section \<open>Properties\<close>

text \<open>C37: Once the page map was read, the pool translates every address of its area to the physical
  address that the page map gives for it, with no access outside the array of entries, and refuses
  every other address.\<close>

theorem dma_translation:
  assumes "pagemap_reads S pm" "pool_area b s" "dma_buf_pool_init (Inr b) s p0 = (ret0, pool)"
  shows "\<exists>pool'. dma_buf_pool_read_pagemap S pool = (0, pool') \<and>
    dma_buf_pool_virt_to_phys pool' va =
      Some (if b \<le> va \<and> unat va < unat b + unat s then phys_of pm va else DMA_BUF_PHYS_ERROR)"
proof -
  have p: "dp_base pool = b" "dp_size pool = s" using assms(3) by (auto simp: dma_buf_pool_init_def)
  let ?pool = "pool\<lparr>dp_cache := Some (map pm [unat b div 4096..<unat b div 4096 + unat s div 4096]), dp_nr_pages := s div PAGE_SIZE\<rparr>"
  have r: "dma_buf_pool_read_pagemap S pool = (0, ?pool)" using read_pagemap_ok [OF assms(1), of pool] assms(2) p by simp
  have sum: "unat (b + s) = unat b + unat s" using assms(2) by (simp add: pool_area_def unat_word_ariths)
  show ?thesis
  proof (cases "b \<le> va \<and> unat va < unat b + unat s")
    case True
    then have "dma_buf_pool_virt_to_phys ?pool va = Some (phys_of pm va)"
      using virt_to_phys_in [OF assms(2), of ?pool pm va] p by simp
    then show ?thesis using r True by simp
  next
    case False
    then have "va < b \<or> b + s \<le> va" using sum by (auto simp: word_le_nat_alt word_less_nat_alt)
    then have "dma_buf_pool_virt_to_phys ?pool va = Some DMA_BUF_PHYS_ERROR"
      using p by (simp add: dma_buf_pool_virt_to_phys_def)
    then show ?thesis using r False by auto
  qed
qed

definition sample_pm :: "nat \<Rightarrow> u64" where
  "sample_pm page = PM_PRESENT OR of_nat (page + 0x100)"

definition sample_pmsys :: pagemap_sys where
  "sample_pmsys = \<lparr>pm_malloc = True, pm_open = None,
     pm_read = (\<lambda>off n. Inr (map sample_pm [unat off div 8..<unat off div 8 + unat n div 8]))\<rparr>"

lemma sample_pm_reads: "pagemap_reads sample_pmsys sample_pm"
proof -
  have "unat (of_nat n * 8 :: u64) div 8 = n" if "n < 2 ^ 52" for n
    using that by (simp add: unat_word_ariths unat_of_nat take_bit_nat_eq_self)
  then show ?thesis by (simp add: pagemap_reads_def sample_pmsys_def)
qed

theorem dma_translation_witness:
  "\<exists>pool'. dma_buf_pool_read_pagemap sample_pmsys \<lparr>dp_base = 0x200000, dp_size = 0x200000, dp_cache = None, dp_nr_pages = 0\<rparr> = (0, pool') \<and>
     dma_buf_pool_virt_to_phys pool' 0x201234 = Some 0x301234"
proof -
  have "phys_of sample_pm 0x201234 = 0x301234" by (simp add: phys_of_def sample_pm_def has_def)
  then show ?thesis
    using dma_translation [OF sample_pm_reads, of "0x200000" "0x200000" undefined 0
        "\<lparr>dp_base = 0x200000, dp_size = 0x200000, dp_cache = None, dp_nr_pages = 0\<rparr>" "0x201234"]
    by (simp add: pool_area_def dma_buf_pool_init_def word_le_nat_alt)
qed

text \<open>Without the privilege to see frame numbers the page map reports present pages with frame
  number zero; the translation accepts them, so that every address of the pool becomes an address
  below 4096.\<close>

theorem dma_hidden_frames:
  assumes "pagemap_reads S pm" "pool_area b s" "dma_buf_pool_init (Inr b) s p0 = (ret0, pool)"
    and "\<forall>page. pm page = PM_PRESENT" "b \<le> va" "unat va < unat b + unat s"
  shows "\<exists>pool'. dma_buf_pool_read_pagemap S pool = (0, pool') \<and> dma_buf_pool_virt_to_phys pool' va = Some (va mod PAGE_SIZE)"
proof -
  have p: "dp_base pool = b" "dp_size pool = s" using assms(3) by (auto simp: dma_buf_pool_init_def)
  let ?pool = "pool\<lparr>dp_cache := Some (map pm [unat b div 4096..<unat b div 4096 + unat s div 4096]), dp_nr_pages := s div PAGE_SIZE\<rparr>"
  have "phys_of pm va = va mod PAGE_SIZE" using assms(4) by (simp add: phys_of_def has_def)
  then have "dma_buf_pool_virt_to_phys ?pool va = Some (va mod PAGE_SIZE)"
    using virt_to_phys_in [OF assms(2) _ _ _ assms(5,6), of ?pool pm] p by simp
  then show ?thesis using read_pagemap_ok [OF assms(1), of pool] assms(2) p by simp
qed

theorem dma_hidden_frames_witness:
  "\<exists>pool'. dma_buf_pool_read_pagemap (sample_pmsys\<lparr>pm_read := (\<lambda>off n. Inr (replicate (unat n div 8) PM_PRESENT))\<rparr>)
       \<lparr>dp_base = 0x200000, dp_size = 0x200000, dp_cache = None, dp_nr_pages = 0\<rparr> = (0, pool') \<and>
     dma_buf_pool_virt_to_phys pool' 0x201234 = Some 0x234"
proof -
  have "unat (of_nat n * 8 :: u64) div 8 = n" if "n < 2 ^ 52" for n
    using that by (simp add: unat_word_ariths unat_of_nat take_bit_nat_eq_self)
  then have "pagemap_reads (sample_pmsys\<lparr>pm_read := (\<lambda>off n. Inr (replicate (unat n div 8) PM_PRESENT))\<rparr>) (\<lambda>_. PM_PRESENT)"
    by (simp add: pagemap_reads_def sample_pmsys_def map_replicate_const)
  from dma_hidden_frames [OF this, of "0x200000" "0x200000" undefined 0
      "\<lparr>dp_base = 0x200000, dp_size = 0x200000, dp_cache = None, dp_nr_pages = 0\<rparr>" "0x201234"]
  show ?thesis by (simp add: pool_area_def dma_buf_pool_init_def word_le_nat_alt)
qed

end
