(* ===== verification/Nvme_Ring.thy ===== *)
theory Nvme_Ring
  imports Ublk_Prelude "HOL-Library.Multiset"
begin

text \<open>
  The submission and completion rings of targets/nvme/ublk.nvme_vfio.cpp with the structures of
  nvme.h, and the controller behind them as a step relation: it fetches the commands the doorbell
  shows it and posts their completions in any order. The buffers of a queue are lists of entries,
  its doorbells the values last written to them.
\<close>

unbundle bit_operations_syntax

section \<open>Structures of nvme.h\<close>

abbreviation (input) "NVME_ADMIN_DELETE_SQ \<equiv> (0x00::u8)"
abbreviation (input) "NVME_ADMIN_CREATE_SQ \<equiv> (0x01::u8)"
abbreviation (input) "NVME_ADMIN_DELETE_CQ \<equiv> (0x04::u8)"
abbreviation (input) "NVME_ADMIN_CREATE_CQ \<equiv> (0x05::u8)"
abbreviation (input) "NVME_ADMIN_IDENTIFY \<equiv> (0x06::u8)"
abbreviation (input) "NVME_CMD_FLUSH \<equiv> (0x00::u8)"
abbreviation (input) "NVME_CMD_WRITE \<equiv> (0x01::u8)"
abbreviation (input) "NVME_CMD_READ \<equiv> (0x02::u8)"
abbreviation (input) "NVME_CMD_DSM \<equiv> (0x09::u8)"

record nvme_common_command =
  cm_opcode :: u8
  cm_flags :: u8
  cm_cid :: u16
  cm_nsid :: u32
  cm_prp1 :: u64
  cm_prp2 :: u64
  cm_cdw10 :: u32
  cm_cdw11 :: u32

record nvme_rw_command =
  rw_opcode :: u8
  rw_flags :: u8
  rw_cid :: u16
  rw_nsid :: u32
  rw_prp1 :: u64
  rw_prp2 :: u64
  rw_slba :: u64
  rw_length :: u16
  rw_control :: u16

record nvme_create_cq =
  ccq_opcode :: u8
  ccq_prp1 :: u64
  ccq_cqid :: u16
  ccq_qsize :: u16
  ccq_cq_flags :: u16
  ccq_irq_vector :: u16

record nvme_create_sq =
  csq_opcode :: u8
  csq_prp1 :: u64
  csq_sqid :: u16
  csq_qsize :: u16
  csq_sq_flags :: u16
  csq_cqid :: u16

record nvme_delete_queue =
  dq_opcode :: u8
  dq_qid :: u16

record nvme_identify =
  idc_opcode :: u8
  idc_nsid :: u32
  idc_prp1 :: u64
  idc_cns :: u32

text \<open>An entry of a submission buffer, by the structure that was copied to it.\<close>

datatype nvme_cmd =
    NoCmd
  | Common nvme_common_command
  | Rw nvme_rw_command
  | CreateCq nvme_create_cq
  | CreateSq nvme_create_sq
  | DeleteQueue nvme_delete_queue
  | Identify nvme_identify

fun cmd_cid :: "nvme_cmd \<Rightarrow> u16" where
  "cmd_cid (Common c) = cm_cid c"
| "cmd_cid (Rw c) = rw_cid c"
| "cmd_cid _ = 0"

record nvme_completion =
  ce_command_id :: u16
  ce_status :: u16

section \<open>A queue pair\<close>

record nvme_dma_mapping =
  dm_vaddr :: u64
  dm_iova :: u64
  dm_size :: u64

record nvme_queue =
  nq_qid :: u16
  nq_qsize :: u16
  nq_sq_buffer :: u64
  nq_cq_buffer :: u64
  nq_sq_iova :: u64
  nq_cq_iova :: u64
  nq_sq_mapping :: nvme_dma_mapping
  nq_cq_mapping :: nvme_dma_mapping
  nq_sq_tail :: u16
  nq_last_sq_tail :: u16
  nq_cq_head :: u16
  nq_cq_phase :: u8
  nq_sq_doorbell :: u64
  nq_cq_doorbell :: u64
  nq_sq :: "nvme_cmd list"
  nq_cq :: "nvme_completion list"
  nq_sq_db :: u32
  nq_cq_db :: u32

definition nvme_sq_flush :: "nvme_queue \<Rightarrow> nvme_queue" where
  "nvme_sq_flush nvmeq =
     (if nq_sq_tail nvmeq \<noteq> nq_last_sq_tail nvmeq
      then nvmeq\<lparr>nq_sq_db := ucast (nq_sq_tail nvmeq), nq_last_sq_tail := nq_sq_tail nvmeq\<rparr>
      else nvmeq)"

definition nvme_sq_submit_cmd :: "nvme_queue \<Rightarrow> nvme_queue" where
  "nvme_sq_submit_cmd nvmeq0 =
     (let tail1 = nq_sq_tail nvmeq0 + 1;
          nvmeq = nvmeq0\<lparr>nq_sq_tail := if tail1 = nq_qsize nvmeq0 then 0 else tail1\<rparr>;
          pending = (uint (nq_sq_tail nvmeq) + uint (nq_qsize nvmeq) - uint (nq_last_sq_tail nvmeq))
                      mod uint (nq_qsize nvmeq);
          next1 = nq_sq_tail nvmeq + 1;
          next_tail = (if next1 = nq_qsize nvmeq then 0 else next1)
      in if pending \<ge> 32 then nvme_sq_flush nvmeq
         else if next_tail = nq_last_sq_tail nvmeq then nvme_sq_flush nvmeq
         else nvmeq)"

text \<open>Copying a command to the submission buffer and submitting it, as each io path ends.\<close>

definition sq_copy_submit :: "nvme_cmd \<Rightarrow> nvme_queue \<Rightarrow> nvme_queue" where
  "sq_copy_submit c nvmeq =
     nvme_sq_submit_cmd (nvmeq\<lparr>nq_sq := (nq_sq nvmeq)[unat (nq_sq_tail nvmeq) := c]\<rparr>)"

definition nvme_cqe_pending :: "nvme_queue \<Rightarrow> bool" where
  "nvme_cqe_pending nvmeq \<longleftrightarrow>
     ce_status (nq_cq nvmeq ! unat (nq_cq_head nvmeq)) AND 1 = ucast (nq_cq_phase nvmeq)"

definition nvme_update_cq_head :: "nvme_queue \<Rightarrow> nvme_queue" where
  "nvme_update_cq_head nvmeq =
     (let tmp = (ucast (nq_cq_head nvmeq) :: u32) + 1
      in if tmp = ucast (nq_qsize nvmeq)
         then nvmeq\<lparr>nq_cq_head := 0, nq_cq_phase := nq_cq_phase nvmeq XOR 1\<rparr>
         else nvmeq\<lparr>nq_cq_head := ucast tmp\<rparr>)"

section \<open>The controller\<close>

text \<open>
  A queue pair together with its controller: the controller's position in either ring, its phase,
  and the commands it works on; \<open>busy\<close> holds the tags whose command was submitted and whose
  completion was not taken. The other components record the history: commands in the order of their
  submission and of their fetching, completions in the order they were posted and taken.
\<close>

record nvme_sys =
  ns_q :: nvme_queue
  ns_head :: nat
  ns_tail :: nat
  ns_phase :: bool
  ns_work :: "nvme_cmd list"
  ns_busy :: "nat set"
  ns_submitted :: "nvme_cmd list"
  ns_fetched :: "nvme_cmd list"
  ns_posted :: "(u16 \<times> u16) list"
  ns_taken :: "(u16 \<times> u16) list"

definition cqe_of :: "u16 \<times> u16 \<Rightarrow> bool \<Rightarrow> nvme_completion" where
  "cqe_of e ph = \<lparr>ce_command_id = fst e, ce_status = push_bit 1 (snd e) OR of_bool ph\<rparr>"

definition post_cqe :: "u16 \<times> u16 \<Rightarrow> nvme_sys \<Rightarrow> nvme_sys" where
  "post_cqe e s =
     (let n = unat (nq_qsize (ns_q s)) in
      s\<lparr>ns_q := (ns_q s)\<lparr>nq_cq := (nq_cq (ns_q s))[ns_tail s := cqe_of e (ns_phase s)]\<rparr>,
        ns_tail := (ns_tail s + 1) mod n,
        ns_phase := (if ns_tail s + 1 = n then \<not> ns_phase s else ns_phase s),
        ns_posted := ns_posted s @ [e]\<rparr>)"

definition head_cqe :: "nvme_queue \<Rightarrow> u16 \<times> u16" where
  "head_cqe nvmeq =
     (let cqe = nq_cq nvmeq ! unat (nq_cq_head nvmeq) in (ce_command_id cqe, drop_bit 1 (ce_status cqe)))"

inductive nvme_step :: "nvme_sys \<Rightarrow> nvme_sys \<Rightarrow> bool" where
  host_submits:
    "unat (cmd_cid c) < unat (nq_qsize (ns_q s)) - 1 \<Longrightarrow> unat (cmd_cid c) \<notin> ns_busy s \<Longrightarrow>
     nvme_step s (s\<lparr>ns_q := sq_copy_submit c (ns_q s), ns_busy := insert (unat (cmd_cid c)) (ns_busy s),
       ns_submitted := ns_submitted s @ [c]\<rparr>)"
| host_flushes: "nvme_step s (s\<lparr>ns_q := nvme_sq_flush (ns_q s)\<rparr>)"
| ctrl_fetches:
    "ns_head s \<noteq> unat (nq_sq_db (ns_q s)) \<Longrightarrow> c = nq_sq (ns_q s) ! ns_head s \<Longrightarrow>
     nvme_step s (s\<lparr>ns_head := (ns_head s + 1) mod unat (nq_qsize (ns_q s)), ns_work := ns_work s @ [c],
       ns_fetched := ns_fetched s @ [c]\<rparr>)"
| ctrl_posts:
    "c \<in> set (ns_work s) \<Longrightarrow> snd e < 2 ^ 15 \<Longrightarrow> fst e = cmd_cid c \<Longrightarrow>
     nvme_step s (post_cqe e (s\<lparr>ns_work := remove1 c (ns_work s)\<rparr>))"
| host_takes:
    "nvme_cqe_pending (ns_q s) \<Longrightarrow> e = head_cqe (ns_q s) \<Longrightarrow>
     nvme_step s (s\<lparr>ns_q := nvme_update_cq_head (ns_q s), ns_busy := ns_busy s - {unat (fst e)},
       ns_taken := ns_taken s @ [e]\<rparr>)"
| host_rings_cq: "nvme_step s (s\<lparr>ns_q := (ns_q s)\<lparr>nq_cq_db := ucast (nq_cq_head (ns_q s))\<rparr>\<rparr>)"

text \<open>A queue as \<open>nvme_queue_init\<close> leaves it, before the controller did anything.\<close>

definition queue_fresh :: "nvme_queue \<Rightarrow> bool" where
  "queue_fresh nvmeq \<longleftrightarrow> 2 \<le> unat (nq_qsize nvmeq) \<and>
     length (nq_sq nvmeq) \<ge> unat (nq_qsize nvmeq) \<and> length (nq_cq nvmeq) \<ge> unat (nq_qsize nvmeq) \<and>
     (\<forall>i < unat (nq_qsize nvmeq). nq_cq nvmeq ! i = \<lparr>ce_command_id = 0, ce_status = 0\<rparr>) \<and>
     nq_sq_tail nvmeq = 0 \<and> nq_last_sq_tail nvmeq = 0 \<and> nq_cq_head nvmeq = 0 \<and> nq_cq_phase nvmeq = 1 \<and>
     nq_sq_db nvmeq = 0 \<and> nq_cq_db nvmeq = 0"

definition sys_start :: "nvme_queue \<Rightarrow> nvme_sys" where
  "sys_start nvmeq = \<lparr>ns_q = nvmeq, ns_head = 0, ns_tail = 0, ns_phase = True, ns_work = [], ns_busy = {},
     ns_submitted = [], ns_fetched = [], ns_posted = [], ns_taken = []\<rparr>"

inductive nvme_reach :: "nvme_sys \<Rightarrow> bool" where
  reach_start: "queue_fresh nvmeq \<Longrightarrow> nvme_reach (sys_start nvmeq)"
| reach_step: "nvme_reach s \<Longrightarrow> nvme_step s s' \<Longrightarrow> nvme_reach s'"

section \<open>The submission ring holds a sequence\<close>

text \<open>
  The ring of \<open>n\<close> entries holds the submitted commands from \<open>H\<close>, the number of those fetched, on;
  the doorbell shows the first \<open>F\<close>.
\<close>

definition sq_inv :: "nat \<Rightarrow> nat \<Rightarrow> nat \<Rightarrow> nvme_cmd list \<Rightarrow> nvme_queue \<Rightarrow> bool" where
  "sq_inv n F H subm nvmeq \<longleftrightarrow>
     unat (nq_qsize nvmeq) = n \<and> 2 \<le> n \<and> n \<le> length (nq_sq nvmeq) \<and>
     H \<le> F \<and> F \<le> length subm \<and> length subm < F + 32 \<and> length subm < H + n \<and>
     unat (nq_sq_tail nvmeq) = length subm mod n \<and> unat (nq_last_sq_tail nvmeq) = F mod n \<and>
     unat (nq_sq_db nvmeq) = F mod n \<and>
     (\<forall>i. H \<le> i \<and> i < length subm \<longrightarrow> nq_sq nvmeq ! (i mod n) = subm ! i)"

lemma mod_near_neq:
  assumes "(i::nat) < j" "j < i + n"
  shows "i mod n \<noteq> j mod n"
proof
  assume "i mod n = j mod n"
  then have "n dvd j - i" using assms(1) mod_eq_dvd_iff_nat [of i j n] by simp
  then show False using assms by (auto dest: dvd_imp_le)
qed

lemma mod_near_eq: "(i::nat) \<le> j \<Longrightarrow> j < i + n \<Longrightarrow> i mod n = j mod n \<Longrightarrow> i = j"
  using mod_near_neq [of i j n] by fastforce

lemma unat_u16_less: "unat (w::u16) < 65536"
  by (rule order.strict_trans2 [OF unsigned_less]) simp

lemma ring_next:
  assumes "unat (t::u16) = k mod n" "unat (m::u16) = n" "0 < n"
  shows "unat (if t + 1 = m then 0 else t + 1) = Suc k mod n"
proof -
  have lt: "unat t + 1 \<le> unat m" using assms by (simp add: Suc_le_eq)
  have "unat (t + 1) = unat t + 1"
    using lt unat_u16_less [of m] by (simp add: unat_word_ariths)
  then have "t + 1 = m \<longleftrightarrow> Suc (k mod n) = n" using assms(1,2) by (metis Suc_eq_plus1 word_unat_eq_iff)
  then show ?thesis using \<open>unat (t + 1) = unat t + 1\<close> assms(1) by (simp add: mod_Suc)
qed

lemma unat_u16_u32 [simp]: "unat (ucast (w::u16) :: u32) = unat w"
proof -
  have "take_bit 32 (unat w) = unat w" using unat_u16_less [of w] by (intro take_bit_nat_eq_self) simp
  then show ?thesis by (simp add: unsigned_ucast_eq)
qed

lemma flush_sel [simp]:
  "nq_qsize (nvme_sq_flush q) = nq_qsize q" "nq_sq (nvme_sq_flush q) = nq_sq q"
  "nq_sq_tail (nvme_sq_flush q) = nq_sq_tail q" "nq_last_sq_tail (nvme_sq_flush q) = nq_sq_tail q"
  "nq_cq (nvme_sq_flush q) = nq_cq q" "nq_cq_head (nvme_sq_flush q) = nq_cq_head q"
  "nq_cq_phase (nvme_sq_flush q) = nq_cq_phase q" "nq_cq_db (nvme_sq_flush q) = nq_cq_db q"
  by (simp_all add: nvme_sq_flush_def)

lemma flush_sq_inv:
  assumes "sq_inv n F H subm q"
  shows "sq_inv n (length subm) H subm (nvme_sq_flush q)"
proof (cases "nq_sq_tail q = nq_last_sq_tail q")
  case True
  then show ?thesis using assms by (simp add: sq_inv_def nvme_sq_flush_def)
next
  case False
  then show ?thesis using assms by (simp add: sq_inv_def nvme_sq_flush_def unat_u16_u32)
qed

lemma pending_count:
  assumes "sq_inv n F H subm q"
  shows "(uint (nq_sq_tail q) + uint (nq_qsize q) - uint (nq_last_sq_tail q)) mod uint (nq_qsize q)
    = int (length subm) - int F"
proof -
  let ?S = "int (length subm)"
  have h: "uint (nq_sq_tail q) = ?S mod int n" "uint (nq_qsize q) = int n" "uint (nq_last_sq_tail q) = int F mod int n"
    "0 \<le> ?S - int F" "?S - int F < int n"
    using assms by (auto simp: sq_inv_def uint_nat zmod_int)
  have "(?S mod int n + int n - int F mod int n) mod int n = (?S - int F) mod int n"
    by (metis mod_add_self2 mod_diff_left_eq mod_diff_right_eq mod_diff_eq)
  then show ?thesis using h by (simp add: mod_pos_pos_trivial)
qed

lemma submit_sq_inv:
  assumes inv: "sq_inv n F H subm q" and room: "length subm + 1 < H + n"
  shows "\<exists>F'. sq_inv n F' H (subm @ [c]) (sq_copy_submit c q)"
proof -
  let ?S = "length subm"
  let ?t = "nq_sq_tail q + 1"
  let ?q = "q\<lparr>nq_sq := (nq_sq q)[unat (nq_sq_tail q) := c]\<rparr>"
  let ?q1 = "?q\<lparr>nq_sq_tail := if ?t = nq_qsize q then 0 else ?t\<rparr>"
  have n: "unat (nq_qsize q) = n" "2 \<le> n" "n \<le> length (nq_sq q)" "unat (nq_sq_tail q) = ?S mod n"
    using inv by (auto simp: sq_inv_def)
  then have lt: "?S mod n < length (nq_sq q)" by (meson less_le_trans mod_less_divisor zero_less_numeral order.strict_trans2)
  have old: "i mod n \<noteq> ?S mod n \<and> nq_sq q ! (i mod n) = subm ! i" if "H \<le> i" "i < ?S" for i
    using mod_near_neq [of i ?S n] that room inv by (simp add: sq_inv_def)
  have "nq_sq ?q1 ! (i mod n) = (subm @ [c]) ! i" if "H \<le> i" "i < Suc ?S" for i
  proof (cases "i = ?S")
    case True
    then show ?thesis using lt n(4) by simp
  next
    case False
    then show ?thesis using old [of i] that n(4) by (simp add: nth_append)
  qed
  then have slots: "\<forall>i. H \<le> i \<and> i < length (subm @ [c]) \<longrightarrow> nq_sq ?q1 ! (i mod n) = (subm @ [c]) ! i" by simp
  have tail: "unat (nq_sq_tail ?q1) = length (subm @ [c]) mod n"
    using ring_next [OF n(4,1)] n(2) by simp
  show ?thesis
  proof (cases "?S + 1 < F + 32")
    case True
    then have i1: "sq_inv n F H (subm @ [c]) ?q1"
      using inv room slots tail unfolding sq_inv_def by simp
    have "sq_copy_submit c q = ?q1 \<or> sq_copy_submit c q = nvme_sq_flush ?q1"
      by (simp add: sq_copy_submit_def nvme_sq_submit_cmd_def Let_def)
    then show ?thesis using i1 flush_sq_inv [OF i1] by metis
  next
    case False
    let ?f = "nvme_sq_flush ?q1"
    have "F < ?S" using False by simp
    have S: "?S + 1 - F = 32" using False inv by (auto simp: sq_inv_def)
    have "H \<le> F" using inv by (simp add: sq_inv_def)
    then have n32: "32 < n" using S room \<open>F < ?S\<close> by linarith
    have "(uint (nq_sq_tail ?q1) + uint (nq_qsize q) - uint (nq_last_sq_tail q)) mod uint (nq_qsize q) = 32"
    proof -
      have h: "uint (nq_sq_tail ?q1) = int (?S + 1) mod int n" "uint (nq_qsize q) = int n"
        "uint (nq_last_sq_tail q) = int F mod int n"
        using inv tail n(1) by (auto simp: sq_inv_def uint_nat zmod_int simp del: of_nat_Suc of_nat_add)
      have "(int (?S + 1) mod int n + int n - int F mod int n) mod int n = (int (?S + 1) - int F) mod int n"
        by (metis mod_add_self2 mod_diff_left_eq mod_diff_right_eq mod_diff_eq)
      also have "int (?S + 1) - int F = 32" using S \<open>F < ?S\<close> by linarith
      also have "32 mod int n = 32" using n32 by simp
      finally show ?thesis using h by simp
    qed
    then have e: "sq_copy_submit c q = ?f" by (simp add: sq_copy_submit_def nvme_sq_submit_cmd_def Let_def)
    have "nq_sq_tail ?q1 \<noteq> nq_last_sq_tail q"
      using mod_near_neq [of F "?S + 1" n] \<open>F < ?S\<close> inv room tail by (auto simp: sq_inv_def)
    then have "unat (nq_sq_db ?f) = (?S + 1) mod n"
      using tail by (simp add: nvme_sq_flush_def unat_u16_u32)
    then have "sq_inv n (length (subm @ [c])) H (subm @ [c]) ?f"
      using inv room slots tail unfolding sq_inv_def by simp
    then show ?thesis using e by metis
  qed
qed

lemma fetch_sq_inv:
  assumes inv: "sq_inv n F H subm q" and new: "H mod n \<noteq> unat (nq_sq_db q)"
  shows "sq_inv n F (Suc H) subm q \<and> H < length subm \<and> nq_sq q ! (H mod n) = subm ! H"
proof -
  have "H \<noteq> F" using inv new by (auto simp: sq_inv_def)
  then show ?thesis using inv by (auto simp: sq_inv_def)
qed

section \<open>The completion ring holds a sequence\<close>

text \<open>
  The last \<open>n\<close> posted completions are in the ring, each with the phase of its round; entries not
  written yet are zero. \<open>K\<close> completions were taken.
\<close>

definition cq_inv :: "nat \<Rightarrow> nat \<Rightarrow> (u16 \<times> u16) list \<Rightarrow> nvme_queue \<Rightarrow> bool" where
  "cq_inv n K posted nvmeq \<longleftrightarrow>
     unat (nq_qsize nvmeq) = n \<and> 2 \<le> n \<and> n \<le> length (nq_cq nvmeq) \<and>
     K \<le> length posted \<and> length posted < K + n \<and>
     unat (nq_cq_head nvmeq) = K mod n \<and> nq_cq_phase nvmeq = of_bool (even (K div n)) \<and>
     (\<forall>i < length posted. length posted \<le> i + n \<longrightarrow>
        nq_cq nvmeq ! (i mod n) = cqe_of (posted ! i) (even (i div n))) \<and>
     (\<forall>i < n. length posted \<le> i \<longrightarrow> nq_cq nvmeq ! i = \<lparr>ce_command_id = 0, ce_status = 0\<rparr>) \<and>
     (\<forall>e \<in> set posted. snd e < 2 ^ 15)"

lemma status_phase: "ce_status (cqe_of e ph) AND 1 = of_bool ph"
proof -
  have "push_bit 1 (snd e) AND 1 = (0::u16)"
    by (rule bit_word_eqI) (simp only: bit_and_iff bit_push_bit_iff bit_1_iff, simp)
  then show ?thesis by (cases ph) (simp_all add: cqe_of_def bit.conj_disj_distrib2)
qed

lemma status_value:
  assumes "snd e < 2 ^ 15"
  shows "drop_bit 1 (ce_status (cqe_of e ph)) = snd e"
proof (rule bit_word_eqI)
  fix i assume "i < LENGTH(16)"
  moreover have "drop_bit 15 (snd e) = 0" using assms by (simp add: drop_bit_0_unat word_less_nat_alt)
  then have "\<not> bit (snd e) 15" by (simp add: drop_bit_0_iff)
  ultimately show "bit (drop_bit 1 (ce_status (cqe_of e ph))) i = bit (snd e) i"
    using bit_push_bit_iff [of 1 "snd e" "Suc i"] by (cases "i = 15") (auto simp: cqe_of_def bit_drop_bit_eq bit_or_iff bit_of_bool_iff)
qed

lemma cqe_pending_iff:
  assumes "cq_inv n K posted q"
  shows "nvme_cqe_pending q \<longleftrightarrow> K < length posted"
proof -
  have h: "unat (nq_cq_head q) = K mod n" "nq_cq_phase q = of_bool (even (K div n))" "2 \<le> n"
    "K \<le> length posted" "length posted < K + n"
    using assms by (auto simp: cq_inv_def)
  consider "K < length posted" | "K = length posted" "K < n" | "K = length posted" "n \<le> K" using h(4) by linarith
  then show ?thesis
  proof cases
    case 1
    then have "nq_cq q ! (K mod n) = cqe_of (posted ! K) (even (K div n))" using assms by (simp add: cq_inv_def)
    then show ?thesis using h 1 by (simp add: nvme_cqe_pending_def status_phase)
  next
    case 2
    then have "nq_cq q ! K = \<lparr>ce_command_id = 0, ce_status = 0\<rparr>" using assms by (simp add: cq_inv_def)
    then show ?thesis using h 2 by (simp add: nvme_cqe_pending_def)
  next
    case 3
    have m: "(K - n) mod n = K mod n" "even ((K - n) div n) \<longleftrightarrow> odd (K div n)"
      using 3(2) h(3) le_mod_geq [of n K] le_div_geq [of n K] by simp_all
    have "nq_cq q ! ((K - n) mod n) = cqe_of (posted ! (K - n)) (even ((K - n) div n))"
      using assms 3 h(3) unfolding cq_inv_def by simp
    then show ?thesis using h 3 m by (simp add: nvme_cqe_pending_def status_phase)
  qed
qed

lemma update_head_sel [simp]:
  "nq_qsize (nvme_update_cq_head q) = nq_qsize q" "nq_sq (nvme_update_cq_head q) = nq_sq q"
  "nq_sq_tail (nvme_update_cq_head q) = nq_sq_tail q" "nq_last_sq_tail (nvme_update_cq_head q) = nq_last_sq_tail q"
  "nq_sq_db (nvme_update_cq_head q) = nq_sq_db q" "nq_cq (nvme_update_cq_head q) = nq_cq q"
  "nq_cq_db (nvme_update_cq_head q) = nq_cq_db q"
  by (simp_all add: nvme_update_cq_head_def Let_def)

lemma update_head:
  assumes "unat (nq_cq_head q) = K mod n" "nq_cq_phase q = of_bool (even (K div n))" "unat (nq_qsize q) = n" "0 < n"
  shows "unat (nq_cq_head (nvme_update_cq_head q)) = Suc K mod n"
    "nq_cq_phase (nvme_update_cq_head q) = of_bool (even (Suc K div n))"
proof -
  let ?tmp = "(ucast (nq_cq_head q) :: u32) + 1"
  have t: "unat ?tmp = Suc (K mod n)"
    using unat_u16_less [of "nq_cq_head q"] assms(1) by (simp add: unat_word_ariths)
  have e: "?tmp = ucast (nq_qsize q) \<longleftrightarrow> Suc (K mod n) = n"
    using t assms(3) by (metis unat_u16_u32 word_unat_eq_iff)
  have u: "unat (ucast ?tmp :: u16) = Suc (K mod n)" if "Suc (K mod n) \<noteq> n"
  proof -
    have "Suc (K mod n) < n" using that assms(4) by (simp add: Suc_lessI)
    then have "take_bit 16 (Suc (K mod n)) = Suc (K mod n)"
      using unat_u16_less [of "nq_qsize q"] assms(3) by (intro take_bit_nat_eq_self) simp
    then show ?thesis using t by (simp add: unsigned_ucast_eq)
  qed
  show "unat (nq_cq_head (nvme_update_cq_head q)) = Suc K mod n"
    using e u by (simp add: nvme_update_cq_head_def Let_def mod_Suc)
  show "nq_cq_phase (nvme_update_cq_head q) = of_bool (even (Suc K div n))"
    using e assms(2) by (cases "even (K div n)") (auto simp: nvme_update_cq_head_def Let_def mod_Suc div_Suc)
qed

lemma take_cq_inv:
  assumes "cq_inv n K posted q" "K < length posted"
  shows "cq_inv n (Suc K) posted (nvme_update_cq_head q) \<and> head_cqe q = posted ! K"
proof -
  have h: "unat (nq_cq_head q) = K mod n" "nq_cq_phase q = of_bool (even (K div n))" "unat (nq_qsize q) = n" "2 \<le> n"
    using assms by (auto simp: cq_inv_def)
  have "nq_cq q ! (K mod n) = cqe_of (posted ! K) (even (K div n))" "snd (posted ! K) < 2 ^ 15"
    using assms unfolding cq_inv_def by simp_all
  then have "head_cqe q = posted ! K"
    using h status_value [of "posted ! K"] by (simp add: head_cqe_def prod_eq_iff) (simp add: cqe_of_def)
  moreover have "cq_inv n (Suc K) posted (nvme_update_cq_head q)"
    using assms update_head [OF h(1-3)] h(4) unfolding cq_inv_def by simp
  ultimately show ?thesis by blast
qed

lemma post_cq_inv:
  assumes inv: "cq_inv n K posted q" and room: "length posted + 1 < K + n" and e: "snd e < 2 ^ 15"
  shows "cq_inv n K (posted @ [e])
    (q\<lparr>nq_cq := (nq_cq q)[length posted mod n := cqe_of e (even (length posted div n))]\<rparr>)"
proof -
  let ?P = "length posted"
  let ?cq = "(nq_cq q)[?P mod n := cqe_of e (even (?P div n))]"
  have n: "2 \<le> n" "n \<le> length (nq_cq q)" using inv by (auto simp: cq_inv_def)
  then have lt: "?P mod n < length (nq_cq q)" by (meson less_le_trans mod_less_divisor zero_less_numeral order.strict_trans2)
  have "?cq ! (i mod n) = cqe_of ((posted @ [e]) ! i) (even (i div n))"
    if "i < length (posted @ [e])" "length (posted @ [e]) \<le> i + n" for i
  proof (cases "i = ?P")
    case True
    then show ?thesis using lt by simp
  next
    case False
    then have "i < ?P" "?P < i + n" using that by simp_all
    then have "i mod n \<noteq> ?P mod n" "nq_cq q ! (i mod n) = cqe_of (posted ! i) (even (i div n))"
      using mod_near_neq [of i ?P n] inv unfolding cq_inv_def by auto
    then show ?thesis using \<open>i < ?P\<close> by (simp add: nth_append)
  qed
  moreover have "?cq ! i = \<lparr>ce_command_id = 0, ce_status = 0\<rparr>" if "i < n" "length (posted @ [e]) \<le> i" for i
  proof -
    have "?P mod n \<noteq> i" using that by simp
    then show ?thesis using that inv unfolding cq_inv_def by simp
  qed
  ultimately show ?thesis using inv room e unfolding cq_inv_def by simp
qed

section \<open>Every reachable state\<close>

definition tags_of :: "nvme_sys \<Rightarrow> nat list" where
  "tags_of s = map (unat \<circ> cmd_cid) (drop (length (ns_fetched s)) (ns_submitted s) @ ns_work s) @
     map (unat \<circ> fst) (drop (length (ns_taken s)) (ns_posted s))"

definition tags_inv :: "nvme_sys \<Rightarrow> bool" where
  "tags_inv s \<longleftrightarrow> distinct (tags_of s) \<and> set (tags_of s) = ns_busy s \<and>
     ns_busy s \<subseteq> {..<unat (nq_qsize (ns_q s)) - 1}"

definition ring_inv :: "nvme_sys \<Rightarrow> bool" where
  "ring_inv s \<longleftrightarrow>
     (let n = unat (nq_qsize (ns_q s)); H = length (ns_fetched s); P = length (ns_posted s); K = length (ns_taken s) in
      (\<exists>F. sq_inv n F H (ns_submitted s) (ns_q s)) \<and> cq_inv n K (ns_posted s) (ns_q s) \<and>
      ns_head s = H mod n \<and> ns_tail s = P mod n \<and> ns_phase s = even (P div n) \<and>
      ns_fetched s = take H (ns_submitted s) \<and> ns_taken s = take K (ns_posted s) \<and>
      P + length (ns_work s) = H)"

lemma mset_map_remove1: "c \<in> set xs \<Longrightarrow> add_mset (f c) (mset (map f (remove1 c xs))) = mset (map f xs)"
  by (induction xs) auto

lemma tags_invI:
  assumes "tags_inv s" "mset (tags_of s') = mset (tags_of s)" "ns_busy s' = ns_busy s"
    "nq_qsize (ns_q s') = nq_qsize (ns_q s)"
  shows "tags_inv s'"
  using assms mset_eq_setD [OF assms(2)] mset_eq_imp_distinct_iff [OF assms(2)] by (simp add: tags_inv_def)

lemma busy_count:
  assumes "ring_inv s" "tags_inv s"
  shows "length (ns_submitted s) = length (ns_taken s) + card (ns_busy s)"
    "card (ns_busy s) < unat (nq_qsize (ns_q s))"
    "length (ns_taken s) \<le> length (ns_posted s)" "length (ns_posted s) + length (ns_work s) = length (ns_fetched s)"
    "length (ns_fetched s) \<le> length (ns_submitted s)"
proof -
  let ?n = "unat (nq_qsize (ns_q s))"
  obtain F where h: "sq_inv ?n F (length (ns_fetched s)) (ns_submitted s) (ns_q s)"
    "cq_inv ?n (length (ns_taken s)) (ns_posted s) (ns_q s)"
    using assms(1) by (auto simp: ring_inv_def Let_def)
  then have n: "2 \<le> ?n" by (simp add: sq_inv_def)
  show l: "length (ns_taken s) \<le> length (ns_posted s)" "length (ns_fetched s) \<le> length (ns_submitted s)"
    using h by (auto simp: sq_inv_def cq_inv_def)
  show w: "length (ns_posted s) + length (ns_work s) = length (ns_fetched s)"
    using assms(1) by (simp add: ring_inv_def Let_def)
  have "length (tags_of s) = card (ns_busy s)"
    using assms(2) distinct_card [of "tags_of s"] by (simp add: tags_inv_def)
  then show "length (ns_submitted s) = length (ns_taken s) + card (ns_busy s)"
    using l w by (simp add: tags_of_def)
  have "card (ns_busy s) \<le> ?n - 1"
    using assms(2) card_mono [of "{..<?n - 1}" "ns_busy s"] by (simp add: tags_inv_def)
  then show "card (ns_busy s) < ?n" using n by linarith
qed

lemma copy_submit_sel [simp]:
  "nq_qsize (sq_copy_submit c q) = nq_qsize q" "nq_cq (sq_copy_submit c q) = nq_cq q"
  "nq_cq_head (sq_copy_submit c q) = nq_cq_head q" "nq_cq_phase (sq_copy_submit c q) = nq_cq_phase q"
  by (simp_all add: sq_copy_submit_def nvme_sq_submit_cmd_def Let_def)

lemma cq_inv_cong:
  "cq_inv n K posted q \<Longrightarrow> nq_qsize q' = nq_qsize q \<Longrightarrow> nq_cq q' = nq_cq q \<Longrightarrow> nq_cq_head q' = nq_cq_head q \<Longrightarrow>
   nq_cq_phase q' = nq_cq_phase q \<Longrightarrow> cq_inv n K posted q'"
  by (simp add: cq_inv_def)

lemma sq_inv_cq [simp]:
  "sq_inv n F H subm (q\<lparr>nq_cq := c\<rparr>) = sq_inv n F H subm q"
  "sq_inv n F H subm (q\<lparr>nq_cq_db := d\<rparr>) = sq_inv n F H subm q"
  "sq_inv n F H subm (nvme_update_cq_head q) = sq_inv n F H subm q"
  by (simp_all add: sq_inv_def)

lemma start_inv: "queue_fresh q \<Longrightarrow> ring_inv (sys_start q) \<and> tags_inv (sys_start q)"
  by (auto simp: queue_fresh_def sys_start_def ring_inv_def tags_inv_def tags_of_def sq_inv_def cq_inv_def)

lemma step_inv:
  assumes "nvme_step s s'" "ring_inv s" "tags_inv s"
  shows "ring_inv s' \<and> tags_inv s'"
  using assms
proof (induction rule: nvme_step.induct)
  case (host_submits c s)
  let ?s = "s\<lparr>ns_q := sq_copy_submit c (ns_q s), ns_busy := insert (unat (cmd_cid c)) (ns_busy s),
       ns_submitted := ns_submitted s @ [c]\<rparr>"
  let ?n = "unat (nq_qsize (ns_q s))"
  have l: "length (ns_fetched s) \<le> length (ns_submitted s)" using busy_count [OF host_submits(3,4)] by simp
  then have t: "mset (tags_of ?s) = add_mset (unat (cmd_cid c)) (mset (tags_of s))" by (simp add: tags_of_def)
  have d: "distinct (tags_of ?s) \<longleftrightarrow> distinct (unat (cmd_cid c) # tags_of s)"
    by (rule mset_eq_imp_distinct_iff) (simp add: t)
  have "set_mset (mset (tags_of ?s)) = set_mset (add_mset (unat (cmd_cid c)) (mset (tags_of s)))" by (simp only: t)
  then have ti: "tags_inv ?s"
    using host_submits(1,2,4) d by (simp add: tags_inv_def)
  have "finite (ns_busy s)" using host_submits(4) by (auto simp: tags_inv_def intro: finite_subset)
  have "card (insert (unat (cmd_cid c)) (ns_busy s)) \<le> ?n - 1"
    using ti card_mono [of "{..<?n - 1}" "insert (unat (cmd_cid c)) (ns_busy s)"] by (simp add: tags_inv_def)
  then have "card (ns_busy s) + 1 < ?n"
    using \<open>finite (ns_busy s)\<close> host_submits(1,2) by simp
  then have room: "length (ns_submitted s) + 1 < length (ns_fetched s) + ?n"
    using busy_count [OF host_submits(3,4)] by linarith
  obtain F where "sq_inv ?n F (length (ns_fetched s)) (ns_submitted s) (ns_q s)"
    using host_submits(3) by (auto simp: ring_inv_def Let_def)
  from submit_sq_inv [OF this room, of c] show ?case
    using host_submits(3) l ti by (auto simp: ring_inv_def Let_def intro: cq_inv_cong)
next
  case (host_flushes s)
  then obtain F where "sq_inv (unat (nq_qsize (ns_q s))) F (length (ns_fetched s)) (ns_submitted s) (ns_q s)"
    by (auto simp: ring_inv_def Let_def)
  note f = flush_sq_inv [OF this]
  have "cq_inv (unat (nq_qsize (ns_q s))) (length (ns_taken s)) (ns_posted s) (nvme_sq_flush (ns_q s))"
    using host_flushes(1) by (auto simp: ring_inv_def Let_def intro: cq_inv_cong)
  with f host_flushes show ?case by (auto simp: ring_inv_def Let_def tags_inv_def tags_of_def)
next
  case (ctrl_fetches s c)
  let ?n = "unat (nq_qsize (ns_q s))" and ?H = "length (ns_fetched s)"
  let ?s = "s\<lparr>ns_head := (ns_head s + 1) mod ?n, ns_work := ns_work s @ [c], ns_fetched := ns_fetched s @ [c]\<rparr>"
  obtain F where F: "sq_inv ?n F ?H (ns_submitted s) (ns_q s)"
    using ctrl_fetches(3) by (auto simp: ring_inv_def Let_def)
  have h: "sq_inv ?n F (Suc ?H) (ns_submitted s) (ns_q s)" "?H < length (ns_submitted s)" "c = ns_submitted s ! ?H"
    using fetch_sq_inv [OF F] ctrl_fetches(1-3) by (auto simp: ring_inv_def Let_def)
  have "mset (tags_of ?s) = mset (tags_of s)"
    using h(2,3) by (simp add: tags_of_def Cons_nth_drop_Suc [symmetric])
  then have "tags_inv ?s" by (intro tags_invI [OF ctrl_fetches(4)]) simp_all
  have r: "cq_inv ?n (length (ns_taken s)) (ns_posted s) (ns_q s)" "ns_head s = ?H mod ?n"
    "ns_tail s = length (ns_posted s) mod ?n" "ns_phase s = even (length (ns_posted s) div ?n)"
    "take ?H (ns_submitted s) = ns_fetched s" "take (length (ns_taken s)) (ns_posted s) = ns_taken s"
    "length (ns_posted s) + length (ns_work s) = ?H"
    using ctrl_fetches(3) by (auto simp: ring_inv_def Let_def)
  have "take (Suc ?H) (ns_submitted s) = ns_fetched s @ [c]"
    using h(2,3) r(5) take_Suc_conv_app_nth [of ?H "ns_submitted s"] by simp
  then have "ring_inv ?s" using h(1) r by (auto simp: ring_inv_def Let_def mod_Suc_eq)
  with \<open>tags_inv ?s\<close> show ?case by blast
next
  case (ctrl_posts c s e)
  let ?n = "unat (nq_qsize (ns_q s))" and ?P = "length (ns_posted s)" and ?K = "length (ns_taken s)"
  let ?s = "post_cqe e (s\<lparr>ns_work := remove1 c (ns_work s)\<rparr>)"
  note b = busy_count [OF ctrl_posts(4,5)]
  have w: "0 < length (ns_work s)" using ctrl_posts(1) by (cases "ns_work s") auto
  have room: "?P + 1 < ?K + ?n" using b w by linarith
  have q: "cq_inv ?n ?K (ns_posted s) (ns_q s)" "ns_tail s = ?P mod ?n" "ns_phase s = even (?P div ?n)"
    "ns_head s = length (ns_fetched s) mod ?n" "ns_fetched s = take (length (ns_fetched s)) (ns_submitted s)"
    "ns_taken s = take ?K (ns_posted s)" "\<exists>F. sq_inv ?n F (length (ns_fetched s)) (ns_submitted s) (ns_q s)"
    using ctrl_posts(4) by (auto simp: ring_inv_def Let_def)
  have t: "mset (tags_of ?s) = mset (tags_of s)"
    using ctrl_posts(3) b(3) mset_map_remove1 [OF ctrl_posts(1), of "unat \<circ> cmd_cid", symmetric]
    by (simp add: tags_of_def post_cqe_def Let_def del: mset_map)
  have "tags_inv ?s"
    by (rule tags_invI [OF ctrl_posts(5) t]) (simp_all add: post_cqe_def Let_def)
  moreover have "length (remove1 c (ns_work s)) = length (ns_work s) - 1" using ctrl_posts(1) by (simp add: length_remove1)
  then have "Suc (?P + length (remove1 c (ns_work s))) = length (ns_fetched s)" using b(4) w by linarith
  then have "ring_inv ?s"
    using post_cq_inv [OF q(1) room ctrl_posts(2)] q b(3)
    by (simp add: ring_inv_def post_cqe_def Let_def mod_Suc_eq) (simp add: mod_Suc div_Suc)
  ultimately show ?case by blast
next
  case (host_takes s e)
  let ?n = "unat (nq_qsize (ns_q s))" and ?K = "length (ns_taken s)"
  have q: "cq_inv ?n ?K (ns_posted s) (ns_q s)" "ns_taken s = take ?K (ns_posted s)"
    "\<exists>F. sq_inv ?n F (length (ns_fetched s)) (ns_submitted s) (ns_q s)"
    using host_takes(3) by (auto simp: ring_inv_def Let_def)
  have K: "?K < length (ns_posted s)" using host_takes(1) cqe_pending_iff [OF q(1)] by blast
  have e: "cq_inv ?n (Suc ?K) (ns_posted s) (nvme_update_cq_head (ns_q s))" "e = ns_posted s ! ?K"
    using take_cq_inv [OF q(1) K] host_takes(2) by auto
  let ?s = "s\<lparr>ns_q := nvme_update_cq_head (ns_q s), ns_busy := ns_busy s - {unat (fst e)}, ns_taken := ns_taken s @ [e]\<rparr>"
  have t: "mset (tags_of s) = mset (unat (fst e) # tags_of ?s)"
    using K e(2) by (simp add: tags_of_def Cons_nth_drop_Suc [symmetric])
  have "distinct (unat (fst e) # tags_of ?s)" "set (unat (fst e) # tags_of ?s) = ns_busy s"
    using host_takes(4) mset_eq_imp_distinct_iff [OF t] mset_eq_setD [OF t] by (simp_all add: tags_inv_def)
  then have "tags_inv ?s" using host_takes(4) by (auto simp: tags_inv_def)
  moreover have "take (Suc ?K) (ns_posted s) = ns_taken s @ [e]"
    using K e(2) q(2) take_Suc_conv_app_nth [of ?K "ns_posted s"] by simp
  moreover have "\<exists>F. sq_inv ?n F (length (ns_fetched s)) (ns_submitted s) (nvme_update_cq_head (ns_q s))"
    using q(3) by simp
  ultimately show ?case
    using e(1) host_takes(3) by (simp add: ring_inv_def Let_def)
next
  case (host_rings_cq s)
  then show ?case
    by (auto simp: ring_inv_def tags_inv_def tags_of_def Let_def intro: cq_inv_cong)
qed

lemma reach_inv: "nvme_reach s \<Longrightarrow> ring_inv s \<and> tags_inv s"
  by (induction rule: nvme_reach.induct) (auto simp: start_inv dest: step_inv)

section \<open>Properties\<close>

text \<open>C6: Commands reach the controller in the order of their submission and unchanged, however the
  controller and the host interleave and however often the rings wrap around: what was fetched is an
  initial part of what was submitted, at most 31 submitted commands are not shown by the doorbell, and
  a flush shows them all. Completions are taken in the order they were posted, none twice: the host
  sees an entry exactly when one was posted that it has not taken, it reads its tag and status, and
  its tag is one whose command is outstanding.\<close>

theorem nvme_rings_exact:
  assumes "nvme_reach s"
  shows "(\<exists>rest. ns_submitted s = ns_fetched s @ rest) \<and> (\<exists>rest. ns_posted s = ns_taken s @ rest) \<and>
    (\<exists>shown. shown \<le> length (ns_submitted s) \<and> length (ns_submitted s) \<le> shown + 31 \<and>
       unat (nq_sq_db (ns_q s)) = shown mod unat (nq_qsize (ns_q s))) \<and>
    unat (nq_sq_db (nvme_sq_flush (ns_q s))) = length (ns_submitted s) mod unat (nq_qsize (ns_q s)) \<and>
    (nvme_cqe_pending (ns_q s) \<longleftrightarrow> length (ns_taken s) < length (ns_posted s)) \<and>
    (nvme_cqe_pending (ns_q s) \<longrightarrow> head_cqe (ns_q s) = ns_posted s ! length (ns_taken s) \<and>
       unat (fst (head_cqe (ns_q s))) \<in> ns_busy s)"
proof -
  let ?n = "unat (nq_qsize (ns_q s))" and ?K = "length (ns_taken s)"
  have inv: "ring_inv s" "tags_inv s" using reach_inv [OF assms] by auto
  obtain F where F: "sq_inv ?n F (length (ns_fetched s)) (ns_submitted s) (ns_q s)"
    using inv(1) by (auto simp: ring_inv_def Let_def)
  have c: "cq_inv ?n ?K (ns_posted s) (ns_q s)" "take (length (ns_fetched s)) (ns_submitted s) = ns_fetched s"
    "take ?K (ns_posted s) = ns_taken s"
    using inv(1) by (auto simp: ring_inv_def Let_def)
  have "ns_submitted s = ns_fetched s @ drop (length (ns_fetched s)) (ns_submitted s)"
    "ns_posted s = ns_taken s @ drop ?K (ns_posted s)"
    using c(2,3) append_take_drop_id by metis+
  moreover have "F \<le> length (ns_submitted s) \<and> length (ns_submitted s) \<le> F + 31 \<and> unat (nq_sq_db (ns_q s)) = F mod ?n"
    using F by (auto simp: sq_inv_def)
  moreover have "unat (nq_sq_db (nvme_sq_flush (ns_q s))) = length (ns_submitted s) mod ?n"
    using flush_sq_inv [OF F] by (simp add: sq_inv_def)
  moreover have "head_cqe (ns_q s) = ns_posted s ! ?K \<and> unat (fst (head_cqe (ns_q s))) \<in> ns_busy s"
    if "?K < length (ns_posted s)"
  proof -
    have "ns_posted s ! ?K \<in> set (drop ?K (ns_posted s))"
      using that by (metis Cons_nth_drop_Suc list.set_intros(1))
    then have "unat (fst (ns_posted s ! ?K)) \<in> ns_busy s" using inv(2) by (auto simp: tags_inv_def tags_of_def)
    then show ?thesis using take_cq_inv [OF c(1) that] by simp
  qed
  ultimately show ?thesis using cqe_pending_iff [OF c(1)] by blast
qed

definition sample_nq :: nvme_queue where
  "sample_nq = \<lparr>nq_qid = 1, nq_qsize = 3, nq_sq_buffer = 0, nq_cq_buffer = 0, nq_sq_iova = 0, nq_cq_iova = 0,
     nq_sq_mapping = \<lparr>dm_vaddr = 0, dm_iova = 0, dm_size = 0\<rparr>, nq_cq_mapping = \<lparr>dm_vaddr = 0, dm_iova = 0, dm_size = 0\<rparr>,
     nq_sq_tail = 0, nq_last_sq_tail = 0, nq_cq_head = 0, nq_cq_phase = 1, nq_sq_doorbell = 0x1008, nq_cq_doorbell = 0x100c,
     nq_sq = [NoCmd, NoCmd, NoCmd], nq_cq = replicate 3 \<lparr>ce_command_id = 0, ce_status = 0\<rparr>, nq_sq_db = 0, nq_cq_db = 0\<rparr>"

definition flush_cmd :: "u16 \<Rightarrow> nvme_cmd" where
  "flush_cmd cid = Common \<lparr>cm_opcode = NVME_CMD_FLUSH, cm_flags = 0, cm_cid = cid, cm_nsid = 1, cm_prp1 = 0, cm_prp2 = 0,
     cm_cdw10 = 0, cm_cdw11 = 0\<rparr>"

text \<open>Both tags submitted, fetched and posted in the opposite order.\<close>

lemma sample_reach:
  obtains s where "nvme_reach s" "ns_posted s = [(1, 5), (0, 0)]" "ns_taken s = []" "ns_busy s = {0, 1}"
proof -
  let ?post = "\<lambda>e s. post_cqe e (s\<lparr>ns_work := remove1 (flush_cmd (fst e)) (ns_work s)\<rparr>)"
  let ?submit = "\<lambda>i s. s\<lparr>ns_q := sq_copy_submit (flush_cmd i) (ns_q s), ns_busy := insert (unat (cmd_cid (flush_cmd i))) (ns_busy s),
       ns_submitted := ns_submitted s @ [flush_cmd i]\<rparr>"
  let ?fetch = "\<lambda>i s. s\<lparr>ns_head := (ns_head s + 1) mod unat (nq_qsize (ns_q s)), ns_work := ns_work s @ [flush_cmd i],
       ns_fetched := ns_fetched s @ [flush_cmd i]\<rparr>"
  let ?s0 = "sys_start sample_nq"
  let ?s1 = "?submit 0 ?s0"
  let ?s2 = "?submit 1 ?s1"
  let ?s3 = "?fetch 0 ?s2"
  let ?s4 = "?fetch 1 ?s3"
  note defs = sys_start_def sample_nq_def flush_cmd_def sq_copy_submit_def nvme_sq_submit_cmd_def nvme_sq_flush_def
    post_cqe_def Let_def
  have "nvme_reach ?s0" by (rule reach_start) (simp add: queue_fresh_def sample_nq_def nth_Cons')
  then have "nvme_reach ?s1" by (rule reach_step [OF _ host_submits]) (simp_all add: defs)
  then have r2: "nvme_reach ?s2" by (rule reach_step [OF _ host_submits]) (simp_all add: defs)
  have q2: "unat (nq_sq_db (ns_q ?s2)) = 2" "ns_head ?s2 = 0" "nq_sq (ns_q ?s2) = [flush_cmd 0, flush_cmd 1, NoCmd]"
    "unat (nq_qsize (ns_q ?s2)) = 3"
    by (simp_all add: defs)
  have r3: "nvme_reach ?s3" by (rule reach_step [OF r2 ctrl_fetches]) (simp_all only: q2, simp_all)
  have r4: "nvme_reach ?s4" by (rule reach_step [OF r3 ctrl_fetches]) (insert q2, simp_all)
  then have "nvme_reach (?post (1, 5) ?s4)"
    by (rule reach_step [OF _ ctrl_posts]) (simp_all add: flush_cmd_def)
  then have "nvme_reach (?post (0, 0) (?post (1, 5) ?s4))"
    by (rule reach_step [OF _ ctrl_posts]) (simp_all add: flush_cmd_def post_cqe_def Let_def sys_start_def)
  then show ?thesis by (rule that) (simp_all add: post_cqe_def Let_def sys_start_def flush_cmd_def insert_commute)
qed

theorem nvme_rings_exact_witness:
  "\<exists>s. nvme_reach s \<and> nvme_cqe_pending (ns_q s) \<and> head_cqe (ns_q s) = (1, 5) \<and> 1 \<in> ns_busy s"
proof -
  obtain s where s: "nvme_reach s" "ns_posted s = [(1, 5), (0, 0)]" "ns_taken s = []" by (rule sample_reach)
  then show ?thesis using nvme_rings_exact [OF s(1)] by auto
qed

end
