(* ===== verification/Nvme_Pool.thy ===== *)
theory Nvme_Pool
  imports Dma_Buf Nvme_Ring "HOL-Library.Monad_Syntax"
begin

text \<open>
  The memory of targets/nvme/ublk.nvme_vfio.cpp: huge pages, the layout of the dma pool, the buffers
  handed out of it, the mapping of buffers for the device and the setup of a queue pair. A computation
  that reads the array of page map entries out of bounds is \<open>None\<close>. Computations in C's \<open>int\<close> are
  done in \<open>int\<close>; the layout property shows that they stay in its range.
\<close>

unbundle bit_operations_syntax

abbreviation (input) "ADMIN_Q_SIZE \<equiv> (64::int)"

section \<open>Target data\<close>

text \<open>\<open>nd_iommu\<close> lists the mappings the kernel holds for the device: io address, address, length.\<close>

record nvme_vfio_tgt_data =
  nd_nsid :: u32
  nd_lba_shift :: u32
  nd_dev_size :: u64
  nd_user_copy :: bool
  nd_use_noiommu :: bool
  nd_force_noiommu :: bool
  nd_admin_queue :: nvme_queue
  nd_io_queues :: "nvme_queue list"
  nd_nr_io_queues :: int
  nd_queue_depth :: u32
  nd_max_io_buf_bytes :: u32
  nd_db_stride :: u32
  nd_vwc :: u8
  nd_mdts :: u8
  nd_sgls :: u32
  nd_next_iova :: u64
  nd_pool :: dma_buf_pool
  nd_queue_region_off :: u64
  nd_prp_region_off :: u64
  nd_io_buf_region_off :: u64
  nd_identify_buf_off :: u64
  nd_queue_alloc_off :: u64
  nd_extra_hugepages :: u64
  nd_hugepage_size :: u64
  nd_iommu :: "(u64 \<times> u64 \<times> u64) list"

definition nvme_validate_params :: "nvme_vfio_tgt_data \<Rightarrow> u64 \<Rightarrow> int" where
  "nvme_validate_params data cap =
     (let mqes = (ucast (cap AND 0xFFFF) :: u32) + 1 in
      if nd_nr_io_queues data > 65535 then - EINVAL
      else if nd_queue_depth data > mqes then - EINVAL else 0)"

definition nvme_use_iommu :: "nvme_vfio_tgt_data \<Rightarrow> bool" where
  "nvme_use_iommu data \<longleftrightarrow> \<not> nd_use_noiommu data \<and> \<not> nd_force_noiommu data"

definition nvme_sgl_supported :: "nvme_vfio_tgt_data \<Rightarrow> bool" where
  "nvme_sgl_supported data \<longleftrightarrow> nd_sgls data AND 3 \<noteq> 0"

section \<open>Huge pages\<close>

text \<open>
  The counters of huge pages in /proc, which files of it can be opened, and what the kernel makes of
  a number written to nr_hugepages.
\<close>

record huge_sys =
  hs_nr :: u64
  hs_free :: u64
  hs_size_kb :: u64

record huge_env =
  he_meminfo :: bool
  he_open_read :: "int option"
  he_open_write :: "int option"
  he_write :: "int \<Rightarrow> huge_sys \<Rightarrow> huge_sys"

definition nvme_get_hugepage_size :: "huge_env \<Rightarrow> huge_sys \<Rightarrow> u64" where
  "nvme_get_hugepage_size E h = (if he_meminfo E then hs_size_kb h * 1024 else 0)"

definition nvme_get_free_hugepages :: "huge_env \<Rightarrow> huge_sys \<Rightarrow> u64" where
  "nvme_get_free_hugepages E h = (if he_meminfo E then hs_free h else 0)"

definition nvme_adjust_hugepages :: "huge_env \<Rightarrow> int \<Rightarrow> huge_sys \<Rightarrow> int \<times> huge_sys" where
  "nvme_adjust_hugepages E delta h =
     (if delta = 0 then (0, h)
      else case he_open_read E of Some errno \<Rightarrow> (- errno, h)
      | None \<Rightarrow>
          (let new_pages = sint (hs_nr h) + delta;
               new_pages1 = (if new_pages < 0 then 0 else new_pages)
           in case he_open_write E of Some errno \<Rightarrow> (- errno, h)
              | None \<Rightarrow> (0, he_write E new_pages1 h)))"

definition nvme_ensure_hugepages :: "huge_env \<Rightarrow> u64 \<Rightarrow> u64 \<Rightarrow> huge_sys \<Rightarrow> int \<times> u64 \<times> huge_sys" where
  "nvme_ensure_hugepages E needed_bytes hugepage_size h =
     (let needed_pages = (needed_bytes + hugepage_size - 1) div hugepage_size;
          free_pages = nvme_get_free_hugepages E h
      in if free_pages \<ge> needed_pages then (0, 0, h)
      else let extra = needed_pages - free_pages
      in case nvme_adjust_hugepages E (sint extra) h of (ret, h1) \<Rightarrow>
           if ret < 0 then (ret, 0, h1)
           else if nvme_get_free_hugepages E h1 < needed_pages then (- ENOMEM, 0, h1)
           else (0, extra, h1))"

section \<open>The pool\<close>

definition page_up :: "int \<Rightarrow> u64" where
  "page_up n = word_of_int (n + 4096 - 1) AND NOT (PAGE_SIZE - 1)"

definition pool_layout :: "nvme_vfio_tgt_data \<Rightarrow> u64 \<times> nvme_vfio_tgt_data" where
  "pool_layout data =
     (let nr_queues = nd_nr_io_queues data;
          depth = sint (nd_queue_depth data);
          io_buf_size = (ucast (nd_max_io_buf_bytes data) :: u64);
          hps = nd_hugepage_size data;
          admin_sq_size = page_up (ADMIN_Q_SIZE * 64);
          admin_cq_size = page_up (ADMIN_Q_SIZE * 16);
          io_sq_size = page_up ((depth + 1) * 64);
          io_cq_size = page_up ((depth + 1) * 16);
          queue_region = (admin_sq_size + admin_cq_size) + word_of_int nr_queues * (io_sq_size + io_cq_size);
          prp_region = word_of_int (nr_queues * depth * 4096);
          io_buf_region = word_of_int (nr_queues * depth) * io_buf_size;
          identify = queue_region + prp_region + io_buf_region;
          total_size = identify + PAGE_SIZE
      in ((total_size + hps - 1) AND NOT (hps - 1),
          data\<lparr>nd_queue_region_off := queue_region, nd_prp_region_off := queue_region,
               nd_io_buf_region_off := queue_region + prp_region, nd_identify_buf_off := identify\<rparr>))"

definition nvme_dmabuf_pool_init ::
  "huge_env \<Rightarrow> int + u64 \<Rightarrow> nvme_vfio_tgt_data \<Rightarrow> huge_sys \<Rightarrow> int \<times> nvme_vfio_tgt_data \<times> huge_sys" where
  "nvme_dmabuf_pool_init E mmap_res data0 h =
     (let (total_size, data) = pool_layout data0;
          (ret, extra, h1) = nvme_ensure_hugepages E total_size (nd_hugepage_size data) h;
          data1 = data\<lparr>nd_extra_hugepages := extra\<rparr>
      in if ret < 0 then (ret, data1, h1)
      else let (ret2, pool) = dma_buf_pool_init mmap_res total_size (nd_pool data1);
               data2 = data1\<lparr>nd_pool := pool\<rparr>
      in if ret2 < 0 then (ret2, data2, snd (nvme_adjust_hugepages E (- sint extra) h1))
         else (0, data2\<lparr>nd_queue_alloc_off := 0\<rparr>, h1))"

definition nvme_dmabuf_pool_deinit :: "nvme_vfio_tgt_data \<Rightarrow> nvme_vfio_tgt_data" where
  "nvme_dmabuf_pool_deinit data = data\<lparr>nd_pool := snd (dma_buf_pool_deinit (nd_pool data))\<rparr>"

definition nvme_pool_alloc_queue_buf :: "nvme_vfio_tgt_data \<Rightarrow> u64 \<Rightarrow> u64 option \<times> nvme_vfio_tgt_data" where
  "nvme_pool_alloc_queue_buf data sz =
     (let aligned_size = (sz + PAGE_SIZE - 1) AND NOT (PAGE_SIZE - 1) in
      if nd_queue_alloc_off data + aligned_size > nd_queue_region_off data then (None, data)
      else (Some (dp_base (nd_pool data) + nd_queue_alloc_off data),
            data\<lparr>nd_queue_alloc_off := nd_queue_alloc_off data + aligned_size\<rparr>))"

definition nvme_pool_get_prp :: "nvme_vfio_tgt_data \<Rightarrow> int \<Rightarrow> int \<Rightarrow> u64" where
  "nvme_pool_get_prp data qid tag =
     (let depth = sint (nd_queue_depth data);
          offset = nd_prp_region_off data + word_of_int ((qid * depth + tag) * 4096)
      in dp_base (nd_pool data) + offset)"

definition nvme_pool_get_io_buf :: "nvme_vfio_tgt_data \<Rightarrow> int \<Rightarrow> int \<Rightarrow> u64" where
  "nvme_pool_get_io_buf data qid tag =
     (let depth = sint (nd_queue_depth data);
          io_buf_size = (ucast (nd_max_io_buf_bytes data) :: u64);
          offset = nd_io_buf_region_off data + word_of_int (qid * depth + tag) * io_buf_size
      in dp_base (nd_pool data) + offset)"

definition nvme_pool_get_identify_buf :: "nvme_vfio_tgt_data \<Rightarrow> u64" where
  "nvme_pool_get_identify_buf data = dp_base (nd_pool data) + nd_identify_buf_off data"

section \<open>Mapping buffers for the device\<close>

definition nvme_get_iova :: "nvme_vfio_tgt_data \<Rightarrow> u64 \<Rightarrow> u64 \<Rightarrow> (u64 \<times> nvme_vfio_tgt_data) option" where
  "nvme_get_iova data vaddr sz =
     (if \<not> nvme_use_iommu data then do {
        phys \<leftarrow> dma_buf_pool_virt_to_phys (nd_pool data) vaddr;
        Some (if phys = DMA_BUF_PHYS_ERROR then 0 else phys, data) }
      else Some (nd_next_iova data,
        data\<lparr>nd_next_iova := nd_next_iova data + ((sz + PAGE_SIZE - 1) AND NOT (PAGE_SIZE - 1))\<rparr>))"

text \<open>\<open>ioas va len iova\<close>: the kernel accepts the mapping.\<close>

type_synonym ioas = "u64 \<Rightarrow> u64 \<Rightarrow> u64 \<Rightarrow> bool"

definition nvme_do_vfio_map :: "ioas \<Rightarrow> nvme_vfio_tgt_data \<Rightarrow> u64 \<Rightarrow> u64 \<Rightarrow> u64 \<Rightarrow> int \<times> nvme_vfio_tgt_data" where
  "nvme_do_vfio_map M data vaddr iova sz =
     (if \<not> nvme_use_iommu data then (0, data)
      else let len = (sz + PAGE_SIZE - 1) AND NOT (PAGE_SIZE - 1) in
           if \<not> M vaddr len iova then (-1, data)
           else (0, data\<lparr>nd_iommu := (iova, vaddr, len) # nd_iommu data\<rparr>))"

definition nvme_map_dma ::
  "ioas \<Rightarrow> nvme_vfio_tgt_data \<Rightarrow> u64 \<Rightarrow> u64 \<Rightarrow> nvme_dma_mapping \<Rightarrow> (u64 \<times> nvme_dma_mapping \<times> nvme_vfio_tgt_data) option" where
  "nvme_map_dma M data vaddr sz mapping = do {
     (iova, data1) \<leftarrow> nvme_get_iova data vaddr sz;
     if iova = 0 then Some (0, mapping, data1)
     else let (ret, data2) = nvme_do_vfio_map M data1 vaddr iova sz in
          if ret < 0 then Some (0, mapping, data2)
          else Some (iova, \<lparr>dm_vaddr = vaddr, dm_iova = iova, dm_size = sz\<rparr>, data2) }"

definition nvme_unmap_dma :: "nvme_vfio_tgt_data \<Rightarrow> nvme_dma_mapping \<Rightarrow> nvme_dma_mapping \<times> nvme_vfio_tgt_data" where
  "nvme_unmap_dma data mapping =
     (if dm_iova mapping = 0 then (mapping, data)
      else (\<lparr>dm_vaddr = 0, dm_iova = 0, dm_size = 0\<rparr>,
            if nvme_use_iommu data
            then data\<lparr>nd_iommu := filter (\<lambda>(iova, va, len). \<not> (iova = dm_iova mapping \<and> len = dm_size mapping)) (nd_iommu data)\<rparr>
            else data))"

section \<open>A queue pair\<close>

definition nvme_queue_init ::
  "ioas \<Rightarrow> nvme_vfio_tgt_data \<Rightarrow> nvme_queue \<Rightarrow> u16 \<Rightarrow> u16 \<Rightarrow> (int \<times> nvme_queue \<times> nvme_vfio_tgt_data) option" where
  "nvme_queue_init M data q qid depth =
     (let sq_buf_size = page_up (uint depth * 64);
          cq_buf_size = page_up (uint depth * 16)
      in case nvme_pool_alloc_queue_buf data sq_buf_size of
           (None, data1) \<Rightarrow> Some (- ENOMEM, q\<lparr>nq_sq_buffer := 0\<rparr>, data1)
         | (Some sqb, data1) \<Rightarrow>
             (let q1 = q\<lparr>nq_sq_buffer := sqb, nq_sq := replicate (unat sq_buf_size div 64) NoCmd\<rparr>
              in case nvme_pool_alloc_queue_buf data1 cq_buf_size of
                   (None, data2) \<Rightarrow> Some (- ENOMEM, q1\<lparr>nq_cq_buffer := 0\<rparr>, data2)
                 | (Some cqb, data2) \<Rightarrow> do {
                     let q2 = q1\<lparr>nq_cq_buffer := cqb,
                       nq_cq := replicate (unat cq_buf_size div 16) \<lparr>ce_command_id = 0, ce_status = 0\<rparr>\<rparr>;
                     (sqi, sqm, data3) \<leftarrow> nvme_map_dma M data2 sqb sq_buf_size (nq_sq_mapping q2);
                     (cqi, cqm, data4) \<leftarrow> nvme_map_dma M data3 cqb cq_buf_size (nq_cq_mapping q2);
                     let q3 = q2\<lparr>nq_sq_iova := sqi, nq_cq_iova := cqi, nq_sq_mapping := sqm, nq_cq_mapping := cqm\<rparr>;
                     if sqi = 0 \<or> cqi = 0
                     then let (sqm1, data5) = nvme_unmap_dma data4 sqm;
                              (cqm1, data6) = nvme_unmap_dma data5 cqm
                          in Some (- ENOMEM, q3\<lparr>nq_sq_mapping := sqm1, nq_cq_mapping := cqm1\<rparr>, data6)
                     else Some (0, q3\<lparr>nq_qid := qid, nq_qsize := depth, nq_sq_tail := 0, nq_last_sq_tail := 0,
                       nq_cq_head := 0, nq_cq_phase := 1,
                       nq_sq_doorbell := 0x1000 + ucast (2 * ucast qid * nd_db_stride data),
                       nq_cq_doorbell := 0x1000 + ucast ((2 * ucast qid + 1) * nd_db_stride data)\<rparr>, data4) }))"

definition nvme_queue_deinit :: "nvme_vfio_tgt_data \<Rightarrow> nvme_queue \<Rightarrow> nvme_queue \<times> nvme_vfio_tgt_data" where
  "nvme_queue_deinit data q =
     (let (sqm, data1) = nvme_unmap_dma data (nq_sq_mapping q);
          (cqm, data2) = nvme_unmap_dma data1 (nq_cq_mapping q)
      in (q\<lparr>nq_sq_mapping := sqm, nq_cq_mapping := cqm, nq_sq_buffer := 0, nq_cq_buffer := 0, nq_sq_iova := 0,
           nq_cq_iova := 0\<rparr>, data2))"

section \<open>The layout\<close>

text \<open>The parameters that \<open>nvme_vfio_init_tgt\<close> lets through, for huge pages up to 1 GiB.\<close>

definition params_ok :: "nvme_vfio_tgt_data \<Rightarrow> bool" where
  "params_ok data \<longleftrightarrow> 1 \<le> nd_nr_io_queues data \<and> nd_nr_io_queues data \<le> 64 \<and>
     1 \<le> unat (nd_queue_depth data) \<and> unat (nd_queue_depth data) \<le> 4096 \<and>
     unat (nd_max_io_buf_bytes data) \<le> 2 ^ 21 \<and> (\<exists>k. unat (nd_max_io_buf_bytes data) = 2 ^ k \<and> 12 \<le> k) \<and>
     (\<exists>k. nd_hugepage_size data = 2 ^ k \<and> 12 \<le> k \<and> k \<le> 30)"

definition pg :: "nat \<Rightarrow> nat" where
  "pg n = (n + 4095) div 4096 * 4096"

definition queue_pair_bytes :: "nat \<Rightarrow> nat" where
  "queue_pair_bytes depth = pg ((depth + 1) * 64) + pg ((depth + 1) * 16)"

lemma pg_bounds: "n \<le> pg n" "pg n < n + 4096" "pg n mod 4096 = 0"
proof -
  have "(n + 4095) div 4096 * 4096 + (n + 4095) mod 4096 = n + 4095" by simp
  moreover have "(n + 4095) mod 4096 < 4096" by simp
  ultimately show "n \<le> pg n" "pg n < n + 4096" unfolding pg_def by linarith+
qed (simp add: pg_def)

lemma unat_page_round:
  assumes "unat w < 2 ^ 62"
  shows "unat ((w + PAGE_SIZE - 1) AND NOT (PAGE_SIZE - 1)) = pg (unat w)"
proof -
  have "(w + PAGE_SIZE - 1) AND NOT (PAGE_SIZE - 1) = round_up w (2 ^ 12)"
    by (simp add: round_up_def add.commute)
  then show ?thesis using unat_round_up [of 12 w] assms by (simp add: pg_def)
qed

lemma page_up_pg:
  assumes "n < 2 ^ 62"
  shows "page_up (int n) = of_nat (pg n)"
proof -
  have u: "unat (of_nat n :: u64) = n" using assms by (simp add: unat_of_nat take_bit_nat_eq_self)
  have "page_up (int n) = (of_nat n + PAGE_SIZE - 1) AND NOT (PAGE_SIZE - 1)"
    by (simp add: page_up_def)
  then have "unat (page_up (int n)) = pg n" using unat_page_round [of "of_nat n"] assms u by simp
  from arg_cong [OF this, of "of_nat :: nat \<Rightarrow> u64"] show ?thesis by simp
qed

lemma unat_of_nat64: "n < 2 ^ 64 \<Longrightarrow> unat (of_nat n :: u64) = n"
  by (simp add: unat_of_nat take_bit_nat_eq_self)

definition lay_queue :: "nvme_vfio_tgt_data \<Rightarrow> nat" where
  "lay_queue data = 8192 + nat (nd_nr_io_queues data) * queue_pair_bytes (unat (nd_queue_depth data))"

definition lay_iobuf :: "nvme_vfio_tgt_data \<Rightarrow> nat" where
  "lay_iobuf data = lay_queue data + nat (nd_nr_io_queues data) * unat (nd_queue_depth data) * 4096"

definition lay_ident :: "nvme_vfio_tgt_data \<Rightarrow> nat" where
  "lay_ident data = lay_iobuf data + nat (nd_nr_io_queues data) * unat (nd_queue_depth data) * unat (nd_max_io_buf_bytes data)"

lemma sint_depth:
  assumes "unat (w::u32) \<le> 4096"
  shows "sint w = int (unat w)"
proof -
  have u: "uint w = int (unat w)" by simp
  have "uint w \<le> 4096" unfolding u using assms by linarith
  then have "- 2147483648 \<le> uint w" "uint w < 2147483648" using uint_ge_0 [of w] by linarith+
  then have "signed_take_bit 31 (uint w) = uint w" by (intro signed_take_bit_int_eq_self) simp_all
  then show ?thesis by (simp add: sint_uint)
qed

lemma layout_eq:
  assumes "params_ok data0" "pool_layout data0 = (tot, data)"
  shows "data = data0\<lparr>nd_queue_region_off := of_nat (lay_queue data0), nd_prp_region_off := of_nat (lay_queue data0),
      nd_io_buf_region_off := of_nat (lay_iobuf data0), nd_identify_buf_off := of_nat (lay_ident data0)\<rparr>"
    "tot = (of_nat (lay_ident data0 + 4096) + nd_hugepage_size data0 - 1) AND NOT (nd_hugepage_size data0 - 1)"
proof -
  let ?d = "unat (nd_queue_depth data0)"
  have p: "?d \<le> 4096" using assms(1) by (auto simp: params_ok_def)
  obtain nr where q: "nd_nr_io_queues data0 = int nr"
    using assms(1) by (metis params_ok_def nonneg_int_cases order_trans zero_le_one)
  have s: "page_up ((sint (nd_queue_depth data0) + 1) * 64) = of_nat (pg ((?d + 1) * 64))"
    "page_up ((sint (nd_queue_depth data0) + 1) * 16) = of_nat (pg ((?d + 1) * 16))"
    using p page_up_pg [of "(?d + 1) * 64"] page_up_pg [of "(?d + 1) * 16"]
    by (simp_all add: sint_depth algebra_simps)
  have a: "page_up (ADMIN_Q_SIZE * 64) + page_up (ADMIN_Q_SIZE * 16) = 8192" by (simp add: page_up_def)
  have i: "word_of_int (int nr * sint (nd_queue_depth data0) * 4096) = (of_nat (nr * ?d * 4096) :: u64)"
    "word_of_int (int nr * sint (nd_queue_depth data0)) = (of_nat (nr * ?d) :: u64)"
    using p by (simp_all add: sint_depth)
  have b: "(ucast (nd_max_io_buf_bytes data0) :: u64) = of_nat (unat (nd_max_io_buf_bytes data0))" by simp
  show "data = data0\<lparr>nd_queue_region_off := of_nat (lay_queue data0), nd_prp_region_off := of_nat (lay_queue data0),
      nd_io_buf_region_off := of_nat (lay_iobuf data0), nd_identify_buf_off := of_nat (lay_ident data0)\<rparr>"
    "tot = (of_nat (lay_ident data0 + 4096) + nd_hugepage_size data0 - 1) AND NOT (nd_hugepage_size data0 - 1)"
    using assms(2) unfolding pool_layout_def Let_def q a s i b lay_ident_def lay_iobuf_def lay_queue_def queue_pair_bytes_def nat_int
    by auto
qed

lemma queue_pair_bound:
  assumes "d \<le> 4096"
  shows "queue_pair_bytes d \<le> 524288"
proof -
  have "pg ((d + 1) * 64) < (d + 1) * 64 + 4096" "pg ((d + 1) * 16) < (d + 1) * 16 + 4096" by (rule pg_bounds)+
  then show ?thesis using assms unfolding queue_pair_bytes_def by (simp only: distrib_right)
qed

lemma lay_bounds:
  assumes "params_ok data"
  shows "lay_queue data \<le> lay_iobuf data" "lay_iobuf data \<le> lay_ident data" "lay_ident data < 2 ^ 40"
    "int (nat (nd_nr_io_queues data)) * sint (nd_queue_depth data) * 4096 < 2 ^ 31"
proof -
  let ?d = "unat (nd_queue_depth data)" and ?nr = "nat (nd_nr_io_queues data)" and ?b = "unat (nd_max_io_buf_bytes data)"
  have p: "?nr \<le> 64" "?d \<le> 4096" "?b \<le> 2097152" using assms by (auto simp: params_ok_def)
  show "lay_queue data \<le> lay_iobuf data" "lay_iobuf data \<le> lay_ident data" by (simp_all add: lay_iobuf_def lay_ident_def)
  have "queue_pair_bytes ?d \<le> 524288" using p(2) by (rule queue_pair_bound)
  then have "?nr * queue_pair_bytes ?d \<le> 64 * 524288" using p(1) by (rule mult_le_mono [rotated])
  moreover have nd: "?nr * ?d \<le> 64 * 4096" using p by (intro mult_le_mono) auto
  moreover have "?nr * ?d * ?b \<le> 64 * 4096 * 2097152" using mult_le_mono [OF nd p(3)] .
  ultimately show "lay_ident data < 2 ^ 40" by (simp add: lay_ident_def lay_iobuf_def lay_queue_def)
  have "?nr * ?d * 4096 < 2147483648" using nd by linarith
  then have "int (?nr * ?d * 4096) < 2147483648" by linarith
  then show "int ?nr * sint (nd_queue_depth data) * 4096 < 2 ^ 31" using p(2) by (simp add: sint_depth)
qed

lemma total_size:
  assumes "params_ok data0" "pool_layout data0 = (tot, data)"
  shows "lay_ident data0 + 4096 \<le> unat tot" "unat tot < 2 ^ 41" "unat tot mod 4096 = 0"
proof -
  obtain k where k: "nd_hugepage_size data0 = 2 ^ k" "12 \<le> k" "k \<le> 30" using assms(1) by (auto simp: params_ok_def)
  let ?w = "of_nat (lay_ident data0 + 4096) :: u64"
  have u: "unat ?w = lay_ident data0 + 4096" using lay_bounds(3) [OF assms(1)] by (intro unat_of_nat64) simp
  have kk: "(2::nat) ^ k \<le> 2 ^ 30" using k(3) by (intro power_increasing) simp_all
  then have h: "k < LENGTH(64)" "unat ?w + (2 ^ k - 1) < 2 ^ LENGTH(64)"
    using k(3) lay_bounds(3) [OF assms(1)] unfolding u by simp_all
  have t: "tot = round_up ?w (2 ^ k)"
    using layout_eq(2) [OF assms] k(1) by (simp add: round_up_def algebra_simps)
  show "lay_ident data0 + 4096 \<le> unat tot" using round_up_spec(1) [OF h] u t by simp
  have "unat tot < unat ?w + 2 ^ k" using round_up_spec(2) [OF h] t by simp
  then show "unat tot < 2 ^ 41" using u kk lay_bounds(3) [OF assms(1)] by simp
  have "(2::nat) ^ 12 dvd 2 ^ k" using k(2) by (rule le_imp_power_dvd)
  from dvd_trans [OF this round_up_spec(3) [OF h]] have "4096 dvd unat tot" using t by simp
  then show "unat tot mod 4096 = 0" by (rule dvd_imp_mod_0)
qed

text \<open>The areas of the pool that are used by themselves.\<close>

datatype nvme_area = QueueArea | PrpArea nat nat | IoArea nat nat | IdentArea

fun area_valid :: "nvme_vfio_tgt_data \<Rightarrow> nvme_area \<Rightarrow> bool" where
  "area_valid data (PrpArea qid tag) \<longleftrightarrow> int qid < nd_nr_io_queues data \<and> tag < unat (nd_queue_depth data)"
| "area_valid data (IoArea qid tag) \<longleftrightarrow> int qid < nd_nr_io_queues data \<and> tag < unat (nd_queue_depth data)"
| "area_valid data _ \<longleftrightarrow> True"

fun area_start :: "nvme_vfio_tgt_data \<Rightarrow> nvme_area \<Rightarrow> u64" where
  "area_start data QueueArea = dp_base (nd_pool data)"
| "area_start data (PrpArea qid tag) = nvme_pool_get_prp data (int qid) (int tag)"
| "area_start data (IoArea qid tag) = nvme_pool_get_io_buf data (int qid) (int tag)"
| "area_start data IdentArea = nvme_pool_get_identify_buf data"

fun area_len :: "nvme_vfio_tgt_data \<Rightarrow> nvme_area \<Rightarrow> nat" where
  "area_len data QueueArea = unat (nd_queue_region_off data)"
| "area_len data (PrpArea qid tag) = 4096"
| "area_len data (IoArea qid tag) = unat (nd_max_io_buf_bytes data)"
| "area_len data IdentArea = 4096"

definition area_bytes :: "nvme_vfio_tgt_data \<Rightarrow> nvme_area \<Rightarrow> nat set" where
  "area_bytes data a = {unat (area_start data a)..<unat (area_start data a) + area_len data a}"

fun lay_start :: "nvme_vfio_tgt_data \<Rightarrow> nvme_area \<Rightarrow> nat" where
  "lay_start data QueueArea = 0"
| "lay_start data (PrpArea qid tag) = lay_queue data + (qid * unat (nd_queue_depth data) + tag) * 4096"
| "lay_start data (IoArea qid tag) = lay_iobuf data + (qid * unat (nd_queue_depth data) + tag) * unat (nd_max_io_buf_bytes data)"
| "lay_start data IdentArea = lay_ident data"

lemma slot_less:
  assumes "(q::nat) < n" "t < d"
  shows "q * d + t < n * d"
proof -
  have "q * d + t < q * d + d" using assms(2) by simp
  also have "\<dots> = Suc q * d" by simp
  also have "\<dots> \<le> n * d" using assms(1) by (intro mult_le_mono1) simp
  finally show ?thesis .
qed

lemma slot_end: "(k::nat) < n \<Longrightarrow> k * s + s \<le> n * s"
  by (metis Suc_leI add.commute mult_Suc mult_le_mono1)

lemma area_end:
  assumes "params_ok data" "area_valid data a" "area_len data QueueArea = lay_queue data"
  shows "lay_start data a + area_len data a \<le> lay_ident data + 4096"
proof -
  note b = lay_bounds(1,2) [OF assms(1)]
  show ?thesis
  proof (cases a)
    case (PrpArea q t)
    then have "q < nat (nd_nr_io_queues data)" "t < unat (nd_queue_depth data)" using assms(2) by auto
    from slot_end [OF slot_less [OF this], of 4096] show ?thesis
      using b PrpArea unfolding lay_iobuf_def by (simp only: lay_start.simps area_len.simps)
  next
    case (IoArea q t)
    then have "q < nat (nd_nr_io_queues data)" "t < unat (nd_queue_depth data)" using assms(2) by auto
    from slot_end [OF slot_less [OF this], of "unat (nd_max_io_buf_bytes data)"] show ?thesis
      using b IoArea unfolding lay_ident_def by (simp only: lay_start.simps area_len.simps)
  qed (use b assms(3) in simp_all)
qed

lemma slot_inj: "(t::nat) < d \<Longrightarrow> t' < d \<Longrightarrow> q * d + t = q' * d + t' \<Longrightarrow> q = q' \<and> t = t'"
  by (metis div_mult_self3 div_less mod_less mod_mult_self3 add_0_right gr_implies_not0)

lemma slot_apart:
  assumes "(k::nat) \<noteq> l"
  shows "{z + k * s..<z + k * s + s} \<inter> {z + l * s..<z + l * s + s} = {}"
  using slot_end [of k l s] slot_end [of l k s] assms by (cases "k < l") auto

fun lay_region :: "nvme_vfio_tgt_data \<Rightarrow> nvme_area \<Rightarrow> nat \<times> nat \<times> nat" where
  "lay_region data QueueArea = (0, 0, lay_queue data)"
| "lay_region data (PrpArea qid tag) = (1, lay_queue data, lay_iobuf data)"
| "lay_region data (IoArea qid tag) = (2, lay_iobuf data, lay_ident data)"
| "lay_region data IdentArea = (3, lay_ident data, lay_ident data + 4096)"

lemma area_in_region:
  assumes "area_valid data a" "area_len data QueueArea = lay_queue data" "lay_region data a = (r, lo, hi)"
  shows "lo \<le> lay_start data a \<and> lay_start data a + area_len data a \<le> hi"
proof (cases a)
  case (PrpArea q t)
  then have "q < nat (nd_nr_io_queues data)" "t < unat (nd_queue_depth data)" using assms(1) by auto
  from slot_end [OF slot_less [OF this], of 4096] show ?thesis
    using PrpArea assms(3) by (auto simp: lay_iobuf_def)
next
  case (IoArea q t)
  then have "q < nat (nd_nr_io_queues data)" "t < unat (nd_queue_depth data)" using assms(1) by auto
  from slot_end [OF slot_less [OF this], of "unat (nd_max_io_buf_bytes data)"] show ?thesis
    using IoArea assms(3) by (auto simp: lay_ident_def)
qed (use assms(2,3) in simp_all)

lemma lay_disjoint:
  assumes ok: "params_ok data" "area_len data QueueArea = lay_queue data"
    and ab: "area_valid data a" "area_valid data b" "a \<noteq> b"
  shows "{lay_start data a..<lay_start data a + area_len data a} \<inter> {lay_start data b..<lay_start data b + area_len data b} = {}"
proof -
  obtain ra la ha rb lb hb where r: "lay_region data a = (ra, la, ha)" "lay_region data b = (rb, lb, hb)" by (metis prod_cases3)
  note in_a = area_in_region [OF ab(1) ok(2) r(1)] and in_b = area_in_region [OF ab(2) ok(2) r(2)]
  show ?thesis
  proof (cases "ra = rb")
    case True
    then consider (prp) q t q' t' where "a = PrpArea q t" "b = PrpArea q' t'" | (io) q t q' t' where "a = IoArea q t" "b = IoArea q' t'"
      using r ab(3) by (cases a; cases b) auto
    then show ?thesis
    proof cases
      case prp
      then have "q * unat (nd_queue_depth data) + t \<noteq> q' * unat (nd_queue_depth data) + t'"
        using ab slot_inj [of t "unat (nd_queue_depth data)" t' q q'] by auto
      from slot_apart [OF this, of "lay_queue data" 4096] show ?thesis using prp by simp
    next
      case io
      then have "q * unat (nd_queue_depth data) + t \<noteq> q' * unat (nd_queue_depth data) + t'"
        using ab slot_inj [of t "unat (nd_queue_depth data)" t' q q'] by auto
      from slot_apart [OF this, of "lay_iobuf data" "unat (nd_max_io_buf_bytes data)"] show ?thesis using io by simp
    qed
  next
    case False
    then have "ha \<le> lb \<or> hb \<le> la"
      using r lay_bounds(1,2) [OF ok(1)] by (cases a; cases b) auto
    then show ?thesis using in_a in_b by auto
  qed
qed

lemma pool_init_sel:
  assumes "params_ok data0" "nvme_dmabuf_pool_init E (Inr base) data0 h = (0, data, h')"
  shows "nd_nr_io_queues data = nd_nr_io_queues data0" "nd_queue_depth data = nd_queue_depth data0"
    "nd_max_io_buf_bytes data = nd_max_io_buf_bytes data0" "nd_hugepage_size data = nd_hugepage_size data0"
    "nd_queue_region_off data = of_nat (lay_queue data0)" "nd_prp_region_off data = of_nat (lay_queue data0)"
    "nd_io_buf_region_off data = of_nat (lay_iobuf data0)" "nd_identify_buf_off data = of_nat (lay_ident data0)"
    "nd_queue_alloc_off data = 0" "dp_base (nd_pool data) = base" "dp_size (nd_pool data) = fst (pool_layout data0)"
proof -
  obtain tot d1 where l: "pool_layout data0 = (tot, d1)" by fastforce
  have "\<exists>x. data = d1\<lparr>nd_extra_hugepages := x, nd_pool := \<lparr>dp_base = base, dp_size = tot, dp_cache = None, dp_nr_pages = 0\<rparr>,
      nd_queue_alloc_off := 0\<rparr>"
    using assms(2) l by (auto simp: nvme_dmabuf_pool_init_def dma_buf_pool_init_def Let_def split: prod.splits if_splits)
  then show "nd_nr_io_queues data = nd_nr_io_queues data0" "nd_queue_depth data = nd_queue_depth data0"
    "nd_max_io_buf_bytes data = nd_max_io_buf_bytes data0" "nd_hugepage_size data = nd_hugepage_size data0"
    "nd_queue_region_off data = of_nat (lay_queue data0)" "nd_prp_region_off data = of_nat (lay_queue data0)"
    "nd_io_buf_region_off data = of_nat (lay_iobuf data0)" "nd_identify_buf_off data = of_nat (lay_ident data0)"
    "nd_queue_alloc_off data = 0" "dp_base (nd_pool data) = base" "dp_size (nd_pool data) = fst (pool_layout data0)"
    unfolding layout_eq(1) [OF assms(1) l] l by auto
qed

lemma pool_init_lay:
  assumes "params_ok data0" "nvme_dmabuf_pool_init E (Inr base) data0 h = (0, data, h')"
  shows "params_ok data" "lay_queue data = lay_queue data0" "lay_iobuf data = lay_iobuf data0" "lay_ident data = lay_ident data0"
    "area_len data QueueArea = lay_queue data" "lay_ident data + 4096 \<le> unat (dp_size (nd_pool data))"
    "unat (dp_size (nd_pool data)) mod 4096 = 0"
proof -
  note sel = pool_init_sel [OF assms]
  obtain tot d1 where l: "pool_layout data0 = (tot, d1)" by fastforce
  show ok: "params_ok data" using assms(1) sel by (simp add: params_ok_def)
  show q: "lay_queue data = lay_queue data0" "lay_iobuf data = lay_iobuf data0" "lay_ident data = lay_ident data0"
    using sel by (simp_all add: lay_queue_def lay_iobuf_def lay_ident_def)
  show "area_len data QueueArea = lay_queue data"
    using lay_bounds [OF ok] sel(5) q by (simp add: unat_of_nat64)
  show "lay_ident data + 4096 \<le> unat (dp_size (nd_pool data))" "unat (dp_size (nd_pool data)) mod 4096 = 0"
    using total_size [OF assms(1) l] l q sel(11) by simp_all
qed

lemma area_start_eq:
  assumes ok: "params_ok data0" "nvme_dmabuf_pool_init E (Inr base) data0 h = (0, data, h')"
    and fit: "unat base + unat (dp_size (nd_pool data)) < 2 ^ 64" and a: "area_valid data a"
  shows "unat (area_start data a) = unat base + lay_start data a"
proof -
  note sel = pool_init_sel [OF ok] and lay = pool_init_lay [OF ok]
  have d: "sint (nd_queue_depth data0) = int (unat (nd_queue_depth data0))" using ok(1) by (intro sint_depth) (simp add: params_ok_def)
  have "area_start data a = of_nat (unat base + lay_start data a)"
  proof (cases a)
    case (PrpArea q t)
    have "word_of_int ((int q * int (unat (nd_queue_depth data0)) + int t) * 4096)
      = (of_nat ((q * unat (nd_queue_depth data0) + t) * 4096) :: u64)" by simp
    then show ?thesis using PrpArea by (simp only: area_start.simps nvme_pool_get_prp_def Let_def sel lay d lay_start.simps of_nat_add) simp
  next
    case (IoArea q t)
    have "word_of_int (int q * int (unat (nd_queue_depth data0)) + int t)
      = (of_nat (q * unat (nd_queue_depth data0) + t) :: u64)" by simp
    then show ?thesis using IoArea by (simp only: area_start.simps nvme_pool_get_io_buf_def Let_def sel lay d lay_start.simps of_nat_add) simp
  qed (simp_all add: nvme_pool_get_identify_buf_def sel lay)
  moreover have "lay_start data a \<le> unat (dp_size (nd_pool data))"
    using area_end [OF lay(1) a lay(5)] lay(6) by linarith
  then have "unat (of_nat (unat base + lay_start data a) :: u64) = unat base + lay_start data a"
    using fit by (intro unat_of_nat64) simp
  ultimately show ?thesis by metis
qed

section \<open>Addresses the device uses\<close>

text \<open>What an io address refers to by the mappings the kernel holds.\<close>

definition dev_addr :: "nvme_vfio_tgt_data \<Rightarrow> nat \<Rightarrow> nat option" where
  "dev_addr data a = (case find (\<lambda>(iova, va, len). unat iova \<le> a \<and> a < unat iova + unat len) (nd_iommu data) of
     None \<Rightarrow> None | Some (iova, va, len) \<Rightarrow> Some (unat va + (a - unat iova)))"

definition iommu_inv :: "nvme_vfio_tgt_data \<Rightarrow> bool" where
  "iommu_inv data \<longleftrightarrow> unat (nd_next_iova data) mod 4096 = 0 \<and> 0 < unat (nd_next_iova data) \<and>
     (\<forall>(iova, va, len) \<in> set (nd_iommu data). unat iova + unat len \<le> unat (nd_next_iova data)) \<and>
     sorted_wrt (\<lambda>(i, v, l) (i', v', l'). unat i' + unat l' \<le> unat i) (nd_iommu data)"

lemma get_iova_use: "nvme_use_iommu data \<Longrightarrow> nvme_get_iova data va sz =
    Some (nd_next_iova data, data\<lparr>nd_next_iova := nd_next_iova data + ((sz + PAGE_SIZE - 1) AND NOT (PAGE_SIZE - 1))\<rparr>)"
  by (simp add: nvme_get_iova_def)

lemma map_dma_use:
  assumes "nvme_use_iommu data" "0 < unat (nd_next_iova data)"
  shows "nvme_map_dma M data va sz m =
    (let len = (sz + PAGE_SIZE - 1) AND NOT (PAGE_SIZE - 1); i = nd_next_iova data; data1 = data\<lparr>nd_next_iova := i + len\<rparr>
     in if M va len i then Some (i, \<lparr>dm_vaddr = va, dm_iova = i, dm_size = sz\<rparr>, data1\<lparr>nd_iommu := (i, va, len) # nd_iommu data\<rparr>)
        else Some (0, m, data1))"
proof -
  have "nvme_use_iommu (data\<lparr>nd_next_iova := x\<rparr>) = nvme_use_iommu data" for x by (simp add: nvme_use_iommu_def)
  moreover have "nd_next_iova data \<noteq> 0" using assms(2) by auto
  ultimately show ?thesis
    using assms(1) by (simp add: nvme_map_dma_def get_iova_use nvme_do_vfio_map_def Let_def)
qed

text \<open>Mapping a buffer in iommu mode gives it a page aligned range of io addresses of its own: the
  device reaches byte \<open>i\<close> of the buffer at the returned address plus \<open>i\<close>, every address mapped before
  refers to what it referred to, and the ranges stay disjoint. When the kernel refuses the mapping 0
  is returned and nothing is mapped.\<close>

lemma map_dma_dev:
  assumes "iommu_inv data" "nvme_use_iommu data" "unat sz < 2 ^ 62" "unat (nd_next_iova data) + pg (unat sz) < 2 ^ 64"
    "nvme_map_dma M data va sz m = Some (iova, m', data')"
  shows "iommu_inv data' \<and> nvme_use_iommu data' \<and>
    (\<forall>a va'. dev_addr data a = Some va' \<longrightarrow> dev_addr data' a = Some va') \<and>
    (if iova = 0 then m' = m \<and> dev_addr data' = dev_addr data
     else unat iova mod 4096 = 0 \<and> m' = \<lparr>dm_vaddr = va, dm_iova = iova, dm_size = sz\<rparr> \<and>
       (\<forall>i < unat sz. dev_addr data (unat iova + i) = None \<and> dev_addr data' (unat iova + i) = Some (unat va + i)))"
proof -
  let ?i = "nd_next_iova data"
  let ?len = "(sz + PAGE_SIZE - 1) AND NOT (PAGE_SIZE - 1)"
  have len: "unat ?len = pg (unat sz)" "unat sz \<le> unat ?len" "unat ?len mod 4096 = 0"
    using unat_page_round [OF assms(3)] pg_bounds by simp_all
  have pos: "0 < unat ?i" "unat ?i mod 4096 = 0" using assms(1) by (auto simp: iommu_inv_def)
  then have nz: "?i \<noteq> 0" by auto
  have nx: "unat (?i + ?len) = unat ?i + unat ?len" using assms(4) len(1) by (simp add: unat_word_ariths)
  have fresh: "dev_addr data a = None" if "unat ?i \<le> a" for a
  proof -
    have "find (\<lambda>(iova, va, len). unat iova \<le> a \<and> a < unat iova + unat len) (nd_iommu data) = None"
      unfolding find_None_iff using assms(1) that by (fastforce simp: iommu_inv_def)
    then show ?thesis by (simp add: dev_addr_def)
  qed
  have inv1: "iommu_inv (data\<lparr>nd_next_iova := ?i + ?len\<rparr>)"
    using assms(1) nx len(3) pos by (auto simp: iommu_inv_def mod_add_eq [symmetric])
  show ?thesis
  proof (cases "M va ?len ?i")
    case True
    let ?d = "data\<lparr>nd_next_iova := ?i + ?len, nd_iommu := (?i, va, ?len) # nd_iommu data\<rparr>"
    have e: "iova = ?i" "m' = \<lparr>dm_vaddr = va, dm_iova = ?i, dm_size = sz\<rparr>" "data' = ?d"
      using assms(5) True unfolding map_dma_use [OF assms(2) pos(1)] by (auto simp: Let_def)
    have "iommu_inv ?d" using inv1 assms(1) nx by (auto simp: iommu_inv_def)
    moreover have "dev_addr ?d a = (if unat ?i \<le> a \<and> a < unat ?i + unat ?len then Some (unat va + (a - unat ?i)) else dev_addr data a)" for a
      by (simp add: dev_addr_def)
    ultimately show ?thesis
      using e nz fresh pos(2) len(2) assms(2) by (auto simp: nvme_use_iommu_def)
  next
    case False
    then have "iova = 0" "m' = m" "data' = data\<lparr>nd_next_iova := ?i + ?len\<rparr>"
      using assms(5) unfolding map_dma_use [OF assms(2) pos(1)] by (auto simp: Let_def)
    then show ?thesis using inv1 assms(2) by (auto simp: nvme_use_iommu_def dev_addr_def fun_eq_iff)
  qed
qed

section \<open>Properties\<close>

text \<open>C38: For the parameters the target accepts, the areas of the pool never overlap: the buffers of the
  queues, the list page and the data buffer of every tag of every queue and the identify page lie
  inside the pool, any two of them are disjoint, all begin at page boundaries of the pool, and the
  computations in \<open>int\<close> do not overflow.\<close>

theorem pool_areas_disjoint:
  assumes "params_ok data0" "nvme_dmabuf_pool_init E (Inr base) data0 h = (0, data, h')"
    "unat base + unat (dp_size (nd_pool data)) < 2 ^ 64" "area_valid data a" "area_valid data b"
  shows "(a \<noteq> b \<longrightarrow> area_bytes data a \<inter> area_bytes data b = {}) \<and>
    area_bytes data a \<subseteq> {unat base..<unat base + unat (dp_size (nd_pool data))} \<and>
    unat (area_start data a) mod 4096 = unat base mod 4096 \<and>
    nd_nr_io_queues data * sint (nd_queue_depth data) * 4096 < 2 ^ 31"
proof -
  note sel = pool_init_sel [OF assms(1,2)] and lay = pool_init_lay [OF assms(1,2)]
  note st = area_start_eq [OF assms(1-3)]
  have "area_bytes data a \<inter> area_bytes data b = {}" if "a \<noteq> b"
  proof -
    have e: "area_bytes data c = (+) (unat base) ` {lay_start data c..<lay_start data c + area_len data c}" if "area_valid data c" for c
      using st [OF that] by (simp add: area_bytes_def add_ac)
    show ?thesis
      unfolding e [OF assms(4)] e [OF assms(5)] image_Int [OF inj_on_add, symmetric]
      using lay_disjoint [OF lay(1,5) assms(4,5) that] by simp
  qed
  moreover have "area_bytes data a \<subseteq> {unat base..<unat base + unat (dp_size (nd_pool data))}"
    using st [OF assms(4)] area_end [OF lay(1) assms(4) lay(5)] lay(6) by (auto simp: area_bytes_def)
  moreover have "4096 dvd lay_start data a"
  proof -
    obtain k where k: "unat (nd_max_io_buf_bytes data) = 2 ^ k" "12 \<le> k" using lay(1) by (auto simp: params_ok_def)
    have "(2::nat) ^ 12 dvd 2 ^ k" using k(2) by (rule le_imp_power_dvd)
    then have b: "4096 dvd unat (nd_max_io_buf_bytes data)" using k(1) by simp
    have "4096 dvd pg n" for n using pg_bounds(3) by (simp add: mod_eq_0_iff_dvd)
    then have "4096 dvd lay_queue data" by (simp add: lay_queue_def queue_pair_bytes_def)
    then show ?thesis using b by (cases a) (auto simp: lay_iobuf_def lay_ident_def)
  qed
  then have "unat (area_start data a) mod 4096 = unat base mod 4096"
    using st [OF assms(4)] by (auto elim!: dvdE)
  moreover have "nd_nr_io_queues data * sint (nd_queue_depth data) * 4096 < 2 ^ 31"
  proof -
    have "int (nat (nd_nr_io_queues data)) = nd_nr_io_queues data" using lay(1) by (simp add: params_ok_def)
    then show ?thesis using lay_bounds(4) [OF lay(1)] by metis
  qed
  ultimately show ?thesis by blast
qed

definition sample_nvme :: nvme_vfio_tgt_data where
  "sample_nvme = \<lparr>nd_nsid = 1, nd_lba_shift = 9, nd_dev_size = 0, nd_user_copy = False, nd_use_noiommu = False,
     nd_force_noiommu = False, nd_admin_queue = sample_nq, nd_io_queues = [], nd_nr_io_queues = 2, nd_queue_depth = 2,
     nd_max_io_buf_bytes = 8192, nd_db_stride = 4, nd_vwc = 0, nd_mdts = 0, nd_sgls = 0, nd_next_iova = 0x100000000,
     nd_pool = \<lparr>dp_base = 0, dp_size = 0, dp_cache = None, dp_nr_pages = 0\<rparr>, nd_queue_region_off = 0, nd_prp_region_off = 0,
     nd_io_buf_region_off = 0, nd_identify_buf_off = 0, nd_queue_alloc_off = 0, nd_extra_hugepages = 0,
     nd_hugepage_size = 0x200000, nd_iommu = []\<rparr>"

definition sample_henv :: huge_env where
  "sample_henv = \<lparr>he_meminfo = True, he_open_read = None, he_open_write = None, he_write = (\<lambda>n h. h)\<rparr>"

definition sample_hsys :: huge_sys where
  "sample_hsys = \<lparr>hs_nr = 8, hs_free = 8, hs_size_kb = 2048\<rparr>"

definition sample_pool :: nvme_vfio_tgt_data where
  "sample_pool = fst (snd (nvme_dmabuf_pool_init sample_henv (Inr 0x40000000) sample_nvme sample_hsys))"

lemma sample_nvme_ok: "params_ok sample_nvme"
proof -
  have "\<exists>k. (8192::nat) = 2 ^ k \<and> 12 \<le> k" by (rule exI [of _ 13]) simp
  moreover have "\<exists>k. (0x200000::u64) = 2 ^ k \<and> 12 \<le> k \<and> k \<le> 30" by (rule exI [of _ 21]) simp
  ultimately show ?thesis by (simp add: params_ok_def sample_nvme_def)
qed

lemma sample_pool_init:
  "nvme_dmabuf_pool_init sample_henv (Inr 0x40000000) sample_nvme sample_hsys = (0, sample_pool, sample_hsys)"
  "unat (dp_size (nd_pool sample_pool)) = 0x200000" "nd_nr_io_queues sample_pool = 2" "unat (nd_queue_depth sample_pool) = 2"
  "iommu_inv sample_pool" "nvme_use_iommu sample_pool" "unat (nd_next_iova sample_pool) = 0x100000000"
proof -
  show "nvme_dmabuf_pool_init sample_henv (Inr 0x40000000) sample_nvme sample_hsys = (0, sample_pool, sample_hsys)"
    by code_simp
  have "dp_size (nd_pool sample_pool) = 0x200000" "nd_queue_depth sample_pool = 2" by code_simp+
  then show "unat (dp_size (nd_pool sample_pool)) = 0x200000" "unat (nd_queue_depth sample_pool) = 2" by simp_all
  have "nd_next_iova sample_pool = 0x100000000" "nd_iommu sample_pool = []" by code_simp+
  then show "iommu_inv sample_pool" "unat (nd_next_iova sample_pool) = 0x100000000" by (simp_all add: iommu_inv_def)
qed (code_simp)+

theorem pool_areas_disjoint_witness:
  "area_bytes sample_pool (PrpArea 0 1) \<inter> area_bytes sample_pool (IoArea 1 0) = {}"
  using pool_areas_disjoint [OF sample_nvme_ok sample_pool_init(1), of "PrpArea 0 1" "IoArea 1 0"] sample_pool_init(2-4) by simp

end
