(* ===== verification/Nvme_Io.thy ===== *)
theory Nvme_Io
  imports Nvme_Pool Tgt_Common
begin

text \<open>
  The io path of targets/nvme/ublk.nvme_vfio.cpp: the data pointers of a command (physical region
  pages or a scatter gather list), building and submitting the command of a request, and completing
  requests from the completion ring. A page of list entries is a function from the index of a 64 bit
  word to its value; structures written to it are written as words.
\<close>

unbundle bit_operations_syntax

abbreviation (input) "EFAULT \<equiv> (14::int)"
abbreviation (input) "NVME_RW_FUA \<equiv> (0x4000::u16)"
abbreviation (input) "NVME_SGL_FMT_DATA_DESC \<equiv> (0x00::u8)"
abbreviation (input) "NVME_SGL_FMT_LAST_SEG_DESC \<equiv> (0x03::u8)"
abbreviation (input) "NVME_SGL_FMT_ADDRESS \<equiv> (0x00::u8)"
abbreviation (input) "NVME_CMD_SGL_METABUF \<equiv> (0x40::u8)"
abbreviation (input) "NVME_DSMGMT_AD \<equiv> (4::u32)"

section \<open>State of an io\<close>

record nvme_io_priv =
  pv_data_mapping :: nvme_dma_mapping
  pv_prp_mapping :: nvme_dma_mapping
  pv_prp_list :: u64
  pv_page :: "nat \<Rightarrow> u64"

text \<open>The private data of a ublk queue: the target's data and the state of each io.\<close>

record nvme_tq =
  nt_data :: nvme_vfio_tgt_data
  nt_priv :: "nvme_io_priv list"

type_synonym 'r nvme_ublk_queue = "('r, nvme_tq) ublksrv_queue"

section \<open>Data pointers\<close>

function prp_loop :: "nat \<Rightarrow> u64 \<Rightarrow> u64 \<Rightarrow> (nat \<Rightarrow> u64) \<Rightarrow> u64 \<times> (nat \<Rightarrow> u64)" where
  "prp_loop prp_idx prp_addr left page =
     (if left > 0 \<and> prp_idx < 512
      then prp_loop (prp_idx + 1) (prp_addr + PAGE_SIZE) (if left > PAGE_SIZE then left - PAGE_SIZE else 0)
             (page(prp_idx := prp_addr))
      else (left, page))"
  by pat_completeness auto
termination
  by (relation "measure (\<lambda>(prp_idx, _). 512 - prp_idx)") auto

definition nvme_setup_prps ::
  "nvme_vfio_tgt_data \<Rightarrow> u64 \<Rightarrow> u64 \<Rightarrow> u64 \<Rightarrow> nvme_rw_command \<Rightarrow> nvme_io_priv \<Rightarrow>
     (int \<times> nvme_rw_command \<times> nvme_io_priv) option" where
  "nvme_setup_prps data io_buf iova0 len cmd0 priv =
     (let cmd = cmd0\<lparr>rw_prp1 := iova0\<rparr>;
          first1 = PAGE_SIZE - (iova0 AND (PAGE_SIZE - 1));
          first_page_len = (if first1 > len then len else first1);
          remaining = len - first_page_len;
          iova = iova0 + first_page_len
      in if remaining = 0 then Some (0, cmd\<lparr>rw_prp2 := 0\<rparr>, priv)
      else if remaining \<le> PAGE_SIZE then
        (if \<not> nvme_use_iommu data then do {
           paddr2 \<leftarrow> dma_buf_pool_virt_to_phys (nd_pool data) ((io_buf + first_page_len) AND NOT (PAGE_SIZE - 1));
           if paddr2 = DMA_BUF_PHYS_ERROR then Some (- EINVAL, cmd, priv)
           else Some (0, cmd\<lparr>rw_prp2 := paddr2\<rparr>, priv) }
         else Some (0, cmd\<lparr>rw_prp2 := iova\<rparr>, priv))
      else let (left, page) = prp_loop 0 iova remaining (pv_page priv);
               r = (cmd\<lparr>rw_prp2 := dm_iova (pv_prp_mapping priv)\<rparr>, priv\<lparr>pv_page := page\<rparr>)
           in if left > 0 then Some (- EINVAL, r) else Some (0, r))"

text \<open>A scatter gather descriptor as the two words it occupies.\<close>

definition sgl_desc :: "u64 \<Rightarrow> u32 \<Rightarrow> u8 \<Rightarrow> u64 \<times> u64" where
  "sgl_desc addr len ty = (addr, ucast len OR push_bit 56 (ucast ty))"

definition nvme_setup_sgl ::
  "nvme_vfio_tgt_data \<Rightarrow> u64 \<Rightarrow> u64 \<Rightarrow> u64 \<Rightarrow> nvme_rw_command \<Rightarrow> nvme_io_priv \<Rightarrow>
     (int \<times> nvme_rw_command \<times> nvme_io_priv) option" where
  "nvme_setup_sgl data io_buf iova len cmd0 priv =
     (let hps = nd_hugepage_size data;
          buf_start = io_buf;
          buf_end = buf_start + len - 1;
          cmd = cmd0\<lparr>rw_flags := rw_flags cmd0 OR NVME_CMD_SGL_METABUF\<rparr>;
          need_two_segments = (\<not> nvme_use_iommu data \<and> hps > 0 \<and> buf_start div hps \<noteq> buf_end div hps);
          data_ty = push_bit 4 NVME_SGL_FMT_DATA_DESC OR NVME_SGL_FMT_ADDRESS
      in if \<not> need_two_segments then
           (let d = sgl_desc iova (ucast len) data_ty in Some (0, cmd\<lparr>rw_prp1 := fst d, rw_prp2 := snd d\<rparr>, priv))
         else let hp_boundary = (buf_start div hps + 1) * hps;
                  seg1_len = hp_boundary - buf_start;
                  seg2_len = len - seg1_len
         in do {
           seg2_phys \<leftarrow> dma_buf_pool_virt_to_phys (nd_pool data) hp_boundary;
           if seg2_phys = DMA_BUF_PHYS_ERROR then Some (- EFAULT, cmd, priv)
           else let d0 = sgl_desc iova (ucast seg1_len) data_ty;
                    d1 = sgl_desc seg2_phys (ucast seg2_len) data_ty;
                    d = sgl_desc (dm_iova (pv_prp_mapping priv)) 32 (push_bit 4 NVME_SGL_FMT_LAST_SEG_DESC OR NVME_SGL_FMT_ADDRESS)
                in Some (0, cmd\<lparr>rw_prp1 := fst d, rw_prp2 := snd d\<rparr>,
                     priv\<lparr>pv_page := (pv_page priv)(0 := fst d0, 1 := snd d0, 2 := fst d1, 3 := snd d1)\<rparr>) })"

section \<open>Building commands\<close>

text \<open>The results of copying between the ublk device and a buffer: an errno or the number of bytes.\<close>

record copy_sys =
  uc_pread :: "u64 \<Rightarrow> u64 \<Rightarrow> int + u64"
  uc_pwrite :: "u64 \<Rightarrow> u64 \<Rightarrow> int + u64"

definition nvme_user_copy_sync :: "copy_sys \<Rightarrow> nat \<Rightarrow> nat \<Rightarrow> u64 \<Rightarrow> bool \<Rightarrow> int" where
  "nvme_user_copy_sync C qid tag len to_ublk =
     (let pos = ublk_pos (of_nat qid) (of_nat tag) 0
      in case (if to_ublk then uc_pwrite C pos len else uc_pread C pos len) of
           Inl errno \<Rightarrow> - errno
         | Inr n \<Rightarrow> if n \<noteq> len then - EIO else 0)"

definition zero_rw :: nvme_rw_command where
  "zero_rw = \<lparr>rw_opcode = 0, rw_flags = 0, rw_cid = 0, rw_nsid = 0, rw_prp1 = 0, rw_prp2 = 0, rw_slba = 0, rw_length = 0,
     rw_control = 0\<rparr>"

definition zero_common :: nvme_common_command where
  "zero_common = \<lparr>cm_opcode = 0, cm_flags = 0, cm_cid = 0, cm_nsid = 0, cm_prp1 = 0, cm_prp2 = 0, cm_cdw10 = 0, cm_cdw11 = 0\<rparr>"

definition rw_command :: "nvme_vfio_tgt_data \<Rightarrow> ublksrv_io_desc \<Rightarrow> nat \<Rightarrow> nvme_rw_command" where
  "rw_command data iod tag =
     (let sh = unat (nd_lba_shift data - 9);
          slba = drop_bit sh (start_sector iod);
          nlb = drop_bit sh (nr_sectors iod) - 1
      in zero_rw\<lparr>rw_opcode := (if ublksrv_get_op iod = ucast UBLK_IO_OP_WRITE then NVME_CMD_WRITE else NVME_CMD_READ),
           rw_cid := of_nat tag, rw_nsid := nd_nsid data, rw_slba := slba, rw_length := ucast nlb,
           rw_control := (if has (ublksrv_get_flags iod) UBLK_IO_F_FUA then NVME_RW_FUA else 0)\<rparr>)"

definition nvme_queue_rw_io ::
  "ioas \<Rightarrow> copy_sys \<Rightarrow> nat \<Rightarrow> ublksrv_io_desc \<Rightarrow> nat \<Rightarrow> nvme_queue \<Rightarrow> nvme_io_priv \<Rightarrow> nvme_vfio_tgt_data \<Rightarrow>
     (int \<times> nvme_queue \<times> nvme_io_priv \<times> nvme_vfio_tgt_data) option" where
  "nvme_queue_rw_io M C qid iod tag nvmeq priv0 data0 =
     (let len = (ucast (push_bit 9 (nr_sectors iod)) :: u64);
          io_buf = nvme_pool_get_io_buf data0 (int qid) (int tag)
      in do {
        (iova, mapping, data) \<leftarrow>
          (if dm_iova (pv_data_mapping priv0) \<noteq> 0
           then Some (dm_iova (pv_data_mapping priv0), pv_data_mapping priv0, data0)
           else nvme_map_dma M data0 io_buf (ucast (nd_max_io_buf_bytes data0)) (pv_data_mapping priv0));
        let priv = priv0\<lparr>pv_data_mapping := mapping\<rparr>;
        let op = ublksrv_get_op iod;
        let copy = (if nd_user_copy data \<and> op = ucast UBLK_IO_OP_WRITE then nvme_user_copy_sync C qid tag len False else 0);
        if iova = 0 then Some (- ENOMEM, nvmeq, priv, data)
        else if copy < 0 then Some (copy, nvmeq, priv, data)
        else do {
          (ret, cmd, priv1) \<leftarrow> (if nvme_sgl_supported data then nvme_setup_sgl data io_buf iova len (rw_command data iod tag) priv
                               else nvme_setup_prps data io_buf iova len (rw_command data iod tag) priv);
          if ret < 0 then Some (- EINVAL, nvmeq, priv1, data)
          else Some (0, sq_copy_submit (Rw cmd) nvmeq, priv1, data) } })"

definition nvme_queue_flush_io :: "nat \<Rightarrow> nvme_vfio_tgt_data \<Rightarrow> nvme_queue \<Rightarrow> int \<times> nvme_queue" where
  "nvme_queue_flush_io tag data nvmeq =
     (0, sq_copy_submit (Common (zero_common\<lparr>cm_opcode := NVME_CMD_FLUSH, cm_cid := of_nat tag, cm_nsid := nd_nsid data\<rparr>)) nvmeq)"

definition nvme_queue_discard_io ::
  "ublksrv_io_desc \<Rightarrow> nat \<Rightarrow> nvme_vfio_tgt_data \<Rightarrow> nvme_io_priv \<Rightarrow> nvme_queue \<Rightarrow> int \<times> nvme_io_priv \<times> nvme_queue" where
  "nvme_queue_discard_io iod tag data priv nvmeq =
     (let sh = unat (nd_lba_shift data - 9);
          slba = drop_bit sh (start_sector iod);
          nlb = drop_bit sh (nr_sectors iod);
          priv1 = priv\<lparr>pv_page := (\<lambda>_. 0)(0 := push_bit 32 (ucast nlb), 1 := slba)\<rparr>
      in (0, priv1, sq_copy_submit (Common (zero_common\<lparr>cm_opcode := NVME_CMD_DSM, cm_cid := of_nat tag,
            cm_nsid := nd_nsid data, cm_prp1 := dm_iova (pv_prp_mapping priv), cm_cdw10 := 0, cm_cdw11 := NVME_DSMGMT_AD\<rparr>)) nvmeq))"

section \<open>The callbacks of the target\<close>

definition set_nvme :: "nat \<Rightarrow> nat \<Rightarrow> nvme_queue \<Rightarrow> nvme_io_priv \<Rightarrow> nvme_vfio_tgt_data \<Rightarrow> 'r nvme_ublk_queue \<Rightarrow> 'r nvme_ublk_queue" where
  "set_nvme qid tag nvmeq priv data q =
     q\<lparr>private_data := \<lparr>nt_data = data\<lparr>nd_io_queues := (nd_io_queues data)[qid := nvmeq]\<rparr>,
        nt_priv = (nt_priv (private_data q))[tag := priv]\<rparr>\<rparr>"

definition nvme_vfio_queue_io ::
  "'r uring_api \<Rightarrow> ioas \<Rightarrow> copy_sys \<Rightarrow> 'r nvme_ublk_queue \<Rightarrow> nat \<Rightarrow> (int \<times> 'r nvme_ublk_queue) option" where
  "nvme_vfio_queue_io U M C q tag =
     (let data = nt_data (private_data q);
          iod = ublksrv_get_iod q tag;
          nvmeq = nd_io_queues data ! q_id q;
          priv = nt_priv (private_data q) ! tag;
          op = ublksrv_get_op iod
      in do {
        (ret, q1) \<leftarrow>
          (if op = ucast UBLK_IO_OP_READ \<or> op = ucast UBLK_IO_OP_WRITE then do {
             (ret, nvmeq1, priv1, data1) \<leftarrow> nvme_queue_rw_io M C (q_id q) iod tag nvmeq priv data;
             Some (ret, set_nvme (q_id q) tag nvmeq1 priv1 data1 q) }
           else if op = ucast UBLK_IO_OP_FLUSH then
             (let (ret, nvmeq1) = nvme_queue_flush_io tag data nvmeq in Some (ret, set_nvme (q_id q) tag nvmeq1 priv data q))
           else if op = ucast UBLK_IO_OP_DISCARD then
             (let (ret, priv1, nvmeq1) = nvme_queue_discard_io iod tag data priv nvmeq
              in Some (ret, set_nvme (q_id q) tag nvmeq1 priv1 data q))
           else Some (- EINVAL, q));
        if ret < 0 then Some (ret, snd (ublksrv_complete_io U q1 tag ret))
        else Some (ret, ublksrv_queue_inc_tgt_io_inflight q1) })"

definition cqe_result :: "copy_sys \<Rightarrow> nat \<Rightarrow> nvme_vfio_tgt_data \<Rightarrow> ublksrv_io_desc \<Rightarrow> nat \<Rightarrow> u16 \<Rightarrow> int" where
  "cqe_result C qid data iod tag status =
     (if status = 0 then
        (if ublksrv_get_op iod = ucast UBLK_IO_OP_DISCARD then 0
         else let result = sint (push_bit 9 (nr_sectors iod)) in
              if nd_user_copy data \<and> ublksrv_get_op iod = ucast UBLK_IO_OP_READ
              then (let ret = nvme_user_copy_sync C qid tag (word_of_int result) True in if ret < 0 then ret else result)
              else result)
      else - EIO)"

text \<open>The queue pair of a ublk queue.\<close>

definition cur_nvmeq :: "'r nvme_ublk_queue \<Rightarrow> nvme_queue" where
  "cur_nvmeq q = nd_io_queues (nt_data (private_data q)) ! q_id q"

definition upd_nvmeq :: "(nvme_queue \<Rightarrow> nvme_queue) \<Rightarrow> 'r nvme_ublk_queue \<Rightarrow> 'r nvme_ublk_queue" where
  "upd_nvmeq f q =
     (let data = nt_data (private_data q) in
      q\<lparr>private_data := (private_data q)\<lparr>nt_data :=
        data\<lparr>nd_io_queues := (nd_io_queues data)[q_id q := f (nd_io_queues data ! q_id q)]\<rparr>\<rparr>\<rparr>)"

definition poll_one :: "'r uring_api \<Rightarrow> copy_sys \<Rightarrow> 'r nvme_ublk_queue \<Rightarrow> 'r nvme_ublk_queue" where
  "poll_one U C q =
     (let (cid, status) = head_cqe (cur_nvmeq q);
          tag = unat cid;
          result = cqe_result C (q_id q) (nt_data (private_data q)) (ublksrv_get_iod q tag) tag status
      in upd_nvmeq nvme_update_cq_head
           (snd (ublksrv_complete_io U (ublksrv_queue_dec_tgt_io_inflight q) tag result)))"

partial_function (option) poll_loop :: "'r uring_api \<Rightarrow> copy_sys \<Rightarrow> bool \<Rightarrow> 'r nvme_ublk_queue \<Rightarrow> (bool \<times> 'r nvme_ublk_queue) option" where
  "poll_loop U C found q =
     (if nvme_cqe_pending (cur_nvmeq q) then poll_loop U C True (poll_one U C q) else Some (found, q))"

definition nvme_poll_cq :: "'r uring_api \<Rightarrow> copy_sys \<Rightarrow> 'r nvme_ublk_queue \<Rightarrow> (bool \<times> 'r nvme_ublk_queue) option" where
  "nvme_poll_cq U C q = map_option
     (\<lambda>(found, q1). (found, if found then upd_nvmeq (\<lambda>nvmeq. nvmeq\<lparr>nq_cq_db := ucast (nq_cq_head nvmeq)\<rparr>) q1 else q1))
     (poll_loop U C False q)"

partial_function (option) background_loop :: "'r uring_api \<Rightarrow> copy_sys \<Rightarrow> 'r nvme_ublk_queue \<Rightarrow> 'r nvme_ublk_queue option" where
  "background_loop U C q = (case nvme_poll_cq U C q of None \<Rightarrow> None
     | Some (found, q1) \<Rightarrow> if found then background_loop U C q1 else Some q1)"

definition nvme_vfio_handle_io_background :: "'r uring_api \<Rightarrow> copy_sys \<Rightarrow> 'r nvme_ublk_queue \<Rightarrow> 'r nvme_ublk_queue option" where
  "nvme_vfio_handle_io_background U C q = background_loop U C (upd_nvmeq nvme_sq_flush q)"

definition nvme_vfio_handle_io_async ::
  "'r uring_api \<Rightarrow> ioas \<Rightarrow> copy_sys \<Rightarrow> 'r nvme_ublk_queue \<Rightarrow> nat \<Rightarrow> (int \<times> 'r nvme_ublk_queue) option" where
  "nvme_vfio_handle_io_async U M C q tag =
     map_option (\<lambda>(ret, q1). (if ret \<ge> 0 then 0 else ret, q1)) (nvme_vfio_queue_io U M C q tag)"

definition nvme_vfio_alloc_io_buf :: "'r nvme_ublk_queue \<Rightarrow> nat \<Rightarrow> u64" where
  "nvme_vfio_alloc_io_buf q tag = nvme_pool_get_io_buf (nt_data (private_data q)) (int (q_id q)) (int tag)"

section \<open>What the data pointers describe\<close>

text \<open>
  The reading of the data pointers by the controller, as the specification of the interface has it:
  memory ranges in the order of the transfer. \<open>mem\<close> gives the words of the page at an address.
\<close>

definition prp_segs :: "(u64 \<Rightarrow> nat \<Rightarrow> u64) \<Rightarrow> u64 \<Rightarrow> u64 \<Rightarrow> nat \<Rightarrow> (nat \<times> nat) list" where
  "prp_segs mem prp1 prp2 len =
     (let n1 = min len (4096 - unat prp1 mod 4096); r = len - n1 in
      (unat prp1, n1) #
      (if r = 0 then []
       else if r \<le> 4096 then [(unat prp2, r)]
       else map (\<lambda>i. (unat (mem prp2 i), min 4096 (r - i * 4096))) [0..<(r + 4095) div 4096]))"

definition seg_bytes :: "(nat \<times> nat) list \<Rightarrow> nat list" where
  "seg_bytes segs = concat (map (\<lambda>(a, n). [a..<a + n]) segs)"

lemma pages_concat:
  "concat (map (\<lambda>i. [b + i * 4096..<b + i * 4096 + min 4096 (r - i * 4096)]) [0..<n]) = [b..<b + min r (n * 4096)]"
proof (induction n)
  case (Suc n)
  show ?case
  proof (cases "r \<le> n * 4096")
    case True
    then show ?thesis using Suc by (simp add: min_def)
  next
    case False
    let ?m = "min 4096 (r - n * 4096)"
    have m: "min r (n * 4096) = n * 4096" "min r (Suc n * 4096) = n * 4096 + ?m" using False by (auto simp: min_def)
    have "[b..<b + n * 4096] @ [b + n * 4096..<b + n * 4096 + ?m] = [b..<b + n * 4096 + ?m]"
      by (rule upt_add_eq_append [symmetric]) simp
    then show ?thesis using Suc.IH unfolding m by (simp add: add.assoc)
  qed
qed simp

lemma pages_step:
  assumes "0 < (n::nat)"
  shows "(n + 4095) div 4096 = Suc ((n - 4096 + 4095) div 4096)"
proof (cases "n \<le> 4096")
  case True
  then have "(n + 4095) div 4096 = 1" using assms by (intro div_nat_eqI) simp_all
  then show ?thesis using True by simp
next
  case False
  then have "n + 4095 = (n - 4096 + 4095) + 4096" by simp
  then show ?thesis by (metis div_add_self2 Suc_eq_plus1 zero_neq_numeral)
qed

declare prp_loop.simps [simp del]

lemma prp_loop_result:
  assumes "prp_idx \<le> 512"
  shows "unat left \<le> (512 - prp_idx) * 4096 \<Longrightarrow> prp_loop prp_idx a left page =
      (0, \<lambda>j. if prp_idx \<le> j \<and> j < prp_idx + (unat left + 4095) div 4096 then a + of_nat (j - prp_idx) * 4096 else page j)"
    and "(512 - prp_idx) * 4096 < unat left \<Longrightarrow> fst (prp_loop prp_idx a left page) > 0"
  using assms
proof (induction prp_idx a left page rule: prp_loop.induct)
  case (1 prp_idx a left page)
  let ?l = "if left > PAGE_SIZE then left - PAGE_SIZE else 0"
  have g: "left > PAGE_SIZE \<longleftrightarrow> unat left > 4096" by (simp add: word_less_nat_alt)
  have l: "unat ?l = unat left - 4096"
    using g by (auto simp: unat_sub word_less_nat_alt word_le_nat_alt)
  {
    case 1
    show ?case
    proof (cases "left > 0 \<and> prp_idx < 512")
      case True
      have pos: "0 < unat left" using True by (simp add: word_less_nat_alt)
      have "unat ?l \<le> (512 - (prp_idx + 1)) * 4096" using 1(1) True l by (simp add: algebra_simps)
      then have ih: "prp_loop (prp_idx + 1) (a + PAGE_SIZE) ?l (page(prp_idx := a)) =
        (0, \<lambda>j. if prp_idx + 1 \<le> j \<and> j < prp_idx + 1 + (unat ?l + 4095) div 4096
           then a + PAGE_SIZE + of_nat (j - (prp_idx + 1)) * 4096 else (page(prp_idx := a)) j)"
        using True by (intro "1.IH"(1)) simp_all
      have c: "(unat left + 4095) div 4096 = Suc ((unat left - 4096 + 4095) div 4096)" using pos by (rule pages_step)
      have e: "a + PAGE_SIZE + of_nat (j - (prp_idx + 1)) * 4096 = a + of_nat (j - prp_idx) * 4096" if "prp_idx + 1 \<le> j" for j
      proof -
        have "j - prp_idx = Suc (j - (prp_idx + 1))" using that by simp
        then show ?thesis by (simp add: algebra_simps)
      qed
      show ?thesis
        unfolding prp_loop.simps [of prp_idx a left page] ih l c using True by (auto simp: fun_eq_iff e)
    next
      case False
      then have "left = 0" using 1 by (auto simp: word_less_nat_alt unat_eq_0)
      then show ?thesis by (auto simp: prp_loop.simps fun_eq_iff)
    qed
  next
    case 2
    then have pos: "left > 0" by (simp add: word_less_nat_alt)
    show ?case
    proof (cases "prp_idx < 512")
      case True
      have "(512 - (prp_idx + 1)) * 4096 < unat ?l" using 2(1) True l by (simp add: algebra_simps)
      then have "fst (prp_loop (prp_idx + 1) (a + PAGE_SIZE) ?l (page(prp_idx := a))) > 0"
        using True pos by (intro "1.IH"(2)) simp_all
      then show ?thesis using True pos unfolding prp_loop.simps [of prp_idx a left page] by simp
    next
      case False
      then show ?thesis using pos by (simp add: prp_loop.simps)
    qed
  }
qed

text \<open>The first page of a transfer and what remains.\<close>

definition first_len :: "u64 \<Rightarrow> u64 \<Rightarrow> nat" where
  "first_len iova len = min (unat len) (4096 - unat iova mod 4096)"

definition rest_len :: "u64 \<Rightarrow> u64 \<Rightarrow> nat" where
  "rest_len iova len = unat len - first_len iova len"

lemma first_page_words:
  fixes iova len :: u64
  defines "f \<equiv> (if PAGE_SIZE - (iova AND (PAGE_SIZE - 1)) > len then len else PAGE_SIZE - (iova AND (PAGE_SIZE - 1)))"
  shows "unat f = first_len iova len" "unat (len - f) = rest_len iova len" "len - f = 0 \<longleftrightarrow> rest_len iova len = 0"
    "len - f \<le> PAGE_SIZE \<longleftrightarrow> rest_len iova len \<le> 4096"
proof -
  have "unat (iova mod 4096) = unat iova mod 4096" by (simp add: unat_mod_distrib)
  moreover have "unat iova mod 4096 < 4096" by simp
  ultimately have m: "unat (PAGE_SIZE - (iova AND (PAGE_SIZE - 1))) = 4096 - unat iova mod 4096"
    by (simp add: and_page_mask unat_sub word_le_nat_alt)
  show f: "unat f = first_len iova len"
    using m unfolding f_def first_len_def by (auto simp: word_less_nat_alt min_def)
  have "f \<le> len" using f by (simp add: word_le_nat_alt first_len_def)
  then show r: "unat (len - f) = rest_len iova len" using f by (simp add: unat_sub rest_len_def)
  show "len - f = 0 \<longleftrightarrow> rest_len iova len = 0" using r by (metis unat_eq_0)
  show "len - f \<le> PAGE_SIZE \<longleftrightarrow> rest_len iova len \<le> 4096" using r by (simp add: word_le_nat_alt)
qed

lemma setup_prps_cases:
  fixes iova len :: u64
  obtains f where "unat f = first_len iova len"
    "nvme_setup_prps data io_buf iova len cmd priv =
      (if rest_len iova len = 0 then Some (0, cmd\<lparr>rw_prp1 := iova, rw_prp2 := 0\<rparr>, priv)
       else if rest_len iova len \<le> 4096 then
        (if \<not> nvme_use_iommu data then do {
           paddr2 \<leftarrow> dma_buf_pool_virt_to_phys (nd_pool data) ((io_buf + f) AND NOT (PAGE_SIZE - 1));
           if paddr2 = DMA_BUF_PHYS_ERROR then Some (- EINVAL, cmd\<lparr>rw_prp1 := iova\<rparr>, priv)
           else Some (0, cmd\<lparr>rw_prp1 := iova, rw_prp2 := paddr2\<rparr>, priv) }
         else Some (0, cmd\<lparr>rw_prp1 := iova, rw_prp2 := iova + f\<rparr>, priv))
       else Some (if rest_len iova len \<le> 512 * 4096 then 0 else - EINVAL,
             cmd\<lparr>rw_prp1 := iova, rw_prp2 := dm_iova (pv_prp_mapping priv)\<rparr>,
             priv\<lparr>pv_page := snd (prp_loop 0 (iova + f) (len - f) (pv_page priv))\<rparr>))"
    "unat (len - f) = rest_len iova len"
proof -
  define f where "f = (if PAGE_SIZE - (iova AND (PAGE_SIZE - 1)) > len then len else PAGE_SIZE - (iova AND (PAGE_SIZE - 1)))"
  note w = first_page_words [where iova = iova and len = len, folded f_def]
  have l: "fst (prp_loop 0 (iova + f) (len - f) (pv_page priv)) > 0 \<longleftrightarrow> \<not> rest_len iova len \<le> 512 * 4096"
  proof (cases "rest_len iova len \<le> 512 * 4096")
    case True
    then show ?thesis using prp_loop_result(1) [of 0 "len - f"] w(2) by simp
  next
    case False
    then show ?thesis using prp_loop_result(2) [of 0 "len - f"] w(2) by simp
  qed
  show ?thesis
    by (rule that [OF w(1) _ w(2)])
       (simp only: nvme_setup_prps_def Let_def f_def [symmetric] w(3,4) l case_prod_beta, simp)
qed

lemma to_page_end: "((x::nat) + (4096 - x mod 4096)) mod 4096 = 0"
proof -
  obtain q r where "x = q * 4096 + r" "r < 4096" by (metis div_mult_mod_eq mod_less_divisor zero_less_numeral)
  then have "x + (4096 - x mod 4096) = (q + 1) * 4096" by simp
  then show ?thesis by (metis mod_mult_self2_is_0)
qed

lemma in_pages:
  assumes "(i::nat) < (r + 4095) div 4096"
  shows "i * 4096 < r"
proof -
  have "(r + 4095) div 4096 * 4096 \<le> r + 4095" by (rule div_times_less_eq_dividend)
  moreover have "(i + 1) * 4096 \<le> (r + 4095) div 4096 * 4096" using assms by (intro mult_le_mono1) simp
  ultimately have "(i + 1) * 4096 \<le> r + 4095" by (rule order_trans [rotated])
  then show ?thesis by simp
qed

lemma pages_enough: "(r::nat) \<le> (r + 4095) div 4096 * 4096"
  using pg_bounds(1) [of r] by (simp add: pg_def)

lemma first_aligned:
  assumes "rest_len iova len > 0"
  shows "(unat iova + first_len iova len) mod 4096 = 0"
proof -
  have "first_len iova len = 4096 - unat iova mod 4096" using assms by (auto simp: rest_len_def first_len_def min_def split: if_splits)
  then show ?thesis using to_page_end [of "unat iova"] by simp
qed

lemma list_entry:
  assumes "unat iova + unat len < 2 ^ 64" "unat f = first_len iova len" "i * 4096 < rest_len iova len"
  shows "unat (iova + f + of_nat i * 4096) = unat iova + first_len iova len + i * 4096"
proof -
  have "iova + f + of_nat i * 4096 = of_nat (unat iova + unat f + i * 4096)" by simp
  moreover have "unat iova + unat f + i * 4096 < 2 ^ 64"
    using assms by (simp add: rest_len_def first_len_def)
  ultimately show ?thesis using unat_of_nat64 [of "unat iova + unat f + i * 4096"] assms(2) by metis
qed

lemma len_split: "unat len = first_len iova len + rest_len iova len"
  by (simp add: rest_len_def first_len_def)

lemma prp_segs_eq:
  "prp_segs mem iova prp2 (unat len) = (unat iova, first_len iova len) #
     (if rest_len iova len = 0 then []
      else if rest_len iova len \<le> 4096 then [(unat prp2, rest_len iova len)]
      else map (\<lambda>i. (unat (mem prp2 i), min 4096 (rest_len iova len - i * 4096))) [0..<(rest_len iova len + 4095) div 4096])"
  by (simp only: prp_segs_def Let_def first_len_def [symmetric] rest_len_def [symmetric])

lemma list_segs:
  assumes bound: "unat iova + unat len < 2 ^ 64" and f: "unat f = first_len iova len" "unat (len - f) = rest_len iova len"
    and r: "4096 < rest_len iova len" "rest_len iova len \<le> 512 * 4096"
    and mem: "mem prp2 = snd (prp_loop 0 (iova + f) (len - f) page)"
  shows "seg_bytes (prp_segs mem iova prp2 (unat len)) = [unat iova..<unat iova + unat len]"
    "\<forall>i < (rest_len iova len + 4095) div 4096. unat (mem prp2 i) mod 4096 = 0"
proof -
  let ?r = "rest_len iova len" and ?b = "unat iova + first_len iova len"
  let ?n = "(?r + 4095) div 4096"
  have "mem prp2 i = iova + f + of_nat i * 4096 \<and> i * 4096 < ?r" if "i < ?n" for i
  proof -
    have "i * 4096 < ?r" using that by (rule in_pages)
    then show ?thesis using that mem prp_loop_result(1) [of 0 "len - f" "iova + f" page] f(2) r(2) by simp
  qed
  then have e: "unat (mem prp2 i) = ?b + i * 4096" if "i < ?n" for i
    using list_entry [OF bound f(1)] that by metis
  have "concat (map (\<lambda>i. [unat (mem prp2 i)..<unat (mem prp2 i) + min 4096 (?r - i * 4096)]) [0..<?n])
    = concat (map (\<lambda>i. [?b + i * 4096..<?b + i * 4096 + min 4096 (?r - i * 4096)]) [0..<?n])"
    by (intro arg_cong [where f = concat] map_cong) (simp_all add: e)
  also have "\<dots> = [?b..<?b + ?r]"
  proof -
    have "?r \<le> ?n * 4096" by (rule pages_enough)
    then show ?thesis using pages_concat [of ?b ?r ?n] by (simp add: min_absorb1)
  qed
  also have "[unat iova..<?b] @ [?b..<?b + ?r] = [unat iova..<?b + ?r]" by (rule upt_add_eq_append [symmetric]) simp
  finally show "seg_bytes (prp_segs mem iova prp2 (unat len)) = [unat iova..<unat iova + unat len]"
    unfolding prp_segs_eq using r(1) by (simp add: seg_bytes_def comp_def len_split [of len iova] add.assoc)
  show "\<forall>i < ?n. unat (mem prp2 i) mod 4096 = 0" using e first_aligned [of iova len] r(1) by auto
qed

subsection \<open>Physical memory\<close>

text \<open>
  In no-iommu mode device addresses are physical. \<open>phys_units data g P\<close>: the pool translates byte
  \<open>a\<close> of its area to \<open>P a\<close>, and memory is contiguous inside each unit of \<open>g\<close> bytes (a page, or a
  huge page for memory backed by huge pages).
\<close>

definition in_pool :: "nvme_vfio_tgt_data \<Rightarrow> nat \<Rightarrow> bool" where
  "in_pool data a \<longleftrightarrow> unat (dp_base (nd_pool data)) \<le> a \<and> a < unat (dp_base (nd_pool data)) + unat (dp_size (nd_pool data))"

definition phys_units :: "nvme_vfio_tgt_data \<Rightarrow> nat \<Rightarrow> (nat \<Rightarrow> nat) \<Rightarrow> bool" where
  "phys_units data g P \<longleftrightarrow>
     (\<forall>a. in_pool data a \<longrightarrow> dma_buf_pool_virt_to_phys (nd_pool data) (of_nat a) = Some (of_nat (P a)) \<and>
        P a < 2 ^ 64 - 1 \<and> P a mod 4096 = a mod 4096) \<and>
     (\<forall>a b. in_pool data a \<and> in_pool data b \<and> a \<le> b \<and> a div g = b div g \<longrightarrow> P b = P a + (b - a))"

lemma phys_unitsD:
  assumes "phys_units data g P"
  shows "in_pool data a \<Longrightarrow> dma_buf_pool_virt_to_phys (nd_pool data) (of_nat a) = Some (of_nat (P a))"
    "in_pool data a \<Longrightarrow> P a < 2 ^ 64 - 1" "in_pool data a \<Longrightarrow> P a mod 4096 = a mod 4096"
    "in_pool data a \<Longrightarrow> in_pool data b \<Longrightarrow> a \<le> b \<Longrightarrow> a div g = b div g \<Longrightarrow> P b = P a + (b - a)"
  using assms by (simp_all add: phys_units_def)

lemma map_contiguous: "(\<And>i. i < n \<Longrightarrow> P (a + i) = P a + i) \<Longrightarrow> map P [a..<a + n] = [P a..<P a + n]"
  by (rule nth_equalityI) simp_all

lemma map_contiguous_iff:
  "map P [a..<a + n] = [P a..<P a + n] \<longleftrightarrow> (\<forall>i < n. P (a + i) = P a + i)"
proof
  assume h: "map P [a..<a + n] = [P a..<P a + n]"
  show "\<forall>i < n. P (a + i) = P a + i"
  proof (intro allI impI)
    fix i assume "i < n"
    then show "P (a + i) = P a + i" using arg_cong [OF h, of "\<lambda>xs. xs ! i"] by simp
  qed
qed (auto intro: map_contiguous)

lemma phys_not_error:
  assumes "n < 2 ^ 64 - 1"
  shows "(of_nat n :: u64) \<noteq> DMA_BUF_PHYS_ERROR"
proof
  assume "(of_nat n :: u64) = - 1"
  then have "unat (of_nat n :: u64) = 2 ^ 64 - 1" by (simp add: unsigned_minus_1_eq_mask mask_eq_exp_minus_1)
  then show False using unat_of_nat64 [of n] assms by simp
qed

lemma same_page_div:
  assumes "(a::nat) mod g + i < g"
  shows "(a + i) div g = a div g"
proof -
  have "(a + i) div g = (a div g * g + (a mod g + i)) div g" by (metis add.assoc div_mult_mod_eq)
  also have "\<dots> = a div g + (a mod g + i) div g" by (rule div_mult_self3) (use assms in auto)
  also have "(a mod g + i) div g = 0" using assms by simp
  finally show ?thesis by simp
qed

lemma page_mask_aligned:
  assumes "unat (w::u64) = p" "p mod 4096 = 0"
  shows "w AND NOT (PAGE_SIZE - 1) = of_nat p"
proof -
  have "unat (w AND NOT (mask 12)) = unat w div 2 ^ 12 * 2 ^ 12" by (rule and_not_mask_unat)
  moreover have "mask 12 = PAGE_SIZE - 1" by (simp add: mask_eq_exp_minus_1)
  ultimately have "unat (w AND NOT (PAGE_SIZE - 1)) = p" using assms by auto
  from arg_cong [OF this, of "of_nat :: nat \<Rightarrow> u64"] show ?thesis by simp
qed

lemma phys_page:
  assumes "phys_units data 4096 P" "in_pool data a" "in_pool data (a + i)" "a mod 4096 + i < 4096"
  shows "P (a + i) = P a + i"
  using phys_unitsD(4) [OF assms(1-3)] same_page_div [OF assms(4)] by simp

text \<open>With an iommu the physical region pages of a command describe exactly the bytes of its buffer, in
  order: the controller that reads them by the rules of the interface accesses the addresses from the
  buffer's io address on, as many as the transfer has; a transfer that needs more than one page of
  list entries is refused. The second pointer and all list entries are page aligned.\<close>

lemma prps_cover:
  assumes "nvme_use_iommu data" "unat iova + unat len < 2 ^ 64"
    "nvme_setup_prps data io_buf iova len cmd priv = Some (ret, cmd', priv')"
    "mem (dm_iova (pv_prp_mapping priv)) = pv_page priv'"
  shows "ret = (if rest_len iova len \<le> 512 * 4096 then 0 else - EINVAL) \<and>
    (ret = 0 \<longrightarrow> seg_bytes (prp_segs mem (rw_prp1 cmd') (rw_prp2 cmd') (unat len)) = [unat iova..<unat iova + unat len] \<and>
       (\<forall>(a, n) \<in> set (tl (prp_segs mem (rw_prp1 cmd') (rw_prp2 cmd') (unat len))). a mod 4096 = 0))"
proof -
  let ?r = "rest_len iova len"
  obtain f where f: "unat f = first_len iova len" "unat (len - f) = ?r" and
    e: "nvme_setup_prps data io_buf iova len cmd priv =
      (if ?r = 0 then Some (0, cmd\<lparr>rw_prp1 := iova, rw_prp2 := 0\<rparr>, priv)
       else if ?r \<le> 4096 then Some (0, cmd\<lparr>rw_prp1 := iova, rw_prp2 := iova + f\<rparr>, priv)
       else Some (if ?r \<le> 512 * 4096 then 0 else - EINVAL, cmd\<lparr>rw_prp1 := iova, rw_prp2 := dm_iova (pv_prp_mapping priv)\<rparr>,
             priv\<lparr>pv_page := snd (prp_loop 0 (iova + f) (len - f) (pv_page priv))\<rparr>))"
    by (rule setup_prps_cases [of iova len data io_buf cmd priv]) (use assms(1) in simp)
  consider "?r = 0" | "0 < ?r" "?r \<le> 4096" | "4096 < ?r" "?r \<le> 512 * 4096" | "512 * 4096 < ?r" by linarith
  then show ?thesis
  proof cases
    case 1
    then have c: "ret = 0" "rw_prp1 cmd' = iova" using assms(3) e by auto
    show ?thesis unfolding c prp_segs_eq using 1 len_split [of len iova] by (simp add: seg_bytes_def)
  next
    case 2
    have u: "unat (iova + f) = unat iova + first_len iova len"
      using list_entry [OF assms(2) f(1), of 0] 2(1) by simp
    have "[unat iova..<unat iova + first_len iova len] @ [unat iova + first_len iova len..<unat iova + first_len iova len + ?r]
      = [unat iova..<unat iova + unat len]"
      using upt_add_eq_append [of "unat iova" "unat iova + first_len iova len" ?r] len_split [of len iova] by (simp add: add.assoc)
    moreover have c: "ret = 0" "rw_prp1 cmd' = iova" "rw_prp2 cmd' = iova + f" using assms(3) e 2 by auto
    ultimately show ?thesis unfolding c prp_segs_eq using 2 u first_aligned [OF 2(1)] by (simp add: seg_bytes_def)
  next
    case 3
    then have c: "ret = 0" "rw_prp1 cmd' = iova" "rw_prp2 cmd' = dm_iova (pv_prp_mapping priv)"
      "pv_page priv' = snd (prp_loop 0 (iova + f) (len - f) (pv_page priv))"
      using assms(3) e by auto
    note l = list_segs [OF assms(2) f 3, of mem "rw_prp2 cmd'" "pv_page priv"]
    have "mem (rw_prp2 cmd') = snd (prp_loop 0 (iova + f) (len - f) (pv_page priv))" using assms(4) c by simp
    from l [OF this] show ?thesis using c 3 by (auto simp: prp_segs_eq)
  next
    case 4
    then show ?thesis using assms(3) e by auto
  qed
qed

text \<open>The reading of a scatter gather list: a data descriptor or a descriptor of the last segment.\<close>

definition desc_len :: "u64 \<Rightarrow> nat" where
  "desc_len w = unat (w AND 0xFFFFFFFF)"

definition sgl_segs :: "(u64 \<Rightarrow> nat \<Rightarrow> u64) \<Rightarrow> u64 \<Rightarrow> u64 \<Rightarrow> (nat \<times> nat) list" where
  "sgl_segs mem w0 w1 =
     (if drop_bit 60 w1 = 0 then [(unat w0, desc_len w1)]
      else if drop_bit 60 w1 = 3 then map (\<lambda>i. (unat (mem w0 (2 * i)), desc_len (mem w0 (2 * i + 1)))) [0..<desc_len w1 div 16]
      else [])"

lemma desc_words:
  assumes "unat len < 2 ^ 32"
  shows "drop_bit 60 (snd (sgl_desc a (ucast (len::u64)) 0)) = 0" "desc_len (snd (sgl_desc a (ucast len) 0)) = unat len"
proof -
  have "drop_bit 32 len = 0" using assms by (simp add: drop_bit_0_unat)
  then have z: "\<And>n. 32 \<le> n \<Longrightarrow> \<not> bit len n" by (simp add: drop_bit_0_iff)
  have "(ucast (ucast len :: u32) :: u64) = len"
  proof (rule bit_word_eqI)
    fix n show "bit (ucast (ucast len :: u32) :: u64) n = bit len n" if "n < LENGTH(64)"
      using z [of n] that by (cases "n < 32") (auto simp: bit_simps)
  qed
  then have e: "snd (sgl_desc a (ucast len) 0) = len" by (simp add: sgl_desc_def)
  show "drop_bit 60 (snd (sgl_desc a (ucast len) 0)) = 0" unfolding e drop_bit_0_iff using z by simp
  have "len AND mask 32 = len" using z by (intro bit_word_eqI) (auto simp: bit_simps not_le [symmetric])
  then show "desc_len (snd (sgl_desc a (ucast len) 0)) = unat len" unfolding e desc_len_def by (simp add: mask_eq_exp_minus_1)
qed

lemma last_seg_words: "drop_bit 60 (snd (sgl_desc a 32 0x30)) = 3" "desc_len (snd (sgl_desc a 32 0x30)) = 32"
  by (simp_all add: sgl_desc_def desc_len_def)

lemma sgl_desc_fst [simp]: "fst (sgl_desc a l t) = a"
  by (simp add: sgl_desc_def)

text \<open>The two parts of a buffer at the boundary of huge pages.\<close>

lemma huge_split:
  fixes b l h :: nat
  assumes "0 < l" "l \<le> h" "b div h \<noteq> (b + l - 1) div h"
  defines "hb \<equiv> (b div h + 1) * h"
  shows "b < hb" "hb < b + l" "hb div h = (b + l - 1) div h"
proof -
  have h: "0 < h" using assms(1,2) by simp
  have "b = b div h * h + b mod h" "b mod h < h" using h by simp_all
  then show lt: "b < hb" unfolding hb_def by (metis add.commute add_less_cancel_left mult.commute mult_Suc_right Suc_eq_plus1)
  have "b \<le> b + l - 1" using assms(1) by simp
  then have "b div h < (b + l - 1) div h" using assms(3) div_le_mono by (metis le_neq_implies_less)
  then have "(b div h + 1) * h \<le> (b + l - 1) div h * h" by (intro mult_le_mono1) simp
  also have "\<dots> \<le> b + l - 1" by (rule div_times_less_eq_dividend)
  finally show lt2: "hb < b + l" using assms(1) unfolding hb_def by linarith
  have "hb div h = b div h + 1" using h unfolding hb_def by simp
  moreover have "(b + l - 1) div h \<le> (b + h) div h" using assms(2) by (intro div_le_mono) simp
  moreover have "(b + h) div h = b div h + 1" using h div_add_self2 [of h b] by simp
  ultimately show "hb div h = (b + l - 1) div h" using \<open>b div h < (b + l - 1) div h\<close> h by simp
qed

section \<open>The command of a request\<close>

text \<open>A request of the kind the parameters of the device allow: whole blocks, at most a buffer.\<close>

definition request_ok :: "nvme_vfio_tgt_data \<Rightarrow> ublksrv_io_desc \<Rightarrow> bool" where
  "request_ok data iod \<longleftrightarrow> 9 \<le> unat (nd_lba_shift data) \<and> unat (nd_lba_shift data) < 32 \<and> 0 < unat (nr_sectors iod) \<and>
     unat (start_sector iod) * 512 mod 2 ^ unat (nd_lba_shift data) = 0 \<and>
     unat (nr_sectors iod) * 512 mod 2 ^ unat (nd_lba_shift data) = 0 \<and>
     unat (nr_sectors iod) * 512 \<le> unat (nd_max_io_buf_bytes data) \<and> unat (nd_max_io_buf_bytes data) \<le> 2 ^ 21"

text \<open>The bytes of the namespace that a command reads or writes.\<close>

definition cmd_lba_bytes :: "nvme_vfio_tgt_data \<Rightarrow> nvme_rw_command \<Rightarrow> nat \<times> nat" where
  "cmd_lba_bytes data cmd = (unat (rw_slba cmd) * 2 ^ unat (nd_lba_shift data), (unat (rw_length cmd) + 1) * 2 ^ unat (nd_lba_shift data))"

lemma shift_exact:
  assumes "9 \<le> s" "x * 512 mod 2 ^ s = (0::nat)"
  shows "x div 2 ^ (s - 9) * 2 ^ s = x * 512" "x div 2 ^ (s - 9) * 2 ^ (s - 9) = x"
proof -
  have "2 ^ s = 2 ^ (s - 9) * (512::nat)"
    using assms(1) power_add [of "2::nat" "s - 9" 9] by simp
  moreover then have "2 ^ (s - 9) dvd x" using assms(2) by (simp add: mod_eq_0_iff_dvd)
  ultimately show "x div 2 ^ (s - 9) * 2 ^ s = x * 512" "x div 2 ^ (s - 9) * 2 ^ (s - 9) = x" by simp_all
qed

lemma unat_drop: "unat (drop_bit k w) = unat w div 2 ^ k"
  by (subst unat_drop_bit_eq) (rule drop_bit_eq_div)

lemma rw_command_bytes:
  assumes "request_ok data iod"
  shows "cmd_lba_bytes data (rw_command data iod tag) = (unat (start_sector iod) * 512, unat (nr_sectors iod) * 512)"
proof -
  let ?s = "unat (nd_lba_shift data)"
  let ?n = "unat (nr_sectors iod)"
  have h: "9 \<le> ?s" "0 < ?n" "?n * 512 \<le> 2097152" "?n * 512 mod 2 ^ ?s = 0" "unat (start_sector iod) * 512 mod 2 ^ ?s = 0"
    using assms by (auto simp: request_ok_def)
  have sh: "unat (nd_lba_shift data - 9) = ?s - 9" using h(1) by (simp add: unat_sub word_le_nat_alt)
  note e = shift_exact [OF h(1,5)] shift_exact [OF h(1,4)]
  let ?k = "?n div 2 ^ (?s - 9)"
  have k: "0 < ?k" "?k \<le> 4096" using e(4) h(2,3) by (auto intro: gr0I) (metis div_le_dividend order_trans nat_mult_le_cancel_disj mult.commute)
  have u: "unat (drop_bit (?s - 9) (nr_sectors iod)) = ?k"
    "unat (drop_bit (?s - 9) (start_sector iod)) = unat (start_sector iod) div 2 ^ (?s - 9)"
    by (rule unat_drop)+
  have "unat (drop_bit (?s - 9) (nr_sectors iod) - 1) = ?k - 1"
    using k(1) by (simp add: unat_sub word_le_nat_alt u)
  then have "unat (ucast (drop_bit (?s - 9) (nr_sectors iod) - 1) :: u16) = ?k - 1"
    using k(2) by (simp add: unsigned_ucast_eq take_bit_nat_eq_self)
  then show ?thesis
    using e k(1) by (simp add: cmd_lba_bytes_def rw_command_def Let_def sh u)
qed

lemma setup_keeps:
  "nvme_setup_prps data io_buf iova len cmd priv = Some (ret, cmd', priv') \<Longrightarrow>
     rw_opcode cmd' = rw_opcode cmd \<and> rw_cid cmd' = rw_cid cmd \<and> rw_nsid cmd' = rw_nsid cmd \<and> rw_slba cmd' = rw_slba cmd \<and>
     rw_length cmd' = rw_length cmd \<and> rw_control cmd' = rw_control cmd \<and> pv_data_mapping priv' = pv_data_mapping priv \<and>
     pv_prp_mapping priv' = pv_prp_mapping priv"
  "nvme_setup_sgl data io_buf iova len cmd priv = Some (ret, cmd', priv') \<Longrightarrow>
     rw_opcode cmd' = rw_opcode cmd \<and> rw_cid cmd' = rw_cid cmd \<and> rw_nsid cmd' = rw_nsid cmd \<and> rw_slba cmd' = rw_slba cmd \<and>
     rw_length cmd' = rw_length cmd \<and> rw_control cmd' = rw_control cmd \<and> pv_data_mapping priv' = pv_data_mapping priv \<and>
     pv_prp_mapping priv' = pv_prp_mapping priv"
  unfolding nvme_setup_prps_def nvme_setup_sgl_def
  by (auto simp: Let_def bind_eq_Some_conv split: if_splits prod.splits)

lemma sgl_iommu:
  assumes "nvme_use_iommu data" "unat len < 2 ^ 32"
  shows "\<exists>cmd'. nvme_setup_sgl data io_buf iova len cmd priv = Some (0, cmd', priv) \<and>
    seg_bytes (sgl_segs mem (rw_prp1 cmd') (rw_prp2 cmd')) = [unat iova..<unat iova + unat len]"
  using assms desc_words [OF assms(2), of iova] by (auto simp: nvme_setup_sgl_def Let_def sgl_segs_def seg_bytes_def)

text \<open>The mapping of a tag's buffer, made on first use.\<close>

definition buf_mapping ::
  "ioas \<Rightarrow> nvme_vfio_tgt_data \<Rightarrow> u64 \<Rightarrow> nvme_io_priv \<Rightarrow> (u64 \<times> nvme_dma_mapping \<times> nvme_vfio_tgt_data) option" where
  "buf_mapping M data buf priv =
     (if dm_iova (pv_data_mapping priv) \<noteq> 0 then Some (dm_iova (pv_data_mapping priv), pv_data_mapping priv, data)
      else nvme_map_dma M data buf (ucast (nd_max_io_buf_bytes data)) (pv_data_mapping priv))"

lemma request_len:
  assumes "request_ok data iod"
  shows "unat (ucast (push_bit 9 (nr_sectors iod)) :: u64) = unat (nr_sectors iod) * 512" "0 < unat (nr_sectors iod) * 512"
    "unat (nr_sectors iod) * 512 \<le> unat (nd_max_io_buf_bytes data)" "unat (nr_sectors iod) * 512 \<le> 2097152"
proof -
  show b: "0 < unat (nr_sectors iod) * 512" "unat (nr_sectors iod) * 512 \<le> unat (nd_max_io_buf_bytes data)"
    "unat (nr_sectors iod) * 512 \<le> 2097152"
    using assms by (auto simp: request_ok_def)
  have "unat (push_bit 9 (nr_sectors iod)) = unat (nr_sectors iod) * 512"
    using b(3) by (simp add: push_bit_eq_mult unat_word_ariths)
  then show "unat (ucast (push_bit 9 (nr_sectors iod)) :: u64) = unat (nr_sectors iod) * 512"
    using b(3) by (simp add: unsigned_ucast_eq take_bit_nat_eq_self)
qed

lemma unat_u32_u64: "unat (ucast (w::u32) :: u64) = unat w"
proof -
  have "unat w < 2 ^ 32" by (rule order.strict_trans2 [OF unsigned_less]) simp
  then show ?thesis by (simp add: unsigned_ucast_eq take_bit_nat_eq_self)
qed

lemma buf_mapping_dev:
  assumes inv: "iommu_inv data" "nvme_use_iommu data" "unat (nd_max_io_buf_bytes data) \<le> 2 ^ 21"
    and room: "unat (nd_next_iova data) + pg (unat (nd_max_io_buf_bytes data)) < 2 ^ 64"
    and mapped: "dm_iova (pv_data_mapping priv) \<noteq> 0 \<Longrightarrow>
      unat (dm_iova (pv_data_mapping priv)) + unat (nd_max_io_buf_bytes data) < 2 ^ 64 \<and>
      (\<forall>i < unat (nd_max_io_buf_bytes data). dev_addr data (unat (dm_iova (pv_data_mapping priv)) + i) = Some (unat buf + i))"
    and mp: "buf_mapping M data buf priv = Some (iova, mapping, data')"
  shows "iommu_inv data' \<and> (\<exists>ni im. data' = data\<lparr>nd_next_iova := ni, nd_iommu := im\<rparr>) \<and>
    (iova \<noteq> 0 \<longrightarrow> unat iova + unat (nd_max_io_buf_bytes data) < 2 ^ 64 \<and>
       (\<forall>i < unat (nd_max_io_buf_bytes data). dev_addr data' (unat iova + i) = Some (unat buf + i)))"
proof (cases "dm_iova (pv_data_mapping priv) = 0")
  case False
  then have e: "iova = dm_iova (pv_data_mapping priv)" "data' = data" using mp by (auto simp: buf_mapping_def)
  have "\<exists>ni im. data = data\<lparr>nd_next_iova := ni, nd_iommu := im\<rparr>"
    by (intro exI [of _ "nd_next_iova data"] exI [of _ "nd_iommu data"]) simp
  then show ?thesis using e inv(1) mapped [OF False] by simp
next
  case True
  let ?sz = "ucast (nd_max_io_buf_bytes data) :: u64"
  have m: "nvme_map_dma M data buf ?sz (pv_data_mapping priv) = Some (iova, mapping, data')"
    using mp True by (simp add: buf_mapping_def)
  have pos: "0 < unat (nd_next_iova data)" using inv(1) by (simp add: iommu_inv_def)
  have sz: "unat ?sz = unat (nd_max_io_buf_bytes data)" "unat ?sz < 2 ^ 62" using inv(3) by (simp_all add: unat_u32_u64)
  have r: "unat (nd_next_iova data) + pg (unat ?sz) < 2 ^ 64" using room sz(1) by simp
  note dev = map_dma_dev [OF inv(1,2) sz(2) r m]
  have "(\<exists>ni im. data' = data\<lparr>nd_next_iova := ni, nd_iommu := im\<rparr>) \<and> (iova \<noteq> 0 \<longrightarrow> iova = nd_next_iova data)"
  proof -
    have "\<exists>ni im. data\<lparr>nd_next_iova := x\<rparr> = data\<lparr>nd_next_iova := ni, nd_iommu := im\<rparr>" for x
      by (intro exI [of _ x] exI [of _ "nd_iommu data"]) simp
    then show ?thesis using m unfolding map_dma_use [OF inv(2) pos] by (auto simp: Let_def split: if_splits)
  qed
  moreover have "unat (nd_next_iova data) + unat (nd_max_io_buf_bytes data) < 2 ^ 64"
    using room pg_bounds(1) [of "unat (nd_max_io_buf_bytes data)"] by linarith
  ultimately show ?thesis using dev sz(1) by auto
qed

section \<open>Polling the completion ring\<close>

text \<open>Completing the request of one entry of the completion ring.\<close>

definition complete_entry :: "'r uring_api \<Rightarrow> copy_sys \<Rightarrow> u16 \<times> u16 \<Rightarrow> 'r nvme_ublk_queue \<Rightarrow> 'r nvme_ublk_queue" where
  "complete_entry U C e q =
     snd (ublksrv_complete_io U (ublksrv_queue_dec_tgt_io_inflight q) (unat (fst e))
       (cqe_result C (q_id q) (nt_data (private_data q)) (ublksrv_get_iod q (unat (fst e))) (unat (fst e)) (snd e)))"

lemma queue_io_cmd_private:
  "ublksrv_queue_io_cmd U (q\<lparr>private_data := p\<rparr>) tag = apsnd (\<lambda>q. q\<lparr>private_data := p\<rparr>) (ublksrv_queue_io_cmd U q tag)"
proof -
  have "fill_io_cmd (q\<lparr>private_data := p\<rparr>) io tag = fill_io_cmd q io tag" for io
    by (simp add: fun_eq_iff fill_io_cmd_def ublksrv_queue_use_buf_def Let_def)
  then show ?thesis by (simp add: ublksrv_queue_io_cmd_def Let_def split: prod.splits bool.splits)
qed

lemma complete_io_private:
  "snd (ublksrv_complete_io U (q\<lparr>private_data := p\<rparr>) tag res) = (snd (ublksrv_complete_io U q tag res))\<lparr>private_data := p\<rparr>"
proof -
  have "ublksrv_queue_batch_io (q\<lparr>private_data := p\<rparr>) = ublksrv_queue_batch_io q" by (simp add: ublksrv_queue_batch_io_def)
  moreover have "upd_io tag f (q\<lparr>private_data := p\<rparr>) = (upd_io tag f q)\<lparr>private_data := p\<rparr>" for f and q :: "('a, 'b) ublksrv_queue"
    by (simp add: upd_io_def)
  moreover have "ublksrv_batch_add_complete (q\<lparr>private_data := p\<rparr>) tag res = (ublksrv_batch_add_complete q tag res)\<lparr>private_data := p\<rparr>"
    by (simp add: ublksrv_batch_add_complete_def cb_write_def batch_write_elem_def ublksrv_queue_use_buf_def Let_def)
  ultimately show ?thesis by (simp add: ublksrv_complete_io_def queue_io_cmd_private)
qed

lemma complete_io_keeps [simp]:
  "private_data (snd (ublksrv_complete_io U q tag res)) = private_data q"
  "q_id (snd (ublksrv_complete_io U q tag res)) = q_id q"
  "io_cmd_buf (snd (ublksrv_complete_io U q tag res)) = io_cmd_buf q"
  by (simp_all add: ublksrv_complete_io_def ublksrv_queue_io_cmd_def upd_io_def ublksrv_batch_add_complete_def Let_def
      split: prod.splits bool.splits)

lemma complete_entry_keeps [simp]:
  "private_data (complete_entry U C e q) = private_data q" "q_id (complete_entry U C e q) = q_id q"
  by (simp_all add: complete_entry_def ublksrv_queue_dec_tgt_io_inflight_def)

lemma complete_entry_private:
  assumes "nd_user_copy (nt_data p) = nd_user_copy (nt_data (private_data q))"
  shows "complete_entry U C e (q\<lparr>private_data := p\<rparr>) = (complete_entry U C e q)\<lparr>private_data := p\<rparr>"
proof -
  have "ublksrv_queue_dec_tgt_io_inflight (q\<lparr>private_data := p\<rparr>) = (ublksrv_queue_dec_tgt_io_inflight q)\<lparr>private_data := p\<rparr>"
    by (simp add: ublksrv_queue_dec_tgt_io_inflight_def)
  moreover have "ublksrv_get_iod (q\<lparr>private_data := p\<rparr>) t = ublksrv_get_iod q t" for t by (simp add: ublksrv_get_iod_def)
  ultimately show ?thesis using assms by (simp add: complete_entry_def complete_io_private cqe_result_def)
qed

lemma fold_complete_private:
  assumes "nd_user_copy (nt_data p) = nd_user_copy (nt_data (private_data q))"
  shows "fold (complete_entry U C) es (q\<lparr>private_data := p\<rparr>) = (fold (complete_entry U C) es q)\<lparr>private_data := p\<rparr>"
  using assms by (induction es arbitrary: q) (simp_all add: complete_entry_private)

lemma fold_complete_keeps [simp]: "private_data (fold (complete_entry U C) es q) = private_data q"
  by (induction es arbitrary: q) simp_all

definition has_nvmeq :: "'r nvme_ublk_queue \<Rightarrow> bool" where
  "has_nvmeq q \<longleftrightarrow> q_id q < length (nd_io_queues (nt_data (private_data q)))"

lemma upd_nvmeq_sel [simp]:
  "has_nvmeq q \<Longrightarrow> cur_nvmeq (upd_nvmeq f q) = f (cur_nvmeq q)" "has_nvmeq (upd_nvmeq f q) = has_nvmeq q"
  "nd_user_copy (nt_data (private_data (upd_nvmeq f q))) = nd_user_copy (nt_data (private_data q))"
  "(upd_nvmeq f q)\<lparr>private_data := p\<rparr> = q\<lparr>private_data := p\<rparr>" "q_id (upd_nvmeq f q) = q_id q"
  by (simp_all add: upd_nvmeq_def cur_nvmeq_def has_nvmeq_def Let_def)

lemma upd_nvmeq_private: "\<exists>p. upd_nvmeq f q = q\<lparr>private_data := p\<rparr> \<and> nd_user_copy (nt_data p) = nd_user_copy (nt_data (private_data q))"
  by (auto simp: upd_nvmeq_def Let_def)

lemma complete_entry_nvmeq [simp]:
  "cur_nvmeq (complete_entry U C e q) = cur_nvmeq q" "has_nvmeq (complete_entry U C e q) = has_nvmeq q"
  by (simp_all add: cur_nvmeq_def has_nvmeq_def)

text \<open>The loop completes the entries that were posted and not taken, in order.\<close>

definition polled :: "'r uring_api \<Rightarrow> copy_sys \<Rightarrow> nat \<Rightarrow> nat \<Rightarrow> (u16 \<times> u16) list \<Rightarrow> 'r nvme_ublk_queue \<Rightarrow> 'r nvme_ublk_queue \<Rightarrow> bool" where
  "polled U C n K posted q q' \<longleftrightarrow> has_nvmeq q' \<and> cq_inv n (length posted) posted (cur_nvmeq q') \<and>
     nq_sq_tail (cur_nvmeq q') = nq_sq_tail (cur_nvmeq q) \<and> nq_last_sq_tail (cur_nvmeq q') = nq_last_sq_tail (cur_nvmeq q) \<and>
     nq_sq_db (cur_nvmeq q') = nq_sq_db (cur_nvmeq q) \<and> nd_user_copy (nt_data (private_data q')) = nd_user_copy (nt_data (private_data q)) \<and>
     q'\<lparr>private_data := private_data q\<rparr> = fold (complete_entry U C) (drop K posted) q"

lemma poll_loop_exact:
  "cq_inv n K posted (cur_nvmeq q) \<Longrightarrow> has_nvmeq q \<Longrightarrow>
   \<exists>q'. poll_loop U C found q = Some (found \<or> K < length posted, q') \<and> polled U C n K posted q q'"
proof (induction "length posted - K" arbitrary: K q found)
  case 0
  then have "K = length posted" by (simp add: cq_inv_def)
  then show ?case using 0 cqe_pending_iff [OF 0(2)] by (simp add: poll_loop.simps polled_def)
next
  case (Suc m)
  then have K: "K < length posted" by linarith
  let ?e = "posted ! K" and ?q1 = "poll_one U C q"
  have h: "cq_inv n (Suc K) posted (nvme_update_cq_head (cur_nvmeq q))" "head_cqe (cur_nvmeq q) = ?e"
    using take_cq_inv [OF Suc(3) K] by auto
  have q1: "?q1 = upd_nvmeq nvme_update_cq_head (complete_entry U C ?e q)"
    by (simp add: poll_one_def h(2) complete_entry_def case_prod_beta Let_def)
  have "cq_inv n (Suc K) posted (cur_nvmeq ?q1)" "has_nvmeq ?q1" using h(1) Suc(4) by (simp_all add: q1)
  moreover have "m = length posted - Suc K" using Suc(2) by linarith
  ultimately obtain q' where
    q': "poll_loop U C True ?q1 = Some (True, q')" "polled U C n (Suc K) posted ?q1 q'"
    using Suc(1) [of "Suc K" ?q1 True] by auto
  obtain p where p: "?q1 = (complete_entry U C ?e q)\<lparr>private_data := p\<rparr>"
    "nd_user_copy (nt_data p) = nd_user_copy (nt_data (private_data q))"
    using upd_nvmeq_private [of nvme_update_cq_head "complete_entry U C ?e q"] q1 by auto
  let ?x = "fold (complete_entry U C) (drop (Suc K) posted) (complete_entry U C ?e q)"
  have "q'\<lparr>private_data := p\<rparr> = ?x\<lparr>private_data := p\<rparr>"
    using q'(2) p fold_complete_private [of p "complete_entry U C ?e q"] by (simp add: polled_def)
  from arg_cong [OF this, of "\<lambda>x. x\<lparr>private_data := private_data q\<rparr>"]
  have "q'\<lparr>private_data := private_data q\<rparr> = ?x\<lparr>private_data := private_data ?x\<rparr>" by simp
  also have "\<dots> = fold (complete_entry U C) (drop K posted) q" using Cons_nth_drop_Suc [OF K, symmetric] by simp
  finally have "polled U C n K posted q q'" using q'(2) Suc(4) q1 by (simp add: polled_def)
  moreover have "poll_loop U C found q = Some (True, q')"
    using q'(1) K cqe_pending_iff [OF Suc(3)] by (simp add: poll_loop.simps [of U C found])
  ultimately show ?case using K by auto
qed

lemma poll_cq_exact:
  assumes "cq_inv n K posted (cur_nvmeq q)" "has_nvmeq q"
  shows "\<exists>q'. nvme_poll_cq U C q = Some (K < length posted, q') \<and> polled U C n K posted q q' \<and>
    (K < length posted \<longrightarrow> nq_cq_db (cur_nvmeq q') = ucast (nq_cq_head (cur_nvmeq q')))"
proof -
  obtain q1 where q1: "poll_loop U C False q = Some (K < length posted, q1)" "polled U C n K posted q q1"
    using poll_loop_exact [OF assms, of U C False] by auto
  let ?f = "\<lambda>nvmeq. nvmeq\<lparr>nq_cq_db := ucast (nq_cq_head nvmeq)\<rparr>"
  have "polled U C n K posted q (upd_nvmeq ?f q1)"
    using q1(2) by (auto simp: polled_def intro: cq_inv_cong)
  moreover have "has_nvmeq q1" using q1(2) by (simp add: polled_def)
  ultimately show ?thesis using q1 by (auto simp: nvme_poll_cq_def)
qed

text \<open>
  The flag for forced unit access is bit 13 of \<open>op_flags\<close>; the command tests bit 13 of the flags
  shifted down by 8, so that no request with the flags the driver sends is marked.
\<close>

theorem nvme_fua_ignored:
  assumes "unat (op_flags iod) < 2 ^ 21"
  shows "rw_control (rw_command data iod tag) = 0"
proof -
  have "drop_bit 21 (op_flags iod) = 0" using assms by (simp add: drop_bit_0_unat)
  then have "\<not> bit (op_flags iod) 21" by (simp add: drop_bit_0_iff)
  moreover have "bit UBLK_IO_F_FUA n \<longleftrightarrow> n = 13" for n
  proof -
    have "UBLK_IO_F_FUA = push_bit 13 1" by simp
    then show ?thesis by (simp only: bit_push_bit_iff bit_1_iff) auto
  qed
  ultimately have "\<not> has (ublksrv_get_flags iod) UBLK_IO_F_FUA"
    by (simp add: has_iff_bit ublksrv_get_flags_def bit_drop_bit_eq)
  then show ?thesis by (simp add: rw_command_def Let_def)
qed

section \<open>Properties\<close>

text \<open>C14: With an iommu a read or write request that is queued becomes one command in the submission ring:
  it carries the tag, the operation and the namespace, its block range covers the byte range of the
  request, and the addresses its data pointers describe (physical region pages or scatter gather list)
  refer, through the mappings the kernel holds, to the bytes of the tag's buffer in order. A request
  that is not queued leaves the ring as it was.\<close>

theorem nvme_rw_reaches_buffer:
  assumes buf: "buf = nvme_pool_get_io_buf data (int qid) (int tag)"
    and inv: "iommu_inv data" "nvme_use_iommu data" "request_ok data iod"
    and room: "unat (nd_next_iova data) + pg (unat (nd_max_io_buf_bytes data)) < 2 ^ 64"
    and mapped: "dm_iova (pv_data_mapping priv) \<noteq> 0 \<Longrightarrow>
      unat (dm_iova (pv_data_mapping priv)) + unat (nd_max_io_buf_bytes data) < 2 ^ 64 \<and>
      (\<forall>i < unat (nd_max_io_buf_bytes data). dev_addr data (unat (dm_iova (pv_data_mapping priv)) + i) = Some (unat buf + i))"
    and run: "nvme_queue_rw_io M C qid iod tag nvmeq priv data = Some (ret, nvmeq', priv', data')"
    and mem: "mem (dm_iova (pv_prp_mapping priv)) = pv_page priv'"
  shows "iommu_inv data' \<and>
    (if ret < 0 then nvmeq' = nvmeq
     else \<exists>cmd. nvmeq' = sq_copy_submit (Rw cmd) nvmeq \<and> rw_cid cmd = of_nat tag \<and> rw_nsid cmd = nd_nsid data \<and>
       rw_opcode cmd = (if ublksrv_get_op iod = 1 then NVME_CMD_WRITE else NVME_CMD_READ) \<and>
       cmd_lba_bytes data cmd = (unat (start_sector iod) * 512, unat (nr_sectors iod) * 512) \<and>
       map (dev_addr data') (seg_bytes (if nvme_sgl_supported data then sgl_segs mem (rw_prp1 cmd) (rw_prp2 cmd)
          else prp_segs mem (rw_prp1 cmd) (rw_prp2 cmd) (unat (nr_sectors iod) * 512)))
         = map Some [unat buf..<unat buf + unat (nr_sectors iod) * 512])"
proof -
  let ?len = "ucast (push_bit 9 (nr_sectors iod)) :: u64" and ?n = "unat (nr_sectors iod) * 512"
  have ul: "unat ?len = ?n" and n: "0 < ?n" "?n \<le> unat (nd_max_io_buf_bytes data)" "?n \<le> 2097152"
    using request_len [OF inv(3)] by auto
  obtain iova mapping data1 where mp: "buf_mapping M data buf priv = Some (iova, mapping, data1)"
    using run by (auto simp: nvme_queue_rw_io_def buf [symmetric] buf_mapping_def Let_def bind_eq_Some_conv)
  have "unat (nd_max_io_buf_bytes data) \<le> 2 ^ 21" using inv(3) by (simp add: request_ok_def)
  note b = buf_mapping_dev [OF inv(1,2) this room mapped mp]
  have d1: "iommu_inv data1" "nvme_use_iommu data1" "nvme_sgl_supported data1 = nvme_sgl_supported data"
    "rw_command data1 iod tag = rw_command data iod tag"
    using b inv(2) by (auto simp: nvme_use_iommu_def nvme_sgl_supported_def rw_command_def Let_def)
  let ?priv = "priv\<lparr>pv_data_mapping := mapping\<rparr>" and ?cmd = "rw_command data iod tag"
  let ?ptrs = "\<lambda>cmd. if nvme_sgl_supported data then sgl_segs mem (rw_prp1 cmd) (rw_prp2 cmd)
          else prp_segs mem (rw_prp1 cmd) (rw_prp2 cmd) ?n"
  have nonneg: "ret1 = 0 \<or> ret1 < 0" if "(if nvme_sgl_supported data then nvme_setup_sgl data1 buf iova ?len ?cmd ?priv
      else nvme_setup_prps data1 buf iova ?len ?cmd ?priv) = Some (ret1, cmd1, priv1)" for ret1 cmd1 priv1
    using that by (auto simp: nvme_setup_sgl_def nvme_setup_prps_def Let_def bind_eq_Some_conv split: if_splits prod.splits)
  have "ret < 0 \<and> nvmeq' = nvmeq \<and> data' = data1 \<or>
    (\<exists>cmd. ret = 0 \<and> nvmeq' = sq_copy_submit (Rw cmd) nvmeq \<and> data' = data1 \<and> iova \<noteq> 0 \<and>
      (if nvme_sgl_supported data then nvme_setup_sgl data1 buf iova ?len ?cmd ?priv
        else nvme_setup_prps data1 buf iova ?len ?cmd ?priv) = Some (0, cmd, priv'))"
    using run mp nonneg
    unfolding nvme_queue_rw_io_def buf [symmetric] buf_mapping_def [symmetric] Let_def
    by (auto simp: d1(3,4) bind_eq_Some_conv split: if_splits)
  then consider (refused) "ret < 0" "nvmeq' = nvmeq" "data' = data1"
    | (queued) cmd where "ret = 0" "nvmeq' = sq_copy_submit (Rw cmd) nvmeq" "data' = data1" "iova \<noteq> 0"
      "(if nvme_sgl_supported data then nvme_setup_sgl data1 buf iova ?len ?cmd ?priv
        else nvme_setup_prps data1 buf iova ?len ?cmd ?priv) = Some (0, cmd, priv')"
    by blast
  then show ?thesis
  proof cases
    case refused
    then show ?thesis using d1(1) by simp
  next
    case queued
    have k: "unat iova + unat (nd_max_io_buf_bytes data) < 2 ^ 64"
      "\<forall>i < unat (nd_max_io_buf_bytes data). dev_addr data1 (unat iova + i) = Some (unat buf + i)"
      using b queued(4) by auto
    have "seg_bytes (?ptrs cmd) = [unat iova..<unat iova + ?n]"
    proof (cases "nvme_sgl_supported data")
      case True
      then show ?thesis using queued(5) sgl_iommu [OF d1(2), of ?len buf iova ?cmd ?priv mem] n(3) by (auto simp: ul)
    next
      case False
      have "unat iova + unat ?len < 2 ^ 64" using k(1) n(2) by (simp add: ul)
      from prps_cover [OF d1(2) this, of buf ?cmd ?priv 0 cmd priv' mem] show ?thesis
        using False queued(5) mem by (simp add: ul)
    qed
    then have "map (dev_addr data1) (seg_bytes (?ptrs cmd)) = map Some [unat buf..<unat buf + ?n]"
      using k(2) n(2) by (auto intro!: nth_equalityI)
    moreover have "rw_cid cmd = rw_cid ?cmd \<and> rw_nsid cmd = rw_nsid ?cmd \<and> rw_opcode cmd = rw_opcode ?cmd \<and>
      rw_slba cmd = rw_slba ?cmd \<and> rw_length cmd = rw_length ?cmd"
      using queued(5) setup_keeps by (auto split: if_splits)
    ultimately show ?thesis
      using queued(1-3) d1(1) rw_command_bytes [OF inv(3), of tag]
      by (auto simp: cmd_lba_bytes_def rw_command_def Let_def)
  qed
qed

text \<open>C15: The background callback returns, and when it does every submitted command is shown to the
  controller and exactly the requests of the completions posted so far are completed, each once and in
  the order of posting, with the result its status gives; the completion ring is empty and its doorbell
  written.\<close>

theorem nvme_background_completes:
  assumes s: "nvme_reach s" "cur_nvmeq q = ns_q s" "has_nvmeq q"
  defines "es \<equiv> drop (length (ns_taken s)) (ns_posted s)"
  shows "\<exists>q'. nvme_vfio_handle_io_background U C q = Some q' \<and>
    q'\<lparr>private_data := private_data q\<rparr> = fold (complete_entry U C) es q \<and>
    \<not> nvme_cqe_pending (cur_nvmeq q') \<and> nq_last_sq_tail (cur_nvmeq q') = nq_sq_tail (ns_q s) \<and>
    unat (nq_sq_db (cur_nvmeq q')) = length (ns_submitted s) mod unat (nq_qsize (ns_q s)) \<and>
    (es \<noteq> [] \<longrightarrow> nq_cq_db (cur_nvmeq q') = ucast (nq_cq_head (cur_nvmeq q')))"
proof -
  let ?n = "unat (nq_qsize (ns_q s))" and ?K = "length (ns_taken s)" and ?P = "ns_posted s"
  let ?q = "upd_nvmeq nvme_sq_flush q"
  obtain F where F: "sq_inv ?n F (length (ns_fetched s)) (ns_submitted s) (ns_q s)" and c: "cq_inv ?n ?K ?P (ns_q s)"
    using reach_inv [OF s(1)] by (auto simp: ring_inv_def Let_def)
  have "cq_inv ?n ?K ?P (cur_nvmeq ?q)" "has_nvmeq ?q" using c s(2,3) by (auto intro: cq_inv_cong)
  from poll_cq_exact [OF this, of U C] obtain q1 where
    q1: "nvme_poll_cq U C ?q = Some (?K < length ?P, q1)" "polled U C ?n ?K ?P ?q q1"
      "?K < length ?P \<longrightarrow> nq_cq_db (cur_nvmeq q1) = ucast (nq_cq_head (cur_nvmeq q1))" by auto
  have c1: "cq_inv ?n (length ?P) ?P (cur_nvmeq q1)" "has_nvmeq q1" using q1(2) by (auto simp: polled_def)
  have idle: "nvme_poll_cq U C q1 = Some (False, q1)"
    using cqe_pending_iff [OF c1(1)] by (simp add: nvme_poll_cq_def poll_loop.simps)
  have e: "background_loop U C ?q = Some q1"
  proof (cases "?K < length ?P")
    case True
    then show ?thesis
      using q1(1) idle by (simp add: background_loop.simps [of U C ?q] background_loop.simps [of U C q1])
  next
    case False
    then show ?thesis using q1(1) by (simp add: background_loop.simps [of U C ?q])
  qed
  obtain p where p: "?q = q\<lparr>private_data := p\<rparr>" "nd_user_copy (nt_data p) = nd_user_copy (nt_data (private_data q))"
    using upd_nvmeq_private by blast
  have "q1\<lparr>private_data := p\<rparr> = (fold (complete_entry U C) es q)\<lparr>private_data := p\<rparr>"
    using q1(2) p fold_complete_private [OF p(2)] by (simp add: polled_def es_def)
  from arg_cong [OF this, of "\<lambda>x. x\<lparr>private_data := private_data q\<rparr>"]
  have "q1\<lparr>private_data := private_data q\<rparr> = (fold (complete_entry U C) es q)\<lparr>private_data := private_data (fold (complete_entry U C) es q)\<rparr>"
    by simp
  then have "q1\<lparr>private_data := private_data q\<rparr> = fold (complete_entry U C) es q" by simp
  moreover have "unat (nq_sq_db (cur_nvmeq q1)) = length (ns_submitted s) mod ?n" "nq_last_sq_tail (cur_nvmeq q1) = nq_sq_tail (ns_q s)"
    using q1(2) flush_sq_inv [OF F] s(2,3) by (auto simp: polled_def sq_inv_def)
  moreover have "\<not> nvme_cqe_pending (cur_nvmeq q1)" using cqe_pending_iff [OF c1(1)] by simp
  ultimately show ?thesis
    using e q1(3) by (auto simp: nvme_vfio_handle_io_background_def es_def)
qed

text \<open>C40: Without an iommu, where device addresses are physical, the physical region pages of a transfer
  of at most two pages describe the physical bytes of its buffer in order, whatever pages back it. Those
  of a longer transfer do so exactly when its buffer is physically contiguous: the entries of the list
  are counted up from the first page instead of being translated.\<close>

theorem nvme_prps_noiommu:
  assumes mode: "\<not> nvme_use_iommu data" and phys: "phys_units data 4096 P" "iova = of_nat (P (unat io_buf))"
    and buf: "0 < unat len" "in_pool data (unat io_buf)" "in_pool data (unat io_buf + unat len - 1)"
    and bound: "P (unat io_buf) + unat len < 2 ^ 64" "unat io_buf + unat len < 2 ^ 64" "rest_len iova len \<le> 512 * 4096"
    and su: "nvme_setup_prps data io_buf iova len cmd priv = Some (ret, cmd', priv')"
    and mem: "mem (dm_iova (pv_prp_mapping priv)) = pv_page priv'"
  shows "ret = 0 \<and>
    (seg_bytes (prp_segs mem (rw_prp1 cmd') (rw_prp2 cmd') (unat len)) = map P [unat io_buf..<unat io_buf + unat len] \<longleftrightarrow>
     rest_len iova len \<le> 4096 \<or> (\<forall>i < unat len. P (unat io_buf + i) = P (unat io_buf) + i))"
proof -
  let ?r = "rest_len iova len" and ?n1 = "first_len iova len" and ?b = "unat io_buf"
  have ua: "unat iova = P ?b" using phys(2) phys_unitsD(2) [OF phys(1) buf(2)] unat_of_nat64 [of "P ?b"] by simp
  have inb: "in_pool data (?b + i)" if "i < unat len" for i
    using buf that by (auto simp: in_pool_def)
  have off: "P ?b mod 4096 = ?b mod 4096" using phys_unitsD(3) [OF phys(1) buf(2)] .
  obtain f where f: "unat f = ?n1" "unat (len - f) = ?r" and
    e: "nvme_setup_prps data io_buf iova len cmd priv =
      (if ?r = 0 then Some (0, cmd\<lparr>rw_prp1 := iova, rw_prp2 := 0\<rparr>, priv)
       else if ?r \<le> 4096 then do {
           paddr2 \<leftarrow> dma_buf_pool_virt_to_phys (nd_pool data) ((io_buf + f) AND NOT (PAGE_SIZE - 1));
           if paddr2 = DMA_BUF_PHYS_ERROR then Some (- EINVAL, cmd\<lparr>rw_prp1 := iova\<rparr>, priv)
           else Some (0, cmd\<lparr>rw_prp1 := iova, rw_prp2 := paddr2\<rparr>, priv) }
       else Some (if ?r \<le> 512 * 4096 then 0 else - EINVAL, cmd\<lparr>rw_prp1 := iova, rw_prp2 := dm_iova (pv_prp_mapping priv)\<rparr>,
             priv\<lparr>pv_page := snd (prp_loop 0 (iova + f) (len - f) (pv_page priv))\<rparr>))"
    by (rule setup_prps_cases [of iova len data io_buf cmd priv]) (use mode in simp)
  have n1: "?n1 \<le> unat len" "unat len = ?n1 + ?r" "?b mod 4096 + ?n1 \<le> 4096"
    using ua off by (auto simp: first_len_def rest_len_def)
  have first: "map P [?b..<?b + ?n1] = [P ?b..<P ?b + ?n1]"
    using phys_page [OF phys(1) buf(2) inb] n1 by (intro map_contiguous) simp
  consider "?r = 0" | "0 < ?r" "?r \<le> 4096" | "4096 < ?r" by linarith
  then show ?thesis
  proof cases
    case 1
    then have c: "ret = 0" "rw_prp1 cmd' = iova" using su e by auto
    show ?thesis unfolding c prp_segs_eq using 1 n1 first ua by (simp add: seg_bytes_def)
  next
    case 2
    let ?p = "?b + ?n1"
    have al: "?p mod 4096 = 0"
      using first_aligned [OF 2(1)] ua off by (metis mod_add_left_eq)
    have "unat (io_buf + f) = ?p" using f(1) bound(2) n1(1) by (simp add: unat_word_ariths)
    then have w: "(io_buf + f) AND NOT (PAGE_SIZE - 1) = of_nat ?p" using al by (intro page_mask_aligned)
    have inp: "in_pool data ?p" using inb 2 n1 by simp
    have c: "ret = 0" "rw_prp1 cmd' = iova" "rw_prp2 cmd' = of_nat (P ?p)"
      using su 2 phys_unitsD(1,2) [OF phys(1) inp] phys_not_error [of "P ?p"] unfolding e w by auto
    have up: "unat (of_nat (P ?p) :: u64) = P ?p" using phys_unitsD(2) [OF phys(1) inp] by (intro unat_of_nat64) simp
    have "map P [?p..<?p + ?r] = [P ?p..<P ?p + ?r]"
    proof (rule map_contiguous)
      fix i assume i: "i < ?r"
      have "in_pool data (?p + i)" using inb [of "?n1 + i"] i n1(2) by (simp add: add.assoc)
      then show "P (?p + i) = P ?p + i" using i 2 al by (intro phys_page [OF phys(1) inp]) simp_all
    qed
    then have "map P [?b..<?b + unat len] = [P ?b..<P ?b + ?n1] @ [P ?p..<P ?p + ?r]"
      using upt_add_eq_append [of ?b ?p ?r] first n1(2) by (simp add: add.assoc)
    then show ?thesis unfolding c prp_segs_eq using 2 ua up by (simp add: seg_bytes_def)
  next
    case 3
    then have c: "ret = 0" "rw_prp1 cmd' = iova" "rw_prp2 cmd' = dm_iova (pv_prp_mapping priv)"
      "pv_page priv' = snd (prp_loop 0 (iova + f) (len - f) (pv_page priv))"
      using su e bound(3) by auto
    have "mem (rw_prp2 cmd') = snd (prp_loop 0 (iova + f) (len - f) (pv_page priv))" using mem c by simp
    moreover have "unat iova + unat len < 2 ^ 64" using bound(1) ua by simp
    ultimately have "seg_bytes (prp_segs mem iova (rw_prp2 cmd') (unat len)) = [P ?b..<P ?b + unat len]"
      using list_segs(1) [OF _ f 3 bound(3), of mem "rw_prp2 cmd'" "pv_page priv"] ua by simp
    then show ?thesis using c 3 map_contiguous_iff [of P ?b "unat len"] by (metis not_le)
  qed
qed

text \<open>The scatter gather list of a command describes exactly the bytes of its buffer, in order: with an
  iommu the addresses from the buffer's io address on; without one the physical bytes of the buffer,
  also when it crosses from one huge page to another that lies elsewhere in memory.\<close>

theorem nvme_sgl_cover:
  assumes len: "0 < unat len" "unat len < 2 ^ 32"
    and su: "nvme_setup_sgl data io_buf iova len cmd priv = Some (ret, cmd', priv')"
    and mem: "mem (dm_iova (pv_prp_mapping priv)) = pv_page priv'"
    and phys: "\<not> nvme_use_iommu data \<Longrightarrow> phys_units data (unat (nd_hugepage_size data)) P \<and> iova = of_nat (P (unat io_buf)) \<and>
      unat len \<le> unat (nd_hugepage_size data) \<and> in_pool data (unat io_buf) \<and> in_pool data (unat io_buf + unat len - 1) \<and>
      unat io_buf + unat len < 2 ^ 64"
  shows "ret = 0 \<and> has (rw_flags cmd') NVME_CMD_SGL_METABUF \<and>
    seg_bytes (sgl_segs mem (rw_prp1 cmd') (rw_prp2 cmd')) =
      (if nvme_use_iommu data then [unat iova..<unat iova + unat len] else map P [unat io_buf..<unat io_buf + unat len])"
proof (cases "nvme_use_iommu data")
  case True
  then show ?thesis
    using su desc_words [OF len(2), of iova] by (auto simp: nvme_setup_sgl_def Let_def sgl_segs_def seg_bytes_def has_def)
next
  case False
  let ?b = "unat io_buf" and ?l = "unat len" and ?h = "unat (nd_hugepage_size data)"
  note ph = phys [OF False]
  have pu: "phys_units data ?h P" and ib: "in_pool data ?b" and bl: "?b + ?l < 2 ^ 64" using ph by auto
  have inb: "in_pool data (?b + i)" if "i < ?l" for i using ph that by (auto simp: in_pool_def)
  have ua: "unat iova = P ?b" using ph phys_unitsD(2) [OF pu ib] unat_of_nat64 [of "P ?b"] by simp
  have h: "0 < ?h" "nd_hugepage_size data > 0" using ph len(1) by (auto simp: word_less_nat_alt)
  have ue: "unat (io_buf + len - 1) = ?b + ?l - 1"
    using bl len(1) by (simp add: unat_sub unat_word_ariths word_le_nat_alt)
  have dv: "io_buf div nd_hugepage_size data \<noteq> (io_buf + len - 1) div nd_hugepage_size data \<longleftrightarrow> ?b div ?h \<noteq> (?b + ?l - 1) div ?h"
    by (simp add: word_unat_eq_iff unat_div_distrib ue)
  show ?thesis
  proof (cases "?b div ?h = (?b + ?l - 1) div ?h")
    case True
    have "map P [?b..<?b + ?l] = [P ?b..<P ?b + ?l]"
    proof (rule map_contiguous)
      fix i assume i: "i < ?l"
      have "?b div ?h \<le> (?b + i) div ?h" "(?b + i) div ?h \<le> (?b + ?l - 1) div ?h" using i by (intro div_le_mono; simp)+
      then show "P (?b + i) = P ?b + i" using phys_unitsD(4) [OF pu ib inb [OF i]] True by simp
    qed
    then show ?thesis
      using su dv True False desc_words [OF len(2), of iova] ua
      by (auto simp: nvme_setup_sgl_def Let_def sgl_segs_def seg_bytes_def has_def)
  next
    case False
    define hb where "hb = (?b div ?h + 1) * ?h"
    note sp = huge_split [OF len(1) _ False, folded hb_def]
    have lh: "?l \<le> ?h" using ph by simp
    note sp = sp [OF lh]
    have uh: "(io_buf div nd_hugepage_size data + 1) * nd_hugepage_size data = of_nat hb"
    proof -
      have "unat (io_buf div nd_hugepage_size data) = ?b div ?h" by (rule unat_div_distrib)
      from arg_cong [OF this, of "of_nat :: nat \<Rightarrow> u64"]
      have "io_buf div nd_hugepage_size data = of_nat (?b div ?h)" by simp
      then show ?thesis by (simp add: hb_def algebra_simps)
    qed
    have ub: "unat (of_nat hb :: u64) = hb" using sp(2) bl by (intro unat_of_nat64) simp
    have s1: "unat (of_nat hb - io_buf) = hb - ?b" using ub sp(1) by (simp add: unat_sub word_le_nat_alt)
    have s2: "unat (len - (of_nat hb - io_buf)) = ?b + ?l - hb" using s1 sp by (simp add: unat_sub word_le_nat_alt)
    have ih: "in_pool data hb" using inb [of "hb - ?b"] sp(1,2) by simp
    have e2: "(of_nat (P hb) :: u64) \<noteq> DMA_BUF_PHYS_ERROR" "unat (of_nat (P hb) :: u64) = P hb"
      using phys_unitsD(2) [OF pu ih] phys_not_error unat_of_nat64 by auto
    have d1: "desc_len (snd (sgl_desc a (ucast (of_nat hb - io_buf)) 0)) = hb - ?b" for a
      using desc_words(2) [of "of_nat hb - io_buf" a] s1 sp(2) len(2) by simp
    have d2: "desc_len (snd (sgl_desc a (ucast (len - (of_nat hb - io_buf))) 0)) = ?b + ?l - hb" for a
      using desc_words(2) [of "len - (of_nat hb - io_buf)" a] s2 sp(1) len(2) by simp
    have c: "ret = 0" "rw_prp1 cmd' = dm_iova (pv_prp_mapping priv)" "rw_prp2 cmd' = snd (sgl_desc (rw_prp1 cmd') 32 0x30)"
      "rw_flags cmd' = rw_flags cmd OR NVME_CMD_SGL_METABUF"
      "pv_page priv' = (pv_page priv)(0 := iova, 1 := snd (sgl_desc iova (ucast (of_nat hb - io_buf)) 0), 2 := of_nat (P hb),
         3 := snd (sgl_desc (of_nat (P hb)) (ucast (len - (of_nat hb - io_buf))) 0))"
      using su dv False h(2) \<open>\<not> nvme_use_iommu data\<close> phys_unitsD(1) [OF pu ih] e2(1)
      by (auto simp: nvme_setup_sgl_def Let_def uh)
    have segs: "sgl_segs mem (rw_prp1 cmd') (rw_prp2 cmd') = [(P ?b, hb - ?b), (P hb, ?b + ?l - hb)]"
      unfolding c(3) sgl_segs_def last_seg_words using mem c(2,5) d1 d2 ua e2(2) by (simp add: upt_rec)
    have "map P [?b..<?b + (hb - ?b)] = [P ?b..<P ?b + (hb - ?b)]"
    proof (rule map_contiguous)
      fix i assume i: "i < hb - ?b"
      then have "?b + i < (?b div ?h + 1) * ?h" unfolding hb_def [symmetric] by simp
      then have "(?b + i) div ?h < ?b div ?h + 1" by (simp add: div_less_iff_less_mult h(1))
      moreover have "?b div ?h \<le> (?b + i) div ?h" by (intro div_le_mono) simp
      ultimately show "P (?b + i) = P ?b + i" using phys_unitsD(4) [OF pu ib inb, of i] i sp(2) by simp
    qed
    moreover have "map P [hb..<hb + (?b + ?l - hb)] = [P hb..<P hb + (?b + ?l - hb)]"
    proof (rule map_contiguous)
      fix i assume i: "i < ?b + ?l - hb"
      have "hb div ?h \<le> (hb + i) div ?h" "(hb + i) div ?h \<le> (?b + ?l - 1) div ?h" using i by (intro div_le_mono; simp)+
      moreover have "in_pool data (hb + i)" using inb [of "hb + i - ?b"] i sp(1) by simp
      ultimately show "P (hb + i) = P hb + i" using phys_unitsD(4) [OF pu ih, of "hb + i"] sp(3) by simp
    qed
    moreover have "[?b..<?b + ?l] = [?b..<hb] @ [hb..<?b + ?l]" using upt_add_eq_append [of ?b hb "?b + ?l - hb"] sp(1,2) by simp
    ultimately have "seg_bytes (sgl_segs mem (rw_prp1 cmd') (rw_prp2 cmd')) = map P [?b..<?b + ?l]"
      using sp(1,2) unfolding segs by (simp add: seg_bytes_def)
    then show ?thesis using c(1,4) \<open>\<not> nvme_use_iommu data\<close> by (simp add: has_def)
  qed
qed

section \<open>Examples\<close>

text \<open>A pool of four pages in two pairs that lie apart: pages of frame 16, 17, 48 and 49.\<close>

definition sample_frame :: "nat \<Rightarrow> nat" where
  "sample_frame page = 16 + 32 * (page div 2 mod 2) + page mod 2"

definition sample_phys :: "nat \<Rightarrow> nat" where
  "sample_phys a = sample_frame (a div 4096) * 4096 + a mod 4096"

definition sample_noiommu :: nvme_vfio_tgt_data where
  "sample_noiommu = sample_nvme\<lparr>nd_use_noiommu := True, nd_hugepage_size := 8192,
     nd_pool := \<lparr>dp_base = 0x40000000, dp_size = 0x4000,
       dp_cache = Some (map (\<lambda>page. PM_PRESENT OR of_nat (sample_frame page)) [0x40000..<0x40004]), dp_nr_pages = 4\<rparr>\<rparr>"

lemma frame_bound: "sample_frame p < 64"
proof -
  have "p div 2 mod 2 < 2" "p mod 2 < 2" by simp_all
  then show ?thesis unfolding sample_frame_def by linarith
qed

lemma present_pfn:
  assumes "n < 2 ^ 50"
  shows "has (PM_PRESENT OR of_nat n) PM_PRESENT" "(PM_PRESENT OR of_nat n) AND PM_PFN = of_nat n"
proof -
  show "has (PM_PRESENT OR of_nat n) PM_PRESENT" by (simp add: has_def)
  have "(of_nat n :: u64) AND mask 55 = of_nat n"
    using assms by (simp add: take_bit_eq_mask [symmetric] take_bit_of_nat take_bit_nat_eq_self)
  moreover have "PM_PFN = mask 55" by (simp add: mask_eq_exp_minus_1)
  moreover have "PM_PRESENT AND PM_PFN = 0" by simp
  ultimately show "(PM_PRESENT OR of_nat n) AND PM_PFN = of_nat n" by (simp only: bit.conj_disj_distrib2) simp
qed

lemma frame_step:
  assumes "p \<le> p'" "p div 2 = p' div 2"
  shows "sample_frame p' = sample_frame p + (p' - p)"
proof -
  have "p = p div 2 * 2 + p mod 2" "p' = p div 2 * 2 + p' mod 2" using assms(2) by (metis div_mult_mod_eq)+
  then have "p' - p = p' mod 2 - p mod 2" "p mod 2 \<le> p' mod 2" using assms(1) by linarith+
  then show ?thesis using assms(2) by (simp add: sample_frame_def)
qed

lemma phys_step:
  assumes "a \<le> b" "a div 8192 = b div 8192"
  shows "sample_phys b = sample_phys a + (b - a)"
proof -
  let ?p = "a div 4096" and ?p' = "b div 4096"
  have "?p div 2 = ?p' div 2" using assms(2) by (simp add: div_mult2_eq [symmetric])
  moreover have le: "?p \<le> ?p'" using assms(1) by (rule div_le_mono)
  ultimately have f: "sample_frame ?p' = sample_frame ?p + (?p' - ?p)" by (rule frame_step [rotated])
  have "a = ?p * 4096 + a mod 4096" "b = ?p' * 4096 + b mod 4096" by simp_all
  moreover have "(?p' - ?p) * 4096 = ?p' * 4096 - ?p * 4096" "?p * 4096 \<le> ?p' * 4096" using le by (simp_all add: diff_mult_distrib)
  ultimately have "(?p' - ?p) * 4096 + b mod 4096 = a mod 4096 + (b - a)" using assms(1) by linarith
  then show ?thesis unfolding sample_phys_def f by (simp add: distrib_right)
qed

lemma sample_phys_units: "phys_units sample_noiommu 8192 sample_phys" "phys_units sample_noiommu 4096 sample_phys"
proof -
  let ?pm = "\<lambda>page. PM_PRESENT OR of_nat (sample_frame page) :: u64"
  have sel: "dp_base (nd_pool sample_noiommu) = 0x40000000" "dp_size (nd_pool sample_noiommu) = 0x4000"
    "dp_cache (nd_pool sample_noiommu) = Some (map ?pm [unat (0x40000000::u64) div 4096..<unat (0x40000000::u64) div 4096 + unat (0x4000::u64) div 4096])"
    by (simp_all add: sample_noiommu_def)
  have bound: "sample_phys a < 64 * 4096" for a
  proof -
    have "sample_frame (a div 4096) \<le> 63" using frame_bound [of "a div 4096"] by simp
    then have "sample_frame (a div 4096) * 4096 \<le> 63 * 4096" by (rule mult_le_mono1)
    moreover have "a mod 4096 < 4096" by simp
    ultimately show ?thesis unfolding sample_phys_def by linarith
  qed
  have one: "dma_buf_pool_virt_to_phys (nd_pool sample_noiommu) (of_nat a) = Some (of_nat (sample_phys a)) \<and>
      sample_phys a < 2 ^ 64 - 1 \<and> sample_phys a mod 4096 = a mod 4096" if "in_pool sample_noiommu a" for a
  proof -
    have a: "0x40000000 \<le> a" "a < 0x40004000" using that by (simp_all add: in_pool_def sel)
    then have u: "unat (of_nat a :: u64) = a" by (intro unat_of_nat64) simp
    have "dma_buf_pool_virt_to_phys (nd_pool sample_noiommu) (of_nat a) = Some (phys_of ?pm (of_nat a))"
      using a u by (intro virt_to_phys_in [OF _ sel]) (simp_all add: pool_area_def word_le_nat_alt)
    moreover have "phys_of ?pm (of_nat a) = of_nat (sample_phys a)"
    proof -
      have f: "sample_frame (a div 4096) < 2 ^ 50" using frame_bound [of "a div 4096"] by simp
      have "unat ((of_nat a :: u64) mod 4096) = a mod 4096" by (simp add: unat_mod_distrib u)
      from arg_cong [OF this, of "of_nat :: nat \<Rightarrow> u64"] have "(of_nat a :: u64) mod 4096 = of_nat (a mod 4096)" by simp
      then show ?thesis using present_pfn [OF f] u by (simp add: phys_of_def Let_def sample_phys_def)
    qed
    ultimately show ?thesis using bound [of a] by (simp add: sample_phys_def)
  qed
  show "phys_units sample_noiommu 8192 sample_phys" unfolding phys_units_def using one phys_step by blast
  have "a div 8192 = b div 8192" if "a div 4096 = b div 4096" for a b :: nat
    using div_mult2_eq [of a 4096 2] div_mult2_eq [of b 4096 2] that by simp
  then show "phys_units sample_noiommu 4096 sample_phys" unfolding phys_units_def using one phys_step by blast
qed

definition sample_priv :: nvme_io_priv where
  "sample_priv = \<lparr>pv_data_mapping = \<lparr>dm_vaddr = 0, dm_iova = 0, dm_size = 0\<rparr>,
     pv_prp_mapping = \<lparr>dm_vaddr = 0x40003000, dm_iova = 0x31000, dm_size = 4096\<rparr>, pv_prp_list = 0x40003000, pv_page = (\<lambda>_. 0)\<rparr>"

definition sample_copy :: copy_sys where
  "sample_copy = \<lparr>uc_pread = (\<lambda>pos n. Inr n), uc_pwrite = (\<lambda>pos n. Inr n)\<rparr>"

definition sample_iod :: ublksrv_io_desc where
  "sample_iod = \<lparr>op_flags = 1, nr_sectors = 16, start_sector = 8, iod_addr = 0\<rparr>"

lemma sample_phys_at: "sample_phys 0x40001000 = 0x11000" "sample_phys 0x40002000 = 0x30000"
  by (simp_all add: sample_phys_def sample_frame_def)

lemma sample_in_pool: "0x40000000 \<le> a \<Longrightarrow> a < 0x40004000 \<Longrightarrow> in_pool sample_noiommu a"
  by (simp add: in_pool_def sample_noiommu_def)

lemma sample_translates: "dma_buf_pool_virt_to_phys (nd_pool sample_noiommu) 0x40002000 = Some 0x30000"
  using phys_unitsD(1) [OF sample_phys_units(1), of "0x40002000"] sample_phys_at(2) by (simp add: sample_in_pool)

text \<open>Two pages across the boundary of the pairs.\<close>

theorem nvme_prps_noiommu_witness:
  "\<exists>cmd' priv'. nvme_setup_prps sample_noiommu 0x40001000 0x11000 0x2000 zero_rw sample_priv = Some (0, cmd', priv') \<and>
     seg_bytes (prp_segs (\<lambda>_. pv_page priv') (rw_prp1 cmd') (rw_prp2 cmd') 0x2000) = map sample_phys [0x40001000..<0x40003000]"
proof -
  have m: "\<not> nvme_use_iommu sample_noiommu" by (simp add: nvme_use_iommu_def sample_noiommu_def)
  have su: "nvme_setup_prps sample_noiommu 0x40001000 0x11000 0x2000 zero_rw sample_priv
    = Some (0, zero_rw\<lparr>rw_prp1 := 0x11000, rw_prp2 := 0x30000\<rparr>, sample_priv)"
    using m sample_translates by (simp add: nvme_setup_prps_def Let_def)
  have r: "rest_len 0x11000 0x2000 = 4096" by (simp add: rest_len_def first_len_def)
  show ?thesis
    using su nvme_prps_noiommu [OF m sample_phys_units(2), of "0x11000" "0x40001000" "0x2000" zero_rw sample_priv 0
        "zero_rw\<lparr>rw_prp1 := 0x11000, rw_prp2 := 0x30000\<rparr>" sample_priv "\<lambda>_. pv_page sample_priv"] r
    by (simp add: sample_phys_at sample_in_pool del: upt_rec_numeral)
qed

theorem nvme_sgl_cover_witness:
  "\<exists>cmd' priv'. nvme_setup_sgl sample_noiommu 0x40001000 0x11000 0x2000 zero_rw sample_priv = Some (0, cmd', priv') \<and>
     seg_bytes (sgl_segs (\<lambda>_. pv_page priv') (rw_prp1 cmd') (rw_prp2 cmd')) = map sample_phys [0x40001000..<0x40003000]"
proof -
  have m: "\<not> nvme_use_iommu sample_noiommu" and h: "nd_hugepage_size sample_noiommu = 8192"
    by (simp_all add: nvme_use_iommu_def sample_noiommu_def)
  have "\<exists>ret cmd' priv'. nvme_setup_sgl sample_noiommu 0x40001000 0x11000 0x2000 zero_rw sample_priv = Some (ret, cmd', priv')"
    using m h sample_translates by (simp add: nvme_setup_sgl_def Let_def)
  then obtain ret cmd' priv' where su: "nvme_setup_sgl sample_noiommu 0x40001000 0x11000 0x2000 zero_rw sample_priv = Some (ret, cmd', priv')"
    by blast
  then show ?thesis
    using nvme_sgl_cover [OF _ _ su, of "\<lambda>_. pv_page priv'" sample_phys] m h sample_phys_units(1)
    by (simp add: sample_phys_at sample_in_pool del: upt_rec_numeral)
qed

theorem nvme_rw_reaches_buffer_witness:
  "\<exists>priv' data' cmd. nvme_queue_rw_io (\<lambda>_ _ _. True) sample_copy 1 sample_iod 0 sample_nq sample_priv sample_pool
       = Some (0, sq_copy_submit (Rw cmd) sample_nq, priv', data') \<and> cmd_lba_bytes sample_pool cmd = (4096, 8192) \<and>
     map (dev_addr data') (seg_bytes (prp_segs (\<lambda>_. pv_page priv') (rw_prp1 cmd) (rw_prp2 cmd) 8192))
       = map Some [unat (nvme_pool_get_io_buf sample_pool 1 0)..<unat (nvme_pool_get_io_buf sample_pool 1 0) + 8192]"
proof -
  let ?buf = "nvme_pool_get_io_buf sample_pool 1 0"
  have d: "nd_lba_shift sample_pool = 9" "nd_max_io_buf_bytes sample_pool = 8192" "nd_user_copy sample_pool = False"
    "nd_sgls sample_pool = 0" "nd_next_iova sample_pool = 0x100000000" by code_simp+
  have ok: "request_ok sample_pool sample_iod" by (simp add: request_ok_def sample_iod_def d)
  have "\<exists>nq priv' data'. nvme_queue_rw_io (\<lambda>_ _ _. True) sample_copy 1 sample_iod 0 sample_nq sample_priv sample_pool
       = Some (0, nq, priv', data')"
    using sample_pool_init(6) d
    by (simp add: nvme_queue_rw_io_def Let_def sample_priv_def map_dma_use [OF sample_pool_init(6)] sample_pool_init(7)
        nvme_sgl_supported_def nvme_setup_prps_def sample_iod_def nvme_use_iommu_def push_bit_eq_mult)
  then obtain nq priv' data' where run: "nvme_queue_rw_io (\<lambda>_ _ _. True) sample_copy 1 sample_iod 0 sample_nq sample_priv sample_pool
       = Some (0, nq, priv', data')" by blast
  have room: "unat (nd_next_iova sample_pool) + pg (unat (nd_max_io_buf_bytes sample_pool)) < 2 ^ 64" by (simp add: d pg_def)
  from nvme_rw_reaches_buffer [OF _ sample_pool_init(5,6) ok room _ run, of ?buf "\<lambda>_. pv_page priv'"] show ?thesis
    using run by (auto simp: sample_priv_def nvme_sgl_supported_def d sample_iod_def)
qed

theorem nvme_background_completes_witness:
  "\<exists>s q q'. nvme_reach s \<and> drop (length (ns_taken s)) (ns_posted s) = [(1, 5), (0, 0)] \<and> cur_nvmeq q = ns_q s \<and>
     nvme_vfio_handle_io_background fring_api sample_copy q = Some q' \<and> \<not> nvme_cqe_pending (cur_nvmeq q')"
proof -
  obtain s where s: "nvme_reach s" "ns_posted s = [(1, 5), (0, 0)]" "ns_taken s = []" by (rule sample_reach)
  define q where "q = (sample_queue 0 \<lparr>nt_data = sample_nvme\<lparr>nd_io_queues := [ns_q s]\<rparr>, nt_priv = []\<rparr>)\<lparr>q_id := 0\<rparr>"
  have "cur_nvmeq q = ns_q s" "has_nvmeq q" by (simp_all add: q_def cur_nvmeq_def has_nvmeq_def sample_queue_def)
  from nvme_background_completes [OF s(1) this, of fring_api sample_copy] obtain q' where
    "nvme_vfio_handle_io_background fring_api sample_copy q = Some q'" "\<not> nvme_cqe_pending (cur_nvmeq q')" by blast
  moreover have "drop (length (ns_taken s)) (ns_posted s) = [(1, 5), (0, 0)]" using s by simp
  ultimately show ?thesis using s(1) \<open>cur_nvmeq q = ns_q s\<close> by blast
qed

end
