(* ===== verification/Nvme_Admin.thy ===== *)
theory Nvme_Admin
  imports Nvme_Io
begin

text \<open>
  The admin path of targets/nvme/ublk.nvme_vfio.cpp: starting and stopping the controller, admin
  commands, identification, creating and deleting io queues, and the dma buffers of a ublk queue. The
  controller is a parameter (record \<open>nvme_dev\<close>): its registers, what it has written to the admin
  completion buffer when the host looks at it, and the data an identify command leaves at an address.
  A shift by more than the width of its operand, undefined in C, is \<open>None\<close>.
\<close>

unbundle bit_operations_syntax

abbreviation (input) "ETIMEDOUT \<equiv> (110::int)"
abbreviation (input) "NVME_REG_CC \<equiv> (0x14::u32)"
abbreviation (input) "NVME_REG_CSTS \<equiv> (0x1c::u32)"
abbreviation (input) "NVME_REG_AQA \<equiv> (0x24::u32)"
abbreviation (input) "NVME_REG_ASQ \<equiv> (0x28::u32)"
abbreviation (input) "NVME_REG_ACQ \<equiv> (0x30::u32)"
abbreviation (input) "NVME_CC_ENABLE \<equiv> (1::u32)"
abbreviation (input) "NVME_CC_CSS_NVM \<equiv> (0::u32)"
abbreviation (input) "NVME_CC_MPS_4K \<equiv> (0::u32)"
abbreviation (input) "NVME_CC_IOSQES \<equiv> (0x60000::u32)"
abbreviation (input) "NVME_CC_IOCQES \<equiv> (0x400000::u32)"
abbreviation (input) "NVME_CC_SHN_NORMAL \<equiv> (0x4000::u32)"
abbreviation (input) "NVME_CSTS_RDY \<equiv> (1::u32)"
abbreviation (input) "NVME_CSTS_SHST_MASK \<equiv> (0xC::u32)"
abbreviation (input) "NVME_CSTS_SHST_COMPLETE \<equiv> (8::u32)"
abbreviation (input) "NVME_ID_CNS_NS \<equiv> (0::u32)"
abbreviation (input) "NVME_ID_CNS_CTRL \<equiv> (1::u32)"
abbreviation (input) "NVME_CTRL_VWC_PRESENT \<equiv> (1::u8)"

section \<open>The controller\<close>

text \<open>The fields of the identify structures that the target reads.\<close>

record nvme_id_ctrl =
  ic_mdts :: u8
  ic_vwc :: u8
  ic_sgls :: u32

record nvme_id_ns =
  in_nsze :: u64
  in_flbas :: u8
  in_lbaf_ds :: "nat \<Rightarrow> u8"

record 'd nvme_dev =
  vd_readl :: "u32 \<Rightarrow> 'd \<Rightarrow> u32 \<times> 'd"
  vd_writel :: "u32 \<Rightarrow> u32 \<Rightarrow> 'd \<Rightarrow> 'd"
  vd_writeq :: "u32 \<Rightarrow> u64 \<Rightarrow> 'd \<Rightarrow> 'd"
  vd_admin :: "nvme_queue \<Rightarrow> 'd \<Rightarrow> nvme_completion list \<times> 'd"
  vd_id_ctrl :: "u64 \<Rightarrow> 'd \<Rightarrow> nvme_id_ctrl"
  vd_id_ns :: "u64 \<Rightarrow> 'd \<Rightarrow> nvme_id_ns"

section \<open>Admin commands\<close>

definition admin_take :: "nvme_queue \<Rightarrow> nvme_queue" where
  "admin_take adminq =
     (let head = word_of_int ((uint (nq_cq_head adminq) + 1) mod uint (nq_qsize adminq));
          q1 = adminq\<lparr>nq_cq_head := head,
                 nq_cq_phase := if head = 0 then (if nq_cq_phase adminq = 0 then 1 else 0) else nq_cq_phase adminq\<rparr>
      in q1\<lparr>nq_cq_db := ucast head\<rparr>)"

fun wait_admin :: "'d nvme_dev \<Rightarrow> nat \<Rightarrow> nvme_queue \<Rightarrow> 'd \<Rightarrow> int \<times> nvme_queue \<times> 'd" where
  "wait_admin V 0 adminq d = (- ETIMEDOUT, adminq, d)"
| "wait_admin V (Suc timeout) adminq d =
     (let (cq, d1) = vd_admin V adminq d;
          adminq1 = adminq\<lparr>nq_cq := cq\<rparr>;
          cqe = cq ! unat (nq_cq_head adminq);
          phase = (ucast (ce_status cqe AND 1) :: u8)
      in if phase = nq_cq_phase adminq
         then (if drop_bit 1 (ce_status cqe) = 0 then 0 else - EIO, admin_take adminq1, d1)
         else wait_admin V timeout adminq1 d1)"

definition nvme_wait_admin_completion ::
  "'d nvme_dev \<Rightarrow> nvme_vfio_tgt_data \<Rightarrow> 'd \<Rightarrow> int \<times> nvme_vfio_tgt_data \<times> 'd" where
  "nvme_wait_admin_completion V data d =
     (let (ret, adminq, d1) = wait_admin V 5000 (nd_admin_queue data) d
      in (ret, data\<lparr>nd_admin_queue := adminq\<rparr>, d1))"

definition admin_put :: "nvme_cmd \<Rightarrow> nvme_queue \<Rightarrow> nvme_queue" where
  "admin_put cmd adminq =
     (let tail = word_of_int ((uint (nq_sq_tail adminq) + 1) mod uint (nq_qsize adminq))
      in adminq\<lparr>nq_sq := (nq_sq adminq)[unat (nq_sq_tail adminq) := cmd], nq_sq_tail := tail, nq_sq_db := ucast tail\<rparr>)"

definition nvme_submit_admin_cmd ::
  "'d nvme_dev \<Rightarrow> nvme_cmd \<Rightarrow> nvme_vfio_tgt_data \<Rightarrow> 'd \<Rightarrow> int \<times> nvme_vfio_tgt_data \<times> 'd" where
  "nvme_submit_admin_cmd V cmd data d =
     nvme_wait_admin_completion V (data\<lparr>nd_admin_queue := admin_put cmd (nd_admin_queue data)\<rparr>) d"

section \<open>Starting and stopping the controller\<close>

definition nvme_create_admin_queue ::
  "'d nvme_dev \<Rightarrow> ioas \<Rightarrow> nvme_vfio_tgt_data \<Rightarrow> 'd \<Rightarrow> (int \<times> nvme_vfio_tgt_data \<times> 'd) option" where
  "nvme_create_admin_queue V M data d = do {
     (ret, q, data1) \<leftarrow> nvme_queue_init M data (nd_admin_queue data) 0 64;
     let data2 = data1\<lparr>nd_admin_queue := q\<rparr>;
     if ret < 0 then Some (ret, data2, d)
     else Some (0, data2,
       vd_writeq V NVME_REG_ACQ (nq_cq_iova q) (vd_writeq V NVME_REG_ASQ (nq_sq_iova q)
         (vd_writel V NVME_REG_AQA (push_bit 16 (64 - 1) OR (64 - 1)) d))) }"

text \<open>The waiting loops: the first counts \<open>timeout\<close> down after each failed read and reads once more at
  zero; its result is the value of \<open>timeout\<close> at the end.\<close>

fun wait_csts :: "'d nvme_dev \<Rightarrow> (u32 \<Rightarrow> bool) \<Rightarrow> nat \<Rightarrow> 'd \<Rightarrow> int \<times> 'd" where
  "wait_csts V ok timeout d =
     (let (csts, d1) = vd_readl V NVME_REG_CSTS d in
      if ok csts then (int timeout, d1)
      else case timeout of 0 \<Rightarrow> (-1, d1) | Suc t \<Rightarrow> wait_csts V ok t d1)"

fun poll_csts :: "'d nvme_dev \<Rightarrow> (u32 \<Rightarrow> bool) \<Rightarrow> nat \<Rightarrow> 'd \<Rightarrow> 'd" where
  "poll_csts V ok 0 d = d"
| "poll_csts V ok (Suc n) d =
     (let (csts, d1) = vd_readl V NVME_REG_CSTS d in if ok csts then d1 else poll_csts V ok n d1)"

definition nvme_init_controller ::
  "'d nvme_dev \<Rightarrow> ioas \<Rightarrow> nvme_vfio_tgt_data \<Rightarrow> 'd \<Rightarrow> (int \<times> nvme_vfio_tgt_data \<times> 'd) option" where
  "nvme_init_controller V M data d =
     (let (cc, d1) = vd_readl V NVME_REG_CC d;
          d2 = vd_writel V NVME_REG_CC (cc AND NOT NVME_CC_ENABLE) d1;
          (timeout, d3) = wait_csts V (\<lambda>csts. csts AND NVME_CSTS_RDY = 0) 5000 d2
      in if timeout \<le> 0 then Some (-1, data, d3)
         else do {
           (ret, data1, d4) \<leftarrow> nvme_create_admin_queue V M data d3;
           if ret < 0 then Some (-1, data1, d4)
           else let d5 = vd_writel V NVME_REG_CC
                      (NVME_CC_ENABLE OR NVME_CC_CSS_NVM OR NVME_CC_MPS_4K OR NVME_CC_IOSQES OR NVME_CC_IOCQES) d4;
                    (timeout1, d6) = wait_csts V (\<lambda>csts. csts AND NVME_CSTS_RDY \<noteq> 0) 5000 d5
                in Some (if timeout1 \<le> 0 then -1 else 0, data1, d6) })"

definition nvme_shutdown_controller :: "'d nvme_dev \<Rightarrow> bool \<Rightarrow> 'd \<Rightarrow> 'd" where
  "nvme_shutdown_controller V bar d =
     (if \<not> bar then d
      else let (cc0, d1) = vd_readl V NVME_REG_CC d;
               cc = cc0 OR NVME_CC_SHN_NORMAL;
               d2 = vd_writel V NVME_REG_CC cc d1;
               d3 = poll_csts V (\<lambda>csts. csts AND NVME_CSTS_SHST_MASK = NVME_CSTS_SHST_COMPLETE) 5000 d2;
               d4 = vd_writel V NVME_REG_CC (cc AND NOT NVME_CC_ENABLE) d3
           in poll_csts V (\<lambda>csts. csts AND NVME_CSTS_RDY = 0) 5000 d4)"

section \<open>Identification\<close>

definition no_mapping :: nvme_dma_mapping where
  "no_mapping = \<lparr>dm_vaddr = 0, dm_iova = 0, dm_size = 0\<rparr>"

definition nvme_identify_controller ::
  "'d nvme_dev \<Rightarrow> ioas \<Rightarrow> nvme_vfio_tgt_data \<Rightarrow> 'd \<Rightarrow> (int \<times> nvme_vfio_tgt_data \<times> 'd) option" where
  "nvme_identify_controller V M data d =
     (let buf = nvme_pool_get_identify_buf data in
      if buf = 0 then Some (- ENOMEM, data, d)
      else do {
        (iova, mapping, data1) \<leftarrow> nvme_map_dma M data buf PAGE_SIZE no_mapping;
        if iova = 0 then Some (- ENOMEM, data1, d)
        else let cmd = \<lparr>idc_opcode = NVME_ADMIN_IDENTIFY, idc_nsid = 0, idc_prp1 = iova, idc_cns = NVME_ID_CNS_CTRL\<rparr>;
                 (ret, data2, d1) = nvme_submit_admin_cmd V (Identify cmd) data1 d
             in if ret < 0 then Some (ret, snd (nvme_unmap_dma data2 mapping), d1)
                else let ctrl = vd_id_ctrl V iova d1;
                         data3 = data2\<lparr>nd_vwc := ic_vwc ctrl, nd_mdts := ic_mdts ctrl, nd_sgls := ic_sgls ctrl\<rparr>
                     in if 32 \<le> unat (nd_mdts data3) then None
                        else Some (0, snd (nvme_unmap_dma data3 mapping), d1) })"

text \<open>The parameters of the device, from the data of controller and namespace.\<close>

definition nvme_max_bytes :: "nvme_vfio_tgt_data \<Rightarrow> u32 option" where
  "nvme_max_bytes data =
     (if nd_mdts data = 0 then Some (nd_max_io_buf_bytes data)
      else if 32 \<le> unat (nd_mdts data) then None
      else let mdts_bytes = push_bit (unat (nd_mdts data)) 1 * 4096
           in Some (if mdts_bytes < nd_max_io_buf_bytes data then mdts_bytes else nd_max_io_buf_bytes data))"

definition nvme_fill_params :: "nvme_vfio_tgt_data \<Rightarrow> u32 \<Rightarrow> ublk_params \<Rightarrow> ublk_params" where
  "nvme_fill_params data max_bytes p =
     (let sh = ucast (nd_lba_shift data) :: u8;
          sgl = nvme_sgl_supported data;
          b1 = (p_basic p)\<lparr>pb_logical_bs_shift := sh, pb_physical_bs_shift := sh, pb_io_opt_shift := sh,
                 pb_io_min_shift := sh, pb_dev_sectors := drop_bit 9 (nd_dev_size data),
                 pb_max_sectors := drop_bit 9 max_bytes\<rparr>;
          b2 = (if sgl then b1 else b1\<lparr>pb_virt_boundary_mask := PAGE_SIZE - 1\<rparr>);
          b3 = (if nd_vwc data AND NVME_CTRL_VWC_PRESENT \<noteq> 0
                then b2\<lparr>pb_attrs := UBLK_ATTR_VOLATILE_CACHE OR UBLK_ATTR_FUA\<rparr> else b2);
          types = UBLK_PARAM_TYPE_BASIC OR UBLK_PARAM_TYPE_DISCARD
      in p\<lparr>p_types := if sgl then types else types OR UBLK_PARAM_TYPE_SEGMENT,
           p_basic := b3,
           p_seg := if sgl then p_seg p
                    else (p_seg p)\<lparr>ps_seg_boundary_mask := PAGE_SIZE - 1, ps_max_segment_size := push_bit 20 32,
                           ps_max_segments := 127\<rparr>,
           p_discard := (p_discard p)\<lparr>pd_alignment := 0, pd_granularity := push_bit (unat (nd_lba_shift data)) 1,
                          pd_max_discard_sectors := drop_bit 9 (- 1), pd_max_discard_segments := 1\<rparr>\<rparr>)"

definition nvme_identify_namespace ::
  "'d nvme_dev \<Rightarrow> ioas \<Rightarrow> nvme_vfio_tgt_data \<Rightarrow> ublk_params \<Rightarrow> 'd \<Rightarrow>
     (int \<times> nvme_vfio_tgt_data \<times> ublk_params \<times> 'd) option" where
  "nvme_identify_namespace V M data p d =
     (let buf = nvme_pool_get_identify_buf data in
      if buf = 0 then Some (- ENOMEM, data, p, d)
      else do {
        (iova, mapping, data1) \<leftarrow> nvme_map_dma M data buf PAGE_SIZE no_mapping;
        if iova = 0 then Some (- ENOMEM, data1, p, d)
        else let cmd = \<lparr>idc_opcode = NVME_ADMIN_IDENTIFY, idc_nsid = 1, idc_prp1 = iova, idc_cns = NVME_ID_CNS_NS\<rparr>;
                 (ret, data2, d1) = nvme_submit_admin_cmd V (Identify cmd) data1 d
             in if ret < 0 then Some (ret, snd (nvme_unmap_dma data2 mapping), p, d1)
                else let ns = vd_id_ns V iova d1;
                         sh = in_lbaf_ds ns (unat (in_flbas ns AND 0x0F))
                     in if 32 \<le> unat sh then None
                        else let data3 = data2\<lparr>nd_nsid := 1, nd_lba_shift := ucast sh,
                                   nd_dev_size := push_bit (unat sh) (in_nsze ns)\<rparr>
                             in do {
                               max_bytes \<leftarrow> nvme_max_bytes data3;
                               Some (0, snd (nvme_unmap_dma data3 mapping), nvme_fill_params data3 max_bytes p, d1) } })"

section \<open>Io queues\<close>

definition nvme_create_io_queue ::
  "'d nvme_dev \<Rightarrow> ioas \<Rightarrow> nat \<Rightarrow> nat \<Rightarrow> nvme_vfio_tgt_data \<Rightarrow> 'd \<Rightarrow> (int \<times> nvme_vfio_tgt_data \<times> 'd) option" where
  "nvme_create_io_queue V M qid qsize data d = do {
     (ret, ioq, data1) \<leftarrow> nvme_queue_init M data (nd_io_queues data ! (qid - 1)) (of_nat qid) (of_nat qsize);
     let put = (\<lambda>q dt. dt\<lparr>nd_io_queues := (nd_io_queues dt)[qid - 1 := q]\<rparr>);
     let fail = (\<lambda>dt. let (q1, dt1) = nvme_queue_deinit dt ioq in put q1 dt1);
     let data2 = put ioq data1;
     if ret < 0 then Some (ret, data2, d)
     else
       let (ret1, data3, d1) = nvme_submit_admin_cmd V (CreateCq
              \<lparr>ccq_opcode = NVME_ADMIN_CREATE_CQ, ccq_prp1 = nq_cq_iova ioq, ccq_cqid = of_nat qid,
               ccq_qsize = of_nat (qsize - 1), ccq_cq_flags = 1, ccq_irq_vector = 0\<rparr>) data2 d
       in if ret1 < 0 then Some (-1, fail data3, d1)
          else
            let (ret2, data4, d2) = nvme_submit_admin_cmd V (CreateSq
                   \<lparr>csq_opcode = NVME_ADMIN_CREATE_SQ, csq_prp1 = nq_sq_iova ioq, csq_sqid = of_nat qid,
                    csq_qsize = of_nat (qsize - 1), csq_sq_flags = 1, csq_cqid = of_nat qid\<rparr>) data3 d1
            in if ret2 < 0 then Some (-1, fail data4, d2) else Some (0, data4, d2) }"

definition nvme_delete_io_queue :: "'d nvme_dev \<Rightarrow> nat \<Rightarrow> nvme_vfio_tgt_data \<Rightarrow> 'd \<Rightarrow> int \<times> nvme_vfio_tgt_data \<times> 'd" where
  "nvme_delete_io_queue V qid data d =
     (let (_, data1, d1) = nvme_submit_admin_cmd V (DeleteQueue \<lparr>dq_opcode = NVME_ADMIN_DELETE_SQ, dq_qid = of_nat qid\<rparr>) data d;
          (_, data2, d2) = nvme_submit_admin_cmd V (DeleteQueue \<lparr>dq_opcode = NVME_ADMIN_DELETE_CQ, dq_qid = of_nat qid\<rparr>) data1 d1
      in (0, data2, d2))"

text \<open>The loop of \<open>nvme_vfio_init_tgt\<close> that creates the queues \<open>qids\<close>.\<close>

fun create_io_queues ::
  "'d nvme_dev \<Rightarrow> ioas \<Rightarrow> nat list \<Rightarrow> nvme_vfio_tgt_data \<Rightarrow> 'd \<Rightarrow> (int \<times> nvme_vfio_tgt_data \<times> 'd) option" where
  "create_io_queues V M [] data d = Some (0, data, d)"
| "create_io_queues V M (i # is) data d = do {
     (ret, data1, d1) \<leftarrow> nvme_create_io_queue V M (i + 1) (unat (nd_queue_depth data) + 1) data d;
     if ret < 0 then Some (-1, data1, d1) else create_io_queues V M is data1 d1 }"

section \<open>The buffers of a ublk queue\<close>

fun init_privs ::
  "ioas \<Rightarrow> int \<Rightarrow> nat list \<Rightarrow> nvme_vfio_tgt_data \<Rightarrow> nvme_io_priv list \<Rightarrow>
     (int \<times> nvme_vfio_tgt_data \<times> nvme_io_priv list) option" where
  "init_privs M qid [] data privs = Some (0, data, privs)"
| "init_privs M qid (tag # tags) data privs =
     (let prp = nvme_pool_get_prp data qid (int tag);
          priv = \<lparr>pv_data_mapping = no_mapping, pv_prp_mapping = no_mapping, pv_prp_list = prp, pv_page = (\<lambda>_. 0)\<rparr>
      in if prp = 0 then Some (-1, data, privs[tag := priv])
         else do {
           (iova, mapping, data1) \<leftarrow> nvme_map_dma M data prp PAGE_SIZE no_mapping;
           let privs1 = privs[tag := priv\<lparr>pv_prp_mapping := mapping\<lparr>dm_iova := iova\<rparr>\<rparr>];
           if iova = 0 then Some (-1, data1, privs1) else init_privs M qid tags data1 privs1 })"

definition nvme_vfio_init_queue ::
  "ioas \<Rightarrow> int \<Rightarrow> nvme_vfio_tgt_data \<Rightarrow> nvme_io_priv list \<Rightarrow> (int \<times> nvme_vfio_tgt_data \<times> nvme_io_priv list) option" where
  "nvme_vfio_init_queue M qid data privs = init_privs M qid [0..<unat (nd_queue_depth data)] data privs"

fun deinit_privs :: "nat list \<Rightarrow> nvme_vfio_tgt_data \<Rightarrow> nvme_io_priv list \<Rightarrow> nvme_vfio_tgt_data \<times> nvme_io_priv list" where
  "deinit_privs [] data privs = (data, privs)"
| "deinit_privs (tag # tags) data privs =
     (let priv = privs ! tag;
          (dm, data1) = (if dm_iova (pv_data_mapping priv) \<noteq> 0 then nvme_unmap_dma data (pv_data_mapping priv)
                         else (pv_data_mapping priv, data));
          (pm, data2) = (if dm_iova (pv_prp_mapping priv) \<noteq> 0 then nvme_unmap_dma data1 (pv_prp_mapping priv)
                         else (pv_prp_mapping priv, data1))
      in deinit_privs tags data2 (privs[tag := priv\<lparr>pv_data_mapping := dm, pv_prp_mapping := pm\<rparr>]))"

definition nvme_vfio_deinit_queue :: "nvme_vfio_tgt_data \<Rightarrow> nvme_io_priv list \<Rightarrow> nvme_vfio_tgt_data \<times> nvme_io_priv list" where
  "nvme_vfio_deinit_queue data privs = deinit_privs [0..<unat (nd_queue_depth data)] data privs"

declare wait_csts.simps [simp del]

section \<open>Each command gets its own status\<close>

text \<open>
  What the target relies on: whenever the host looks at the completion buffer, the controller has
  either done nothing or executed the next command the doorbell shows and posted its completion, with
  the phase of the round. \<open>ex\<close> are the commands it has executed and \<open>po\<close> the completions it has posted;
  \<open>lag\<close> bounds how often the host looks before a waiting command is executed.
\<close>

definition admin_posts :: "('d \<Rightarrow> nvme_cmd list) \<Rightarrow> ('d \<Rightarrow> (u16 \<times> u16) list) \<Rightarrow> nat \<Rightarrow> nvme_queue \<Rightarrow> 'd \<Rightarrow>
    nvme_completion list \<Rightarrow> 'd \<Rightarrow> bool" where
  "admin_posts ex po n q d cq d' \<longleftrightarrow> (\<exists>e. snd e < 2 ^ 15 \<and> ex d' = ex d @ [nq_sq q ! (length (ex d) mod n)] \<and>
     po d' = po d @ [e] \<and> cq = (nq_cq q)[length (po d) mod n := cqe_of e (even (length (po d) div n))])"

definition admin_ctrl_ok :: "'d nvme_dev \<Rightarrow> ('d \<Rightarrow> nvme_cmd list) \<Rightarrow> ('d \<Rightarrow> (u16 \<times> u16) list) \<Rightarrow> nat \<Rightarrow> bool" where
  "admin_ctrl_ok V ex po n \<longleftrightarrow> (\<forall>q d cq d'. vd_admin V q d = (cq, d') \<longrightarrow>
     cq = nq_cq q \<and> ex d' = ex d \<and> po d' = po d \<or>
     length (ex d) mod n \<noteq> unat (nq_sq_db q) \<and> admin_posts ex po n q d cq d')"

definition admin_prompt :: "'d nvme_dev \<Rightarrow> ('d \<Rightarrow> nvme_cmd list) \<Rightarrow> ('d \<Rightarrow> nat) \<Rightarrow> nat \<Rightarrow> bool" where
  "admin_prompt V ex lag n \<longleftrightarrow> (\<forall>d. lag d < 5000) \<and>
     (\<forall>q d cq d'. vd_admin V q d = (cq, d') \<and> length (ex d) mod n \<noteq> unat (nq_sq_db q) \<and> ex d' = ex d \<longrightarrow> lag d' < lag d)"

text \<open>Between two commands: everything submitted was executed and its completion taken.\<close>

definition admin_idle :: "('d \<Rightarrow> nvme_cmd list) \<Rightarrow> ('d \<Rightarrow> (u16 \<times> u16) list) \<Rightarrow> nat \<Rightarrow> nvme_queue \<Rightarrow> 'd \<Rightarrow> bool" where
  "admin_idle ex po n q d \<longleftrightarrow> cq_inv n (length (po d)) (po d) q \<and> length (ex d) = length (po d) \<and> n \<le> length (nq_sq q) \<and>
     unat (nq_sq_tail q) = length (ex d) mod n"

lemma unat_ring_step:
  assumes "unat (w::u16) < unat (n::u16)"
  shows "unat (word_of_int ((uint w + 1) mod uint n) :: u16) = Suc (unat w) mod unat n"
proof -
  have "(uint w + 1) mod uint n = int (Suc (unat w) mod unat n)" 
  proof -
    have "uint w = int (unat w)" "uint n = int (unat n)" by simp_all
    then show ?thesis by (metis of_nat_Suc add.commute zmod_int)
  qed
  moreover have "Suc (unat w) mod unat n < 2 ^ 16"
  proof -
    have "Suc (unat w) mod unat n < unat n" using assms by (intro mod_less_divisor) simp
    then show ?thesis using unat_u16_less [of n] by simp
  qed
  ultimately show ?thesis by (simp add: unat_of_nat take_bit_nat_eq_self)
qed

lemma admin_take_inv:
  assumes "cq_inv n K posted q" "K < length posted"
  shows "cq_inv n (Suc K) posted (admin_take q)"
proof -
  have h: "unat (nq_cq_head q) = K mod n" "nq_cq_phase q = of_bool (even (K div n))" "unat (nq_qsize q) = n" "2 \<le> n"
    using assms by (auto simp: cq_inv_def)
  let ?h = "word_of_int ((uint (nq_cq_head q) + 1) mod uint (nq_qsize q)) :: u16"
  have u: "unat ?h = Suc K mod n"
    using unat_ring_step [of "nq_cq_head q" "nq_qsize q"] h by (simp add: mod_Suc_eq)
  then have z: "?h = 0 \<longleftrightarrow> Suc (K mod n) = n"
    using h(4) by (simp add: unat_eq_zero [symmetric] mod_Suc del: unat_eq_zero)
  have "nq_cq_phase (admin_take q) = of_bool (even (Suc K div n))"
    using z h(2,4) by (cases "even (K div n)") (auto simp: admin_take_def Let_def div_Suc mod_Suc)
  moreover have "unat (nq_cq_head (admin_take q)) = Suc K mod n" using u by (simp add: admin_take_def Let_def)
  moreover have "nq_cq (admin_take q) = nq_cq q" "nq_qsize (admin_take q) = nq_qsize q" by (simp_all add: admin_take_def Let_def)
  ultimately show ?thesis using assms unfolding cq_inv_def by simp
qed

lemma admin_take_sel [simp]:
  "nq_sq (admin_take q) = nq_sq q" "nq_sq_tail (admin_take q) = nq_sq_tail q" "nq_sq_db (admin_take q) = nq_sq_db q"
  by (simp_all add: admin_take_def Let_def)

lemma admin_phase:
  "(ucast (ce_status c AND 1) :: u8) = ph \<longleftrightarrow> ce_status c AND 1 = ucast ph"
proof -
  have "ce_status c AND 1 = 0 \<or> ce_status c AND 1 = 1"
    by (cases "bit (ce_status c) 0") (auto simp: and_one_eq even_iff_mod_2_eq_zero odd_iff_mod_2_eq_one bit_0)
  moreover have "(ucast ph :: u16) = 0 \<longleftrightarrow> ph = 0" "(ucast ph :: u16) = 1 \<longleftrightarrow> ph = 1"
    by (transfer, simp add: take_bit_eq_mod)+
  ultimately show ?thesis by (metis unsigned_0 unsigned_1)
qed

text \<open>Waiting for the command that was put last.\<close>

lemma wait_admin_result:
  assumes ok: "admin_ctrl_ok V ex po n" "admin_prompt V ex lag n"
    and inv: "cq_inv n (length (po d)) (po d) q" "length (ex d) = length (po d)"
    and db: "unat (nq_sq_db q) = Suc (length (ex d)) mod n"
    and t: "lag d < t"
  shows "\<exists>e q' d'. wait_admin V t q d = (if snd e = 0 then 0 else - EIO, q', d') \<and>
    ex d' = ex d @ [nq_sq q ! (length (ex d) mod n)] \<and> po d' = po d @ [e] \<and>
    cq_inv n (length (po d')) (po d') q' \<and> nq_sq q' = nq_sq q \<and> nq_sq_tail q' = nq_sq_tail q \<and> nq_sq_db q' = nq_sq_db q"
  using inv db t
proof (induction t arbitrary: q d)
  case 0
  then show ?case by simp
next
  case (Suc t)
  have n: "2 \<le> n" "unat (nq_cq_head q) = length (po d) mod n" using Suc.prems(1) by (simp_all add: cq_inv_def)
  have wt: "length (ex d) mod n \<noteq> unat (nq_sq_db q)"
    using mod_near_neq [of "length (ex d)" "Suc (length (ex d))" n] n(1) Suc.prems(3) by simp
  obtain cq d1 where v: "vd_admin V q d = (cq, d1)" by (cases "vd_admin V q d")
  let ?q1 = "q\<lparr>nq_cq := cq\<rparr>"
  have pend: "(ucast (ce_status (cq ! unat (nq_cq_head q)) AND 1) :: u8) = nq_cq_phase q \<longleftrightarrow> nvme_cqe_pending ?q1"
    by (simp add: admin_phase nvme_cqe_pending_def)
  show ?case
  proof (cases "ex d1 = ex d")
    case True
    then have "\<not> admin_posts ex po n q d cq d1" by (simp add: admin_posts_def)
    then have same: "cq = nq_cq q" "po d1 = po d" using ok(1) v unfolding admin_ctrl_ok_def by blast+
    have l: "lag d1 < t" using ok(2) v wt True Suc.prems(4) by (fastforce simp: admin_prompt_def)
    have q1: "?q1 = q" using same by simp
    have "\<not> nvme_cqe_pending q" using cqe_pending_iff [OF Suc.prems(1)] by simp
    then have "wait_admin V (Suc t) q d = wait_admin V t q d1" using pend v q1 by (simp add: Let_def)
    then show ?thesis using Suc.IH [of d1 q] Suc.prems True same l by simp
  next
    case False
    then have "admin_posts ex po n q d cq d1" using ok(1) v unfolding admin_ctrl_ok_def by blast
    then obtain e where e: "snd e < 2 ^ 15" "ex d1 = ex d @ [nq_sq q ! (length (ex d) mod n)]" "po d1 = po d @ [e]"
      "cq = (nq_cq q)[length (po d) mod n := cqe_of e (even (length (po d) div n))]"
      by (auto simp: admin_posts_def)
    have i1: "cq_inv n (length (po d)) (po d1) ?q1"
      using post_cq_inv [OF Suc.prems(1) _ e(1)] n(1) e(3,4) by simp
    then have p: "nvme_cqe_pending ?q1" using cqe_pending_iff [OF i1] e(3) by simp
    have "head_cqe ?q1 = e" using take_cq_inv [OF i1] e(3) by simp
    then have st: "drop_bit 1 (ce_status (cq ! unat (nq_cq_head q))) = snd e" by (auto simp: head_cqe_def Let_def)
    have "cq_inv n (length (po d1)) (po d1) (admin_take ?q1)" using admin_take_inv [OF i1] e(3) by simp
    moreover have "wait_admin V (Suc t) q d = (if snd e = 0 then 0 else - EIO, admin_take ?q1, d1)"
      using p pend v st by (simp add: Let_def)
    ultimately show ?thesis using e(2,3) by (intro exI [of _ e] exI [of _ "admin_take ?q1"] exI [of _ d1]) simp
  qed
qed

lemma admin_cmd_result:
  assumes ok: "admin_ctrl_ok V ex po n" "admin_prompt V ex lag n" and idle: "admin_idle ex po n (nd_admin_queue data) d"
  shows "\<exists>e q' d'. nvme_submit_admin_cmd V c data d = (if snd e = 0 then 0 else - EIO, data\<lparr>nd_admin_queue := q'\<rparr>, d') \<and>
    ex d' = ex d @ [c] \<and> po d' = po d @ [e] \<and> admin_idle ex po n q' d'"
proof -
  let ?q = "nd_admin_queue data" and ?p = "admin_put c (nd_admin_queue data)"
  have i: "cq_inv n (length (po d)) (po d) ?q" "length (ex d) = length (po d)" "n \<le> length (nq_sq ?q)"
    "unat (nq_sq_tail ?q) = length (ex d) mod n" "2 \<le> n" "unat (nq_qsize ?q) = n"
    using idle by (auto simp: admin_idle_def cq_inv_def)
  have tl: "unat (nq_sq_tail ?p) = Suc (length (ex d)) mod n"
    using unat_ring_step [of "nq_sq_tail ?q" "nq_qsize ?q"] i by (simp add: admin_put_def Let_def mod_Suc_eq)
  have db: "unat (nq_sq_db ?p) = unat (nq_sq_tail ?p)" by (simp add: admin_put_def Let_def)
  have "length (ex d) mod n < length (nq_sq ?q)" using i mod_less_divisor [of n "length (ex d)"] by linarith
  then have c: "nq_sq ?p ! (length (ex d) mod n) = c" "n \<le> length (nq_sq ?p)" using i by (simp_all add: admin_put_def Let_def)
  have cq: "cq_inv n (length (po d)) (po d) ?p" using i(1) by (simp add: cq_inv_def admin_put_def Let_def)
  have l: "lag d < 5000" using ok(2) by (simp add: admin_prompt_def)
  from wait_admin_result [OF ok cq i(2) _ l] tl db obtain e q' d' where
    w: "wait_admin V 5000 ?p d = (if snd e = 0 then 0 else - EIO, q', d')" "ex d' = ex d @ [c]" "po d' = po d @ [e]"
      "cq_inv n (length (po d')) (po d') q'" "nq_sq q' = nq_sq ?p" "nq_sq_tail q' = nq_sq_tail ?p"
    using c(1) by auto
  then have "admin_idle ex po n q' d'" using c(2) tl i(2) by (simp add: admin_idle_def)
  then show ?thesis using w
    by (intro exI [of _ e] exI [of _ q'] exI [of _ d']) (simp add: nvme_submit_admin_cmd_def nvme_wait_admin_completion_def)
qed

primrec admin_run :: "'d nvme_dev \<Rightarrow> nvme_cmd list \<Rightarrow> nvme_vfio_tgt_data \<Rightarrow> 'd \<Rightarrow> int list \<times> nvme_vfio_tgt_data \<times> 'd" where
  "admin_run V [] data d = ([], data, d)"
| "admin_run V (c # cs) data d =
     (let (ret, data1, d1) = nvme_submit_admin_cmd V c data d; (rets, data2, d2) = admin_run V cs data1 d1
      in (ret # rets, data2, d2))"

definition status_result :: "u16 \<times> u16 \<Rightarrow> int" where
  "status_result e = (if snd e = 0 then 0 else - EIO)"

lemma admin_run_result:
  assumes ok: "admin_ctrl_ok V ex po n" "admin_prompt V ex lag n" and idle: "admin_idle ex po n (nd_admin_queue data) d"
    and run: "admin_run V cs data d = (rets, data', d')"
  shows "\<exists>es. ex d' = ex d @ cs \<and> po d' = po d @ es \<and> length es = length cs \<and> rets = map status_result es \<and>
    admin_idle ex po n (nd_admin_queue data') d'"
  using idle run
proof (induction cs arbitrary: data d rets)
  case Nil
  then show ?case by simp
next
  case (Cons c cs)
  from admin_cmd_result [OF ok Cons.prems(1), of c] obtain e q1 d1 where
    s: "nvme_submit_admin_cmd V c data d = (status_result e, data\<lparr>nd_admin_queue := q1\<rparr>, d1)" "ex d1 = ex d @ [c]"
      "po d1 = po d @ [e]" "admin_idle ex po n q1 d1"
    unfolding status_result_def by blast
  obtain rs where r: "admin_run V cs (data\<lparr>nd_admin_queue := q1\<rparr>) d1 = (rs, data', d')" "rets = status_result e # rs"
    using Cons.prems(2) s(1) by (auto split: prod.splits)
  from Cons.IH [of "data\<lparr>nd_admin_queue := q1\<rparr>" d1 rs] s(4) r(1) obtain es where
    "ex d' = ex d1 @ cs" "po d' = po d1 @ es" "length es = length cs" "rs = map status_result es"
    "admin_idle ex po n (nd_admin_queue data') d'" by auto
  then show ?case using s r(2) by (intro exI [of _ "e # es"]) simp
qed

lemma fresh_idle: "queue_fresh q \<Longrightarrow> n = unat (nq_qsize q) \<Longrightarrow> ex d = [] \<Longrightarrow> po d = [] \<Longrightarrow> admin_idle ex po n q d"
  by (auto simp: queue_fresh_def admin_idle_def cq_inv_def)

section \<open>A queue that was set up\<close>

lemma buf_size:
  assumes "unat (depth::u16) * k < 2 ^ 62" "k dvd 4096"
  shows "unat (page_up (uint depth * int k)) = pg (unat depth * k)" "unat depth \<le> unat (page_up (uint depth * int k)) div k"
proof -
  have "uint depth * int k = int (unat depth * k)" by simp
  then have "page_up (uint depth * int k) = of_nat (pg (unat depth * k))" using page_up_pg [OF assms(1)] by simp
  moreover have "pg (unat depth * k) < 2 ^ 64" using pg_bounds(2) [of "unat depth * k"] assms(1) by simp
  ultimately show u: "unat (page_up (uint depth * int k)) = pg (unat depth * k)" using unat_of_nat64 by simp
  have "0 < k" using assms(2) by (rule dvd_pos_nat [rotated]) simp
  then have "unat depth = unat depth * k div k" by simp
  also have "\<dots> \<le> pg (unat depth * k) div k" using pg_bounds(1) by (rule div_le_mono)
  finally show "unat depth \<le> unat (page_up (uint depth * int k)) div k" using u by simp
qed

lemma map_dma_next:
  assumes "iommu_inv data" "nvme_use_iommu data" "unat sz < 2 ^ 62" "unat (nd_next_iova data) + pg (unat sz) < 2 ^ 64"
    "nvme_map_dma M data va sz m = Some (iova, m', data')"
  shows "unat (nd_next_iova data') = unat (nd_next_iova data) + pg (unat sz) \<and>
    (\<exists>ni im. data' = data\<lparr>nd_next_iova := ni, nd_iommu := im\<rparr>)"
proof -
  let ?len = "(sz + PAGE_SIZE - 1) AND NOT (PAGE_SIZE - 1)"
  have pos: "0 < unat (nd_next_iova data)" using assms(1) by (auto simp: iommu_inv_def)
  have u: "unat (nd_next_iova data + ?len) = unat (nd_next_iova data) + pg (unat sz)"
    using assms(4) unat_page_round [OF assms(3)] by (simp add: unat_word_ariths)
  have k: "\<exists>ni im. data\<lparr>nd_next_iova := x\<rparr> = data\<lparr>nd_next_iova := ni, nd_iommu := im\<rparr>" for x
    by (intro exI [of _ x] exI [of _ "nd_iommu data"]) simp
  show ?thesis
  proof (cases "M va ?len (nd_next_iova data)")
    case True
    then have "data' = data\<lparr>nd_next_iova := nd_next_iova data + ?len, nd_iommu := (nd_next_iova data, va, ?len) # nd_iommu data\<rparr>"
      using assms(5) unfolding map_dma_use [OF assms(2) pos] by (auto simp: Let_def)
    then show ?thesis using u by auto
  next
    case False
    then have "data' = data\<lparr>nd_next_iova := nd_next_iova data + ?len\<rparr>"
      using assms(5) unfolding map_dma_use [OF assms(2) pos] by (auto simp: Let_def)
    then show ?thesis using u k by auto
  qed
qed

text \<open>In iommu mode the device reaches the bytes of both buffers at their io addresses.\<close>

definition queue_mapped :: "nvme_vfio_tgt_data \<Rightarrow> nvme_queue \<Rightarrow> bool" where
  "queue_mapped data q \<longleftrightarrow>
     (\<forall>i < unat (nq_qsize q) * 64. dev_addr data (unat (nq_sq_iova q) + i) = Some (unat (nq_sq_buffer q) + i)) \<and>
     (\<forall>i < unat (nq_qsize q) * 16. dev_addr data (unat (nq_cq_iova q) + i) = Some (unat (nq_cq_buffer q) + i))"

definition ring_room :: "nvme_vfio_tgt_data \<Rightarrow> nat \<Rightarrow> bool" where
  "ring_room data depth \<longleftrightarrow> unat (nd_next_iova data) + pg (depth * 64) + pg (depth * 16) < 2 ^ 64"

lemma queue_init_ok:
  assumes inv: "iommu_inv data" "nvme_use_iommu data" and room: "ring_room data (unat depth)"
    and q: "2 \<le> unat depth" "nq_sq_db q = 0" "nq_cq_db q = 0"
    and run: "nvme_queue_init M data q qid depth = Some (0, q', data')"
  shows "queue_fresh q' \<and> nq_qsize q' = depth \<and> nq_qid q' = qid \<and> iommu_inv data' \<and> nvme_use_iommu data' \<and> queue_mapped data' q' \<and>
    (\<forall>a va. dev_addr data a = Some va \<longrightarrow> dev_addr data' a = Some va) \<and>
    nd_admin_queue data' = nd_admin_queue data \<and> nd_io_queues data' = nd_io_queues data"
proof -
  let ?s = "page_up (uint depth * 64)" and ?c = "page_up (uint depth * 16)"
  have ds: "unat depth * 64 < 2 ^ 62" "unat depth * 16 < 2 ^ 62" using unat_u16_less [of depth] by simp_all
  have sz: "unat ?s = pg (unat depth * 64)" "unat depth \<le> unat ?s div 64" "unat ?c = pg (unat depth * 16)" "unat depth \<le> unat ?c div 16"
    using buf_size [of depth 64] buf_size [of depth 16] ds by (simp_all add: dvd_def)
  have pp: "pg (pg n) = pg n" for n by (simp add: pg_def)
  have small: "unat ?s < 2 ^ 62" "unat ?c < 2 ^ 62"
    using pg_bounds(2) [of "unat depth * 64"] pg_bounds(2) [of "unat depth * 16"] unat_u16_less [of depth] sz by simp_all
  obtain sqb data1 where a1: "nvme_pool_alloc_queue_buf data ?s = (Some sqb, data1)"
    using run by (cases "nvme_pool_alloc_queue_buf data ?s"; cases "fst (nvme_pool_alloc_queue_buf data ?s)")
      (auto simp: nvme_queue_init_def Let_def)
  obtain cqb data2 where a2: "nvme_pool_alloc_queue_buf data1 ?c = (Some cqb, data2)"
    using run a1 by (cases "nvme_pool_alloc_queue_buf data1 ?c"; cases "fst (nvme_pool_alloc_queue_buf data1 ?c)")
      (auto simp: nvme_queue_init_def Let_def)
  obtain off where d2: "data2 = data\<lparr>nd_queue_alloc_off := off\<rparr>"
    using a1 a2 by (auto simp: nvme_pool_alloc_queue_buf_def Let_def split: if_splits)
  have inv2: "iommu_inv data2" "nvme_use_iommu data2" "dev_addr data2 = dev_addr data" "nd_next_iova data2 = nd_next_iova data"
    using inv by (simp_all add: d2 iommu_inv_def nvme_use_iommu_def dev_addr_def fun_eq_iff)
  obtain sqi sqm data3 cqi cqm data4 where
    m: "nvme_map_dma M data2 sqb ?s (nq_sq_mapping q) = Some (sqi, sqm, data3)"
       "nvme_map_dma M data3 cqb ?c (nq_cq_mapping q) = Some (cqi, cqm, data4)"
    and nz: "sqi \<noteq> 0" "cqi \<noteq> 0" and d4: "data' = data4" and
    q': "q' = q\<lparr>nq_sq_buffer := sqb, nq_sq := replicate (unat ?s div 64) NoCmd, nq_cq_buffer := cqb,
           nq_cq := replicate (unat ?c div 16) \<lparr>ce_command_id = 0, ce_status = 0\<rparr>,
           nq_sq_iova := sqi, nq_cq_iova := cqi, nq_sq_mapping := sqm, nq_cq_mapping := cqm,
           nq_qid := qid, nq_qsize := depth, nq_sq_tail := 0, nq_last_sq_tail := 0, nq_cq_head := 0, nq_cq_phase := 1,
           nq_sq_doorbell := 0x1000 + ucast (2 * ucast qid * nd_db_stride data),
           nq_cq_doorbell := 0x1000 + ucast ((2 * ucast qid + 1) * nd_db_stride data)\<rparr>"
    using run a1 a2 by (auto simp: nvme_queue_init_def Let_def bind_eq_Some_conv split: if_splits prod.splits)
  have r2: "unat (nd_next_iova data2) + pg (unat ?s) < 2 ^ 64"
    using room inv2(4) sz(1) by (simp add: ring_room_def pp)
  note m1 = map_dma_dev [OF inv2(1,2) small(1) r2 m(1)] and n1 = map_dma_next [OF inv2(1,2) small(1) r2 m(1)]
  have r3: "unat (nd_next_iova data3) + pg (unat ?c) < 2 ^ 64"
    using room inv2(4) sz n1 by (simp add: ring_room_def pp)
  have inv3: "iommu_inv data3" "nvme_use_iommu data3" using m1 by blast+
  note m2 = map_dma_dev [OF inv3 small(2) r3 m(2)] and n2 = map_dma_next [OF inv3 small(2) r3 m(2)]
  have "queue_mapped data' q'"
    using m1 m2 nz sz(1,3) pg_bounds(1) [of "unat depth * 64"] pg_bounds(1) [of "unat depth * 16"]
    unfolding queue_mapped_def q' d4 by simp
  moreover have "queue_fresh q'" using q sz(2,4) unfolding queue_fresh_def q' by simp
  moreover have "nd_admin_queue data' = nd_admin_queue data" "nd_io_queues data' = nd_io_queues data"
    using n1 n2 d2 d4 by auto
  moreover have "\<forall>a va. dev_addr data a = Some va \<longrightarrow> dev_addr data' a = Some va" using m1 m2 inv2(3) d4 by simp
  ultimately show ?thesis using m2 d4 by (simp add: q')
qed

lemma queue_init_ret:
  "nvme_queue_init M data q qid depth = Some (ret, q', data') \<Longrightarrow> ret = 0 \<or> ret = - ENOMEM"
  by (auto simp: nvme_queue_init_def Let_def bind_eq_Some_conv split: if_splits prod.splits option.splits)

lemma queue_mapped_cong: "dev_addr data = dev_addr data' \<Longrightarrow> queue_mapped data q = queue_mapped data' q"
  by (simp add: queue_mapped_def)

lemma mdts_wraps:
  assumes "k < 32"
  shows "unat (push_bit k 1 * 4096 :: u32) = (if k < 20 then 4096 * 2 ^ k else 0)"
proof -
  have e: "(push_bit k 1 * 4096 :: u32) = push_bit (k + 12) 1" by (simp add: push_bit_eq_mult power_add)
  show ?thesis
  proof (cases "k < 20")
    case True
    then have "(2::nat) ^ (k + 12) < 2 ^ 32" by (intro power_strict_increasing) simp_all
    then have "unat (2 ^ (k + 12) :: u32) = 2 ^ (k + 12)"
      using unat_of_nat [of "2 ^ (k + 12)", where 'a = 32] by (simp add: take_bit_nat_eq_self)
    then show ?thesis using True e by (simp add: push_bit_eq_mult power_add)
  next
    case False
    then have "(push_bit (k + 12) 1 :: u32) = 0" by (intro bit_word_eqI) (simp only: bit_push_bit_iff bit_1_iff, simp)
    then show ?thesis unfolding e using False by (simp only: if_False unsigned_0)
  qed
qed

section \<open>Starting the controller, and the list pages of a queue\<close>

text \<open>The value of the status register in the read number \<open>k\<close>.\<close>

primrec csts_at :: "'d nvme_dev \<Rightarrow> nat \<Rightarrow> 'd \<Rightarrow> u32" where
  "csts_at V 0 d = fst (vd_readl V NVME_REG_CSTS d)"
| "csts_at V (Suc k) d = csts_at V k (snd (vd_readl V NVME_REG_CSTS d))"

lemma wait_csts_window: "0 < fst (wait_csts V ok t d) \<longleftrightarrow> (\<exists>k<t. ok (csts_at V k d))"
proof (induction t arbitrary: d)
  case 0
  then show ?case by (subst wait_csts.simps) (simp add: case_prod_beta Let_def)
next
  case (Suc t)
  have "(\<exists>k<Suc t. ok (csts_at V k d)) \<longleftrightarrow>
      ok (csts_at V 0 d) \<or> (\<exists>k<t. ok (csts_at V k (snd (vd_readl V NVME_REG_CSTS d))))"
    by (simp add: Ex_less_Suc2)
  then show ?case using Suc.IH by (subst wait_csts.simps) (simp add: case_prod_beta Let_def)
qed

text \<open>A controller that was started had left the ready state within 5000 reads after it was disabled,
  got a fresh and mapped admin queue, and was ready again within 5000 reads after it was enabled.\<close>

theorem nvme_controller_started:
  assumes inv: "iommu_inv data" "nvme_use_iommu data" "ring_room data 64"
    and db: "nq_sq_db (nd_admin_queue data) = 0" "nq_cq_db (nd_admin_queue data) = 0"
    and dis: "vd_readl V NVME_REG_CC d = (cc, d1)" "d2 = vd_writel V NVME_REG_CC (cc AND NOT NVME_CC_ENABLE) d1"
    and run: "nvme_init_controller V M data d = Some (0, data', d')"
  shows "queue_fresh (nd_admin_queue data') \<and> unat (nq_qsize (nd_admin_queue data')) = 64 \<and>
    queue_mapped data' (nd_admin_queue data') \<and> (\<exists>k<5000. csts_at V k d2 AND NVME_CSTS_RDY = 0) \<and>
    (\<exists>t d3 d4. wait_csts V (\<lambda>csts. csts AND NVME_CSTS_RDY = 0) 5000 d2 = (t, d3) \<and>
       nvme_create_admin_queue V M data d3 = Some (0, data', d4) \<and>
       (\<exists>k<5000. csts_at V k (vd_writel V NVME_REG_CC 0x460001 d4) AND NVME_CSTS_RDY \<noteq> 0))"
proof -
  let ?off = "\<lambda>csts. csts AND NVME_CSTS_RDY = (0::u32)" and ?on = "\<lambda>csts. csts AND NVME_CSTS_RDY \<noteq> (0::u32)"
  obtain t d3 where w: "wait_csts V ?off 5000 d2 = (t, d3)" by (cases "wait_csts V ?off 5000 d2")
  have t: "0 < t" using run w by (simp add: nvme_init_controller_def Let_def dis) (metis not_le prod.inject option.inject zero_neq_neg_one)
  obtain ret data1 d4 where c: "nvme_create_admin_queue V M data d3 = Some (ret, data1, d4)"
    using run w t by (auto simp: nvme_init_controller_def Let_def dis bind_eq_Some_conv)
  obtain t1 d5 where w1: "wait_csts V ?on 5000 (vd_writel V NVME_REG_CC 0x460001 d4) = (t1, d5)"
    by (cases "wait_csts V ?on 5000 (vd_writel V NVME_REG_CC 0x460001 d4)")
  have r: "\<not> ret < 0" "data1 = data'" "0 < t1"
    using run w t c w1 by (simp_all add: nvme_init_controller_def Let_def dis split: if_splits)
  obtain q data2 where i: "nvme_queue_init M data (nd_admin_queue data) 0 64 = Some (0, q, data2)"
    and d': "data' = data2\<lparr>nd_admin_queue := q\<rparr>" "ret = 0"
  proof -
    obtain ret1 q data2 where q: "nvme_queue_init M data (nd_admin_queue data) 0 64 = Some (ret1, q, data2)"
      using c by (auto simp: nvme_create_admin_queue_def bind_eq_Some_conv)
    then show thesis using c r queue_init_ret [OF q] that by (auto simp: nvme_create_admin_queue_def Let_def split: if_splits)
  qed
  from queue_init_ok [OF inv(1,2) _ _ db i] inv(3)
  have q: "queue_fresh q" "nq_qsize q = 64" "queue_mapped data2 q" by simp_all
  moreover have "queue_mapped data' q"
    using q(3) d' queue_mapped_cong [of data' data2 q] by (simp add: dev_addr_def fun_eq_iff)
  moreover have "\<exists>k<5000. ?off (csts_at V k d2)" using wait_csts_window [of V ?off 5000 d2] w t by simp
  moreover have "\<exists>k<5000. ?on (csts_at V k (vd_writel V NVME_REG_CC 0x460001 d4))"
    using wait_csts_window [of V ?on 5000 "vd_writel V NVME_REG_CC 0x460001 d4"] w1 r(3) by simp
  moreover have "nvme_create_admin_queue V M data d3 = Some (0, data', d4)" using c r(2) d'(2) by simp
  ultimately show ?thesis using d'(1) w by auto
qed

definition priv_mapped :: "nvme_vfio_tgt_data \<Rightarrow> int \<Rightarrow> nat \<Rightarrow> nvme_io_priv \<Rightarrow> bool" where
  "priv_mapped data qid tag priv \<longleftrightarrow> dm_iova (pv_prp_mapping priv) \<noteq> 0 \<and> dm_iova (pv_data_mapping priv) = 0 \<and>
     pv_prp_list priv = nvme_pool_get_prp data qid (int tag) \<and>
     (\<forall>i<4096. dev_addr data (unat (dm_iova (pv_prp_mapping priv)) + i) = Some (unat (pv_prp_list priv) + i))"

lemma init_privs_ok:
  assumes "iommu_inv data" "nvme_use_iommu data" "unat (nd_next_iova data) + 4096 * length tags < 2 ^ 64"
    "distinct tags" "\<forall>t \<in> set tags. t < length privs" "init_privs M qid tags data privs = Some (0, data', privs')"
  shows "(\<exists>ni im. data' = data\<lparr>nd_next_iova := ni, nd_iommu := im\<rparr>) \<and> iommu_inv data' \<and>
    (\<forall>a va. dev_addr data a = Some va \<longrightarrow> dev_addr data' a = Some va) \<and>
    (\<forall>t \<in> set tags. priv_mapped data' qid t (privs' ! t)) \<and> (\<forall>t. t \<notin> set tags \<longrightarrow> privs' ! t = privs ! t)"
  using assms
proof (induction tags arbitrary: data privs)
  case Nil
  have "\<exists>ni im. data = data\<lparr>nd_next_iova := ni, nd_iommu := im\<rparr>"
    by (intro exI [of _ "nd_next_iova data"] exI [of _ "nd_iommu data"]) simp
  moreover have "data' = data" "privs' = privs" using Nil(6) by simp_all
  ultimately show ?case using Nil(1) by simp
next
  case (Cons tag tags)
  let ?prp = "nvme_pool_get_prp data qid (int tag)"
  let ?priv = "\<lambda>m iova. \<lparr>pv_data_mapping = no_mapping, pv_prp_mapping = m\<lparr>dm_iova := iova\<rparr>,
      pv_prp_list = ?prp, pv_page = (\<lambda>_. 0)\<rparr>"
  have np: "?prp \<noteq> 0"
  proof
    assume "?prp = 0"
    then show False using Cons.prems(6) unfolding init_privs.simps Let_def by simp
  qed
  obtain iova m data1 where mp: "nvme_map_dma M data ?prp PAGE_SIZE no_mapping = Some (iova, m, data1)"
  proof (cases "nvme_map_dma M data ?prp PAGE_SIZE no_mapping")
    case None
    then show thesis using Cons.prems(6) np unfolding init_privs.simps Let_def by simp
  next
    case (Some r)
    then show thesis using that by (cases r) simp
  qed
  have nz: "iova \<noteq> 0" and rest: "init_privs M qid tags data1 (privs[tag := ?priv m iova]) = Some (0, data', privs')"
    using Cons.prems(6) np mp unfolding init_privs.simps Let_def by (simp_all split: if_splits)
  have p: "pg 4096 = 4096" by (simp add: pg_def)
  have r: "unat (nd_next_iova data) + pg (unat PAGE_SIZE) < 2 ^ 64" using Cons.prems(3) by (simp add: p)
  have sm: "unat PAGE_SIZE < 2 ^ 62" by simp
  note m1 = map_dma_dev [OF Cons.prems(1,2) sm r mp] and n1 = map_dma_next [OF Cons.prems(1,2) sm r mp]
  obtain ni im where d1: "data1 = data\<lparr>nd_next_iova := ni, nd_iommu := im\<rparr>" using n1 by blast
  have r1: "unat (nd_next_iova data1) + 4096 * length tags < 2 ^ 64" using n1 Cons.prems(3) by (simp add: p)
  have i1: "iommu_inv data1" "nvme_use_iommu data1" using m1 by blast+
  have t: "distinct tags" "tag \<notin> set tags" "tag < length privs" using Cons.prems(4,5) by simp_all
  have l: "\<forall>t \<in> set tags. t < length (privs[tag := \<lparr>pv_data_mapping = no_mapping, pv_prp_mapping = m\<lparr>dm_iova := iova\<rparr>,
      pv_prp_list = ?prp, pv_page = (\<lambda>_. 0)\<rparr>])" using Cons.prems(5) by simp
  note ih = Cons.IH [OF i1 r1 t(1) l rest]
  obtain ni' im' where d': "data' = data1\<lparr>nd_next_iova := ni', nd_iommu := im'\<rparr>" using ih by blast
  have prp: "nvme_pool_get_prp data' qid (int tag) = ?prp" by (simp add: d' d1 nvme_pool_get_prp_def)
  have tagp: "privs' ! tag = \<lparr>pv_data_mapping = no_mapping, pv_prp_mapping = m\<lparr>dm_iova := iova\<rparr>,
      pv_prp_list = ?prp, pv_page = (\<lambda>_. 0)\<rparr>" using ih t by simp
  have keep: "dev_addr data1 a = Some va \<Longrightarrow> dev_addr data' a = Some va" for a va using ih by blast
  have "dev_addr data1 (unat iova + i) = Some (unat ?prp + i)" if "i < 4096" for i using m1 nz that by simp
  then have "priv_mapped data' qid tag (privs' ! tag)"
    using nz keep prp by (simp add: tagp priv_mapped_def no_mapping_def)
  moreover have "\<exists>ni im. data' = data\<lparr>nd_next_iova := ni, nd_iommu := im\<rparr>" using d' d1 by auto
  moreover have "\<forall>a va. dev_addr data a = Some va \<longrightarrow> dev_addr data' a = Some va" using m1 keep by blast
  moreover have "\<forall>t. t \<notin> set (tag # tags) \<longrightarrow> privs' ! t = privs ! t" using ih by simp
  ultimately show ?case using ih by simp
qed

text \<open>After \<open>nvme_vfio_init_queue\<close> every tag has a list page of its own that the device can reach, and no
  buffer is mapped yet.\<close>

theorem nvme_queue_pages_mapped:
  assumes "iommu_inv data" "nvme_use_iommu data" "unat (nd_next_iova data) + 4096 * unat (nd_queue_depth data) < 2 ^ 64"
    and "unat (nd_queue_depth data) \<le> length privs" "nvme_vfio_init_queue M qid data privs = Some (0, data', privs')"
    and "tag < unat (nd_queue_depth data)"
  shows "iommu_inv data' \<and> priv_mapped data' qid tag (privs' ! tag)"
  using init_privs_ok [OF assms(1,2) _ _ _ assms(5) [unfolded nvme_vfio_init_queue_def]] assms(3,4,6) by simp

section \<open>Properties\<close>

text \<open>C19: Admin commands sent one after the other over a fresh admin queue are executed by the controller
  exactly once and in the order they were sent, and each call returns the outcome of its own command:
  0 when the status of its completion is zero and -EIO otherwise, through every wrap-around of the
  rings. The controller may take any time below the timeout.\<close>

theorem nvme_admin_statuses:
  assumes "admin_ctrl_ok V ex po n" "admin_prompt V ex lag n"
    and "queue_fresh (nd_admin_queue data)" "n = unat (nq_qsize (nd_admin_queue data))" "ex d = []" "po d = []"
    and "admin_run V cs data d = (rets, data', d')"
  shows "ex d' = cs \<and> length (po d') = length cs \<and> rets = map status_result (po d')"
  using admin_run_result [OF assms(1,2) fresh_idle [where ex = ex and po = po and d = d, OF assms(3-6)] assms(7)] assms(5,6) by auto



section \<open>A concrete controller\<close>

text \<open>A controller that executes the next command whenever it is looked at and refuses to delete queues.\<close>

definition sample_status :: "nvme_cmd \<Rightarrow> u16" where
  "sample_status c = (case c of DeleteQueue _ \<Rightarrow> 1 | _ \<Rightarrow> 0)"

definition sample_dev :: "nat \<Rightarrow> u8 \<Rightarrow> (nvme_cmd list \<times> (u16 \<times> u16) list) nvme_dev" where
  "sample_dev n ds = \<lparr>vd_readl = (\<lambda>_ d. (0, d)), vd_writel = (\<lambda>_ _ d. d), vd_writeq = (\<lambda>_ _ d. d),
     vd_admin = (\<lambda>q (ex, po). if length ex mod n \<noteq> unat (nq_sq_db q)
        then let c = nq_sq q ! (length ex mod n); e = (cmd_cid c, sample_status c)
             in ((nq_cq q)[length po mod n := cqe_of e (even (length po div n))], ex @ [c], po @ [e])
        else (nq_cq q, ex, po)),
     vd_id_ctrl = (\<lambda>_ _. \<lparr>ic_mdts = 5, ic_vwc = 1, ic_sgls = 0\<rparr>),
     vd_id_ns = (\<lambda>_ _. \<lparr>in_nsze = 2048, in_flbas = 0, in_lbaf_ds = (\<lambda>_. ds)\<rparr>)\<rparr>"

lemma sample_dev_ok: "admin_ctrl_ok (sample_dev n ds) fst snd n" "admin_prompt (sample_dev n ds) fst (\<lambda>_. 0) n"
proof -
  have st: "sample_status c < 2 ^ 15" for c by (cases c) (simp_all add: sample_status_def)
  show "admin_ctrl_ok (sample_dev n ds) fst snd n"
    unfolding admin_ctrl_ok_def admin_posts_def
    using st by (auto simp: sample_dev_def Let_def split: if_splits)
  show "admin_prompt (sample_dev n ds) fst (\<lambda>_. 0) n"
    by (auto simp: admin_prompt_def sample_dev_def Let_def split: if_splits)
qed

definition sample_delete :: nvme_cmd where
  "sample_delete = DeleteQueue \<lparr>dq_opcode = NVME_ADMIN_DELETE_SQ, dq_qid = 1\<rparr>"

lemma wait_completion_code [code]:
  "nvme_wait_admin_completion V data d =
     (let q = nd_admin_queue data; (cq, d1) = vd_admin V q d; cqe = cq ! unat (nq_cq_head q)
      in if (ucast (ce_status cqe AND 1) :: u8) = nq_cq_phase q
         then (if drop_bit 1 (ce_status cqe) = 0 then 0 else - EIO, data\<lparr>nd_admin_queue := admin_take (q\<lparr>nq_cq := cq\<rparr>)\<rparr>, d1)
         else let (ret, q1, d2) = wait_admin V 4999 (q\<lparr>nq_cq := cq\<rparr>) d1 in (ret, data\<lparr>nd_admin_queue := q1\<rparr>, d2))"
  using wait_admin.simps(2) [of V 4999 "nd_admin_queue data" d]
  by (simp add: nvme_wait_admin_completion_def Let_def split: prod.splits)

lemma sample_nq_fresh: "queue_fresh sample_nq"
  by (simp add: queue_fresh_def sample_nq_def nth_Cons')

theorem nvme_admin_statuses_witness:
  "\<exists>data' d'. admin_run (sample_dev 3 9) [flush_cmd 0, sample_delete, flush_cmd 0, flush_cmd 0, sample_delete] sample_nvme ([], [])
     = ([0, - EIO, 0, 0, - EIO], data', d') \<and> fst d' = [flush_cmd 0, sample_delete, flush_cmd 0, flush_cmd 0, sample_delete]"
proof -
  let ?cs = "[flush_cmd 0, sample_delete, flush_cmd 0, flush_cmd 0, sample_delete]"
  let ?r = "admin_run (sample_dev 3 9) ?cs sample_nvme ([], [])"
  obtain rets data' d' where r: "?r = (rets, data', d')" by (cases ?r)
  have "rets = [0, - EIO, 0, 0, - EIO]"
  proof -
    have "fst ?r = [0, - EIO, 0, 0, - EIO]" by code_simp
    then show ?thesis using r by simp
  qed
  moreover have "fst d' = ?cs"
  proof -
    have "queue_fresh (nd_admin_queue sample_nvme)" "3 = unat (nq_qsize (nd_admin_queue sample_nvme))"
      using sample_nq_fresh by (simp_all add: sample_nvme_def) (simp add: sample_nq_def)
    from nvme_admin_statuses [OF sample_dev_ok this _ _ r] show ?thesis by simp
  qed
  ultimately show ?thesis using r by blast
qed

definition sample_admin :: nvme_vfio_tgt_data where
  "sample_admin = sample_pool\<lparr>nd_io_queues := [sample_nq]\<rparr>"

lemma sample_create:
  "case nvme_create_io_queue (sample_dev 3 9) (\<lambda>_ _ _. True) 1 3 sample_admin ([], []) of None \<Rightarrow> False | Some (ret, data, d) \<Rightarrow> ret = 0"
  by code_simp

lemma sample_ident:
  "case nvme_identify_namespace (sample_dev 3 9) (\<lambda>_ _ _. True) (sample_admin\<lparr>nd_mdts := 25\<rparr>) zero_params ([], []) of
     None \<Rightarrow> False | Some (ret, data, p, d) \<Rightarrow> ret = 0 \<and> nd_mdts data = 25"
  by code_simp

lemma sample_admin_sel:
  "nd_admin_queue sample_admin = sample_nq" "nd_io_queues sample_admin = [sample_nq]" "iommu_inv sample_admin"
  "nvme_use_iommu sample_admin" "ring_room sample_admin 3"
proof -
  show "nd_admin_queue sample_admin = sample_nq" by code_simp
  show "iommu_inv sample_admin" "nvme_use_iommu sample_admin"
    using sample_pool_init(5,6) by (simp_all add: sample_admin_def iommu_inv_def nvme_use_iommu_def)
  show "ring_room sample_admin 3" by (simp add: ring_room_def sample_admin_def sample_pool_init(7) pg_def)
qed (simp add: sample_admin_def)



end
