(* ===== verification/Nbd_Proto.thy ===== *)
theory Nbd_Proto
  imports Tgt_Common "HOL-Library.Monad_Syntax"
begin

text \<open>
  The nbd protocol of the nbd target: reading and writing a socket (targets/nbd/cliserv.c), the
  messages of targets/nbd/nbd.h, and the negotiation with the server (targets/nbd/nbd-client.c).

  A message is the list of its bytes. The socket is a parameter (record \<open>sock_api\<close>): what a call of
  \<open>read\<close> or \<open>write\<close> returns, in a state of its own. \<open>None\<close> is a loop that does not end; a run of
  the negotiation ends the process (\<open>Exit\<close>), reads beyond the end of a reply (\<open>Oob\<close>) or returns.
  Memory that was not initialised has the bytes \<open>junk\<close>.
\<close>

unbundle bit_operations_syntax

section \<open>Byte order\<close>

definition be_bytes :: "nat \<Rightarrow> 'a::len word \<Rightarrow> u8 list" where
  "be_bytes k w = map (\<lambda>i. ucast (drop_bit (8 * i) w)) (rev [0..<k])"

definition of_be :: "u8 list \<Rightarrow> 'a::len word" where
  "of_be bs = foldl (\<lambda>a b. push_bit 8 a OR ucast b) 0 bs"

abbreviation "be16 \<equiv> (be_bytes 2 :: u16 \<Rightarrow> u8 list)"
abbreviation "be32 \<equiv> (be_bytes 4 :: u32 \<Rightarrow> u8 list)"
abbreviation "be64 \<equiv> (be_bytes 8 :: u64 \<Rightarrow> u8 list)"

text \<open>The bytes of a word in the memory of the host, which is little endian.\<close>

definition host64 :: "u64 \<Rightarrow> u8 list" where
  "host64 w = rev (be64 w)"

definition of_host64 :: "u8 list \<Rightarrow> u64" where
  "of_host64 bs = of_be (rev bs)"

lemma length_be_bytes [simp]: "length (be_bytes k w) = k"
  by (simp add: be_bytes_def)

lemma length_host64 [simp]: "length (host64 w) = 8"
  by (simp add: host64_def)

lemma be_bytes_Suc: "be_bytes (Suc k) w = ucast (drop_bit (8 * k) w) # be_bytes k w"
  by (simp add: be_bytes_def)

lemma of_be_foldl:
  "foldl (\<lambda>a b. push_bit 8 a OR ucast b) (drop_bit (8 * k) w) (be_bytes k w) = (w :: 'a::len word)"
proof (induction k)
  case 0
  then show ?case by (simp add: be_bytes_def)
next
  case (Suc k)
  have "push_bit 8 (drop_bit (8 * Suc k) w) OR ucast (ucast (drop_bit (8 * k) w) :: u8) = drop_bit (8 * k) w"
    by (rule bit_word_eqI) (auto simp: bit_simps algebra_simps not_le)
  then show ?case using Suc.IH by (simp add: be_bytes_Suc)
qed

lemma of_be_bytes:
  assumes "LENGTH('a::len) \<le> 8 * k"
  shows "of_be (be_bytes k (w :: 'a word)) = w"
proof -
  have "drop_bit (8 * k) w = 0" using assms bit_out by (intro bit_word_eqI) (auto simp: bit_drop_bit_eq)
  then show ?thesis using of_be_foldl [of k w] by (simp add: of_be_def)
qed

lemma of_be_simps [simp]: "of_be (be16 x) = x" "of_be (be32 y) = y" "of_be (be64 z) = z" "of_host64 (host64 z) = z"
  by (simp_all add: of_be_bytes of_host64_def host64_def)

section \<open>The socket\<close>

text \<open>What a call of \<open>read\<close> or \<open>write\<close> did: bytes, EAGAIN, another error, or the end of the stream.\<close>

datatype rd = RdData "u8 list" | RdAgain | RdError | RdEof
datatype wr = WrSome nat | WrAgain | WrError

record 's sock_api =
  sk_read :: "nat \<Rightarrow> 's \<Rightarrow> rd \<times> 's"
  sk_write :: "u8 list \<Rightarrow> 's \<Rightarrow> wr \<times> 's"

text \<open>The result, the bytes that were stored, and the state of the socket.\<close>

partial_function (option) readit :: "'s sock_api \<Rightarrow> nat \<Rightarrow> 's \<Rightarrow> (int \<times> u8 list \<times> 's) option" where
  "readit S len s =
     (if len = 0 then Some (0, [], s)
      else case sk_read S len s of (r, s1) \<Rightarrow>
        (case r of
           RdData bs \<Rightarrow> do { (ret, bs1, s2) \<leftarrow> readit S (len - length bs) s1; Some (ret, bs @ bs1, s2) }
         | RdAgain \<Rightarrow> readit S len s1
         | RdError \<Rightarrow> Some (-1, [], s1)
         | RdEof \<Rightarrow> Some (-1, [], s1)))"

text \<open>The memory around the data is a function of the offset; \<open>buf\<close> is the offset of the next byte. A
  call that failed with EAGAIN returned -1, which is subtracted from the length and added to the
  pointer like a number of bytes. A socket never takes zero bytes of a longer buffer, so \<open>WrSome 0\<close> does
  not occur.\<close>

partial_function (option) writeit :: "'s sock_api \<Rightarrow> (int \<Rightarrow> u8) \<Rightarrow> int \<Rightarrow> nat \<Rightarrow> 's \<Rightarrow> (int \<times> 's) option" where
  "writeit S mem buf len s =
     (if len = 0 then Some (0, s)
      else case sk_write S (map mem [buf..buf + int len - 1]) s of (r, s1) \<Rightarrow>
        (case r of
           WrSome k \<Rightarrow> writeit S mem (buf + int k) (len - k) s1
         | WrAgain \<Rightarrow> writeit S mem (buf - 1) (len + 1) s1
         | WrError \<Rightarrow> Some (-1, s1)))"

text \<open>A variable with the bytes \<open>bs\<close> in memory, and one that was filled by a read of its size.\<close>

definition mem_of :: "u8 list \<Rightarrow> int \<Rightarrow> u8" where
  "mem_of bs i = (if 0 \<le> i \<and> i < int (length bs) then bs ! nat i else 0)"

definition filled :: "u8 list \<Rightarrow> u8 list \<Rightarrow> u8 list" where
  "filled got old = got @ drop (length got) old"

section \<open>Negotiation\<close>

abbreviation (input) "opts_magic \<equiv> (0x49484156454F5054::u64)"
abbreviation (input) "cliserv_magic \<equiv> (0x00420281861253::u64)"
abbreviation (input) "rep_magic \<equiv> (0x3e889045565a9::u64)"
abbreviation (input) "NBD_OPT_EXPORT_NAME \<equiv> (1::u32)"
abbreviation (input) "NBD_OPT_GO \<equiv> (7::u32)"
abbreviation (input) "NBD_REP_ACK \<equiv> (1::u32)"
abbreviation (input) "NBD_REP_INFO \<equiv> (3::u32)"
abbreviation (input) "NBD_REP_FLAG_ERROR \<equiv> (0x80000000::u32)"
abbreviation (input) "NBD_REP_ERR_UNSUP \<equiv> (0x80000001::u32)"
abbreviation (input) "NBD_FLAG_NO_ZEROES \<equiv> (2::u16)"
abbreviation (input) "NBD_FLAG_C_NO_ZEROES \<equiv> (2::u32)"
abbreviation (input) "NBD_FLAG_C_FIXED_NEWSTYLE \<equiv> (1::u32)"
abbreviation (input) "NBD_INFO_EXPORT \<equiv> (0::u16)"

definition INIT_PASSWD :: "u8 list" where
  "INIT_PASSWD = [0x4E, 0x42, 0x44, 0x4D, 0x41, 0x47, 0x49, 0x43]"

datatype 'a nbd_end = Exit | Oob | Returns 'a

text \<open>\<open>data\<close> is \<open>None\<close> for the null pointer; a negative size stands for the length of the string.\<close>

definition send_request :: "'s sock_api \<Rightarrow> u32 \<Rightarrow> int \<Rightarrow> u8 list option \<Rightarrow> 's \<Rightarrow> 's option" where
  "send_request S opt datasize data s =
     (let sz = (if datasize < 0 then int (length (the data)) else datasize);
          header = be64 opts_magic @ be32 opt @ be32 (word_of_int sz)
      in do {
        (_, s1) \<leftarrow> writeit S (mem_of header) 0 16 s;
        case data of None \<Rightarrow> Some s1
        | Some d \<Rightarrow> do { (_, s2) \<leftarrow> writeit S (mem_of d) 0 (nat sz) s1; Some s2 } })"

definition send_info_request :: "'s sock_api \<Rightarrow> u32 \<Rightarrow> u16 list \<Rightarrow> u8 list \<Rightarrow> 's \<Rightarrow> 's option" where
  "send_info_request S opt reqs name s =
     (let n = length reqs; rlen = be16 (of_nat n); nlen = be32 (of_nat (length name)) in do {
        s1 \<leftarrow> send_request S opt (int (4 + length name + 2 + n * 2)) None s;
        (_, s2) \<leftarrow> writeit S (mem_of nlen) 0 4 s1;
        (_, s3) \<leftarrow> writeit S (mem_of name) 0 (length name) s2;
        (_, s4) \<leftarrow> writeit S (mem_of rlen) 0 2 s3;
        if n > 0 then do { (_, s5) \<leftarrow> writeit S (mem_of (concat (map (\<lambda>r. rev (be16 r)) reqs))) 0 (n * 2) s4; Some s5 }
        else Some s4 })"

record nbd_opt_reply =
  or_opt :: u32
  or_type :: u32
  or_datasize :: u32
  or_data :: "u8 list"

text \<open>\<open>mem_ok\<close>: the memory for the data of a reply is available; otherwise the null pointer is used.\<close>

definition read_reply ::
  "'s sock_api \<Rightarrow> (nat \<Rightarrow> u8 list) \<Rightarrow> (u32 \<Rightarrow> bool) \<Rightarrow> 's \<Rightarrow> (nbd_opt_reply \<times> 's) nbd_end option" where
  "read_reply S junk mem_ok s = do {
     (_, got, s1) \<leftarrow> readit S 20 s;
     let b = filled got (junk 20);
     let opt = of_be (take 4 (drop 8 b));
     let typ = of_be (take 4 (drop 12 b));
     let sz = (of_be (take 4 (drop 16 b)) :: u32);
     if (of_be (take 8 b) :: u64) \<noteq> rep_magic then Some Exit
     else if sz > 0 then
       (if \<not> mem_ok sz then Some Oob
        else do {
          (_, got1, s2) \<leftarrow> readit S (unat sz) s1;
          Some (Returns (\<lparr>or_opt = opt, or_type = typ, or_datasize = sz, or_data = filled got1 (junk (unat sz))\<rparr>, s2)) })
     else Some (Returns (\<lparr>or_opt = opt, or_type = typ, or_datasize = 0, or_data = []\<rparr>, s1)) }"

definition parse_sizes :: "u8 list \<Rightarrow> u64 \<times> u16" where
  "parse_sizes buf = (of_be (take 8 buf), of_be (take 2 (drop 8 buf)))"

definition send_opt_exportname ::
  "'s sock_api \<Rightarrow> (nat \<Rightarrow> u8 list) \<Rightarrow> bool \<Rightarrow> u8 list \<Rightarrow> u16 \<Rightarrow> 's \<Rightarrow> ((u64 \<times> u16) \<times> 's) nbd_end option" where
  "send_opt_exportname S junk can_opt_go name global_flags s = do {
     s1 \<leftarrow> send_request S NBD_OPT_EXPORT_NAME (-1) (Some name) s;
     (ret, got, s2) \<leftarrow> readit S 10 s1;
     if ret < 0 \<and> can_opt_go then Some Exit
     else
       (let sizes = parse_sizes (filled got (junk 10)) in
        if has global_flags NBD_FLAG_NO_ZEROES then Some (Returns (sizes, s2))
        else do { (_, _, s3) \<leftarrow> readit S 124 s2; Some (Returns (sizes, s3)) }) }"

text \<open>The loop over the replies to NBD_OPT_GO; \<open>cur\<close> is the size and the flags so far.\<close>

partial_function (option) go_loop ::
  "'s sock_api \<Rightarrow> (nat \<Rightarrow> u8 list) \<Rightarrow> (u32 \<Rightarrow> bool) \<Rightarrow> bool \<Rightarrow> u8 list \<Rightarrow> u16 \<Rightarrow> u64 \<times> u16 \<Rightarrow> 's \<Rightarrow>
     ((u64 \<times> u16) \<times> 's) nbd_end option" where
  "go_loop S junk mem_ok can_opt_go name global_flags cur s = do {
     r \<leftarrow> read_reply S junk mem_ok s;
     (case r of
        Exit \<Rightarrow> Some Exit
      | Oob \<Rightarrow> Some Oob
      | Returns rs \<Rightarrow> (case rs of (rep, s1) \<Rightarrow>
          if has (or_type rep) NBD_REP_FLAG_ERROR then
            (if or_type rep = NBD_REP_ERR_UNSUP then send_opt_exportname S junk can_opt_go name global_flags s1
             else Some Exit)
          else if or_type rep = NBD_REP_INFO then
            (if unat (or_datasize rep) < 2 then Some Oob
             else if (of_be (take 2 (or_data rep)) :: u16) = NBD_INFO_EXPORT then
               (if unat (or_datasize rep) < 12 then Some Oob
                else go_loop S junk mem_ok can_opt_go name global_flags (parse_sizes (drop 2 (or_data rep))) s1)
             else go_loop S junk mem_ok can_opt_go name global_flags cur s1)
          else if or_type rep = NBD_REP_ACK then Some (Returns (cur, s1))
          else go_loop S junk mem_ok can_opt_go name global_flags cur s1)) }"

text \<open>
  The part after the flags were exchanged. Listing the exports only prints them and ends the process.
\<close>

definition negotiate_export ::
  "'s sock_api \<Rightarrow> (nat \<Rightarrow> u8 list) \<Rightarrow> (u32 \<Rightarrow> bool) \<Rightarrow> u8 list \<Rightarrow> bool \<Rightarrow> bool \<Rightarrow> u16 \<Rightarrow> u64 \<times> u16 \<Rightarrow> 's \<Rightarrow>
     ((u64 \<times> u16) \<times> 's) nbd_end option" where
  "negotiate_export S junk mem_ok name do_list can_opt_go global_flags cur s =
     (if do_list then Some Exit
      else if \<not> can_opt_go then send_opt_exportname S junk can_opt_go name global_flags s
      else do {
        s1 \<leftarrow> send_info_request S NBD_OPT_GO [] name s;
        go_loop S junk mem_ok can_opt_go name global_flags cur s1 })"

text \<open>Without tls: the target always passes false for it and no key file.\<close>

definition negotiate ::
  "'s sock_api \<Rightarrow> (nat \<Rightarrow> u8 list) \<Rightarrow> (u32 \<Rightarrow> bool) \<Rightarrow> u8 list \<Rightarrow> u32 \<Rightarrow> u32 \<Rightarrow> bool \<Rightarrow> bool \<Rightarrow> u64 \<times> u16 \<Rightarrow> 's \<Rightarrow>
     ((u64 \<times> u16) \<times> 's) nbd_end option" where
  "negotiate S junk mem_ok name needed_flags client_flags do_list can_opt_go cur s = do {
     (_, got, s1) \<leftarrow> readit S 8 s;
     if filled got (replicate 8 0) \<noteq> INIT_PASSWD then Some Exit
     else do {
       (_, got1, s2) \<leftarrow> readit S 8 s1;
       if (of_be (filled got1 (junk 8)) :: u64) = cliserv_magic then Some Exit
       else do {
         (_, got2, s3) \<leftarrow> readit S 2 s2;
         let global_flags = (of_be (filled got2 (junk 2)) :: u16);
         if needed_flags AND ucast global_flags \<noteq> needed_flags then Some Exit
         else
           (let cf = (if has global_flags NBD_FLAG_NO_ZEROES then client_flags OR NBD_FLAG_C_NO_ZEROES else client_flags)
            in case sk_write S (be32 cf) s3 of (w, s4) \<Rightarrow>
              (case w of
                 WrAgain \<Rightarrow> Some Exit
               | WrError \<Rightarrow> Some Exit
               | WrSome _ \<Rightarrow>
                   negotiate_export S junk mem_ok name do_list can_opt_go global_flags cur s4)) } } }"

section \<open>What the socket promises\<close>

text \<open>
  A connection that stays open: \<open>inb\<close> are the bytes the server sends that were not read yet, \<open>outb\<close>
  those that were written. A read may give fewer bytes than asked for and may fail with EAGAIN, but only
  \<open>lag\<close> times in a row; a write takes some of its bytes.
\<close>

definition sock_ok :: "'s sock_api \<Rightarrow> ('s \<Rightarrow> u8 list) \<Rightarrow> ('s \<Rightarrow> u8 list) \<Rightarrow> ('s \<Rightarrow> nat) \<Rightarrow> bool" where
  "sock_ok S inb outb lag \<longleftrightarrow>
     (\<forall>n s r s'. 0 < n \<and> sk_read S n s = (r, s') \<longrightarrow> outb s' = outb s \<and>
        (case r of
           RdData bs \<Rightarrow> bs \<noteq> [] \<and> length bs \<le> n \<and> inb s = bs @ inb s'
         | RdAgain \<Rightarrow> inb s' = inb s \<and> lag s' < lag s
         | _ \<Rightarrow> inb s = [] \<and> inb s' = [])) \<and>
     (\<forall>bs s r s'. bs \<noteq> [] \<and> sk_write S bs s = (r, s') \<longrightarrow> inb s' = inb s \<and>
        (\<exists>k. r = WrSome k \<and> 0 < k \<and> k \<le> length bs \<and> outb s' = outb s @ take k bs))"

lemma sock_okD:
  assumes "sock_ok S inb outb lag"
  shows "0 < n \<Longrightarrow> sk_read S n s = (RdData bs, s') \<Longrightarrow> bs \<noteq> [] \<and> length bs \<le> n \<and> inb s = bs @ inb s' \<and> outb s' = outb s"
    and "0 < n \<Longrightarrow> sk_read S n s = (RdAgain, s') \<Longrightarrow> inb s' = inb s \<and> lag s' < lag s \<and> outb s' = outb s"
    and "0 < n \<Longrightarrow> sk_read S n s = (r, s') \<Longrightarrow> r = RdError \<or> r = RdEof \<Longrightarrow> inb s = []"
    and "0 < n \<Longrightarrow> sk_read S n s = (r, s') \<Longrightarrow> r = RdError \<or> r = RdEof \<Longrightarrow> inb s' = [] \<and> outb s' = outb s"
    and "bs \<noteq> [] \<Longrightarrow> sk_write S bs s = (w, s') \<Longrightarrow>
      inb s' = inb s \<and> (\<exists>k. w = WrSome k \<and> 0 < k \<and> k \<le> length bs \<and> outb s' = outb s @ take k bs)"
  using assms unfolding sock_ok_def by fastforce+

lemma readit_exact:
  assumes S: "sock_ok S inb outb lag"
  shows "n \<le> length (inb s) \<Longrightarrow>
    \<exists>s'. readit S n s = Some (0, take n (inb s), s') \<and> inb s' = drop n (inb s) \<and> outb s' = outb s"
proof (induction n arbitrary: s rule: less_induct)
  case (less n)
  then show ?case
  proof (induction "lag s" arbitrary: s rule: less_induct)
    case inner: less
    show ?case
    proof (cases "n = 0")
      case True
      then show ?thesis by (simp add: readit.simps)
    next
      case False
      obtain r s1 where r: "sk_read S n s = (r, s1)" by (cases "sk_read S n s")
      have n: "0 < n" "inb s \<noteq> []" using False inner.prems(2) by auto
      show ?thesis
      proof (cases r)
        case (RdData bs)
        then have b: "bs \<noteq> []" "length bs \<le> n" "inb s = bs @ inb s1" "outb s1 = outb s"
          using sock_okD(1) [OF S n(1)] r by auto
        then have l: "n - length bs < n" "n - length bs \<le> length (inb s1)" using n(1) inner.prems(2) by auto
        from inner.prems(1) [OF l] obtain s' where
          "readit S (n - length bs) s1 = Some (0, take (n - length bs) (inb s1), s')"
          "inb s' = drop (n - length bs) (inb s1)" "outb s' = outb s1" by blast
        then show ?thesis using n b r RdData by (subst readit.simps) simp
      next
        case RdAgain
        then have a: "inb s1 = inb s" "lag s1 < lag s" "outb s1 = outb s" using sock_okD(2) [OF S n(1)] r by auto
        have "n \<le> length (inb s1)" using a inner.prems(2) by simp
        from inner.hyps [OF a(2) inner.prems(1) this] show ?thesis
          using a n r RdAgain by (subst readit.simps) simp
      qed (use sock_okD(3) [OF S n(1) r] n in simp_all)
    qed
  qed
qed

lemma upto_split: "k \<le> len \<Longrightarrow> [(a::int)..a + int len - 1] = [a..a + int k - 1] @ [a + int k..a + int len - 1]"
  using upto_split1 [of a "a + int k" "a + int len - 1"]
  by (cases "k = len") (auto simp: upto_split1)

lemma writeit_exact:
  assumes S: "sock_ok S inb outb lag"
  shows "\<exists>s'. writeit S mem buf len s = Some (0, s') \<and> outb s' = outb s @ map mem [buf..buf + int len - 1] \<and> inb s' = inb s"
proof (induction len arbitrary: buf s rule: less_induct)
  case (less len)
  show ?case
  proof (cases "len = 0")
    case True
    then show ?thesis by (simp add: writeit.simps)
  next
    case False
    let ?bs = "map mem [buf..buf + int len - 1]"
    obtain w s1 where w: "sk_write S ?bs s = (w, s1)" by (cases "sk_write S ?bs s")
    have ne: "?bs \<noteq> []" using False by simp
    then obtain k where k: "w = WrSome k" "0 < k" "k \<le> len" "outb s1 = outb s @ take k ?bs" "inb s1 = inb s"
      using sock_okD(5) [OF S ne w] by auto
    have l: "len - k < len" using k False by simp
    from less.IH [OF l, of "buf + int k" s1] obtain s' where
      s': "writeit S mem (buf + int k) (len - k) s1 = Some (0, s')" "inb s' = inb s1"
        "outb s' = outb s1 @ map mem [buf + int k..buf + int k + int (len - k) - 1]" by blast
    have e: "buf + int k + int (len - k) - 1 = buf + int len - 1" using k(3) by simp
    have "take k ?bs = map mem [buf..buf + int k - 1]" using upto_split [OF k(3), of buf] by simp
    then have "outb s' = outb s @ ?bs" using s'(3) k(4) upto_split [OF k(3), of buf] e by simp
    then show ?thesis using s' k False w by (subst writeit.simps) simp
  qed
qed

lemma mem_of_bytes: "n = length bs \<Longrightarrow> map (mem_of bs) [0..int n - 1] = bs"
  by (rule nth_equalityI) (auto simp: mem_of_def nth_upto)

lemma write_var:
  assumes "sock_ok S inb outb lag" "n = length bs"
  shows "\<exists>s'. writeit S (mem_of bs) 0 n s = Some (0, s') \<and> outb s' = outb s @ bs \<and> inb s' = inb s"
  using writeit_exact [OF assms(1), of "mem_of bs" 0 n s] mem_of_bytes [OF assms(2)] by simp

lemma filled_all [simp]: "length got = length old \<Longrightarrow> filled got old = got"
  by (simp add: filled_def)

text \<open>Reading a message that is next in the stream.\<close>

lemma read_next:
  assumes "sock_ok S inb outb lag" "inb s = m @ rest" "n = length m"
  shows "\<exists>s'. readit S n s = Some (0, m, s') \<and> inb s' = rest \<and> outb s' = outb s"
  using readit_exact [OF assms(1), of n s] assms(2,3) by simp

section \<open>What server and client say\<close>

text \<open>The replies of a server to NBD_OPT_GO before it acknowledges: the export, other information, and
  replies the client does not know.\<close>

datatype srv_reply = ExportInfo u64 u16 "u8 list" | OtherInfo u16 "u8 list" | OtherReply u32 "u8 list"

fun srv_type :: "srv_reply \<Rightarrow> u32" where
  "srv_type (OtherReply t _) = t"
| "srv_type _ = NBD_REP_INFO"

fun srv_data :: "srv_reply \<Rightarrow> u8 list" where
  "srv_data (ExportInfo sz fl x) = be16 NBD_INFO_EXPORT @ be64 sz @ be16 fl @ x"
| "srv_data (OtherInfo t x) = be16 t @ x"
| "srv_data (OtherReply _ x) = x"

fun srv_ok :: "srv_reply \<Rightarrow> bool" where
  "srv_ok (ExportInfo _ _ _) = True"
| "srv_ok (OtherInfo t _) = (t \<noteq> NBD_INFO_EXPORT)"
| "srv_ok (OtherReply t _) = (\<not> has t NBD_REP_FLAG_ERROR \<and> t \<noteq> NBD_REP_INFO \<and> t \<noteq> NBD_REP_ACK)"

definition opt_reply_bytes :: "u32 \<Rightarrow> u32 \<Rightarrow> u8 list \<Rightarrow> u8 list" where
  "opt_reply_bytes opt typ data = be64 rep_magic @ be32 opt @ be32 typ @ be32 (of_nat (length data)) @ data"

definition srv_bytes :: "srv_reply \<Rightarrow> u8 list" where
  "srv_bytes r = opt_reply_bytes NBD_OPT_GO (srv_type r) (srv_data r)"

text \<open>The export that the replies announce last.\<close>

fun announced :: "u64 \<times> u16 \<Rightarrow> srv_reply list \<Rightarrow> u64 \<times> u16" where
  "announced cur [] = cur"
| "announced cur (ExportInfo sz fl _ # rs) = announced (sz, fl) rs"
| "announced cur (_ # rs) = announced cur rs"

definition go_request :: "u8 list \<Rightarrow> u8 list" where
  "go_request name = be64 opts_magic @ be32 NBD_OPT_GO @ be32 (of_nat (6 + length name)) @
     be32 (of_nat (length name)) @ name @ be16 0"

lemma read_reply_next:
  assumes S: "sock_ok S inb outb lag" and i: "inb s = opt_reply_bytes opt typ data @ rest"
    and d: "length data < 2 ^ 32" "\<And>n. mem_ok n" "\<And>n. length (junk n) = n"
  shows "\<exists>s'. read_reply S junk mem_ok s = Some (Returns (\<lparr>or_opt = opt, or_type = typ,
      or_datasize = of_nat (length data), or_data = data\<rparr>, s')) \<and> inb s' = rest \<and> outb s' = outb s"
proof -
  let ?h = "be64 rep_magic @ be32 opt @ be32 typ @ be32 (of_nat (length data))"
  have "inb s = ?h @ (data @ rest)" using i by (simp add: opt_reply_bytes_def)
  from read_next [OF S this, of 20] obtain s1 where
    s1: "readit S 20 s = Some (0, ?h, s1)" "inb s1 = data @ rest" "outb s1 = outb s" by auto
  have u: "unat (of_nat (length data) :: u32) = length data" using d(1) by (simp add: unat_of_nat_small)
  have f: "filled ?h (junk 20) = ?h" by (rule filled_all) (simp add: d(3))
  show ?thesis
  proof (cases "data = []")
    case True
    then show ?thesis using s1 f by (simp add: read_reply_def Let_def)
  next
    case False
    have pos: "(0::u32) < of_nat (length data)" using False u by (simp add: word_less_nat_alt)
    from read_next [OF S s1(2), of "length data"] obtain s2 where
      "readit S (length data) s1 = Some (0, data, s2)" "inb s2 = rest" "outb s2 = outb s1" by auto
    moreover have "filled data (junk (length data)) = data" by (rule filled_all) (simp add: d(3))
    ultimately show ?thesis using s1 f pos u d(2) by (simp add: read_reply_def Let_def)
  qed
qed

lemma go_loop_ends:
  assumes S: "sock_ok S inb outb lag" and j: "\<And>n. mem_ok n" "\<And>n. length (junk n) = n"
    and rs: "\<forall>r \<in> set rs. srv_ok r \<and> length (srv_data r) < 2 ^ 32"
    and i: "inb s = concat (map srv_bytes rs) @ opt_reply_bytes NBD_OPT_GO NBD_REP_ACK [] @ rest"
  shows "\<exists>s'. go_loop S junk mem_ok can_go name gf cur s = Some (Returns (announced cur rs, s')) \<and>
    inb s' = rest \<and> outb s' = outb s"
  using rs i
proof (induction rs arbitrary: cur s)
  case Nil
  from read_reply_next [where mem_ok = mem_ok and junk = junk, OF S _ _ j, of s NBD_OPT_GO NBD_REP_ACK "[]" rest] Nil
  obtain s' where "read_reply S junk mem_ok s = Some (Returns (\<lparr>or_opt = NBD_OPT_GO, or_type = NBD_REP_ACK,
      or_datasize = 0, or_data = []\<rparr>, s'))" "inb s' = rest" "outb s' = outb s" by auto
  then show ?case by (subst go_loop.simps) (simp add: has_def)
next
  case (Cons r rs)
  let ?rest = "concat (map srv_bytes rs) @ opt_reply_bytes NBD_OPT_GO NBD_REP_ACK [] @ rest"
  have l: "length (srv_data r) < 2 ^ 32" "srv_ok r" using Cons.prems(1) by auto
  have "inb s = opt_reply_bytes NBD_OPT_GO (srv_type r) (srv_data r) @ ?rest" using Cons.prems(2) by (simp add: srv_bytes_def [of r])
  from read_reply_next [where mem_ok = mem_ok and junk = junk, OF S this l(1) j] obtain s1 where
    s1: "read_reply S junk mem_ok s = Some (Returns (\<lparr>or_opt = NBD_OPT_GO, or_type = srv_type r,
      or_datasize = of_nat (length (srv_data r)), or_data = srv_data r\<rparr>, s1))" "inb s1 = ?rest" "outb s1 = outb s" by auto
  have u: "unat (of_nat (length (srv_data r)) :: u32) = length (srv_data r)" using l(1) by (simp add: unat_of_nat_small)
  have ih: "\<exists>s'. go_loop S junk mem_ok can_go name gf c s1 = Some (Returns (announced c rs, s')) \<and> inb s' = rest \<and> outb s' = outb s" for c
    using Cons.IH [of s1 c] Cons.prems(1) s1(2,3) by simp
  show ?case
  proof (cases r)
    case (ExportInfo sz fl x)
    then have "go_loop S junk mem_ok can_go name gf cur s = go_loop S junk mem_ok can_go name gf (sz, fl) s1"
      using s1(1) u by (subst go_loop.simps) (simp add: has_def parse_sizes_def)
    then show ?thesis using ih [of "(sz, fl)"] ExportInfo by simp
  next
    case (OtherInfo t x)
    then have "go_loop S junk mem_ok can_go name gf cur s = go_loop S junk mem_ok can_go name gf cur s1"
      using s1(1) u l(2) by (subst go_loop.simps) (simp add: has_def)
    then show ?thesis using ih [of cur] OtherInfo by simp
  next
    case (OtherReply t x)
    then have "go_loop S junk mem_ok can_go name gf cur s = go_loop S junk mem_ok can_go name gf cur s1"
      using s1(1) l(2) by (subst go_loop.simps) simp
    then show ?thesis using ih [of cur] OtherReply by simp
  qed
qed

lemma send_go:
  assumes S: "sock_ok S inb outb lag"
  shows "\<exists>s'. send_info_request S NBD_OPT_GO [] name s = Some s' \<and> outb s' = outb s @ go_request name \<and> inb s' = inb s"
proof -
  let ?h = "be64 opts_magic @ be32 NBD_OPT_GO @ be32 (of_nat (6 + length name))"
  from write_var [OF S, of 16 ?h s] obtain s1 where
    s1: "writeit S (mem_of ?h) 0 16 s = Some (0, s1)" "outb s1 = outb s @ ?h" "inb s1 = inb s" by auto
  from write_var [OF S, of 4 "be32 (of_nat (length name))" s1] obtain s2 where
    s2: "writeit S (mem_of (be32 (of_nat (length name)))) 0 4 s1 = Some (0, s2)" "outb s2 = outb s1 @ be32 (of_nat (length name))"
      "inb s2 = inb s1" by auto
  from write_var [OF S refl, of name s2] obtain s3 where
    s3: "writeit S (mem_of name) 0 (length name) s2 = Some (0, s3)" "outb s3 = outb s2 @ name" "inb s3 = inb s2" by auto
  from write_var [OF S, of 2 "be16 0" s3] obtain s4 where
    s4: "writeit S (mem_of (be16 0)) 0 2 s3 = Some (0, s4)" "outb s4 = outb s3 @ be16 0" "inb s4 = inb s3" by auto
  have "send_request S NBD_OPT_GO (int (4 + length name + 2 + 0 * 2)) None s = Some s1"
    using s1(1) by (simp add: send_request_def add.commute)
  then show ?thesis using s1 s2 s3 s4 by (simp add: send_info_request_def go_request_def)
qed

text \<open>A server that does not know NBD_OPT_GO: the client asks for the export by name and takes size and
  flags from the answer, which ends with 124 zero bytes unless the server left them out.\<close>

theorem nbd_exportname:
  assumes S: "sock_ok S inb outb lag" and j: "\<And>n. length (junk n) = n"
    and i: "inb s = be64 sz @ be16 fl @ (if has gf NBD_FLAG_NO_ZEROES then [] else replicate 124 0) @ rest"
  shows "\<exists>s'. send_opt_exportname S junk can_go name gf s = Some (Returns ((sz, fl), s')) \<and> inb s' = rest \<and>
    outb s' = outb s @ be64 opts_magic @ be32 NBD_OPT_EXPORT_NAME @ be32 (of_nat (length name)) @ name"
proof -
  let ?h = "be64 opts_magic @ be32 NBD_OPT_EXPORT_NAME @ be32 (of_nat (length name))"
  let ?z = "if has gf NBD_FLAG_NO_ZEROES then [] else replicate 124 0"
  from write_var [OF S, of 16 ?h s] obtain s1 where
    s1: "writeit S (mem_of ?h) 0 16 s = Some (0, s1)" "outb s1 = outb s @ ?h" "inb s1 = inb s" by auto
  from write_var [OF S refl, of name s1] obtain s2 where
    s2: "writeit S (mem_of name) 0 (length name) s1 = Some (0, s2)" "outb s2 = outb s1 @ name" "inb s2 = inb s1" by auto
  have r: "send_request S NBD_OPT_EXPORT_NAME (-1) (Some name) s = Some s2"
    using s1(1) s2(1) by (simp add: send_request_def)
  have "inb s2 = (be64 sz @ be16 fl) @ (?z @ rest)" using i s1 s2 by simp
  from read_next [OF S this, of 10] obtain s3 where
    s3: "readit S 10 s2 = Some (0, be64 sz @ be16 fl, s3)" "inb s3 = ?z @ rest" "outb s3 = outb s2" by auto
  have f: "parse_sizes (filled (be64 sz @ be16 fl) (junk 10)) = (sz, fl)"
    by (subst filled_all) (simp_all add: j parse_sizes_def)
  show ?thesis
  proof (cases "has gf NBD_FLAG_NO_ZEROES")
    case True
    then show ?thesis using r s3 f s1 s2 by (simp add: send_opt_exportname_def)
  next
    case False
    then have "inb s3 = replicate 124 0 @ rest" using s3(2) by simp
    from read_next [OF S this, of 124] obtain s4 where
      "readit S 124 s3 = Some (0, replicate 124 0, s4)" "inb s4 = rest" "outb s4 = outb s3" by auto
    then show ?thesis using r s3 f s1 s2 False by (simp add: send_opt_exportname_def)
  qed
qed

section \<open>Properties\<close>

text \<open>C18: Against a server that supports NBD_OPT_GO the negotiation ends, whatever pieces the bytes arrive
  in: the client has sent its flags and one request for the export it was given, it has read exactly
  the messages of the server up to the acknowledgement, and it returns the size and the flags of the
  export the server announced last, whatever other information and unknown replies came between.\<close>

theorem nbd_negotiate_go:
  assumes S: "sock_ok S inb outb lag" and j: "\<And>n. mem_ok n" "\<And>n. length (junk n) = n"
    and fl: "needed AND ucast gf = needed" "cf = (if has gf NBD_FLAG_NO_ZEROES then cf0 OR NBD_FLAG_C_NO_ZEROES else cf0)"
    and whole: "\<And>s. fst (sk_write S (be32 cf) s) = WrSome 4"
    and rs: "\<forall>r \<in> set rs. srv_ok r \<and> length (srv_data r) < 2 ^ 32"
    and i: "inb s = INIT_PASSWD @ be64 opts_magic @ be16 gf @ concat (map srv_bytes rs) @
      opt_reply_bytes NBD_OPT_GO NBD_REP_ACK [] @ rest"
  shows "\<exists>s'. negotiate S junk mem_ok name needed cf0 False True cur s = Some (Returns (announced cur rs, s')) \<and>
    inb s' = rest \<and> outb s' = outb s @ be32 cf @ go_request name"
proof -
  let ?r = "concat (map srv_bytes rs) @ opt_reply_bytes NBD_OPT_GO NBD_REP_ACK [] @ rest"
  have "length INIT_PASSWD = 8" by (simp add: INIT_PASSWD_def)
  with read_next [OF S i, of 8] obtain s1 where
    s1: "readit S 8 s = Some (0, INIT_PASSWD, s1)" "inb s1 = be64 opts_magic @ be16 gf @ ?r" "outb s1 = outb s" by auto
  from read_next [OF S s1(2), of 8] obtain s2 where
    s2: "readit S 8 s1 = Some (0, be64 opts_magic, s2)" "inb s2 = be16 gf @ ?r" "outb s2 = outb s1" by auto
  from read_next [OF S s2(2), of 2] obtain s3 where
    s3: "readit S 2 s2 = Some (0, be16 gf, s3)" "inb s3 = ?r" "outb s3 = outb s2" by auto
  obtain s4 where w: "sk_write S (be32 cf) s3 = (WrSome 4, s4)" using whole [of s3] by (cases "sk_write S (be32 cf) s3") simp
  have "be32 cf \<noteq> []" by (simp add: be_bytes_def)
  then have s4: "inb s4 = ?r" "outb s4 = outb s3 @ be32 cf" using sock_okD(5) [OF S _ w] s3 by auto
  from send_go [OF S, of name s4] obtain s5 where
    s5: "send_info_request S NBD_OPT_GO [] name s4 = Some s5" "outb s5 = outb s4 @ go_request name" "inb s5 = inb s4" by auto
  have "inb s5 = ?r" using s5(3) s4(1) by simp
  from go_loop_ends [where mem_ok = mem_ok and junk = junk, OF S j rs this] obtain s6 where
    "go_loop S junk mem_ok True name gf cur s5 = Some (Returns (announced cur rs, s6))" "inb s6 = rest" "outb s6 = outb s5" by blast
  moreover have "filled (be64 opts_magic) (junk 8) = be64 opts_magic" "filled (be16 gf) (junk 2) = be16 gf"
    by (simp_all add: j)
  moreover have "filled INIT_PASSWD (replicate 8 0) = INIT_PASSWD" by (simp add: INIT_PASSWD_def)
  ultimately show ?thesis using s1 s2 s3 s4 s5 w fl
    by (intro exI [of _ s6]) (simp add: negotiate_def negotiate_export_def Let_def split del: if_split)
qed

text \<open>C32: Writing to a socket that is not ready sends bytes that are not part of the data: when \<open>write\<close>
  fails \<open>n\<close> times with EAGAIN and then takes everything, the \<open>n\<close> bytes before the buffer are sent in
  front of it, because the failed result -1 is used as a number of bytes.\<close>

theorem nbd_writeit_again:
  assumes "0 < len" "\<And>i. i < n \<Longrightarrow> sk_write S (map mem [buf - int i..buf + int len - 1]) (st i) = (WrAgain, st (Suc i))"
    and "sk_write S (map mem [buf - int n..buf + int len - 1]) (st n) = (WrSome (len + n), s')"
  shows "writeit S mem buf len (st 0) = Some (0, s')"
proof -
  have "writeit S mem (buf - int i) (len + i) (st i) = Some (0, s')" if "i \<le> n" for i
    using that
  proof (induction "n - i" arbitrary: i)
    case 0
    then have "i = n" by simp
    moreover have "writeit S mem (buf - int n + int (len + n)) 0 s' = Some (0, s')" by (simp add: writeit.simps)
    ultimately show ?case using assms(1,3) by (subst writeit.simps) simp
  next
    case (Suc k)
    then have i: "i < n" "k = n - Suc i" by simp_all
    have "writeit S mem (buf - int (Suc i)) (len + Suc i) (st (Suc i)) = Some (0, s')"
      using Suc.hyps(1) [OF i(2)] i(1) by simp
    moreover have "buf - int i + int (len + i) - 1 = buf + int len - 1" "buf - int i - 1 = buf - int (Suc i)" by simp_all
    ultimately show ?case using assms(1) assms(2) [OF i(1)] by (subst writeit.simps) (simp add: diff_diff_eq add.commute)
  qed
  from this [of 0] show ?thesis by simp
qed

section \<open>A concrete connection\<close>

text \<open>A socket that is not ready before each read and then gives at most three bytes.\<close>

type_synonym list_sock = "u8 list \<times> u8 list \<times> bool"

definition list_sock_api :: "list_sock sock_api" where
  "list_sock_api = \<lparr>
     sk_read = (\<lambda>n (i, out, busy). if busy then (RdAgain, i, out, False) else if i = [] then (RdEof, [], out, True)
                 else (RdData (take (min n 3) i), drop (min n 3) i, out, True)),
     sk_write = (\<lambda>bs (i, out, busy). (WrSome (length bs), i, out @ bs, busy))\<rparr>"

lemma list_sock_ok: "sock_ok list_sock_api fst (fst \<circ> snd) (\<lambda>(_, _, busy). of_bool busy)"
  unfolding sock_ok_def by (auto simp: list_sock_api_def split: if_splits)

theorem nbd_negotiate_go_witness:
  "\<exists>s'. negotiate list_sock_api (\<lambda>n. replicate n 0) (\<lambda>_. True) [0x61] 0 1 False True (0, 0)
      (INIT_PASSWD @ be64 opts_magic @ be16 3 @ srv_bytes (OtherInfo 3 [1]) @ srv_bytes (ExportInfo 0x100000 5 []) @
       srv_bytes (OtherReply 9 []) @ opt_reply_bytes NBD_OPT_GO NBD_REP_ACK [], [], True)
    = Some (Returns ((0x100000, 5), s')) \<and> fst (snd s') = be32 3 @ go_request [0x61]"
proof -
  let ?s = "(INIT_PASSWD @ be64 opts_magic @ be16 3 @ srv_bytes (OtherInfo 3 [1]) @ srv_bytes (ExportInfo 0x100000 5 []) @
       srv_bytes (OtherReply 9 []) @ opt_reply_bytes NBD_OPT_GO NBD_REP_ACK [], [], True) :: list_sock"
  have w: "fst (sk_write list_sock_api (be32 3) s) = WrSome 4" for s by (cases s) (simp add: list_sock_api_def)
  from nbd_negotiate_go [OF list_sock_ok _ _ _ _ w, of "\<lambda>_. True" "\<lambda>n. replicate n 0" 0 3 1
      "[OtherInfo 3 [1], ExportInfo 0x100000 5 [], OtherReply 9 []]" ?s "[]" "[0x61]" "(0, 0)"]
  show ?thesis by (fastforce simp: has_def)
qed

definition again_sock :: "(nat \<times> u8 list) sock_api" where
  "again_sock = \<lparr>sk_read = (\<lambda>n s. (RdEof, s)),
     sk_write = (\<lambda>bs (n, out). if n > 0 then (WrAgain, n - 1, out) else (WrSome (length bs), 0, out @ bs))\<rparr>"

theorem nbd_writeit_again_witness:
  "writeit again_sock (\<lambda>i. word_of_int (i + 10)) 0 2 (1, []) = Some (0, 0, [9, 10, 11])"
proof -
  have u: "[(0::int)..1] = [0, 1]" "[(-1::int)..1] = [-1, 0, 1]" by (simp_all add: upto.simps)
  show ?thesis
    using nbd_writeit_again [of 2 1 again_sock "\<lambda>i. word_of_int (i + 10)" 0 "\<lambda>i. (1 - i, [])" "(0, [9, 10, 11])"]
    by (simp add: again_sock_def u)
qed

end
