(* ===== verification/Nbd_Io.thy ===== *)
theory Nbd_Io
  imports Nbd_Proto
begin

text \<open>
  The transmission phase of the nbd target (targets/nbd/ublk.nbd.cpp): building and queueing a
  request, the coroutine of a request, the coroutine that receives the replies, and the callbacks of
  the target.

  The private data of the queue holds \<open>nbd_queue_data\<close>, one \<open>nbd_io\<close> per tag and one more for the
  receiver, where each coroutine is suspended, the socket and the memory of the io buffers. A request
  coroutine waits at one place only, so its state is its message; the receiver waits for the rest of a
  reply or for the data of a read. \<open>None\<close> stands for a failed assertion, the resumption of a
  coroutine that is not suspended (undefined), or a loop that does not end.

  What is outside is an argument (record \<open>nbd_env\<close>): a non-blocking \<open>recv\<close>, the addresses of the
  messages and of the reply, and the ring operation that clears the link flag of the entry
  \<open>last_send_sqe\<close> points to. The library's callbacks get one completion each; \<open>cqe_notif\<close> marks the
  notification of a zero copy send.
\<close>

section \<open>State\<close>

abbreviation (input) "NBD_REQUEST_MAGIC \<equiv> (0x25609513::u32)"
abbreviation (input) "NBD_REPLY_MAGIC \<equiv> (0x67446698::u32)"
abbreviation (input) "NBD_CMD_READ \<equiv> (0::u32)"
abbreviation (input) "NBD_CMD_WRITE \<equiv> (1::u32)"
abbreviation (input) "NBD_CMD_FLUSH \<equiv> (3::u32)"
abbreviation (input) "NBD_CMD_TRIM \<equiv> (4::u32)"
abbreviation (input) "NBD_CMD_FLAG_FUA \<equiv> (0x10000::u32)"
abbreviation (input) "NBD_OP_READ_REPLY \<equiv> (0x81::u32)"
abbreviation (input) "MSG_WAITALL \<equiv> (0x100::u32)"
abbreviation (input) "MSG_NOSIGNAL \<equiv> (0x4000::u32)"
abbreviation (input) "EPROTO \<equiv> (71::int)"
abbreviation (input) "NBD_COOKIE_BITS \<equiv> (32::nat)"
abbreviation (input) "sizeof_nbd_reply \<equiv> (16::u32)"
abbreviation (input) "sizeof_nbd_request \<equiv> (28::u32)"

record nbd_cqe = uring_cqe +
  cqe_notif :: bool

record nbd_queue_data =
  in_flight_ios :: u16
  recv_started :: bool
  use_send_zc :: bool
  use_unix_sock :: bool
  need_handle_recv :: bool
  chain_active :: bool
  chained_send_ios :: u32
  next_chain :: "nat list"
  last_send_sqe :: bool
  reply :: "u8 list"
  recv_cqe :: nbd_cqe

record nbd_io_data =
  cmd_cookie :: u32
  nd_done :: u32

text \<open>The local \<open>msg\<close> of a request: the bytes of \<open>req\<close> and, for a write, address and length of the
  data.\<close>

record nbd_msg =
  msg_req :: "u8 list"
  msg_data :: "(u64 \<times> u32) option"

record nbd_io = nbd_io_data +
  nb_co :: "nbd_msg option"

datatype recv_wait = AwaitReply | AwaitIo nat

record 's nbd_priv =
  nbq :: nbd_queue_data
  nb_ios :: "nbd_io list"
  nb_recv :: "recv_wait option"
  nb_sock :: 's
  nb_mem :: "u64 \<Rightarrow> u8"

type_synonym ('r, 's) nbd_queue = "('r, 's nbd_priv) ublksrv_queue"

record ('r, 's) nbd_env =
  ne_recv :: "nat \<Rightarrow> 's \<Rightarrow> u8 list \<times> 's"
  ne_msg_addr :: "nat \<Rightarrow> u64"
  ne_reply_addr :: u64
  ne_unlink :: "'r \<Rightarrow> 'r"

definition upd_qd :: "(nbd_queue_data \<Rightarrow> nbd_queue_data) \<Rightarrow> ('r, 's) nbd_queue \<Rightarrow> ('r, 's) nbd_queue" where
  "upd_qd f q = q\<lparr>private_data := (private_data q)\<lparr>nbq := f (nbq (private_data q))\<rparr>\<rparr>"

definition upd_nb :: "nat \<Rightarrow> (nbd_io \<Rightarrow> nbd_io) \<Rightarrow> ('r, 's) nbd_queue \<Rightarrow> ('r, 's) nbd_queue" where
  "upd_nb tag f q =
     q\<lparr>private_data := (private_data q)\<lparr>nb_ios := (nb_ios (private_data q))[tag := f (nb_ios (private_data q) ! tag)]\<rparr>\<rparr>"

abbreviation qd :: "('r, 's) nbd_queue \<Rightarrow> nbd_queue_data" where
  "qd q \<equiv> nbq (private_data q)"

abbreviation nb :: "('r, 's) nbd_queue \<Rightarrow> nat \<Rightarrow> nbd_io" where
  "nb q tag \<equiv> nb_ios (private_data q) ! tag"

section \<open>Requests\<close>

definition req_to_nbd_cmd_type :: "ublksrv_io_desc \<Rightarrow> u32 option" where
  "req_to_nbd_cmd_type iod =
     (let op = (ucast (ublksrv_get_op iod) :: u32) in
      if op = UBLK_IO_OP_DISCARD then Some NBD_CMD_TRIM
      else if op = UBLK_IO_OP_FLUSH then Some NBD_CMD_FLUSH
      else if op = UBLK_IO_OP_WRITE then Some NBD_CMD_WRITE
      else if op = UBLK_IO_OP_READ then Some NBD_CMD_READ
      else None)"

definition is_recv_io :: "('r, 's) nbd_queue \<Rightarrow> nat \<Rightarrow> bool" where
  "is_recv_io q tag \<longleftrightarrow> tag \<ge> q_depth q"

definition nbd_cmd_handle :: "nat \<Rightarrow> nat \<Rightarrow> u32 \<Rightarrow> u64" where
  "nbd_cmd_handle qid tag cookie =
     push_bit NBD_COOKIE_BITS (ucast cookie) OR ucast (ublk_unique_tag (of_nat qid) (of_nat tag))"

definition nbd_handle_to_cookie :: "u64 \<Rightarrow> u32" where
  "nbd_handle_to_cookie handle = ucast (drop_bit NBD_COOKIE_BITS handle)"

definition nbd_handle_to_tag :: "u64 \<Rightarrow> u32" where
  "nbd_handle_to_tag handle = ucast handle"

definition nbd_build_req :: "nat \<Rightarrow> nat \<Rightarrow> ublksrv_io_desc \<Rightarrow> u32 \<Rightarrow> u32 \<Rightarrow> u8 list" where
  "nbd_build_req qid tag iod cookie type =
     (let flags = (if has (op_flags iod) UBLK_IO_F_FUA then NBD_CMD_FLAG_FUA else 0);
          from = (if type \<noteq> NBD_CMD_FLUSH then push_bit 9 (start_sector iod) else 0);
          len = (if type \<noteq> NBD_CMD_FLUSH then iod_bytes iod else 0)
      in be32 NBD_REQUEST_MAGIC @ be32 (type OR flags) @ host64 (nbd_cmd_handle qid tag cookie) @
         be64 from @ be32 len)"

definition nbd_queue_req ::
  "'r uring_api \<Rightarrow> ('r, 's) nbd_env \<Rightarrow> ('r, 's) nbd_queue \<Rightarrow> nat \<Rightarrow> (int \<times> ('r, 's) nbd_queue) option" where
  "nbd_queue_req U E q tag =
     (let iod = ublksrv_get_iod q tag;
          ublk_op = ucast (ublksrv_get_op iod);
          tgt_data = (if ublk_op = UBLK_IO_OP_WRITE then nr_sectors iod else 0);
          opcode = (if use_send_zc (qd q) then OP_SENDMSG_ZC else OP_SENDMSG);
          fill = (\<lambda>sqe. (prep_rw U opcode (int (q_id q) + 1) (ne_msg_addr E tag) 1 0 sqe)
             \<lparr>sqe_rw_flags := MSG_NOSIGNAL OR MSG_WAITALL,
              sqe_user_data := build_user_data (of_nat tag) ublk_op tgt_data 1,
              sqe_flags := {IOSQE_FIXED_FILE, IOSQE_IO_LINK}\<rparr>)
      in case ublk_queue_alloc_sqes U (ring q) [fill] of (n, r) \<Rightarrow>
        if n = 0 then Some (- ENOMEM, q\<lparr>ring := r\<rparr>)
        else if \<not> build_user_data_assert (of_nat tag) ublk_op tgt_data then None
        else Some (1, upd_qd (\<lambda>d. d\<lparr>last_send_sqe := True, chained_send_ios := chained_send_ios d + 1\<rparr>) (q\<lparr>ring := r\<rparr>)))"

text \<open>The end of the request coroutine: \<open>ret\<close> is the result before the bytes received so far are added.\<close>

definition io_fail :: "'r uring_api \<Rightarrow> ('r, 's) nbd_queue \<Rightarrow> nat \<Rightarrow> int \<Rightarrow> ('r, 's) nbd_queue" where
  "io_fail U q tag ret =
     (let res = (if ret < 0 then ret else sint (word_of_int ret + nd_done (nb q tag)));
          q1 = snd (ublksrv_complete_io U q tag res)
      in upd_nb tag (\<lambda>d. d\<lparr>nb_co := None\<rparr>) (upd_qd (\<lambda>d. d\<lparr>in_flight_ios := in_flight_ios d - 1\<rparr>) q1))"

text \<open>From the label \<open>again\<close> to the suspension or the end.\<close>

definition io_again ::
  "'r uring_api \<Rightarrow> ('r, 's) nbd_env \<Rightarrow> ('r, 's) nbd_queue \<Rightarrow> nat \<Rightarrow> nbd_msg \<Rightarrow> ('r, 's) nbd_queue option" where
  "io_again U E q tag msg =
     (case nbd_queue_req U E q tag of
        None \<Rightarrow> None
      | Some (ret, q1) \<Rightarrow>
          if ret < 0 then Some (io_fail U q1 tag ret) else Some (upd_nb tag (\<lambda>d. d\<lparr>nb_co := Some msg\<rparr>) q1))"

definition nbd_handle_io ::
  "'r uring_api \<Rightarrow> ('r, 's) nbd_env \<Rightarrow> ('r, 's) nbd_queue \<Rightarrow> nat \<Rightarrow> ('r, 's) nbd_queue option" where
  "nbd_handle_io U E q tag =
     (let iod = ublksrv_get_iod q tag in
      case req_to_nbd_cmd_type iod of
        None \<Rightarrow> Some (io_fail U q tag (- EIO))
      | Some type \<Rightarrow>
          (let cookie = cmd_cookie (nb q tag) + 1;
               msg = \<lparr>msg_req = nbd_build_req (q_id q) tag iod cookie type,
                      msg_data = (if ucast (ublksrv_get_op iod) = UBLK_IO_OP_WRITE
                                  then Some (iod_addr iod, iod_bytes iod) else None)\<rparr>;
               q1 = upd_qd (\<lambda>d. d\<lparr>in_flight_ios := in_flight_ios d + 1\<rparr>)
                      (upd_nb tag (\<lambda>d. d\<lparr>cmd_cookie := cookie, nd_done := 0\<rparr>) q)
           in io_again U E q1 tag msg))"

definition io_resume ::
  "'r uring_api \<Rightarrow> ('r, 's) nbd_env \<Rightarrow> ('r, 's) nbd_queue \<Rightarrow> nat \<Rightarrow> int \<Rightarrow> ('r, 's) nbd_queue option" where
  "io_resume U E q tag res =
     (case nb_co (nb q tag) of
        None \<Rightarrow> None
      | Some msg \<Rightarrow> if res = - EAGAIN then io_again U E q tag msg else Some (io_fail U q tag res))"

section \<open>Replies\<close>

text \<open>The result, the tag of the read whose data follows, and the queue.\<close>

definition nbd_handle_recv_reply ::
  "'r uring_api \<Rightarrow> ('r, 's) nbd_env \<Rightarrow> ('r, 's) nbd_queue \<Rightarrow> int \<Rightarrow> (int \<times> nat \<times> ('r, 's) nbd_queue) option" where
  "nbd_handle_recv_reply U E q res =
     (if res < 0 then Some (res, 0, q)
      else if of_be (take 4 (reply (qd q))) \<noteq> NBD_REPLY_MAGIC then Some (- EPROTO, 0, q)
      else if word_of_int res + nd_done (nb q (q_depth q)) \<noteq> sizeof_nbd_reply then None
      else
        (let handle = of_host64 (take 8 (drop 8 (reply (qd q))));
             utag = nbd_handle_to_tag handle;
             hwq = unat (ublk_unique_tag_to_hwq utag);
             tag = unat (ublk_unique_tag_to_tag utag);
             iod = ublksrv_get_iod q tag;
             ublk_op = (ucast (ublksrv_get_op iod) :: u32)
         in if tag \<ge> q_depth q then Some (- EINVAL, 0, q)
            else if hwq \<noteq> q_id q then Some (- EINVAL, 0, q)
            else if cmd_cookie (nb q tag) \<noteq> nbd_handle_to_cookie handle then Some (- EINVAL, 0, q)
            else if ublk_op = UBLK_IO_OP_READ then Some (1, tag, q)
            else
              (let err = (of_be (take 4 (drop 4 (reply (qd q)))) :: u32);
                   fake = (if err \<noteq> 0 then - EIO else if ublk_op = UBLK_IO_OP_WRITE then sint (iod_bytes iod) else 0)
               in case io_resume U E q tag fake of None \<Rightarrow> None | Some q1 \<Rightarrow> Some (0, 0, q1))))"

definition nbd_resume_read_req ::
  "'r uring_api \<Rightarrow> ('r, 's) nbd_env \<Rightarrow> ('r, 's) nbd_queue \<Rightarrow> nat \<Rightarrow> int \<Rightarrow> u32 \<Rightarrow> ('r, 's) nbd_queue option" where
  "nbd_resume_read_req U E q tag res dn = io_resume U E (upd_nb tag (\<lambda>d. d\<lparr>nd_done := dn\<rparr>) q) tag res"

text \<open>The destination of a receive: the reply of the queue or an io buffer.\<close>

datatype rbuf = ReplyBuf | DataBuf u64

definition rbuf_addr :: "('r, 's) nbd_env \<Rightarrow> rbuf \<Rightarrow> u64" where
  "rbuf_addr E b = (case b of ReplyBuf \<Rightarrow> ne_reply_addr E | DataBuf a \<Rightarrow> a)"

definition store :: "u64 \<Rightarrow> u8 list \<Rightarrow> (u64 \<Rightarrow> u8) \<Rightarrow> u64 \<Rightarrow> u8" where
  "store a bs m = (\<lambda>x. if unat (x - a) < length bs then bs ! unat (x - a) else m x)"

definition rbuf_put :: "rbuf \<Rightarrow> nat \<Rightarrow> u8 list \<Rightarrow> 's nbd_priv \<Rightarrow> 's nbd_priv" where
  "rbuf_put b off bs p =
     (case b of
        ReplyBuf \<Rightarrow> p\<lparr>nbq := (nbq p)\<lparr>reply := take off (reply (nbq p)) @ bs @ drop (off + length bs) (reply (nbq p))\<rparr>\<rparr>
      | DataBuf a \<Rightarrow> p\<lparr>nb_mem := store (a + of_nat off) bs (nb_mem p)\<rparr>)"

definition nbd_start_recv ::
  "'r uring_api \<Rightarrow> ('r, 's) nbd_env \<Rightarrow> ('r, 's) nbd_queue \<Rightarrow> rbuf \<Rightarrow> u32 \<Rightarrow> bool \<Rightarrow> u32 \<Rightarrow>
     (int \<times> ('r, 's) nbd_queue) option" where
  "nbd_start_recv U E q b len is_reply dn =
     (let op = (if is_reply then NBD_OP_READ_REPLY else UBLK_IO_OP_READ);
          fill = (\<lambda>sqe. (prep_rw U OP_RECV (int (q_id q) + 1) (rbuf_addr E b + ucast dn) (len - dn) 0 sqe)
             \<lparr>sqe_rw_flags := MSG_WAITALL, sqe_flags := {IOSQE_FIXED_FILE},
              sqe_user_data := build_user_data (of_nat (q_depth q)) op 0 1\<rparr>)
      in case ublk_queue_alloc_sqes U (ring q) [fill] of (n, r) \<Rightarrow>
        if n = 0 then Some (- ENOMEM, q\<lparr>ring := r\<rparr>)
        else if \<not> build_user_data_assert (of_nat (q_depth q)) op 0 \<or> in_flight_ios (qd q) = 0 then None
        else Some (0, upd_nb (q_depth q) (\<lambda>d. d\<lparr>nd_done := dn\<rparr>) (q\<lparr>ring := r\<rparr>)))"

text \<open>The loop over non-blocking receives: the attempts left and the bytes received so far.\<close>

fun recv_loop :: "('r, 's) nbd_env \<Rightarrow> rbuf \<Rightarrow> u32 \<Rightarrow> nat \<Rightarrow> u32 \<Rightarrow> 's nbd_priv \<Rightarrow> u32 \<times> 's nbd_priv" where
  "recv_loop E b len 0 dn p = (dn, p)"
| "recv_loop E b len (Suc i) dn p =
     (if dn < len then
        (case ne_recv E (unat (len - dn)) (nb_sock p) of (bs, s) \<Rightarrow>
           (let p1 = rbuf_put b (unat dn) bs (p\<lparr>nb_sock := s\<rparr>); dn1 = dn + of_nat (length bs)
            in if dn1 = 0 then (dn1, p1) else recv_loop E b len i dn1 p1))
      else (dn, p))"

definition nbd_do_recv ::
  "'r uring_api \<Rightarrow> ('r, 's) nbd_env \<Rightarrow> ('r, 's) nbd_queue \<Rightarrow> rbuf \<Rightarrow> u32 \<Rightarrow> (int \<times> ('r, 's) nbd_queue) option" where
  "nbd_do_recv U E q b len =
     (let loops = (if len < 512 then 16 else 32) in
      case recv_loop E b len loops 0 (private_data q) of (dn, p) \<Rightarrow>
        (let q1 = q\<lparr>private_data := p\<rparr> in
         if dn = len then Some (sint dn, q1) else nbd_start_recv U E q1 b len (len < 512) dn))"

text \<open>Where the receiver coroutine continues: its labels, with the result of the completion and the read at hand.\<close>

datatype recv_pc = AtLoop | AtReadReply | AtHandleRecv int | AtReadIo nat | AtHandleReadIo nat int

definition recv_end :: "('r, 's) nbd_queue \<Rightarrow> ('r, 's) nbd_queue" where
  "recv_end q =
     (let q1 = upd_qd (\<lambda>d. d\<lparr>recv_started := False\<rparr>) q
      in q1\<lparr>private_data := (private_data q1)\<lparr>nb_recv := None\<rparr>\<rparr>)"

definition recv_suspend :: "recv_wait \<Rightarrow> ('r, 's) nbd_queue \<Rightarrow> ('r, 's) nbd_queue" where
  "recv_suspend w q = q\<lparr>private_data := (private_data q)\<lparr>nb_recv := Some w\<rparr>\<rparr>"

partial_function (option) recv_run ::
  "'r uring_api \<Rightarrow> ('r, 's) nbd_env \<Rightarrow> recv_pc \<Rightarrow> ('r, 's) nbd_queue \<Rightarrow> ('r, 's) nbd_queue option" where
  "recv_run U E pc q =
     (case pc of
        AtLoop \<Rightarrow> if in_flight_ios (qd q) > 0 then recv_run U E AtReadReply q else Some (recv_end q)
      | AtReadReply \<Rightarrow> do {
          (ret, q1) \<leftarrow> nbd_do_recv U E q ReplyBuf sizeof_nbd_reply;
          if ret = 16 then recv_run U E (AtHandleRecv 0) (upd_nb (q_depth q1) (\<lambda>d. d\<lparr>nd_done := 16\<rparr>) q1)
          else if ret < 0 then Some (recv_end q1)
          else Some (recv_suspend AwaitReply q1) }
      | AtHandleRecv res \<Rightarrow> do {
          (ret, tag, q1) \<leftarrow> nbd_handle_recv_reply U E q res;
          if ret < 0 then Some (recv_end q1)
          else if ret = 0 then recv_run U E AtLoop q1
          else recv_run U E (AtReadIo tag) q1 }
      | AtReadIo tag \<Rightarrow>
          (let iod = ublksrv_get_iod q tag; len = iod_bytes iod in do {
          (ret, q1) \<leftarrow> nbd_do_recv U E q (DataBuf (iod_addr iod)) len;
          if ret = sint len then recv_run U E (AtHandleReadIo tag 0) (upd_nb (q_depth q1) (\<lambda>d. d\<lparr>nd_done := word_of_int ret\<rparr>) q1)
          else if ret < 0 then Some (recv_end q1)
          else Some (recv_suspend (AwaitIo tag) q1) })
      | AtHandleReadIo tag res \<Rightarrow> do {
          q1 \<leftarrow> nbd_resume_read_req U E q tag res (nd_done (nb q (q_depth q)));
          recv_run U E AtLoop q1 })"

definition nbd_handle_recv ::
  "'r uring_api \<Rightarrow> ('r, 's) nbd_env \<Rightarrow> ('r, 's) nbd_queue \<Rightarrow> ('r, 's) nbd_queue option" where
  "nbd_handle_recv U E q = recv_run U E AtLoop (upd_qd (\<lambda>d. d\<lparr>recv_started := True\<rparr>) q)"

definition recv_resume ::
  "'r uring_api \<Rightarrow> ('r, 's) nbd_env \<Rightarrow> ('r, 's) nbd_queue \<Rightarrow> int \<Rightarrow> ('r, 's) nbd_queue option" where
  "recv_resume U E q res =
     (case nb_recv (private_data q) of
        None \<Rightarrow> None
      | Some AwaitReply \<Rightarrow> recv_run U E (if res = - EAGAIN then AtReadReply else AtHandleRecv res) q
      | Some (AwaitIo tag) \<Rightarrow> recv_run U E (if res = - EAGAIN then AtReadIo tag else AtHandleReadIo tag res) q)"

section \<open>Callbacks\<close>

definition nbd_send_chain_busy :: "nbd_queue_data \<Rightarrow> bool" where
  "nbd_send_chain_busy d \<longleftrightarrow> chained_send_ios d > 0 \<and> chain_active d"

definition nbd_handle_io_async ::
  "'r uring_api \<Rightarrow> ('r, 's) nbd_env \<Rightarrow> ('r, 's) nbd_queue \<Rightarrow> nat \<Rightarrow> ('r, 's) nbd_queue option" where
  "nbd_handle_io_async U E q tag =
     (if nbd_send_chain_busy (qd q) then Some (upd_qd (\<lambda>d. d\<lparr>next_chain := next_chain d @ [tag]\<rparr>) q)
      else nbd_handle_io U E q tag)"

text \<open>The messages about failed and short sends are left out.\<close>

definition nbd_send_req_done :: "('r, 's) nbd_queue \<Rightarrow> nbd_cqe \<Rightarrow> ('r, 's) nbd_queue option" where
  "nbd_send_req_done q cqe =
     (if cqe_notif cqe then Some q
      else if chained_send_ios (qd q) = 0 then None
      else Some (upd_qd (\<lambda>d. d\<lparr>chained_send_ios := chained_send_ios d - 1,
             chain_active := (if chained_send_ios d - 1 = 0 then False else chain_active d)\<rparr>) q))"

definition nbd_tgt_io_done :: "('r, 's) nbd_queue \<Rightarrow> nat \<Rightarrow> nbd_cqe \<Rightarrow> ('r, 's) nbd_queue option" where
  "nbd_tgt_io_done q tag cqe =
     (if unat (user_data_to_tag (cqe_user_data cqe)) \<noteq> tag then None
      else if is_recv_io q tag then Some (upd_qd (\<lambda>d. d\<lparr>recv_cqe := cqe, need_handle_recv := True\<rparr>) q)
      else nbd_send_req_done q cqe)"

fun send_chain ::
  "'r uring_api \<Rightarrow> ('r, 's) nbd_env \<Rightarrow> nat list \<Rightarrow> ('r, 's) nbd_queue \<Rightarrow> ('r, 's) nbd_queue option" where
  "send_chain U E [] q = Some q"
| "send_chain U E (tag # tags) q =
     (if tag < q_depth q then do { q1 \<leftarrow> nbd_handle_io U E q tag; send_chain U E tags q1 } else None)"

definition nbd_handle_send_bg ::
  "'r uring_api \<Rightarrow> ('r, 's) nbd_env \<Rightarrow> ('r, 's) nbd_queue \<Rightarrow> ('r, 's) nbd_queue option" where
  "nbd_handle_send_bg U E q = do {
     q1 \<leftarrow> (if \<not> nbd_send_chain_busy (qd q)
           then map_option (upd_qd (\<lambda>d. d\<lparr>next_chain := []\<rparr>)) (send_chain U E (next_chain (qd q)) q)
           else Some q);
     if last_send_sqe (qd q1)
     then Some (upd_qd (\<lambda>d. d\<lparr>last_send_sqe := False\<rparr>) (q1\<lparr>ring := ne_unlink E (ring q1)\<rparr>))
     else Some q1 }"

definition nbd_handle_recv_bg ::
  "'r uring_api \<Rightarrow> ('r, 's) nbd_env \<Rightarrow> ('r, 's) nbd_queue \<Rightarrow> ('r, 's) nbd_queue option" where
  "nbd_handle_recv_bg U E q = do {
     q1 \<leftarrow> (if in_flight_ios (qd q) \<noteq> 0 \<and> \<not> recv_started (qd q) then nbd_handle_recv U E q else Some q);
     if need_handle_recv (qd q1)
     then map_option (upd_qd (\<lambda>d. d\<lparr>need_handle_recv := False\<rparr>)) (recv_resume U E q1 (cqe_res (recv_cqe (qd q1))))
     else Some q1 }"

definition nbd_handle_io_bg ::
  "'r uring_api \<Rightarrow> ('r, 's) nbd_env \<Rightarrow> ('r, 's) nbd_queue \<Rightarrow> ('r, 's) nbd_queue option" where
  "nbd_handle_io_bg U E q = do {
     q1 \<leftarrow> nbd_handle_send_bg U E q;
     q2 \<leftarrow> nbd_handle_recv_bg U E q1;
     q3 \<leftarrow> (if in_flight_ios (qd q2) = 0 \<and> next_chain (qd q2) \<noteq> [] then nbd_handle_send_bg U E q2 else Some q2);
     Some (if chained_send_ios (qd q3) > 0 then upd_qd (\<lambda>d. d\<lparr>chain_active := True\<rparr>) q3 else q3) }"

end
