(* ===== verification/Nbd_Recv.thy ===== *)
theory Nbd_Recv
  imports Nbd_Io
begin

text \<open>
  What the transmission phase of the nbd target promises: a request carries what the ublk request asks
  for and its handle names the request, and the receiver completes every request in flight with the
  answer the server gave to it, in whatever pieces the answers arrive and however the receives are
  split between the calls that do not block and the ones queued to the ring.
\<close>

section \<open>Handles\<close>

lemma handle_tag: "nbd_handle_to_tag (nbd_cmd_handle qid tag c) = ublk_unique_tag (of_nat qid) (of_nat tag)"
  unfolding nbd_handle_to_tag_def nbd_cmd_handle_def
  by (rule bit_word_eqI) (auto simp: bit_simps)

lemma handle_cookie: "nbd_handle_to_cookie (nbd_cmd_handle qid tag c) = c"
  unfolding nbd_handle_to_cookie_def nbd_cmd_handle_def
  by (rule bit_word_eqI) (auto simp: bit_simps bit_out)

lemma handle_decodes:
  assumes "qid < 65536" "tag < 65536"
  shows "unat (ublk_unique_tag_to_hwq (nbd_handle_to_tag (nbd_cmd_handle qid tag c))) = qid"
    and "unat (ublk_unique_tag_to_tag (nbd_handle_to_tag (nbd_cmd_handle qid tag c))) = tag"
  using unique_tag_codec.dec_enc [of "(of_nat qid, of_nat tag)"] assms
  by (simp_all add: handle_tag unat_of_nat_small)

section \<open>The private state\<close>

lemma upd_qd_sel [simp]:
  "ring (upd_qd f q) = ring q" "ios (upd_qd f q) = ios q" "q_depth (upd_qd f q) = q_depth q" "q_id (upd_qd f q) = q_id q"
  "io_cmd_buf (upd_qd f q) = io_cmd_buf q" "cmd_inflight (upd_qd f q) = cmd_inflight q" "qstate (upd_qd f q) = qstate q"
  "nbq (private_data (upd_qd f q)) = f (qd q)" "nb_ios (private_data (upd_qd f q)) = nb_ios (private_data q)"
  "nb_recv (private_data (upd_qd f q)) = nb_recv (private_data q)" "nb_sock (private_data (upd_qd f q)) = nb_sock (private_data q)"
  "nb_mem (private_data (upd_qd f q)) = nb_mem (private_data q)"
  by (simp_all add: upd_qd_def)

lemma upd_nb_sel [simp]:
  "ring (upd_nb t f q) = ring q" "ios (upd_nb t f q) = ios q" "q_depth (upd_nb t f q) = q_depth q" "q_id (upd_nb t f q) = q_id q"
  "io_cmd_buf (upd_nb t f q) = io_cmd_buf q" "cmd_inflight (upd_nb t f q) = cmd_inflight q" "qstate (upd_nb t f q) = qstate q"
  "nbq (private_data (upd_nb t f q)) = qd q" "nb_ios (private_data (upd_nb t f q)) = (nb_ios (private_data q))[t := f (nb q t)]"
  "nb_recv (private_data (upd_nb t f q)) = nb_recv (private_data q)" "nb_sock (private_data (upd_nb t f q)) = nb_sock (private_data q)"
  "nb_mem (private_data (upd_nb t f q)) = nb_mem (private_data q)"
  by (simp_all add: upd_nb_def)

lemma complete_io_sel:
  assumes "\<not> ublksrv_queue_batch_io q" "ublksrv_complete_io U q tag res = (ret, q')"
  shows "private_data q' = private_data q" "q_depth q' = q_depth q" "q_id q' = q_id q" "io_cmd_buf q' = io_cmd_buf q"
    "qstate q' = qstate q"
  using assms by (auto simp: ublksrv_complete_io_def ublksrv_queue_io_cmd_def upd_io_def Let_def
      split: prod.splits bool.splits if_splits)

lemma complete_io_entry:
  assumes U: "uring_ok U queued" "uring_submits U" and inv: "qinv q own" "tag < q_depth q" "own ! tag = Target"
    and c: "ublksrv_complete_io U q tag res = (ret, q')"
  shows "\<exists>sqe. queued (ring q') = queued (ring q) @ [sqe] \<and> ret = 1 \<and> sqe_opcode sqe = OP_URING_CMD \<and>
    IOC_NR (sqe_cmd_op sqe) = UBLK_IO_COMMIT_AND_FETCH_REQ \<and>
    ic_q_id (sqe_io_cmd sqe) = of_nat (q_id q) \<and> ic_tag (sqe_io_cmd sqe) = of_nat tag \<and>
    ic_result (sqe_io_cmd sqe) = word_of_int res"
proof -
  let ?q = "upd_io tag (ublksrv_mark_io_done res) q"
  have tag: "tag < length (ios q)" "tag < 65536" using inv qinvD(3,4) [OF inv(1)] by auto
  have fl: "io_flags (ios q ! tag) = 0" using qinvD(6) [OF inv(1,2)] inv(3) by (simp add: owner_flags_def)
  have io: "ios ?q ! tag = ublksrv_mark_io_done res (ios q ! tag)" using tag by simp
  have fl6: "io_flags (ios ?q ! tag) = 6" using fl unfolding io by (simp add: ublksrv_mark_io_done_def)
  have "ublksrv_queue_io_cmd U ?q tag = (ret, q')"
    using c qinvD(1) [OF inv(1)] by (simp add: ublksrv_complete_io_def)
  from queue_io_cmd_sqe [OF U _ tag(2) this] show ?thesis
    using fl6 io by (auto simp: io_issuable_def has_def io_cmd_op_def ublksrv_mark_io_done_def upd_io_def)
qed

section \<open>Receiving into a buffer\<close>

lemma store_append:
  assumes "length as + length bs \<le> 2 ^ 64"
  shows "store (a + of_nat (length as)) bs (store a as m) = store a (as @ bs) m"
proof
  fix x :: u64
  let ?k = "length as" let ?d = "unat (x - a)"
  have x: "x - (a + of_nat ?k) = (x - a) - of_nat ?k" by simp
  show "store (a + of_nat ?k) bs (store a as m) x = store a (as @ bs) m x"
  proof (cases "?d < ?k")
    case True
    then have k: "?k < 2 ^ 64 \<or> bs = []" using assms by (cases bs) auto
    have "\<not> unat ((x - a) - of_nat ?k) < length bs"
    proof (cases "bs = []")
      case False
      then have k: "?k < 2 ^ 64" using assms by (cases bs) auto
      then have u: "unat (of_nat ?k :: u64) = ?k" by (simp add: unat_of_nat_small)
      have "unat ((x - a) - of_nat ?k) = 2 ^ 64 + ?d - ?k"
        using True u by (simp add: unat_sub_if_size word_size)
      then show ?thesis using assms by simp
    qed simp
    then show ?thesis using True by (simp add: store_def x nth_append)
  next
    case False
    have l: "?d < 2 ^ 64" using unsigned_less [of "x - a"] by simp
    then have "unat (of_nat ?k :: u64) = ?k" using False by (simp add: unat_of_nat_small)
    then have "unat ((x - a) - of_nat ?k) = ?d - ?k" using False by (simp add: unat_sub word_le_nat_alt)
    then show ?thesis using False by (auto simp: store_def x nth_append)
  qed
qed

lemma put_append:
  assumes "length as + length bs \<le> 2 ^ 64"
  shows "rbuf_put b (length as) bs (rbuf_put b 0 as p) = rbuf_put b 0 (as @ bs) p"
  using assms store_append [of as bs] by (cases b) (simp_all add: rbuf_put_def add.commute)

lemma put_nil: "rbuf_put b 0 [] p = p"
  by (cases b) (auto simp: rbuf_put_def store_def)

lemma put_sock: "(rbuf_put b k bs p)\<lparr>nb_sock := s\<rparr> = rbuf_put b k bs (p\<lparr>nb_sock := s\<rparr>)"
  by (cases b) (simp_all add: rbuf_put_def add.commute)

lemma put_sel [simp]:
  "nb_sock (rbuf_put b k bs p) = nb_sock p" "nb_ios (rbuf_put b k bs p) = nb_ios p" "nb_recv (rbuf_put b k bs p) = nb_recv p"
  "in_flight_ios (nbq (rbuf_put b k bs p)) = in_flight_ios (nbq p)"
  "recv_started (nbq (rbuf_put b k bs p)) = recv_started (nbq p)"
  "need_handle_recv (nbq (rbuf_put b k bs p)) = need_handle_recv (nbq p)"
  "nb_mem (rbuf_put (DataBuf a) 0 bs p) = store a bs (nb_mem p)" "nbq (rbuf_put (DataBuf a) k bs p) = nbq p"
  "nb_mem (rbuf_put ReplyBuf k bs p) = nb_mem p"
  "reply (nbq (rbuf_put ReplyBuf 0 bs p)) = bs @ drop (length bs) (reply (nbq p))"
  by (cases b; simp add: rbuf_put_def)+

text \<open>A receive that does not block gives some of the bytes that are there, or none.\<close>

definition recv_ok :: "('r, 's) nbd_env \<Rightarrow> ('s \<Rightarrow> u8 list) \<Rightarrow> bool" where
  "recv_ok E inb \<longleftrightarrow> (\<forall>n s bs s'. ne_recv E n s = (bs, s') \<longrightarrow> length bs \<le> n \<and> inb s = bs @ inb s')"

lemma recv_okD: "recv_ok E inb \<Longrightarrow> ne_recv E n s = (bs, s') \<Longrightarrow> length bs \<le> n \<and> inb s = bs @ inb s'"
  by (simp add: recv_ok_def)

lemma recv_loop_fills:
  assumes E: "recv_ok E inb" and xs: "length xs = unat len"
  shows "dn \<le> len \<Longrightarrow> inb s = drop (unat dn) xs @ rest \<Longrightarrow>
    \<exists>dn' s'. recv_loop E b len i dn (rbuf_put b 0 (take (unat dn) xs) (p\<lparr>nb_sock := s\<rparr>)) =
        (dn', rbuf_put b 0 (take (unat dn') xs) (p\<lparr>nb_sock := s'\<rparr>)) \<and> dn' \<le> len \<and> inb s' = drop (unat dn') xs @ rest"
proof (induction i arbitrary: dn s)
  case 0
  then show ?case by auto
next
  case (Suc i)
  show ?case
  proof (cases "dn < len")
    case True
    obtain bs s1 where r: "ne_recv E (unat (len - dn)) s = (bs, s1)" by fastforce
    have d: "unat dn < unat len" "unat (len - dn) = unat len - unat dn"
      using True by (simp_all add: word_less_nat_alt unat_sub word_le_nat_alt)
    have b: "length bs \<le> unat len - unat dn" "inb s = bs @ inb s1" using recv_okD [OF E r] d(2) by auto
    let ?dn = "dn + of_nat (length bs)"
    have lb: "unat dn + length bs \<le> unat len" using b(1) d(1) by simp
    have l32: "unat len < 2 ^ 32" using unsigned_less [of len] by simp
    have u: "unat ?dn = unat dn + length bs" using lb l32
      by (simp add: unat_word_ariths unat_of_nat take_bit_eq_mod)
    have bs: "bs = take (length bs) (drop (unat dn) xs)"
    proof -
      have "take (length bs) (inb s) = bs" using b(2) by simp
      then show ?thesis using Suc.prems(2) b(1) xs by simp
    qed
    then have t: "take (unat dn) xs @ bs = take (unat ?dn) xs" unfolding u take_add by simp
    have dr: "inb s1 = drop (unat ?dn) xs @ rest"
    proof -
      have "inb s1 = drop (length bs) (inb s)" using b(2) by simp
      then show ?thesis using Suc.prems(2) b(1) xs u by (simp add: add.commute)
    qed
    have le: "?dn \<le> len" using u lb by (simp add: word_le_nat_alt)
    have lt: "length (take (unat dn) xs) = unat dn" using d xs by simp
    have "length (take (unat dn) xs) + length bs \<le> 2 ^ 64" using lb l32 lt by simp
    from put_append [OF this, of b "p\<lparr>nb_sock := s1\<rparr>"]
    have put: "rbuf_put b (unat dn) bs (rbuf_put b 0 (take (unat dn) xs) (p\<lparr>nb_sock := s1\<rparr>)) =
      rbuf_put b 0 (take (unat ?dn) xs) (p\<lparr>nb_sock := s1\<rparr>)" unfolding lt t .
    have step: "recv_loop E b len (Suc i) dn (rbuf_put b 0 (take (unat dn) xs) (p\<lparr>nb_sock := s\<rparr>)) =
      (if ?dn = 0 then (?dn, rbuf_put b 0 (take (unat ?dn) xs) (p\<lparr>nb_sock := s1\<rparr>))
       else recv_loop E b len i ?dn (rbuf_put b 0 (take (unat ?dn) xs) (p\<lparr>nb_sock := s1\<rparr>)))"
      using True r put by (simp add: put_sock Let_def)
    show ?thesis
    proof (cases "?dn = 0")
      case True
      then show ?thesis unfolding step using dr le by auto
    next
      case False
      then show ?thesis unfolding step using Suc.IH [OF le dr] by simp
    qed
  next
    case False
    then show ?thesis using Suc.prems by auto
  qed
qed

text \<open>One entry can always be queued, after a submission if need be.\<close>

lemma alloc_one:
  assumes U: "uring_ok U queued" "uring_submits U"
  shows "\<exists>r slot. ublk_queue_alloc_sqes U q [f] = (1, r) \<and> queued r = queued q @ [f slot]"
proof -
  let ?r = "if sq_space_left U q < 1 then submit U q else q"
  have "0 < sq_space_left U ?r" using U(2) by (auto simp: uring_submits_def)
  then obtain r where r: "get_sqe U ?r f = Some r" using uring_okD(3) [OF U(1), of ?r f] by (cases "get_sqe U ?r f") auto
  then have "ublk_queue_alloc_sqes U q [f] = (1, r)" by (simp add: ublk_queue_alloc_sqes_def)
  moreover obtain slot where "queued r = queued ?r @ [f slot]" using uring_okD(1) [OF U(1) r] ..
  moreover have "queued ?r = queued q" using uring_okD(4) [OF U(1)] by simp
  ultimately show ?thesis by auto
qed

text \<open>Receiving \<open>xs\<close>: either all of it is there, or an entry asks for exactly what is missing.\<close>

lemma do_recv_cases:
  assumes U: "uring_ok U queued" "uring_submits U" "uring_preps U" and E: "recv_ok E inb"
    and xs: "length xs = unat len" and i: "inb (nb_sock (private_data q)) = xs @ rest"
    and q: "in_flight_ios (qd q) \<noteq> 0" "q_depth q < 65536"
  obtains (all) s where "inb s = rest"
      "nbd_do_recv U E q b len = Some (sint len, q\<lparr>private_data := rbuf_put b 0 xs ((private_data q)\<lparr>nb_sock := s\<rparr>)\<rparr>)"
  | (part) d s r sqe where "d < len" "inb s = drop (unat d) xs @ rest" "queued r = queued (ring q) @ [sqe]"
      "sqe_opcode sqe = OP_RECV" "sqe_addr sqe = rbuf_addr E b + ucast d" "sqe_len sqe = len - d"
      "nbd_do_recv U E q b len = Some (0, upd_nb (q_depth q) (\<lambda>x. x\<lparr>nd_done := d\<rparr>)
         (q\<lparr>private_data := rbuf_put b 0 (take (unat d) xs) ((private_data q)\<lparr>nb_sock := s\<rparr>), ring := r\<rparr>))"
proof -
  define loops where "loops = (if len < 512 then 16 else 32 :: nat)"
  obtain d s where d: "recv_loop E b len loops 0 (private_data q) =
      (d, rbuf_put b 0 (take (unat d) xs) ((private_data q)\<lparr>nb_sock := s\<rparr>))" "d \<le> len" "inb s = drop (unat d) xs @ rest"
    using recv_loop_fills [OF E xs, of 0 "nb_sock (private_data q)" rest b loops "private_data q"] i
    by (auto simp: put_nil)
  let ?p = "rbuf_put b 0 (take (unat d) xs) ((private_data q)\<lparr>nb_sock := s\<rparr>)"
  let ?q = "q\<lparr>private_data := ?p\<rparr>"
  have dr: "nbd_do_recv U E q b len = (if d = len then Some (sint d, ?q) else nbd_start_recv U E ?q b len (len < 512) d)"
    unfolding nbd_do_recv_def Let_def loops_def [symmetric] d(1) by simp
  show thesis
  proof (cases "d = len")
    case True
    then show ?thesis using all [of s] dr d(3) xs by simp
  next
    case False
    let ?op = "if len < 512 then NBD_OP_READ_REPLY else UBLK_IO_OP_READ"
    let ?fill = "\<lambda>sqe. (prep_rw U OP_RECV (int (q_id q) + 1) (rbuf_addr E b + ucast d) (len - d) 0 sqe)
             \<lparr>sqe_rw_flags := MSG_WAITALL, sqe_flags := {IOSQE_FIXED_FILE},
              sqe_user_data := build_user_data (of_nat (q_depth q)) ?op 0 1\<rparr>"
    obtain r slot where r: "ublk_queue_alloc_sqes U (ring q) [?fill] = (1, r)" "queued r = queued (ring q) @ [?fill slot]"
      using alloc_one [OF U(1,2)] by blast
    have "build_user_data_assert (of_nat (q_depth q)) ?op 0" using tag_user_data_assert [OF q(2)] by simp
    then have "nbd_start_recv U E ?q b len (len < 512) d = Some (0, upd_nb (q_depth q) (\<lambda>x. x\<lparr>nd_done := d\<rparr>) (?q\<lparr>ring := r\<rparr>))"
      using r(1) q(1) by (simp add: nbd_start_recv_def Let_def)
    moreover have "?q\<lparr>ring := r\<rparr> = q\<lparr>private_data := ?p, ring := r\<rparr>" by simp
    ultimately show ?thesis using part [OF _ d(3) r(2)] False d(2) dr uring_prepsD [OF U(3)] by simp
  qed
qed

section \<open>Answers of the server\<close>

record nbd_answer =
  na_tag :: nat
  na_err :: u32
  na_data :: "u8 list"

definition answer_head :: "nat \<Rightarrow> u32 \<Rightarrow> nbd_answer \<Rightarrow> u8 list" where
  "answer_head qid cookie a = be32 NBD_REPLY_MAGIC @ be32 (na_err a) @ host64 (nbd_cmd_handle qid (na_tag a) cookie)"

definition answer_bytes :: "('r, 's) nbd_queue \<Rightarrow> nbd_answer \<Rightarrow> u8 list" where
  "answer_bytes q a = answer_head (q_id q) (cmd_cookie (nb q (na_tag a))) a @ na_data a"

definition is_read :: "('r, 's) nbd_queue \<Rightarrow> nat \<Rightarrow> bool" where
  "is_read q tag \<longleftrightarrow> (ucast (ublksrv_get_op (ublksrv_get_iod q tag)) :: u32) = UBLK_IO_OP_READ"

text \<open>The answer fits a request in flight: a read is answered without error and with all its data, which is
  shorter than 2 GB; other answers may have an error and have no data.\<close>

definition answer_ok :: "('r, 's) nbd_queue \<Rightarrow> owner list \<Rightarrow> nbd_answer \<Rightarrow> bool" where
  "answer_ok q own a \<longleftrightarrow>
     (let tag = na_tag a; len = iod_bytes (ublksrv_get_iod q tag)
      in tag < q_depth q \<and> own ! tag = Target \<and> nb_co (nb q tag) \<noteq> None \<and> unat len < 2 ^ 31 \<and>
         (if is_read q tag then na_err a = 0 \<and> length (na_data a) = unat len
          else na_data a = [] \<and> nd_done (nb q tag) = 0))"

text \<open>The result of a request, and where the data of a read goes.\<close>

definition answer_res :: "('r, 's) nbd_queue \<Rightarrow> nbd_answer \<Rightarrow> int" where
  "answer_res q a =
     (let iod = ublksrv_get_iod q (na_tag a); op = (ucast (ublksrv_get_op iod) :: u32) in
      if na_err a \<noteq> 0 then - EIO
      else if op = UBLK_IO_OP_READ \<or> op = UBLK_IO_OP_WRITE then int (unat (iod_bytes iod)) else 0)"

definition put_data :: "('r, 's) nbd_queue \<Rightarrow> nbd_answer \<Rightarrow> (u64 \<Rightarrow> u8) \<Rightarrow> u64 \<Rightarrow> u8" where
  "put_data q a m =
     (if is_read q (na_tag a) then store (iod_addr (ublksrv_get_iod q (na_tag a))) (na_data a) m else m)"

definition commit_entry :: "('r, 's) nbd_queue \<Rightarrow> uring_sqe \<Rightarrow> nbd_answer \<Rightarrow> bool" where
  "commit_entry q sqe a \<longleftrightarrow> sqe_opcode sqe = OP_URING_CMD \<and> IOC_NR (sqe_cmd_op sqe) = UBLK_IO_COMMIT_AND_FETCH_REQ \<and>
     ic_q_id (sqe_io_cmd sqe) = of_nat (q_id q) \<and> ic_tag (sqe_io_cmd sqe) = of_nat (na_tag a) \<and>
     ic_result (sqe_io_cmd sqe) = word_of_int (answer_res q a)"

definition stream :: "('r, 's) nbd_queue \<Rightarrow> nbd_answer list \<Rightarrow> u8 list" where
  "stream q rs = concat (map (answer_bytes q) rs)"

text \<open>The requests in flight are those the answers \<open>rs\<close> are for.\<close>

definition recv_inv :: "('r, 's) nbd_queue \<Rightarrow> owner list \<Rightarrow> nbd_answer list \<Rightarrow> bool" where
  "recv_inv q own rs \<longleftrightarrow> qinv q own \<and> q_id q < 65536 \<and> length (nb_ios (private_data q)) = Suc (q_depth q) \<and>
     length (reply (qd q)) = 16 \<and> distinct (map na_tag rs) \<and> unat (in_flight_ios (qd q)) = length rs \<and>
     (\<forall>a \<in> set rs. answer_ok q own a)"

text \<open>From \<open>q0\<close> to \<open>q\<close> the answers \<open>as\<close> were used up: one commit command each, in order, besides receives.\<close>

definition served ::
  "('r \<Rightarrow> uring_sqe list) \<Rightarrow> ('r, 's) nbd_queue \<Rightarrow> nbd_answer list \<Rightarrow> ('r, 's) nbd_queue \<Rightarrow> bool" where
  "served queued q0 as q \<longleftrightarrow>
     q_depth q = q_depth q0 \<and> q_id q = q_id q0 \<and> io_cmd_buf q = io_cmd_buf q0 \<and>
     map cmd_cookie (nb_ios (private_data q)) = map cmd_cookie (nb_ios (private_data q0)) \<and>
     (\<forall>t < q_depth q0. nb_co (nb q t) = (if t \<in> na_tag ` set as then None else nb_co (nb q0 t))) \<and>
     (\<exists>new. queued (ring q) = queued (ring q0) @ new \<and>
        list_all2 (commit_entry q0) (filter (\<lambda>s. sqe_opcode s \<noteq> OP_RECV) new) as)"

section \<open>Lemmas on answers\<close>

lemma length_head [simp]: "length (answer_head qid c a) = 16"
  by (simp add: answer_head_def)

lemma head_fields:
  "of_be (take 4 (answer_head qid c a)) = NBD_REPLY_MAGIC"
  "of_be (take 4 (drop 4 (answer_head qid c a))) = na_err a"
  "of_host64 (take 8 (drop 8 (answer_head qid c a))) = nbd_cmd_handle qid (na_tag a) c"
  by (simp_all add: answer_head_def)

lemma cookie_same:
  assumes "map cmd_cookie (nb_ios (private_data q)) = map cmd_cookie (nb_ios (private_data q0))"
    "t < length (nb_ios (private_data q0))"
  shows "cmd_cookie (nb q t) = cmd_cookie (nb q0 t)"
  using assms by (metis length_map nth_map)

lemma answer_cong:
  assumes "io_cmd_buf q = io_cmd_buf q0" "q_id q = q_id q0"
  shows "is_read q = is_read q0" "answer_res q = answer_res q0" "put_data q = put_data q0" "commit_entry q = commit_entry q0"
  using assms by (simp_all add: fun_eq_iff is_read_def answer_res_def put_data_def commit_entry_def ublksrv_get_iod_def)

lemma stream_cong:
  assumes "q_id q = q_id q0" "map cmd_cookie (nb_ios (private_data q)) = map cmd_cookie (nb_ios (private_data q0))"
    and "\<forall>a \<in> set rs. na_tag a < length (nb_ios (private_data q0))"
  shows "stream q rs = stream q0 rs"
  using assms(3) unfolding stream_def
  by (induction rs) (simp_all add: answer_bytes_def assms(1) cookie_same [OF assms(2)])

lemma stream_Cons: "stream q (a # rs) = answer_head (q_id q) (cmd_cookie (nb q (na_tag a))) a @ na_data a @ stream q rs"
  by (simp add: stream_def answer_bytes_def)

lemma served_trans:
  assumes 1: "served queued q0 as q1" and 2: "served queued q1 bs q2"
  shows "served queued q0 (as @ bs) q2"
proof -
  obtain n1 where n1: "queued (ring q1) = queued (ring q0) @ n1"
      "list_all2 (commit_entry q0) (filter (\<lambda>s. sqe_opcode s \<noteq> OP_RECV) n1) as"
    using 1 by (auto simp: served_def)
  obtain n2 where n2: "queued (ring q2) = queued (ring q1) @ n2"
      "list_all2 (commit_entry q1) (filter (\<lambda>s. sqe_opcode s \<noteq> OP_RECV) n2) bs"
    using 2 by (auto simp: served_def)
  have "commit_entry q1 = commit_entry q0" using 1 by (intro answer_cong(4)) (auto simp: served_def)
  then have "list_all2 (commit_entry q0) (filter (\<lambda>s. sqe_opcode s \<noteq> OP_RECV) (n1 @ n2)) (as @ bs)"
    using n1 n2 by (simp add: list_all2_appendI)
  moreover have "queued (ring q2) = queued (ring q0) @ n1 @ n2" using n1 n2 by simp
  ultimately have "\<exists>new. queued (ring q2) = queued (ring q0) @ new \<and>
      list_all2 (commit_entry q0) (filter (\<lambda>s. sqe_opcode s \<noteq> OP_RECV) new) (as @ bs)" by blast
  then show ?thesis using 1 2 by (simp add: served_def image_Un)
qed

text \<open>Changes to the receiver's own state, and a receive entry, use up no answer.\<close>

lemma served_nil:
  assumes "q_depth q = q_depth q0" "q_id q = q_id q0" "io_cmd_buf q = io_cmd_buf q0"
    "map cmd_cookie (nb_ios (private_data q)) = map cmd_cookie (nb_ios (private_data q0))"
    "\<forall>t < q_depth q0. nb_co (nb q t) = nb_co (nb q0 t)"
    "queued (ring q) = queued (ring q0) \<or> (\<exists>s. queued (ring q) = queued (ring q0) @ [s] \<and> sqe_opcode s = OP_RECV)"
  shows "served queued q0 [] q"
proof -
  have "\<exists>new. queued (ring q) = queued (ring q0) @ new \<and> filter (\<lambda>s. sqe_opcode s \<noteq> OP_RECV) new = []"
    using assms(6) by (auto intro: exI [of _ "[]"])
  then show ?thesis using assms(1-5) by (simp add: served_def)
qed

lemma recv_invD:
  assumes "recv_inv q own rs"
  shows "qinv q own" "q_id q < 65536" "length (nb_ios (private_data q)) = Suc (q_depth q)" "length (reply (qd q)) = 16"
    "distinct (map na_tag rs)" "unat (in_flight_ios (qd q)) = length rs" "q_depth q < 65536"
    "a \<in> set rs \<Longrightarrow> answer_ok q own a" "a \<in> set rs \<Longrightarrow> na_tag a < q_depth q"
  using assms qinvD(4) [of q own] by (auto simp: recv_inv_def answer_ok_def Let_def)

lemma answer_ok_cong:
  assumes "answer_ok q0 own0 a" "q_depth q = q_depth q0" "io_cmd_buf q = io_cmd_buf q0"
    "own ! na_tag a = own0 ! na_tag a" "nb q (na_tag a) = nb q0 (na_tag a)"
  shows "answer_ok q own a"
  using assms by (simp add: answer_ok_def is_read_def ublksrv_get_iod_def Let_def)

text \<open>Changes that leave the requests alone keep the invariant.\<close>

lemma recv_inv_cong:
  assumes "recv_inv q0 own rs" "q_depth q = q_depth q0" "q_id q = q_id q0" "io_cmd_buf q = io_cmd_buf q0" "ios q = ios q0"
    "cmd_inflight q = cmd_inflight q0" "qstate q = qstate q0"
    "length (nb_ios (private_data q)) = length (nb_ios (private_data q0))" "\<forall>t < q_depth q0. nb q t = nb q0 t"
    "length (reply (qd q)) = 16" "in_flight_ios (qd q) = in_flight_ios (qd q0)"
  shows "recv_inv q own rs"
proof -
  have "qinv q own" using recv_invD(1) [OF assms(1)] by (rule qinv_cong) (simp_all add: assms ublksrv_queue_batch_io_def)
  moreover have "answer_ok q own a" if "a \<in> set rs" for a
  proof -
    have "nb q (na_tag a) = nb q0 (na_tag a)" using assms(9) recv_invD(9) [OF assms(1) that] by blast
    from answer_ok_cong [OF recv_invD(8) [OF assms(1) that] assms(2,4) refl this] show ?thesis .
  qed
  moreover have "length (nb_ios (private_data q)) = Suc (q_depth q)" using recv_invD(3) [OF assms(1)] assms(2,8) by simp
  moreover have "unat (in_flight_ios (qd q)) = length rs" using recv_invD(6) [OF assms(1)] assms(11) by simp
  moreover have "q_id q < 65536" using recv_invD(2) [OF assms(1)] assms(3) by simp
  ultimately show ?thesis using recv_invD(5) [OF assms(1)] assms(10) unfolding recv_inv_def by blast
qed

section \<open>Completing a request\<close>

lemma io_fail_serves:
  assumes U: "uring_ok U queued" "uring_submits U" and inv: "recv_inv q own (a # rs)"
    and res: "(if ret < 0 then ret else sint (word_of_int ret + nd_done (nb q (na_tag a)))) = answer_res q a"
  defines "q' \<equiv> io_fail U q (na_tag a) ret"
  shows "\<exists>own'. recv_inv q' own' rs" "served queued q [a] q'" "nb_mem (private_data q') = nb_mem (private_data q)"
    "nb_sock (private_data q') = nb_sock (private_data q)" "recv_started (qd q') = recv_started (qd q)"
    "need_handle_recv (qd q') = need_handle_recv (qd q)"
proof -
  let ?t = "na_tag a"
  have ok: "answer_ok q own a" and t: "?t < q_depth q" using recv_invD(8,9) [OF inv] by simp_all
  have own: "own ! ?t = Target" using ok by (simp add: answer_ok_def Let_def)
  have t16: "?t < 65536" using t recv_invD(7) [OF inv] by simp
  have lb: "?t < length (nb_ios (private_data q))" using t recv_invD(3) [OF inv] by simp
  have nbt: "\<not> ublksrv_queue_batch_io q" using qinvD(1) [OF recv_invD(1) [OF inv]] .
  obtain n q1 where c: "ublksrv_complete_io U q ?t (answer_res q a) = (n, q1)" by fastforce
  note sel = complete_io_sel [OF nbt c]
  have q': "q' = upd_nb ?t (\<lambda>d. d\<lparr>nb_co := None\<rparr>) (upd_qd (\<lambda>d. d\<lparr>in_flight_ios := in_flight_ios d - 1\<rparr>) q1)"
    using res c by (simp add: q'_def io_fail_def Let_def)
  obtain sqe where sqe: "queued (ring q1) = queued (ring q) @ [sqe]" "n = 1" "commit_entry q sqe a"
    using complete_io_entry [OF U recv_invD(1) [OF inv] t own c] by (auto simp: commit_entry_def)
  have op: "sqe_opcode sqe \<noteq> OP_RECV" using sqe(3) by (simp add: commit_entry_def)
  have "unat (in_flight_ios (qd q)) = Suc (length rs)" using recv_invD(6) [OF inv] by simp
  then have fl: "unat (in_flight_ios (qd q) - 1) = length rs" by (simp add: unat_sub word_le_nat_alt)
  have "qinv q1 (own[?t := issued n])" using complete_io_qinv [OF recv_invD(1) [OF inv] t own c] .
  then have qi: "qinv q' (own[?t := issued n])"
    by (rule qinv_cong) (simp_all add: q' ublksrv_queue_batch_io_def)
  have "answer_ok q' (own[?t := issued n]) b" if "b \<in> set rs" for b
  proof -
    have "na_tag b \<noteq> ?t" using recv_invD(5) [OF inv] that by (auto simp: image_iff)
    then have same: "own[?t := issued n] ! na_tag b = own ! na_tag b" "nb q' (na_tag b) = nb q (na_tag b)"
      by (simp_all add: q' sel)
    have "b \<in> set (a # rs)" using that by simp
    from answer_ok_cong [OF recv_invD(8) [OF inv this] _ _ same] show ?thesis by (simp add: q' sel)
  qed
  then have oks: "\<forall>b \<in> set rs. answer_ok q' (own[?t := issued n]) b" by blast
  have "recv_inv q' (own[?t := issued n]) rs"
    unfolding recv_inv_def using qi oks fl recv_invD(2-5) [OF inv] by (simp add: q' sel)
  then show "\<exists>own'. recv_inv q' own' rs" ..
  have "map cmd_cookie (nb_ios (private_data q')) = map cmd_cookie (nb_ios (private_data q))"
    using lb by (intro nth_equalityI) (simp_all add: q' sel nth_list_update)
  moreover have "nb_co (nb q' u) = (if u = ?t then None else nb_co (nb q u))" for u
    using lb by (simp add: q' sel nth_list_update)
  moreover have "queued (ring q') = queued (ring q) @ [sqe]" using sqe by (simp add: q')
  moreover have "q_depth q' = q_depth q" "q_id q' = q_id q" "io_cmd_buf q' = io_cmd_buf q" by (simp_all add: q' sel)
  moreover have "list_all2 (commit_entry q) (filter (\<lambda>s. sqe_opcode s \<noteq> OP_RECV) [sqe]) [a]" using sqe(3) op by simp
  ultimately show "served queued q [a] q'" unfolding served_def by auto
  show "nb_mem (private_data q') = nb_mem (private_data q)" "nb_sock (private_data q') = nb_sock (private_data q)"
    "recv_started (qd q') = recv_started (qd q)" "need_handle_recv (qd q') = need_handle_recv (qd q)"
    by (simp_all add: q' sel)
qed

section \<open>The receiver\<close>

abbreviation sock_in :: "('s \<Rightarrow> u8 list) \<Rightarrow> ('r, 's) nbd_queue \<Rightarrow> u8 list" where
  "sock_in inb q \<equiv> inb (nb_sock (private_data q))"

abbreviation recv_done :: "('r, 's) nbd_queue \<Rightarrow> u32" where
  "recv_done q \<equiv> nd_done (nb q (q_depth q))"

abbreviation head_of :: "('r, 's) nbd_queue \<Rightarrow> nbd_answer \<Rightarrow> u8 list" where
  "head_of q a \<equiv> answer_head (q_id q) (cmd_cookie (nb q (na_tag a))) a"

text \<open>
  The receiver has ended, with no answer left, or it waits for the rest of the next reply or the rest
  of the data of the next answer; \<open>m\<close> is the memory after the answers that were used up.
\<close>

definition recv_state ::
  "('s \<Rightarrow> u8 list) \<Rightarrow> ('r, 's) nbd_queue \<Rightarrow> owner list \<Rightarrow> nbd_answer list \<Rightarrow> u8 list \<Rightarrow> (u64 \<Rightarrow> u8) \<Rightarrow> bool" where
  "recv_state inb q own rs rest m \<longleftrightarrow> recv_inv q own rs \<and>
     (case nb_recv (private_data q) of
        None \<Rightarrow> rs = [] \<and> sock_in inb q = rest \<and> \<not> recv_started (qd q) \<and> nb_mem (private_data q) = m
      | Some AwaitReply \<Rightarrow> recv_started (qd q) \<and> (\<exists>a rs'. rs = a # rs' \<and> unat (recv_done q) < 16 \<and>
          take (unat (recv_done q)) (reply (qd q)) = take (unat (recv_done q)) (head_of q a) \<and>
          sock_in inb q = drop (unat (recv_done q)) (head_of q a) @ na_data a @ stream q rs' @ rest \<and>
          nb_mem (private_data q) = m)
      | Some (AwaitIo t) \<Rightarrow> recv_started (qd q) \<and> (\<exists>a rs'. rs = a # rs' \<and> t = na_tag a \<and> is_read q t \<and>
          recv_done q < iod_bytes (ublksrv_get_iod q t) \<and>
          sock_in inb q = drop (unat (recv_done q)) (na_data a) @ stream q rs' @ rest \<and>
          nb_mem (private_data q) = store (iod_addr (ublksrv_get_iod q t)) (take (unat (recv_done q)) (na_data a)) m))"

text \<open>How many completions the receiver may still need, where it waits and where it runs.\<close>

definition pending :: "('r, 's) nbd_queue \<Rightarrow> nbd_answer list \<Rightarrow> nat" where
  "pending q rs = (case nb_recv (private_data q) of None \<Rightarrow> 0 | Some AwaitReply \<Rightarrow> 2 * length rs | Some (AwaitIo _) \<Rightarrow> 2 * length rs - 1)"

fun steps_left :: "recv_pc \<Rightarrow> nat \<Rightarrow> nat" where
  "steps_left AtLoop n = 2 * n"
| "steps_left AtReadReply n = 2 * n"
| "steps_left (AtHandleRecv _) n = 2 * n - 1"
| "steps_left (AtReadIo _) n = 2 * n - 1"
| "steps_left (AtHandleReadIo _ _) n = 2 * n - 2"

text \<open>A run of the receiver from \<open>pc\<close> uses up some of the answers and stops in such a state.\<close>

definition goes ::
  "'r uring_api \<Rightarrow> ('r, 's) nbd_env \<Rightarrow> ('s \<Rightarrow> u8 list) \<Rightarrow> ('r \<Rightarrow> uring_sqe list) \<Rightarrow> recv_pc \<Rightarrow> ('r, 's) nbd_queue \<Rightarrow>
     nbd_answer list \<Rightarrow> u8 list \<Rightarrow> (u64 \<Rightarrow> u8) \<Rightarrow> bool" where
  "goes U E inb queued pc q rs rest m \<longleftrightarrow>
     (\<exists>q' as bs own'. recv_run U E pc q = Some q' \<and> rs = as @ bs \<and> served queued q as q' \<and>
        need_handle_recv (qd q') = need_handle_recv (qd q) \<and> pending q' bs \<le> steps_left pc (length rs) \<and>
        recv_state inb q' own' bs rest (fold (put_data q) as m))"

lemma goes_after:
  assumes "served queued q as q1" "recv_run U E pc q = recv_run U E pc1 q1"
    "goes U E inb queued pc1 q1 rs rest (fold (put_data q) as m)"
    "need_handle_recv (qd q1) = need_handle_recv (qd q)" "steps_left pc1 (length rs) \<le> steps_left pc (length (as @ rs))"
  shows "goes U E inb queued pc q (as @ rs) rest m"
proof -
  obtain q' as1 bs own' where q': "recv_run U E pc1 q1 = Some q'" "rs = as1 @ bs" "served queued q1 as1 q'"
      "recv_state inb q' own' bs rest (fold (put_data q1) as1 (fold (put_data q) as m))"
      "need_handle_recv (qd q') = need_handle_recv (qd q1)" "pending q' bs \<le> steps_left pc1 (length rs)"
    using assms(3) by (auto simp: goes_def)
  have "put_data q1 = put_data q" using assms(1) by (intro answer_cong(3)) (auto simp: served_def)
  then have "recv_state inb q' own' bs rest (fold (put_data q) (as @ as1) m)" using q'(4) by simp
  moreover have "served queued q (as @ as1) q'" using served_trans [OF assms(1) q'(3)] .
  ultimately show ?thesis unfolding goes_def using assms(2,4,5) q'(1,2,5,6)
    by (intro exI [of _ q'] exI [of _ "as @ as1"] exI [of _ bs] exI [of _ own']) simp
qed

lemma goes_stop:
  assumes "recv_run U E pc q = Some q1" "served queued q [] q1" "recv_state inb q1 own rs rest m"
    "need_handle_recv (qd q1) = need_handle_recv (qd q)" "pending q1 rs \<le> steps_left pc (length rs)"
  shows "goes U E inb queued pc q rs rest m"
  using assms unfolding goes_def by (intro exI [of _ q1] exI [of _ "[]"] exI [of _ rs] exI [of _ own]) simp

lemma recv_inv_read_done:
  assumes "recv_inv q own rs" "is_read q t" "t < q_depth q"
  shows "recv_inv (upd_nb t (\<lambda>d. d\<lparr>nd_done := x\<rparr>) q) own rs" (is "recv_inv ?q own rs")
proof -
  have lb: "t < length (nb_ios (private_data q))" using recv_invD(3) [OF assms(1)] assms(3) by simp
  have "answer_ok ?q own a" if "a \<in> set rs" for a
  proof (cases "na_tag a = t")
    case True
    then show ?thesis using recv_invD(8) [OF assms(1) that] assms(2) lb
      by (simp add: answer_ok_def is_read_def ublksrv_get_iod_def Let_def)
  next
    case False
    then show ?thesis by (intro answer_ok_cong [OF recv_invD(8) [OF assms(1) that]]) simp_all
  qed
  moreover have "qinv ?q own" using recv_invD(1) [OF assms(1)]
    by (rule qinv_cong) (simp_all add: ublksrv_queue_batch_io_def)
  ultimately show ?thesis using recv_invD(2-6) [OF assms(1)] unfolding recv_inv_def by simp
qed

lemma served_nb:
  assumes "\<And>d. cmd_cookie (f d) = cmd_cookie d" "\<And>d. nb_co (f d) = nb_co d" "t < length (nb_ios (private_data q))"
  shows "served queued q [] (upd_nb t f q)"
  using assms by (intro served_nil) (auto intro!: nth_equalityI simp: nth_list_update)

lemma sint_small:
  assumes "unat (w :: u32) < 2 ^ 31"
  shows "sint w = int (unat w)"
proof -
  have u: "uint w = int (unat w)" by simp
  have "unat w < 2147483648" using assms by simp
  then have "uint w < 2147483648" unfolding u by linarith
  then have "- 2147483648 \<le> uint w" "uint w < 2147483648" using uint_ge_0 [of w] by linarith+
  then have "signed_take_bit 31 (uint w) = uint w" by (intro signed_take_bit_int_eq_self) simp_all
  then show ?thesis by (simp add: sint_uint)
qed

lemma stream_after:
  assumes "served queued q as q1" "recv_inv q own (as @ rs)"
  shows "stream q1 rs = stream q rs"
  using assms recv_invD(3) [OF assms(2)] recv_invD(9) [OF assms(2)]
  by (intro stream_cong) (auto simp: served_def less_Suc_eq)

lemma stream_tail:
  assumes "served queued q [] q1" "recv_inv q own (a # rs)"
  shows "stream q1 rs = stream q rs"
  using assms recv_invD(3) [OF assms(2)] recv_invD(9) [OF assms(2)]
  by (intro stream_cong) (auto simp: served_def less_Suc_eq)

text \<open>The three places where the receiver goes on with the first answer, given that it can go on with the
  others.\<close>

definition goes_on ::
  "'r uring_api \<Rightarrow> ('r, 's) nbd_env \<Rightarrow> ('s \<Rightarrow> u8 list) \<Rightarrow> ('r \<Rightarrow> uring_sqe list) \<Rightarrow> nbd_answer list \<Rightarrow> u8 list \<Rightarrow> bool" where
  "goes_on U E inb queued rs rest \<longleftrightarrow>
     (\<forall>q own. recv_inv q own rs \<and> sock_in inb q = stream q rs @ rest \<and> recv_started (qd q) \<longrightarrow>
        goes U E inb queued AtLoop q rs rest (nb_mem (private_data q)))"

lemma goes_served:
  assumes U: "uring_ok U queued" "uring_submits U" and on: "goes_on U E inb queued rs rest"
    and sv: "served queued q0 [] q" and inv: "recv_inv q own (a # rs)" and i: "sock_in inb q = stream q rs @ rest"
    and res: "(if ret < 0 then ret else sint (word_of_int ret + nd_done (nb q (na_tag a)))) = answer_res q a"
    and m: "nb_mem (private_data q) = put_data q0 a m"
    and st: "recv_started (qd q)" "need_handle_recv (qd q) = need_handle_recv (qd q0)"
    and run: "recv_run U E pc q0 = recv_run U E AtLoop (io_fail U q (na_tag a) ret)"
  shows "goes U E inb queued pc q0 (a # rs) rest m"
proof -
  define q' where "q' = io_fail U q (na_tag a) ret"
  note f = io_fail_serves [OF U inv res, folded q'_def]
  have sv': "served queued q0 [a] q'" using served_trans [OF sv f(2)] by simp
  obtain own' where "recv_inv q' own' rs" using f(1) ..
  moreover have "sock_in inb q' = stream q' rs @ rest"
    using i f(4) stream_after [OF f(2), of own rs] inv by simp
  ultimately have "goes U E inb queued AtLoop q' rs rest (nb_mem (private_data q'))"
    using on st(1) f(5) unfolding goes_on_def by blast
  moreover have "nb_mem (private_data q') = fold (put_data q0) [a] m" using f(3) m by simp
  ultimately show ?thesis using goes_after [OF sv' run [folded q'_def], of inb rs rest m] st(2) f(6) by (cases pc) simp_all
qed

lemma read_answer:
  assumes "recv_inv q own (a # rs)" "is_read q (na_tag a)"
  shows "answer_res q a = int (unat (iod_bytes (ublksrv_get_iod q (na_tag a))))" "unat (iod_bytes (ublksrv_get_iod q (na_tag a))) < 2 ^ 31"
    "length (na_data a) = unat (iod_bytes (ublksrv_get_iod q (na_tag a)))"
    "put_data q a m = store (iod_addr (ublksrv_get_iod q (na_tag a))) (na_data a) m"
    "nb_co (nb q (na_tag a)) \<noteq> None"
  using recv_invD(8) [OF assms(1), of a] assms(2)
  by (simp_all add: answer_ok_def answer_res_def put_data_def is_read_def Let_def)

lemma goes_data:
  assumes U: "uring_ok U queued" "uring_submits U" and on: "goes_on U E inb queued rs rest"
    and inv: "recv_inv q own (a # rs)" and i: "sock_in inb q = stream q rs @ rest" and r: "is_read q (na_tag a)"
    and res: "0 \<le> res" "word_of_int res + recv_done q = iod_bytes (ublksrv_get_iod q (na_tag a))"
    and m: "nb_mem (private_data q) = put_data q a m" and st: "recv_started (qd q)"
  shows "goes U E inb queued (AtHandleReadIo (na_tag a) res) q (a # rs) rest m"
proof -
  let ?t = "na_tag a" let ?q = "upd_nb ?t (\<lambda>d. d\<lparr>nd_done := recv_done q\<rparr>) q"
  have t: "?t < q_depth q" using recv_invD(9) [OF inv, of a] by simp
  have lb: "?t < length (nb_ios (private_data q))" using recv_invD(3) [OF inv] t by simp
  have inv': "recv_inv ?q own (a # rs)" using recv_inv_read_done [OF inv r t] .
  have sv: "served queued q [] ?q" by (rule served_nb) (simp_all add: lb)
  have cong: "answer_res ?q = answer_res q" "put_data ?q = put_data q" using answer_cong [of ?q q] by simp_all
  obtain msg where "nb_co (nb ?q ?t) = Some msg" using read_answer(5) [OF inv r] lb by auto
  then have "nbd_resume_read_req U E q ?t res (recv_done q) = Some (io_fail U ?q ?t res)"
    using res(1) by (simp add: nbd_resume_read_req_def io_resume_def)
  then have run: "recv_run U E (AtHandleReadIo ?t res) q = recv_run U E AtLoop (io_fail U ?q ?t res)"
    by (subst recv_run.simps) simp
  have e: "(if res < 0 then res else sint (word_of_int res + nd_done (nb ?q ?t))) = answer_res ?q a"
    using lb res read_answer(1,2) [OF inv r] sint_small by (simp add: cong)
  have "sock_in inb ?q = stream ?q rs @ rest" using i stream_tail [OF sv inv] by simp
  from goes_served [OF U on sv inv' this e _ _ _ run] m st show ?thesis by simp
qed

text \<open>What a receive changes: the socket, the buffer, the ring and the count of the receiver.\<close>

definition recvd ::
  "rbuf \<Rightarrow> nat \<Rightarrow> u8 list \<Rightarrow> 's \<Rightarrow> 'r \<Rightarrow> u32 \<Rightarrow> ('r, 's) nbd_queue \<Rightarrow> ('r, 's) nbd_queue" where
  "recvd b off bs s r d q = upd_nb (q_depth q) (\<lambda>x. x\<lparr>nd_done := d\<rparr>)
     (q\<lparr>private_data := rbuf_put b off bs ((private_data q)\<lparr>nb_sock := s\<rparr>), ring := r\<rparr>)"

definition quiet :: "('r \<Rightarrow> uring_sqe list) \<Rightarrow> ('r, 's) nbd_queue \<Rightarrow> ('r, 's) nbd_queue \<Rightarrow> bool" where
  "quiet queued q q1 \<longleftrightarrow> q_depth q1 = q_depth q \<and> q_id q1 = q_id q \<and> io_cmd_buf q1 = io_cmd_buf q \<and> ios q1 = ios q \<and>
     cmd_inflight q1 = cmd_inflight q \<and> qstate q1 = qstate q \<and>
     map cmd_cookie (nb_ios (private_data q1)) = map cmd_cookie (nb_ios (private_data q)) \<and>
     (\<forall>t < q_depth q. nb q1 t = nb q t) \<and> length (reply (qd q1)) = 16 \<and> in_flight_ios (qd q1) = in_flight_ios (qd q) \<and>
     recv_started (qd q1) = recv_started (qd q) \<and> need_handle_recv (qd q1) = need_handle_recv (qd q) \<and>
     (queued (ring q1) = queued (ring q) \<or> (\<exists>s. queued (ring q1) = queued (ring q) @ [s] \<and> sqe_opcode s = OP_RECV))"

lemma quietD:
  assumes "quiet queued q q1" "recv_inv q own rs"
  shows "recv_inv q1 own rs" "served queued q [] q1" "recv_started (qd q1) = recv_started (qd q)"
    "need_handle_recv (qd q1) = need_handle_recv (qd q)"
proof -
  have "length (nb_ios (private_data q1)) = length (nb_ios (private_data q))"
    using assms(1) map_eq_imp_length_eq unfolding quiet_def by blast
  then show "recv_inv q1 own rs" using assms(1) by (intro recv_inv_cong [OF assms(2)]) (simp_all add: quiet_def)
  show "served queued q [] q1" using assms(1) by (intro served_nil) (simp_all add: quiet_def)
  show "recv_started (qd q1) = recv_started (qd q)" "need_handle_recv (qd q1) = need_handle_recv (qd q)"
    using assms(1) by (simp_all add: quiet_def)
qed

lemma recvd_sel [simp]:
  "q_depth (recvd b off bs s r d q) = q_depth q" "q_id (recvd b off bs s r d q) = q_id q"
  "io_cmd_buf (recvd b off bs s r d q) = io_cmd_buf q" "ring (recvd b off bs s r d q) = r"
  "ios (recvd b off bs s r d q) = ios q" "cmd_inflight (recvd b off bs s r d q) = cmd_inflight q"
  "qstate (recvd b off bs s r d q) = qstate q"
  "nb_sock (private_data (recvd b off bs s r d q)) = s"
  "nb_ios (private_data (recvd b off bs s r d q)) = (nb_ios (private_data q))[q_depth q := (nb q (q_depth q))\<lparr>nd_done := d\<rparr>]"
  "in_flight_ios (qd (recvd b off bs s r d q)) = in_flight_ios (qd q)"
  "recv_started (qd (recvd b off bs s r d q)) = recv_started (qd q)"
  "need_handle_recv (qd (recvd b off bs s r d q)) = need_handle_recv (qd q)"
  "nb_mem (private_data (recvd ReplyBuf off bs s r d q)) = nb_mem (private_data q)"
  "qd (recvd (DataBuf addr) off bs s r d q) = qd q"
  "nb_mem (private_data (recvd (DataBuf addr) 0 bs s r d q)) = store addr bs (nb_mem (private_data q))"
  "reply (qd (recvd ReplyBuf 0 bs s r d q)) = bs @ drop (length bs) (reply (qd q))"
  by (simp_all add: recvd_def)

lemma cookie_upd: "map cmd_cookie (xs[t := (xs ! t)\<lparr>nd_done := d\<rparr>]) = map cmd_cookie (xs :: nbd_io list)"
  by (cases "t < length xs") (auto intro!: nth_equalityI simp: nth_list_update)

lemma recvd_quiet:
  assumes "recv_inv q own rs" "case b of ReplyBuf \<Rightarrow> off + length bs \<le> 16 | _ \<Rightarrow> True"
    and "queued r = queued (ring q) \<or> (\<exists>s. queued r = queued (ring q) @ [s] \<and> sqe_opcode s = OP_RECV)"
  shows "quiet queued q (recvd b off bs s r d q)"
proof -
  have "length (reply (qd (recvd b off bs s r d q))) = 16"
    using assms(2) recv_invD(4) [OF assms(1)] by (cases b) (simp_all add: recvd_def rbuf_put_def)
  then show ?thesis using assms(3) by (simp add: quiet_def cookie_upd)
qed

lemma suspend_quiet: "quiet queued q q1 \<Longrightarrow> quiet queued q (recv_suspend w q1)"
  by (simp add: quiet_def recv_suspend_def)

lemma suspend_sel [simp]:
  "nb_recv (private_data (recv_suspend w q)) = Some w" "qd (recv_suspend w q) = qd q" "nb_ios (private_data (recv_suspend w q)) = nb_ios (private_data q)"
  "nb_sock (private_data (recv_suspend w q)) = nb_sock (private_data q)" "nb_mem (private_data (recv_suspend w q)) = nb_mem (private_data q)"
  "q_depth (recv_suspend w q) = q_depth q" "q_id (recv_suspend w q) = q_id q" "io_cmd_buf (recv_suspend w q) = io_cmd_buf q"
  by (simp_all add: recv_suspend_def)

lemma goes_read:
  assumes U: "uring_ok U queued" "uring_submits U" "uring_preps U" and E: "recv_ok E inb"
    and on: "goes_on U E inb queued rs rest" and inv: "recv_inv q own (a # rs)" and r: "is_read q (na_tag a)"
    and i: "sock_in inb q = na_data a @ stream q rs @ rest" and m: "nb_mem (private_data q) = m" and st: "recv_started (qd q)"
  shows "goes U E inb queued (AtReadIo (na_tag a)) q (a # rs) rest m"
proof -
  let ?t = "na_tag a"
  define iod where "iod = ublksrv_get_iod q ?t"
  note ra = read_answer [OF inv r, folded iod_def]
  have lr: "q_depth q < length (nb_ios (private_data q))" using recv_invD(3) [OF inv] by simp
  have fl: "in_flight_ios (qd q) \<noteq> 0" using recv_invD(6) [OF inv] by auto
  have run: "recv_run U E (AtReadIo ?t) q = do {
          (ret, q1) \<leftarrow> nbd_do_recv U E q (DataBuf (iod_addr iod)) (iod_bytes iod);
          if ret = sint (iod_bytes iod) then recv_run U E (AtHandleReadIo ?t 0) (upd_nb (q_depth q1) (\<lambda>d. d\<lparr>nd_done := word_of_int ret\<rparr>) q1)
          else if ret < 0 then Some (recv_end q1)
          else Some (recv_suspend (AwaitIo ?t) q1) }"
    by (subst recv_run.simps) (simp add: iod_def Let_def)
  show ?thesis
  proof (rule do_recv_cases [OF U E ra(3) i fl recv_invD(7) [OF inv], where b = "DataBuf (iod_addr iod)"])
    fix s
    assume s: "inb s = stream q rs @ rest" "nbd_do_recv U E q (DataBuf (iod_addr iod)) (iod_bytes iod) =
        Some (sint (iod_bytes iod), q\<lparr>private_data := rbuf_put (DataBuf (iod_addr iod)) 0 (na_data a) ((private_data q)\<lparr>nb_sock := s\<rparr>)\<rparr>)"
    define q1 where "q1 = recvd (DataBuf (iod_addr iod)) 0 (na_data a) s (ring q) (iod_bytes iod) q"
    have qt: "quiet queued q q1" unfolding q1_def by (rule recvd_quiet [OF inv]) simp_all
    note q1 = quietD [OF qt inv]
    have run1: "recv_run U E (AtReadIo ?t) q = recv_run U E (AtHandleReadIo ?t 0) q1"
      unfolding run s(2) by (simp add: q1_def recvd_def)
    have "is_read q1 ?t" using r answer_cong(1) [of q1 q] by (simp add: q1_def)
    moreover have "sock_in inb q1 = stream q1 rs @ rest" using s(1) stream_tail [OF q1(2) inv] by (simp add: q1_def)
    moreover have "recv_done q1 = iod_bytes (ublksrv_get_iod q1 ?t)" using lr by (simp add: q1_def iod_def ublksrv_get_iod_def)
    moreover have "nb_mem (private_data q1) = put_data q1 a m"
      using ra(4) m answer_cong(3) [of q1 q] by (simp add: q1_def)
    ultimately have "goes U E inb queued (AtHandleReadIo ?t 0) q1 (a # rs) rest m"
      using goes_data [OF U(1,2) on q1(1), of 0 m] st q1(3) by simp
    then show ?thesis using goes_after [OF q1(2) run1, of inb "a # rs" rest m] q1(4) by simp
  next
    fix d s ri sqe
    assume d: "d < iod_bytes iod" "inb s = drop (unat d) (na_data a) @ stream q rs @ rest" "queued ri = queued (ring q) @ [sqe]"
      "sqe_opcode sqe = OP_RECV" "sqe_addr sqe = rbuf_addr E (DataBuf (iod_addr iod)) + ucast d" "sqe_len sqe = iod_bytes iod - d"
      "nbd_do_recv U E q (DataBuf (iod_addr iod)) (iod_bytes iod) = Some (0, upd_nb (q_depth q) (\<lambda>x. x\<lparr>nd_done := d\<rparr>)
         (q\<lparr>private_data := rbuf_put (DataBuf (iod_addr iod)) 0 (take (unat d) (na_data a)) ((private_data q)\<lparr>nb_sock := s\<rparr>), ring := ri\<rparr>))"
    define q1 where "q1 = recvd (DataBuf (iod_addr iod)) 0 (take (unat d) (na_data a)) s ri d q"
    have qt: "quiet queued q (recv_suspend (AwaitIo ?t) q1)" unfolding q1_def
      using d(3,4) by (intro suspend_quiet recvd_quiet [OF inv]) simp_all
    note q1 = quietD [OF qt inv]
    have "0 < unat (iod_bytes iod)" using d(1) by (simp add: word_less_nat_alt)
    then have "sint (iod_bytes iod) \<noteq> 0" unfolding sint_small [OF ra(2)] by linarith
    then have run1: "recv_run U E (AtReadIo ?t) q = Some (recv_suspend (AwaitIo ?t) q1)"
      unfolding run d(7) by (simp add: q1_def recvd_def)
    have "is_read (recv_suspend (AwaitIo ?t) q1) ?t" using r answer_cong(1) [of "recv_suspend (AwaitIo ?t) q1" q] by (simp add: q1_def)
    moreover have "stream (recv_suspend (AwaitIo ?t) q1) rs = stream q rs" using stream_tail [OF q1(2) inv] .
    moreover have "recv_done (recv_suspend (AwaitIo ?t) q1) = d" using lr by (simp add: q1_def)
    moreover have "ublksrv_get_iod (recv_suspend (AwaitIo ?t) q1) ?t = iod" by (simp add: q1_def iod_def ublksrv_get_iod_def)
    ultimately have "recv_state inb (recv_suspend (AwaitIo ?t) q1) own (a # rs) rest m"
      using q1(1) d(1,2) m st unfolding recv_state_def by (simp add: q1_def)
    from goes_stop [OF run1 q1(2) this q1(4)] show ?thesis by (simp add: pending_def q1_def)
  qed
qed

lemma goes_head:
  assumes U: "uring_ok U queued" "uring_submits U" "uring_preps U" and E: "recv_ok E inb"
    and on: "goes_on U E inb queued rs rest" and inv: "recv_inv q own (a # rs)"
    and h: "reply (qd q) = head_of q a" and res: "0 \<le> res" "word_of_int res + recv_done q = 16"
    and i: "sock_in inb q = na_data a @ stream q rs @ rest" and m: "nb_mem (private_data q) = m" and st: "recv_started (qd q)"
  shows "goes U E inb queued (AtHandleRecv res) q (a # rs) rest m"
proof -
  let ?t = "na_tag a" let ?op = "(ucast (ublksrv_get_op (ublksrv_get_iod q ?t)) :: u32)"
  define iod where "iod = ublksrv_get_iod q ?t"
  define fake where "fake = (if na_err a \<noteq> 0 then - EIO else if ?op = UBLK_IO_OP_WRITE then sint (iod_bytes iod) else 0)"
  have t: "?t < q_depth q" using recv_invD(9) [OF inv, of a] by simp
  note hd = handle_decodes [OF recv_invD(2) [OF inv], of ?t "cmd_cookie (nb q ?t)"]
  have t16: "?t < 65536" using t recv_invD(7) [OF inv] by simp
  have rep: "nbd_handle_recv_reply U E q res = (if is_read q ?t then Some (1, ?t, q)
      else case io_resume U E q ?t fake of None \<Rightarrow> None | Some q1 \<Rightarrow> Some (0, 0, q1))"
    unfolding nbd_handle_recv_reply_def h head_fields Let_def hd(1) [OF t16] hd(2) [OF t16] handle_cookie
    using res t by (simp add: is_read_def fake_def iod_def)
  show ?thesis
  proof (cases "is_read q ?t")
    case True
    have "recv_run U E (AtHandleRecv res) q = recv_run U E (AtReadIo ?t) q"
      using True by (subst recv_run.simps) (simp add: rep)
    moreover have "served queued q [] q" by (rule served_nil) simp_all
    ultimately show ?thesis using goes_after [of queued q "[]" q U E "AtHandleRecv res" "AtReadIo ?t" inb "a # rs" rest m]
        goes_read [OF U E on inv True i m st] by simp
  next
    case False
    have ok: "answer_ok q own a" using recv_invD(8) [OF inv, of a] by simp
    then have a: "na_data a = []" "nd_done (nb q ?t) = 0" "unat (iod_bytes iod) < 2 ^ 31" "nb_co (nb q ?t) \<noteq> None"
      using False by (simp_all add: answer_ok_def iod_def Let_def)
    have si: "sint (iod_bytes iod) = int (unat (iod_bytes iod))" using sint_small [OF a(3)] .
    have "0 \<le> sint (iod_bytes iod)" unfolding si by (rule of_nat_0_le_iff)
    then have fk: "fake \<noteq> - EAGAIN" unfolding fake_def by auto
    have "io_resume U E q ?t fake = Some (io_fail U q ?t fake)" using a(4) fk by (auto simp: io_resume_def)
    then have run: "recv_run U E (AtHandleRecv res) q = recv_run U E AtLoop (io_fail U q ?t fake)"
      using False by (subst recv_run.simps) (simp add: rep)
    have ar: "answer_res q a = (if na_err a \<noteq> 0 then - EIO else if ?op = UBLK_IO_OP_WRITE then int (unat (iod_bytes iod)) else 0)"
      using False by (simp add: answer_res_def is_read_def iod_def Let_def)
    have e: "(if fake < 0 then fake else sint (word_of_int fake + nd_done (nb q ?t))) = answer_res q a"
    proof (cases "na_err a = 0 \<and> ?op = UBLK_IO_OP_WRITE")
      case True
      then have "fake = sint (iod_bytes iod)" by (simp add: fake_def)
      then show ?thesis using True ar si a(2) by simp
    next
      case False
      then show ?thesis using ar a(2) unfolding fake_def by auto
    qed
    have sv: "served queued q [] q" by (rule served_nil) simp_all
    have "nb_mem (private_data q) = put_data q a m" using False m by (simp add: put_data_def)
    moreover have "sock_in inb q = stream q rs @ rest" using i a(1) by simp
    ultimately show ?thesis using goes_served [OF U(1,2) on sv inv _ e _ st refl run] by blast
  qed
qed

lemma goes_reply:
  assumes U: "uring_ok U queued" "uring_submits U" "uring_preps U" and E: "recv_ok E inb"
    and on: "goes_on U E inb queued rs rest" and inv: "recv_inv q own (a # rs)"
    and i: "sock_in inb q = stream q (a # rs) @ rest" and m: "nb_mem (private_data q) = m" and st: "recv_started (qd q)"
  shows "goes U E inb queued AtReadReply q (a # rs) rest m"
proof -
  have lr: "q_depth q < length (nb_ios (private_data q))" using recv_invD(3) [OF inv] by simp
  have t: "na_tag a < q_depth q" using recv_invD(9) [OF inv, of a] by simp
  have fl: "in_flight_ios (qd q) \<noteq> 0" using recv_invD(6) [OF inv] by auto
  have i': "sock_in inb q = head_of q a @ na_data a @ stream q rs @ rest" using i by (simp add: stream_Cons)
  have l16: "length (head_of q a) = unat sizeof_nbd_reply" by simp
  have run: "recv_run U E AtReadReply q = do {
          (ret, q1) \<leftarrow> nbd_do_recv U E q ReplyBuf sizeof_nbd_reply;
          if ret = 16 then recv_run U E (AtHandleRecv 0) (upd_nb (q_depth q1) (\<lambda>d. d\<lparr>nd_done := 16\<rparr>) q1)
          else if ret < 0 then Some (recv_end q1)
          else Some (recv_suspend AwaitReply q1) }"
    by (subst recv_run.simps) simp
  have hsame: "head_of q1 a = head_of q a" if "q_id q1 = q_id q" "nb q1 (na_tag a) = nb q (na_tag a)" for q1 :: "('a, 'b) nbd_queue"
    using that by simp
  show ?thesis
  proof (rule do_recv_cases [OF U E l16 i' fl recv_invD(7) [OF inv], where b = ReplyBuf])
    fix s
    assume s: "inb s = na_data a @ stream q rs @ rest" "nbd_do_recv U E q ReplyBuf sizeof_nbd_reply =
        Some (sint sizeof_nbd_reply, q\<lparr>private_data := rbuf_put ReplyBuf 0 (head_of q a) ((private_data q)\<lparr>nb_sock := s\<rparr>)\<rparr>)"
    define q1 where "q1 = recvd ReplyBuf 0 (head_of q a) s (ring q) 16 q"
    have qt: "quiet queued q q1" unfolding q1_def by (rule recvd_quiet [OF inv]) simp_all
    note q1 = quietD [OF qt inv]
    have run1: "recv_run U E AtReadReply q = recv_run U E (AtHandleRecv 0) q1"
      unfolding run s(2) by (simp add: q1_def recvd_def)
    have "reply (qd q1) = head_of q1 a" using recv_invD(4) [OF inv] t by (simp add: q1_def)
    moreover have "word_of_int 0 + recv_done q1 = 16" using lr by (simp add: q1_def)
    moreover have "sock_in inb q1 = na_data a @ stream q1 rs @ rest" using s(1) stream_tail [OF q1(2) inv] by (simp add: q1_def)
    moreover have "nb_mem (private_data q1) = m" using m by (simp add: q1_def)
    ultimately have "goes U E inb queued (AtHandleRecv 0) q1 (a # rs) rest m"
      using st q1(3) by (intro goes_head [OF U E on q1(1)]) simp_all
    then show ?thesis using goes_after [OF q1(2) run1, of inb "a # rs" rest m] q1(4) by simp
  next
    fix d s ri sqe
    assume d: "d < sizeof_nbd_reply" "inb s = drop (unat d) (head_of q a) @ na_data a @ stream q rs @ rest"
      "queued ri = queued (ring q) @ [sqe]"
      "sqe_opcode sqe = OP_RECV" "sqe_addr sqe = rbuf_addr E ReplyBuf + ucast d" "sqe_len sqe = sizeof_nbd_reply - d"
      "nbd_do_recv U E q ReplyBuf sizeof_nbd_reply = Some (0, upd_nb (q_depth q) (\<lambda>x. x\<lparr>nd_done := d\<rparr>)
         (q\<lparr>private_data := rbuf_put ReplyBuf 0 (take (unat d) (head_of q a)) ((private_data q)\<lparr>nb_sock := s\<rparr>), ring := ri\<rparr>))"
    define q1 where "q1 = recv_suspend AwaitReply (recvd ReplyBuf 0 (take (unat d) (head_of q a)) s ri d q)"
    have d16: "unat d < 16" using d(1) by (simp add: word_less_nat_alt)
    have qt: "quiet queued q q1" unfolding q1_def
      using d(3,4) by (intro suspend_quiet recvd_quiet [OF inv]) simp_all
    note q1 = quietD [OF qt inv]
    have run1: "recv_run U E AtReadReply q = Some q1"
      unfolding run d(7) by (simp add: q1_def recvd_def)
    have hd: "head_of q1 a = head_of q a" using t by (intro hsame) (simp_all add: q1_def)
    have dn: "recv_done q1 = d" using lr by (simp add: q1_def)
    have "take (unat d) (reply (qd q1)) = take (unat d) (head_of q a)" using d16 by (simp add: q1_def)
    moreover have "sock_in inb q1 = drop (unat d) (head_of q a) @ na_data a @ stream q1 rs @ rest"
      using d(2) stream_tail [OF q1(2) inv] by (simp add: q1_def)
    moreover have "nb_mem (private_data q1) = m" "nb_recv (private_data q1) = Some AwaitReply" using m by (simp_all add: q1_def)
    ultimately have "recv_state inb q1 own (a # rs) rest m"
      unfolding recv_state_def using q1(1,3) st d16 by (auto simp: dn hd)
    from goes_stop [OF run1 q1(2) this q1(4)] show ?thesis by (simp add: pending_def q1_def)
  qed
qed

lemma recv_end_sel [simp]:
  "nb_recv (private_data (recv_end q)) = None" "q_depth (recv_end q) = q_depth q" "q_id (recv_end q) = q_id q"
  "io_cmd_buf (recv_end q) = io_cmd_buf q" "ring (recv_end q) = ring q" "ios (recv_end q) = ios q"
  "cmd_inflight (recv_end q) = cmd_inflight q" "qstate (recv_end q) = qstate q"
  "nb_ios (private_data (recv_end q)) = nb_ios (private_data q)" "nb_sock (private_data (recv_end q)) = nb_sock (private_data q)"
  "nb_mem (private_data (recv_end q)) = nb_mem (private_data q)" "\<not> recv_started (qd (recv_end q))"
  "need_handle_recv (qd (recv_end q)) = need_handle_recv (qd q)" "reply (qd (recv_end q)) = reply (qd q)"
  "in_flight_ios (qd (recv_end q)) = in_flight_ios (qd q)"
  by (simp_all add: recv_end_def Let_def)

lemma goes_loop:
  assumes U: "uring_ok U queued" "uring_submits U" "uring_preps U" and E: "recv_ok E inb"
  shows "goes_on U E inb queued rs rest"
proof (induction rs)
  case Nil
  have "goes U E inb queued AtLoop q [] rest (nb_mem (private_data q))"
    if inv: "recv_inv q own []" and i: "sock_in inb q = stream q [] @ rest" for q own
  proof (rule goes_stop)
    have "in_flight_ios (qd q) = 0" using recv_invD(6) [OF inv] by (simp add: unat_eq_0)
    then show "recv_run U E AtLoop q = Some (recv_end q)" by (subst recv_run.simps) simp
    show "served queued q [] (recv_end q)" by (rule served_nil) simp_all
    have "recv_inv (recv_end q) own []" using recv_invD(4) [OF inv] by (intro recv_inv_cong [OF inv]) simp_all
    then show "recv_state inb (recv_end q) own [] rest (nb_mem (private_data q))"
      using i by (simp add: recv_state_def stream_def)
  qed (simp_all add: pending_def)
  then show ?case unfolding goes_on_def by blast
next
  case (Cons a rs)
  have "goes U E inb queued AtLoop q (a # rs) rest (nb_mem (private_data q))"
    if inv: "recv_inv q own (a # rs)" and i: "sock_in inb q = stream q (a # rs) @ rest" and st: "recv_started (qd q)" for q own
  proof -
    have "0 < unat (in_flight_ios (qd q))" using recv_invD(6) [OF inv] by simp
    then have run: "recv_run U E AtLoop q = recv_run U E AtReadReply q"
      by (subst recv_run.simps) (simp add: word_less_nat_alt)
    have "served queued q [] q" by (rule served_nil) simp_all
    from goes_after [OF this run, of inb "a # rs" rest "nb_mem (private_data q)"]
    show ?thesis using goes_reply [OF U E Cons.IH inv i refl st] by simp
  qed
  then show ?case unfolding goes_on_def by blast
qed

section \<open>Completions of the queued receive\<close>

text \<open>
  The kernel completes the receive the receiver waits for: with MSG_WAITALL it stores all the bytes that
  were asked for, and their number is the result.
\<close>

definition arrives :: "('s \<Rightarrow> u8 list) \<Rightarrow> ('r, 's) nbd_queue \<Rightarrow> int \<Rightarrow> ('r, 's) nbd_queue \<Rightarrow> bool" where
  "arrives inb q res q1 \<longleftrightarrow>
     (\<exists>bs s. sock_in inb q = bs @ inb s \<and> res = int (length bs) \<and>
        (case nb_recv (private_data q) of
           None \<Rightarrow> False
         | Some AwaitReply \<Rightarrow> unat (recv_done q) + length bs = 16 \<and>
             q1 = recvd ReplyBuf (unat (recv_done q)) bs s (ring q) (recv_done q) q
         | Some (AwaitIo t) \<Rightarrow> unat (recv_done q) + length bs = unat (iod_bytes (ublksrv_get_iod q t)) \<and>
             q1 = recvd (DataBuf (iod_addr (ublksrv_get_iod q t))) (unat (recv_done q)) bs s (ring q) (recv_done q) q))"

lemma recvd_mem_append:
  assumes "length as + length bs < 2 ^ 32" "nb_mem (private_data q) = store a as m"
  shows "nb_mem (private_data (recvd (DataBuf a) (length as) bs s r d q)) = store a (as @ bs) m"
  using assms store_append [of as bs a m] by (simp add: recvd_def rbuf_put_def)

lemma sum_word:
  assumes "unat d + n = unat (w :: u32)"
  shows "word_of_int (int n) + d = w"
proof -
  have "of_nat (n + unat d) = (of_nat (unat w) :: u32)" using assms by (simp only: add.commute)
  then show ?thesis by simp
qed

text \<open>The pieces of the first answer that were received before and now are all of it.\<close>

lemma arrives_reply:
  assumes st: "recv_state inb q own rs rest m" "nb_recv (private_data q) = Some AwaitReply" and ar: "arrives inb q res q1"
  obtains a rs' where "rs = a # rs'" "quiet queued q q1" "reply (qd q1) = head_of q1 a" "0 \<le> res"
    "word_of_int res + recv_done q1 = 16" "sock_in inb q1 = na_data a @ stream q rs' @ rest"
    "nb_mem (private_data q1) = m" "recv_inv q own (a # rs')" "recv_started (qd q)" "nb_recv (private_data q1) = Some AwaitReply"
proof -
  obtain a rs' where a: "rs = a # rs'" "unat (recv_done q) < 16" "recv_started (qd q)" "nb_mem (private_data q) = m"
      "take (unat (recv_done q)) (reply (qd q)) = take (unat (recv_done q)) (head_of q a)"
      "sock_in inb q = drop (unat (recv_done q)) (head_of q a) @ na_data a @ stream q rs' @ rest"
    using st by (auto simp: recv_state_def)
  have inv: "recv_inv q own (a # rs')" using st(1) a(1) by (simp add: recv_state_def)
  obtain bs s where b: "sock_in inb q = bs @ inb s" "res = int (length bs)" "unat (recv_done q) + length bs = 16"
      "q1 = recvd ReplyBuf (unat (recv_done q)) bs s (ring q) (recv_done q) q"
    using ar st(2) by (auto simp: arrives_def)
  have lr: "q_depth q < length (nb_ios (private_data q))" "na_tag a < q_depth q"
    using recv_invD(3) [OF inv] recv_invD(9) [OF inv, of a] by simp_all
  have "length bs = length (drop (unat (recv_done q)) (head_of q a))" using b(3) by simp
  moreover have "bs @ inb s = drop (unat (recv_done q)) (head_of q a) @ na_data a @ stream q rs' @ rest" using a(6) b(1) by simp
  ultimately have bs: "bs = drop (unat (recv_done q)) (head_of q a)" "inb s = na_data a @ stream q rs' @ rest"
    by (auto dest: append_eq_append_conv [THEN iffD1, rotated])
  have rep: "reply (qd q1) = take (unat (recv_done q)) (reply (qd q)) @ bs @ drop (unat (recv_done q) + length bs) (reply (qd q))"
    unfolding b(4) by (simp add: recvd_def rbuf_put_def)
  have r1: "reply (qd q1) = head_of q a" unfolding rep a(5) bs(1) using b(3) recv_invD(4) [OF inv] by simp
  have h1: "head_of q1 a = head_of q a" using lr by (simp add: b(4))
  have dn: "recv_done q1 = recv_done q" using lr by (simp add: b(4))
  show thesis
  proof (rule that [OF a(1)])
    show "quiet queued q q1" unfolding b(4) using b(3) by (intro recvd_quiet [OF inv]) simp_all
    show "reply (qd q1) = head_of q1 a" using r1 h1 by simp
    show "word_of_int res + recv_done q1 = 16" unfolding dn b(2) by (rule sum_word) (use b(3) in simp)
    show "nb_recv (private_data q1) = Some AwaitReply" using st(2) by (simp add: b(4) recvd_def)
    show "0 \<le> res" using b(2) by simp
  qed (use a(3,4) inv bs(2) b(4) in simp_all)
qed

lemma arrives_io:
  assumes st: "recv_state inb q own rs rest m" "nb_recv (private_data q) = Some (AwaitIo t)" and ar: "arrives inb q res q1"
  obtains a rs' where "rs = a # rs'" "t = na_tag a" "is_read q (na_tag a)" "quiet queued q q1" "0 \<le> res"
    "word_of_int res + recv_done q1 = iod_bytes (ublksrv_get_iod q (na_tag a))" "sock_in inb q1 = stream q rs' @ rest"
    "nb_mem (private_data q1) = put_data q a m" "recv_inv q own (a # rs')" "recv_started (qd q)"
    "nb_recv (private_data q1) = Some (AwaitIo t)"
proof -
  obtain a rs' where a: "rs = a # rs'" "t = na_tag a" "is_read q t" "recv_started (qd q)"
      "recv_done q < iod_bytes (ublksrv_get_iod q t)"
      "sock_in inb q = drop (unat (recv_done q)) (na_data a) @ stream q rs' @ rest"
      "nb_mem (private_data q) = store (iod_addr (ublksrv_get_iod q t)) (take (unat (recv_done q)) (na_data a)) m"
    using st by (auto simp: recv_state_def)
  have inv: "recv_inv q own (a # rs')" using st(1) a(1) by (simp add: recv_state_def)
  define iod where "iod = ublksrv_get_iod q t"
  obtain bs s where b: "sock_in inb q = bs @ inb s" "res = int (length bs)" "unat (recv_done q) + length bs = unat (iod_bytes iod)"
      "q1 = recvd (DataBuf (iod_addr iod)) (unat (recv_done q)) bs s (ring q) (recv_done q) q"
    using ar st(2) by (auto simp: arrives_def iod_def)
  have r: "is_read q (na_tag a)" using a(2,3) by simp
  note ra = read_answer [OF inv r, folded a(2), folded iod_def]
  have lr: "q_depth q < length (nb_ios (private_data q))" using recv_invD(3) [OF inv] by simp
  have "length bs = length (drop (unat (recv_done q)) (na_data a))" using b(3) ra(3) by simp
  moreover have "bs @ inb s = drop (unat (recv_done q)) (na_data a) @ stream q rs' @ rest" using a(6) b(1) by simp
  ultimately have bs: "bs = drop (unat (recv_done q)) (na_data a)" "inb s = stream q rs' @ rest"
    by (auto dest: append_eq_append_conv [THEN iffD1, rotated])
  have lt: "length (take (unat (recv_done q)) (na_data a)) = unat (recv_done q)" using b(3) ra(3) by simp
  have mem: "nb_mem (private_data q1) = store (iod_addr iod) (na_data a) m"
  proof -
    have "length (take (unat (recv_done q)) (na_data a)) + length bs < 2 ^ 32" unfolding lt using b(3) ra(2) by simp
    from recvd_mem_append [OF this, of q "iod_addr iod" m s "ring q" "recv_done q"] a(7)
    show ?thesis unfolding b(4) lt using bs(1) by (simp add: iod_def)
  qed
  show thesis
  proof (rule that [OF a(1,2) r])
    show "quiet queued q q1" unfolding b(4) by (intro recvd_quiet [OF inv]) simp_all
    have "recv_done q1 = recv_done q" using lr by (simp add: b(4))
    then show "word_of_int res + recv_done q1 = iod_bytes (ublksrv_get_iod q (na_tag a))"
      unfolding b(2) a(2) [symmetric] iod_def [symmetric] using sum_word [OF b(3)] by simp
    show "nb_mem (private_data q1) = put_data q a m" using mem ra(4) by simp
    show "nb_recv (private_data q1) = Some (AwaitIo t)" using st(2) by (simp add: b(4) recvd_def)
    show "0 \<le> res" using b(2) by simp
  qed (use a(4) inv bs(2) b(4) in simp_all)
qed

lemma resume_goes:
  assumes U: "uring_ok U queued" "uring_submits U" "uring_preps U" and E: "recv_ok E inb"
    and st: "recv_state inb q own rs rest m" and ar: "arrives inb q res q1"
    and q2: "q2 = upd_qd (\<lambda>d. d\<lparr>recv_cqe := c, need_handle_recv := True\<rparr>) q1"
  shows "\<exists>q3 as bs own'. recv_resume U E q2 res = Some q3 \<and> rs = as @ bs \<and> served queued q as q3 \<and>
    pending q3 bs < pending q rs \<and> need_handle_recv (qd q3) \<and> recv_state inb q3 own' bs rest (fold (put_data q) as m)"
proof -
  have sv2: "served queued q1 [] q2" unfolding q2 by (rule served_nil) simp_all
  have inv2: "recv_inv q2 own' rs'" if "recv_inv q1 own' rs'" for own' rs'
    unfolding q2 using recv_invD(4) [OF that] by (intro recv_inv_cong [OF that]) simp_all
  have sel: "qd q2 = (qd q1)\<lparr>recv_cqe := c, need_handle_recv := True\<rparr>" "sock_in inb q2 = sock_in inb q1"
    "nb_mem (private_data q2) = nb_mem (private_data q1)" "recv_done q2 = recv_done q1" "q_id q2 = q_id q1"
    "nb_ios (private_data q2) = nb_ios (private_data q1)" "io_cmd_buf q2 = io_cmd_buf q1" "nb_recv (private_data q2) = nb_recv (private_data q1)"
    by (simp_all add: q2)
  have fin: "?thesis" if g: "goes U E inb queued pc q2 rs rest m" "recv_resume U E q2 res = recv_run U E pc q2"
    "steps_left pc (length rs) < pending q rs" "served queued q [] q2" for pc
  proof -
    have "put_data q2 = put_data q" using g(4) by (intro answer_cong(3)) (simp_all add: served_def)
    then show ?thesis using g(1-3) served_trans [OF g(4)] sel(1) unfolding goes_def by fastforce
  qed
  obtain w where w: "nb_recv (private_data q) = Some w" using ar by (cases "nb_recv (private_data q)") (auto simp: arrives_def)
  show ?thesis
  proof (cases w)
    case AwaitReply
    from arrives_reply [OF st w [unfolded AwaitReply] ar, of queued] obtain a rs' where
      a: "rs = a # rs'" "quiet queued q q1" "reply (qd q1) = head_of q1 a" "0 \<le> res"
        "word_of_int res + recv_done q1 = 16" "sock_in inb q1 = na_data a @ stream q rs' @ rest"
        "nb_mem (private_data q1) = m" "recv_inv q own (a # rs')" "recv_started (qd q)" "nb_recv (private_data q1) = Some AwaitReply"
      by metis
    note q1 = quietD [OF a(2,8)]
    have sv: "served queued q [] q2" using served_trans [OF q1(2) sv2] by simp
    have "goes U E inb queued (AtHandleRecv res) q2 (a # rs') rest m"
      using a q1(3) sel stream_tail [OF sv a(8)]
      by (intro goes_head [OF U E goes_loop [OF U E] inv2 [OF q1(1)]]) simp_all
    moreover have "recv_resume U E q2 res = recv_run U E (AtHandleRecv res) q2"
      using a(4,10) sel(8) by (simp add: recv_resume_def)
    ultimately show ?thesis using fin [of "AtHandleRecv res"] a(1) sv w AwaitReply by (simp add: pending_def)
  next
    case (AwaitIo t)
    from arrives_io [OF st w [unfolded AwaitIo] ar, of queued] obtain a rs' where
      a: "rs = a # rs'" "t = na_tag a" "is_read q (na_tag a)" "quiet queued q q1" "0 \<le> res"
        "word_of_int res + recv_done q1 = iod_bytes (ublksrv_get_iod q (na_tag a))" "sock_in inb q1 = stream q rs' @ rest"
        "nb_mem (private_data q1) = put_data q a m" "recv_inv q own (a # rs')" "recv_started (qd q)"
        "nb_recv (private_data q1) = Some (AwaitIo t)"
      by metis
    note q1 = quietD [OF a(4,9)]
    have sv: "served queued q [] q2" using served_trans [OF q1(2) sv2] by simp
    then have c: "io_cmd_buf q2 = io_cmd_buf q" "q_id q2 = q_id q" by (simp_all add: served_def)
    have "goes U E inb queued (AtHandleReadIo (na_tag a) res) q2 (a # rs') rest m"
      using a q1(3) sel stream_tail [OF sv a(9)] answer_cong [OF c]
      by (intro goes_data [OF U(1,2) goes_loop [OF U E] inv2 [OF q1(1)]]) (simp_all add: ublksrv_get_iod_def c)
    moreover have "recv_resume U E q2 res = recv_run U E (AtHandleReadIo (na_tag a) res) q2"
      using a(2,5,11) sel(8) by (simp add: recv_resume_def)
    ultimately show ?thesis using fin [of "AtHandleReadIo (na_tag a) res"] a(1) sv w AwaitIo by (simp add: pending_def)
  qed
qed

section \<open>Runs of the background callback\<close>

text \<open>
  The background callback starts the receiver; after that each completion of its receive is passed to
  \<open>nbd_tgt_io_done\<close> and handled by the next call of the background callback. The number counts the
  completions.
\<close>

inductive recv_reach ::
  "'r uring_api \<Rightarrow> ('r, 's) nbd_env \<Rightarrow> ('s \<Rightarrow> u8 list) \<Rightarrow> ('r, 's) nbd_queue \<Rightarrow> nat \<Rightarrow> ('r, 's) nbd_queue \<Rightarrow> bool"
  for U E inb q where
  reach_start: "nbd_handle_recv_bg U E q = Some q' \<Longrightarrow> recv_reach U E inb q 0 q'"
| reach_completion:
    "recv_reach U E inb q n q1 \<Longrightarrow> arrives inb q1 (cqe_res cqe) q2 \<Longrightarrow>
     nbd_tgt_io_done q2 (q_depth q) cqe = Some q3 \<Longrightarrow> nbd_handle_recv_bg U E q3 = Some q4 \<Longrightarrow>
     recv_reach U E inb q (Suc n) q4"

text \<open>A state on the way: the answers \<open>as\<close> were used up, \<open>bs\<close> are left.\<close>

definition on_way ::
  "('s \<Rightarrow> u8 list) \<Rightarrow> ('r \<Rightarrow> uring_sqe list) \<Rightarrow> ('r, 's) nbd_queue \<Rightarrow> nbd_answer list \<Rightarrow> u8 list \<Rightarrow> nat \<Rightarrow>
     ('r, 's) nbd_queue \<Rightarrow> bool" where
  "on_way inb queued q rs rest n q' \<longleftrightarrow>
     (\<exists>as bs own'. rs = as @ bs \<and> served queued q as q' \<and> \<not> need_handle_recv (qd q') \<and>
        n + pending q' bs \<le> 2 * length rs \<and> recv_state inb q' own' bs rest (fold (put_data q) as (nb_mem (private_data q))))"

lemma served_flag:
  assumes "served queued q as q1" "q2 = upd_qd (\<lambda>d. d\<lparr>need_handle_recv := x\<rparr>) q1"
  shows "served queued q as q2"
  using assms by (simp add: served_def)

lemma state_flag:
  assumes "recv_state inb q own rs rest m"
  shows "recv_state inb (upd_qd (\<lambda>d. d\<lparr>need_handle_recv := x\<rparr>) q) own rs rest m" (is "recv_state inb ?q own rs rest m")
proof -
  have inv: "recv_inv q own rs" using assms by (simp add: recv_state_def)
  then have i': "recv_inv ?q own rs" using recv_invD(4) [OF inv] by (intro recv_inv_cong [OF inv]) simp_all
  have "answer_bytes ?q = answer_bytes q" by (simp add: fun_eq_iff answer_bytes_def)
  then have "stream ?q = stream q" unfolding stream_def by simp
  moreover have "is_read ?q = is_read q" "ublksrv_get_iod ?q = ublksrv_get_iod q"
    by (simp_all add: fun_eq_iff is_read_def ublksrv_get_iod_def)
  ultimately have c: "stream ?q = stream q" "is_read ?q = is_read q" "ublksrv_get_iod ?q = ublksrv_get_iod q" by blast+
  show ?thesis using assms i' unfolding recv_state_def
    by (cases "nb_recv (private_data q)") (auto simp: c split: recv_wait.splits)
qed

lemma bg_start:
  assumes U: "uring_ok U queued" "uring_submits U" "uring_preps U" and E: "recv_ok E inb"
    and inv: "recv_inv q own rs" "rs \<noteq> []" and i: "sock_in inb q = stream q rs @ rest"
    and fl: "\<not> recv_started (qd q)" "\<not> need_handle_recv (qd q)"
  shows "\<exists>q'. nbd_handle_recv_bg U E q = Some q' \<and> on_way inb queued q rs rest 0 q'"
proof -
  define q1 where "q1 = upd_qd (\<lambda>d. d\<lparr>recv_started := True\<rparr>) q"
  have sel: "qd q1 = (qd q)\<lparr>recv_started := True\<rparr>" "sock_in inb q1 = sock_in inb q" "nb_mem (private_data q1) = nb_mem (private_data q)"
    by (simp_all add: q1_def)
  have sv: "served queued q [] q1" unfolding q1_def by (rule served_nil) simp_all
  have inv1: "recv_inv q1 own rs" unfolding q1_def using recv_invD(4) [OF inv(1)] by (intro recv_inv_cong [OF inv(1)]) simp_all
  have "stream q1 rs = stream q rs" using stream_after [OF sv, of own rs] inv(1) by simp
  then have "goes U E inb queued AtLoop q1 rs rest (nb_mem (private_data q))"
    using goes_loop [OF U E, of rs rest] inv1 i sel unfolding goes_on_def by fastforce
  then obtain q' as bs own' where q': "recv_run U E AtLoop q1 = Some q'" "rs = as @ bs" "served queued q1 as q'"
      "need_handle_recv (qd q') = need_handle_recv (qd q1)" "pending q' bs \<le> steps_left AtLoop (length rs)"
      "recv_state inb q' own' bs rest (fold (put_data q1) as (nb_mem (private_data q)))"
    unfolding goes_def by blast
  have "put_data q1 = put_data q" by (rule answer_cong(3)) (simp_all add: q1_def)
  then have "on_way inb queued q rs rest 0 q'"
    unfolding on_way_def using q' served_trans [OF sv q'(3)] fl(2) sel(1)
    by (intro exI [of _ as] exI [of _ bs] exI [of _ own']) simp
  moreover have "in_flight_ios (qd q) \<noteq> 0" using recv_invD(6) [OF inv(1)] inv(2) by auto
  then have "nbd_handle_recv_bg U E q = Some q'"
    using q'(1,4) fl sel(1) by (simp add: nbd_handle_recv_bg_def nbd_handle_recv_def q1_def)
  ultimately show ?thesis by blast
qed

lemma arrives_sel:
  assumes "arrives inb q res q1"
  shows "q_depth q1 = q_depth q" "recv_started (qd q1) = recv_started (qd q)" "nb_recv (private_data q) \<noteq> None"
proof -
  obtain w where w: "nb_recv (private_data q) = Some w"
    using assms by (cases "nb_recv (private_data q)") (auto simp: arrives_def)
  then show "nb_recv (private_data q) \<noteq> None" by simp
  show "q_depth q1 = q_depth q" "recv_started (qd q1) = recv_started (qd q)"
    using assms w by (cases w; auto simp: arrives_def)+
qed

lemma bg_completion:
  assumes U: "uring_ok U queued" "uring_submits U" "uring_preps U" and E: "recv_ok E inb"
    and w: "on_way inb queued q rs rest n q1" and ar: "arrives inb q1 (cqe_res cqe) q2"
    and tag: "unat (user_data_to_tag (cqe_user_data cqe)) = q_depth q"
  shows "\<exists>q3 q4. nbd_tgt_io_done q2 (q_depth q) cqe = Some q3 \<and> nbd_handle_recv_bg U E q3 = Some q4 \<and>
    on_way inb queued q rs rest (Suc n) q4"
proof -
  obtain as bs own' where o: "rs = as @ bs" "served queued q as q1" "\<not> need_handle_recv (qd q1)"
      "n + pending q1 bs \<le> 2 * length rs" "recv_state inb q1 own' bs rest (fold (put_data q) as (nb_mem (private_data q)))"
    using w unfolding on_way_def by blast
  define q3 where "q3 = upd_qd (\<lambda>d. d\<lparr>recv_cqe := cqe, need_handle_recv := True\<rparr>) q2"
  have sel2: "q_depth q2 = q_depth q1" "recv_started (qd q2) = recv_started (qd q1)"
    using ar arrives_sel by blast+
  have dep: "q_depth q2 = q_depth q" using o(2) sel2 by (simp add: served_def)
  have d: "nbd_tgt_io_done q2 (q_depth q) cqe = Some q3"
    using tag dep by (simp add: nbd_tgt_io_done_def is_recv_io_def q3_def)
  obtain w where "nb_recv (private_data q1) = Some w" using arrives_sel(3) [OF ar] by blast
  then have "recv_started (qd q1)" using o(5) by (cases w) (simp_all add: recv_state_def)
  then have st: "recv_started (qd q3)" using sel2 by (simp add: q3_def)
  from resume_goes [OF U E o(5) ar q3_def] obtain q4 as' bs' own2 where
    g: "recv_resume U E q3 (cqe_res cqe) = Some q4" "bs = as' @ bs'" "served queued q1 as' q4"
      "pending q4 bs' < pending q1 bs" "recv_state inb q4 own2 bs' rest (fold (put_data q1) as' (fold (put_data q) as (nb_mem (private_data q))))"
    by blast
  define q5 where "q5 = upd_qd (\<lambda>d. d\<lparr>need_handle_recv := False\<rparr>) q4"
  have bg: "nbd_handle_recv_bg U E q3 = Some q5"
    using st g(1) by (simp add: nbd_handle_recv_bg_def q3_def q5_def)
  have "put_data q1 = put_data q" using o(2) by (intro answer_cong(3)) (simp_all add: served_def)
  then have "recv_state inb q5 own2 bs' rest (fold (put_data q) (as @ as') (nb_mem (private_data q)))"
    using state_flag [OF g(5)] by (simp add: q5_def)
  moreover have "served queued q (as @ as') q5" using served_flag [OF served_trans [OF o(2) g(3)] q5_def] .
  moreover have "pending q5 bs' = pending q4 bs'" by (simp add: pending_def q5_def)
  ultimately have "on_way inb queued q rs rest (Suc n) q5" unfolding on_way_def using o(1,4) g(2,4)
    by (intro exI [of _ "as @ as'"] exI [of _ bs'] exI [of _ own2]) (simp add: q5_def)
  then show ?thesis using d bg by blast
qed

lemma reach_on_way:
  assumes U: "uring_ok U queued" "uring_submits U" "uring_preps U" and E: "recv_ok E inb"
    and inv: "recv_inv q own rs" "rs \<noteq> []" and i: "sock_in inb q = stream q rs @ rest"
    and fl: "\<not> recv_started (qd q)" "\<not> need_handle_recv (qd q)"
  shows "recv_reach U E inb q n q' \<Longrightarrow> on_way inb queued q rs rest n q'"
proof (induction rule: recv_reach.induct)
  case (reach_start q')
  then show ?case using bg_start [OF U E inv i fl] by auto
next
  case (reach_completion n q1 cqe q2 q3 q4)
  have "unat (user_data_to_tag (cqe_user_data cqe)) = q_depth q"
    using reach_completion.hyps(3) by (auto simp: nbd_tgt_io_done_def split: if_splits)
  from bg_completion [OF U E reach_completion.IH reach_completion.hyps(2) this] reach_completion.hyps(3,4)
  show ?case by auto
qed

lemma recv_state_end:
  assumes "recv_state inb q own rs rest m"
  shows "nb_recv (private_data q) = None \<longleftrightarrow> rs = []"
    and "rs = [] \<Longrightarrow> nb_mem (private_data q) = m \<and> inb (nb_sock (private_data q)) = rest \<and> in_flight_ios (nbq (private_data q)) = 0"
proof -
  have inv: "recv_inv q own rs" using assms by (simp add: recv_state_def)
  show e: "nb_recv (private_data q) = None \<longleftrightarrow> rs = []"
  proof (cases "nb_recv (private_data q)")
    case None
    then show ?thesis using assms by (simp add: recv_state_def)
  next
    case (Some w)
    then show ?thesis using assms by (cases w) (auto simp: recv_state_def)
  qed
  assume r: "rs = []"
  then have "unat (in_flight_ios (nbq (private_data q))) = 0" using recv_invD(6) [OF inv] by simp
  then have "in_flight_ios (nbq (private_data q)) = 0" by (simp add: unat_eq_0)
  then show "nb_mem (private_data q) = m \<and> inb (nb_sock (private_data q)) = rest \<and> in_flight_ios (nbq (private_data q)) = 0"
    using assms r e by (simp add: recv_state_def)
qed

section \<open>Properties\<close>

text \<open>C16: Every request in flight is completed with the answer the server gave to it. When the bytes the
  server sends are its answers to the requests in flight, in any order, and no read is answered with an
  error, then the background callback
  starts the receiver, every completion of a queued receive is handled, and whatever part of the bytes
  was there at which time: each answer that was used up led to exactly one commit command for its tag,
  with minus EIO, the length or 0 as the result, in the order of the answers; the requests whose answers
  were not used up still wait. The receiver needs at most two completions per answer. It ends exactly
  when all answers were used up; then the data of every read is in its buffer, the socket is at the first
  byte after the answers and no request is in flight.\<close>

theorem nbd_replies_served:
  assumes U: "uring_ok U queued" "uring_submits U" "uring_preps U" and E: "recv_ok E inb"
    and inv: "recv_inv q own rs" "rs \<noteq> []" and i: "inb (nb_sock (private_data q)) = stream q rs @ rest"
    and fl: "\<not> recv_started (nbq (private_data q))" "\<not> need_handle_recv (nbq (private_data q))"
  shows "(\<exists>q'. nbd_handle_recv_bg U E q = Some q') \<and>
    (\<forall>n q'. recv_reach U E inb q n q' \<longrightarrow>
       n \<le> 2 * length rs \<and>
       (\<exists>as bs. rs = as @ bs \<and> served queued q as q' \<and> (nb_recv (private_data q') = None \<longleftrightarrow> bs = []) \<and>
          (bs = [] \<longrightarrow> nb_mem (private_data q') = fold (put_data q) rs (nb_mem (private_data q)) \<and>
             inb (nb_sock (private_data q')) = rest \<and> in_flight_ios (nbq (private_data q')) = 0)) \<and>
       (\<forall>cqe q1. arrives inb q' (cqe_res cqe) q1 \<and> unat (user_data_to_tag (cqe_user_data cqe)) = q_depth q \<longrightarrow>
          (\<exists>q2 q3. nbd_tgt_io_done q1 (q_depth q) cqe = Some q2 \<and> nbd_handle_recv_bg U E q2 = Some q3)))"
proof (intro conjI allI impI)
  show "\<exists>q'. nbd_handle_recv_bg U E q = Some q'" using bg_start [OF U E inv i fl] by blast
next
  fix n q'
  assume "recv_reach U E inb q n q'"
  then have w: "on_way inb queued q rs rest n q'" by (rule reach_on_way [OF U E inv i fl])
  then obtain as bs own' where o: "rs = as @ bs" "served queued q as q'" "n + pending q' bs \<le> 2 * length rs"
      "recv_state inb q' own' bs rest (fold (put_data q) as (nb_mem (private_data q)))"
    unfolding on_way_def by blast
  show "n \<le> 2 * length rs" using o(3) by simp
  note st = recv_state_end [OF o(4)]
  have "bs = [] \<longrightarrow> nb_mem (private_data q') = fold (put_data q) rs (nb_mem (private_data q)) \<and>
      inb (nb_sock (private_data q')) = rest \<and> in_flight_ios (nbq (private_data q')) = 0"
    using st(2) o(1) by simp
  then show "\<exists>as bs. rs = as @ bs \<and> served queued q as q' \<and> (nb_recv (private_data q') = None \<longleftrightarrow> bs = []) \<and>
          (bs = [] \<longrightarrow> nb_mem (private_data q') = fold (put_data q) rs (nb_mem (private_data q)) \<and>
             inb (nb_sock (private_data q')) = rest \<and> in_flight_ios (nbq (private_data q')) = 0)"
    by (intro exI [of _ as] exI [of _ bs] conjI o(1,2) st(1))
  fix cqe :: nbd_cqe and q1
  assume "arrives inb q' (cqe_res cqe) q1 \<and> unat (user_data_to_tag (cqe_user_data cqe)) = q_depth q"
  then show "\<exists>q2 q3. nbd_tgt_io_done q1 (q_depth q) cqe = Some q2 \<and> nbd_handle_recv_bg U E q2 = Some q3"
    using bg_completion [OF U E w] by blast
qed

text \<open>C17: A request of a supported kind queues one linked send on the socket of its queue, whose message
  names command, FUA flag, byte offset and length of the ublk request and carries the buffer of a write;
  its handle leads back to queue, tag and a fresh cookie, and the request waits for its reply.\<close>

theorem nbd_request_sent:
  assumes U: "uring_ok U queued" "uring_submits U" "uring_preps U"
    and iod: "iod = ublksrv_get_iod q tag" "req_to_nbd_cmd_type iod = Some type" "nr_sectors iod < 0x10000"
    and tag: "tag < length (nb_ios (private_data q))" "tag < 65536" "q_id q < 65536"
  shows "\<exists>q' sqe msg handle. nbd_handle_io U E q tag = Some q' \<and> queued (ring q') = queued (ring q) @ [sqe] \<and>
    sqe_opcode sqe = (if use_send_zc (nbq (private_data q)) then OP_SENDMSG_ZC else OP_SENDMSG) \<and>
    sqe_fd sqe = int (q_id q) + 1 \<and> sqe_addr sqe = ne_msg_addr E tag \<and> sqe_flags sqe = {IOSQE_FIXED_FILE, IOSQE_IO_LINK} \<and>
    user_data_to_tag (sqe_user_data sqe) = of_nat tag \<and> is_target_io (sqe_user_data sqe) \<and>
    nb_co (nb_ios (private_data q') ! tag) = Some msg \<and>
    msg_req msg = be32 NBD_REQUEST_MAGIC @ be32 (type OR (if has (op_flags iod) UBLK_IO_F_FUA then NBD_CMD_FLAG_FUA else 0)) @
      host64 handle @ be64 (if type = NBD_CMD_FLUSH then 0 else start_sector iod * 512) @
      be32 (if type = NBD_CMD_FLUSH then 0 else nr_sectors iod * 512) \<and>
    msg_data msg = (if type = NBD_CMD_WRITE then Some (iod_addr iod, nr_sectors iod * 512) else None) \<and>
    unat (ublk_unique_tag_to_hwq (nbd_handle_to_tag handle)) = q_id q \<and>
    unat (ublk_unique_tag_to_tag (nbd_handle_to_tag handle)) = tag \<and>
    nbd_handle_to_cookie handle = cmd_cookie (nb_ios (private_data q) ! tag) + 1 \<and>
    cmd_cookie (nb_ios (private_data q') ! tag) = cmd_cookie (nb_ios (private_data q) ! tag) + 1 \<and>
    in_flight_ios (nbq (private_data q')) = in_flight_ios (nbq (private_data q)) + 1 \<and>
    chained_send_ios (nbq (private_data q')) = chained_send_ios (nbq (private_data q)) + 1"
proof -
  define c where "c = cmd_cookie (nb q tag) + 1"
  define op where "op = (ucast (ublksrv_get_op iod) :: u32)"
  define td where "td = (if op = UBLK_IO_OP_WRITE then nr_sectors iod else 0)"
  define msg where "msg = \<lparr>msg_req = nbd_build_req (q_id q) tag iod c type,
      msg_data = (if op = UBLK_IO_OP_WRITE then Some (iod_addr iod, iod_bytes iod) else None)\<rparr>"
  define q1 where "q1 = upd_qd (\<lambda>d. d\<lparr>in_flight_ios := in_flight_ios d + 1\<rparr>) (upd_nb tag (\<lambda>d. d\<lparr>cmd_cookie := c, nd_done := 0\<rparr>) q)"
  have h: "nbd_handle_io U E q tag = io_again U E q1 tag msg"
    using iod by (simp add: nbd_handle_io_def Let_def c_def op_def msg_def q1_def)
  let ?fill = "\<lambda>sqe. (prep_rw U (if use_send_zc (qd q) then OP_SENDMSG_ZC else OP_SENDMSG) (int (q_id q) + 1) (ne_msg_addr E tag) 1 0 sqe)
             \<lparr>sqe_rw_flags := MSG_NOSIGNAL OR MSG_WAITALL, sqe_user_data := build_user_data (of_nat tag) op td 1,
              sqe_flags := {IOSQE_FIXED_FILE, IOSQE_IO_LINK}\<rparr>"
  obtain r slot where r: "ublk_queue_alloc_sqes U (ring q) [?fill] = (1, r)" "queued r = queued (ring q) @ [?fill slot]"
    using alloc_one [OF U(1,2)] by blast
  have as: "build_user_data_assert (of_nat tag) op td"
  proof -
    have "drop_bit 8 op = 0" unfolding op_def by (rule bit_word_eqI) (auto simp: bit_simps bit_out)
    moreover have "drop_bit 16 td = 0" using iod(3) by (simp add: td_def drop_bit_0_unat word_less_nat_alt)
    ultimately show ?thesis using tag(2) by (simp add: build_user_data_assert_def drop_bit_0_unat unat_of_nat_small)
  qed
  have iod1: "ublksrv_get_iod q1 tag = iod" by (simp add: q1_def iod(1) ublksrv_get_iod_def)
  define q2 where "q2 = upd_nb tag (\<lambda>d. d\<lparr>nb_co := Some msg\<rparr>)
    (upd_qd (\<lambda>d. d\<lparr>last_send_sqe := True, chained_send_ios := chained_send_ios d + 1\<rparr>) (q1\<lparr>ring := r\<rparr>))"
  have sel1: "ring q1 = ring q" "q_id q1 = q_id q" "use_send_zc (qd q1) = use_send_zc (qd q)" by (simp_all add: q1_def)
  have "nbd_queue_req U E q1 tag = Some (1, upd_qd (\<lambda>d. d\<lparr>last_send_sqe := True, chained_send_ios := chained_send_ios d + 1\<rparr>) (q1\<lparr>ring := r\<rparr>))"
    unfolding nbd_queue_req_def Let_def iod1 sel1 op_def [symmetric] td_def [symmetric] r(1) using as by simp
  then have h2: "nbd_handle_io U E q tag = Some q2" unfolding h io_again_def by (simp add: q2_def)
  have wr: "op = UBLK_IO_OP_WRITE \<longleftrightarrow> type = NBD_CMD_WRITE"
    using iod(2) by (auto simp: req_to_nbd_cmd_type_def op_def Let_def split: if_splits)
  have sh: "push_bit 9 (start_sector iod) = start_sector iod * 512" "iod_bytes iod = nr_sectors iod * 512"
    by (simp_all add: push_bit_eq_mult iod_bytes_def)
  have msg: "msg_req msg = be32 NBD_REQUEST_MAGIC @ be32 (type OR (if has (op_flags iod) UBLK_IO_F_FUA then NBD_CMD_FLAG_FUA else 0)) @
      host64 (nbd_cmd_handle (q_id q) tag c) @ be64 (if type = NBD_CMD_FLUSH then 0 else start_sector iod * 512) @
      be32 (if type = NBD_CMD_FLUSH then 0 else nr_sectors iod * 512)"
    by (simp add: msg_def nbd_build_req_def Let_def sh)
  have "queued (ring q2) = queued (ring q) @ [?fill slot]" using r(2) by (simp add: q2_def)
  moreover have "user_data_to_tag (sqe_user_data (?fill slot)) = of_nat tag" "is_target_io (sqe_user_data (?fill slot))"
    using user_data_tag [OF as] user_data_is_target [OF as, of 1] by simp_all
  moreover have "nb_co (nb q2 tag) = Some msg" "cmd_cookie (nb q2 tag) = c" using tag(1) by (simp_all add: q2_def q1_def)
  moreover have "in_flight_ios (qd q2) = in_flight_ios (qd q) + 1" "chained_send_ios (qd q2) = chained_send_ios (qd q) + 1"
    by (simp_all add: q2_def q1_def)
  moreover have "msg_data msg = (if type = NBD_CMD_WRITE then Some (iod_addr iod, nr_sectors iod * 512) else None)"
    using wr sh by (simp add: msg_def)
  ultimately show ?thesis
    using h2 msg handle_decodes [OF tag(3,2), of c] handle_cookie [of "q_id q" tag c] uring_prepsD [OF U(3)]
    by (intro exI [of _ q2] exI [of _ "?fill slot"] exI [of _ msg] exI [of _ "nbd_cmd_handle (q_id q) tag c"])
      (simp add: c_def [symmetric])
qed

text \<open>C30: The error of a reply to a read is not looked at: whatever the server reports, the receiver takes
  the bytes that follow as the data of the read.\<close>

theorem nbd_read_error_ignored:
  assumes "q_id q < 65536" "na_tag a < q_depth q" "q_depth q \<le> 65536" "is_read q (na_tag a)"
    and "reply (nbq (private_data q)) = answer_head (q_id q) (cmd_cookie (nb_ios (private_data q) ! na_tag a)) a"
    and "0 \<le> res" "word_of_int res + nd_done (nb_ios (private_data q) ! q_depth q) = 16"
  shows "nbd_handle_recv_reply U E q res = Some (1, na_tag a, q)"
proof -
  have t: "na_tag a < 65536" using assms(2,3) by simp
  note hd = handle_decodes [OF assms(1) t, of "cmd_cookie (nb q (na_tag a))"]
  show ?thesis unfolding nbd_handle_recv_reply_def assms(5) head_fields Let_def hd handle_cookie
    using assms(2,4,6,7) by (simp add: is_read_def)
qed

text \<open>C31: A request of an unsupported kind is failed, but it is also taken off the number of requests in
  flight, to which it was never added: with none in flight the number becomes 65535.\<close>

theorem nbd_unsupported_underflow:
  assumes "\<not> ublksrv_queue_batch_io q" "req_to_nbd_cmd_type (ublksrv_get_iod q tag) = None"
    "in_flight_ios (nbq (private_data q)) = 0"
  shows "\<exists>q'. nbd_handle_io U E q tag = Some q' \<and> in_flight_ios (nbq (private_data q')) = 65535"
proof -
  obtain n q1 where "ublksrv_complete_io U q tag (- EIO) = (n, q1)" by fastforce
  then show ?thesis using complete_io_sel(1) [OF assms(1)] assms(2,3)
    by (simp add: nbd_handle_io_def io_fail_def Let_def)
qed

section \<open>A concrete connection\<close>

text \<open>A socket that gives at most five bytes at a time, and a queue with a read and a write in flight.\<close>

definition list_env :: "(fring, u8 list) nbd_env" where
  "list_env = \<lparr>ne_recv = (\<lambda>n s. (take (min n 5) s, drop (min n 5) s)), ne_msg_addr = (\<lambda>tag. 0x9000 + of_nat tag),
     ne_reply_addr = 0x8000, ne_unlink = (\<lambda>r. r)\<rparr>"

definition sample_data :: "u8 list" where
  "sample_data = replicate 4096 7"

definition sample_answers :: "nbd_answer list" where
  "sample_answers = [\<lparr>na_tag = 1, na_err = 0, na_data = []\<rparr>, \<lparr>na_tag = 0, na_err = 0, na_data = sample_data\<rparr>]"

definition nbd_sample :: "u16 \<Rightarrow> u8 list \<Rightarrow> (fring, u8 list) nbd_queue" where
  "nbd_sample fl rep =
     (let waiting = \<lparr>msg_req = [], msg_data = None\<rparr>;
          q = sample_queue 0
            \<lparr>nbq = \<lparr>in_flight_ios = fl, recv_started = False, use_send_zc = False, use_unix_sock = False, need_handle_recv = False,
               chain_active = False, chained_send_ios = 0, next_chain = [], last_send_sqe = False, reply = rep,
               recv_cqe = \<lparr>cqe_user_data = 0, cqe_res = 0, cqe_more = False, cqe_notif = False\<rparr>\<rparr>,
             nb_ios = [\<lparr>cmd_cookie = 5, nd_done = 0, nb_co = Some waiting\<rparr>, \<lparr>cmd_cookie = 9, nd_done = 0, nb_co = Some waiting\<rparr>,
                       \<lparr>cmd_cookie = 0, nd_done = 0, nb_co = None\<rparr>],
             nb_recv = None,
             nb_sock = concat (map (\<lambda>a. answer_head 3 (if na_tag a = 0 then 5 else 9) a @ na_data a) sample_answers),
             nb_mem = (\<lambda>_. 0)\<rparr>
      in q\<lparr>ios := map (\<lambda>io. io\<lparr>io_flags := 0\<rparr>) (ios q)\<rparr>)"

lemma list_env_ok: "recv_ok list_env (\<lambda>s. s)"
  by (auto simp: recv_ok_def list_env_def)

lemma nbd_sample_sel [simp]:
  "q_id (nbd_sample fl rep) = 3" "q_depth (nbd_sample fl rep) = 2" "length (nb_ios (private_data (nbd_sample fl rep))) = 3"
  "nb_ios (private_data (nbd_sample fl rep)) ! 0 = \<lparr>cmd_cookie = 5, nd_done = 0, nb_co = Some \<lparr>msg_req = [], msg_data = None\<rparr>\<rparr>"
  "nb_ios (private_data (nbd_sample fl rep)) ! Suc 0 = \<lparr>cmd_cookie = 9, nd_done = 0, nb_co = Some \<lparr>msg_req = [], msg_data = None\<rparr>\<rparr>"
  "nd_done (nb_ios (private_data (nbd_sample fl rep)) ! 2) = 0"
  "ublksrv_get_iod (nbd_sample fl rep) 0 = \<lparr>op_flags = 0, nr_sectors = 8, start_sector = 16, iod_addr = 0x1000\<rparr>"
  "ublksrv_get_iod (nbd_sample fl rep) (Suc 0) = \<lparr>op_flags = 1, nr_sectors = 2, start_sector = 64, iod_addr = 0x2000\<rparr>"
  "in_flight_ios (nbq (private_data (nbd_sample fl rep))) = fl" "reply (nbq (private_data (nbd_sample fl rep))) = rep"
  "\<not> recv_started (nbq (private_data (nbd_sample fl rep)))" "\<not> need_handle_recv (nbq (private_data (nbd_sample fl rep)))"
  by (simp_all add: nbd_sample_def sample_queue_def ublksrv_get_iod_def Let_def)

lemma nbd_sample_inv: "recv_inv (nbd_sample 2 (replicate 16 0)) [Target, Target] sample_answers"
proof -
  let ?q = "nbd_sample 2 (replicate 16 0)"
  have "qinv ?q [Target, Target]"
    by (auto simp: qinv_def nbd_sample_def sample_queue_def ublksrv_queue_batch_io_def has_def Let_def owner_flags_def
        held_def less_2_cases_iff)
  moreover have "length sample_data = 4096" unfolding sample_data_def by (rule length_replicate)
  then have "answer_ok ?q [Target, Target] a" if "a \<in> set sample_answers" for a
    using that by (auto simp: sample_answers_def answer_ok_def is_read_def ublksrv_get_op_def iod_bytes_def Let_def)
  ultimately show ?thesis unfolding recv_inv_def by (simp add: sample_answers_def)
qed

lemma nbd_sample_stream:
  "nb_sock (private_data (nbd_sample 2 (replicate 16 0))) = stream (nbd_sample 2 (replicate 16 0)) sample_answers @ []"
  by (simp add: stream_def answer_bytes_def sample_answers_def) (simp add: nbd_sample_def sample_queue_def sample_answers_def Let_def)

theorem nbd_replies_served_witness:
  "\<exists>q'. nbd_handle_recv_bg fring_api list_env (nbd_sample 2 (replicate 16 0)) = Some q' \<and>
     (\<exists>as bs. sample_answers = as @ bs \<and> served fr_queued (nbd_sample 2 (replicate 16 0)) as q')"
proof -
  have ne: "sample_answers \<noteq> []" by (simp add: sample_answers_def)
  note t = nbd_replies_served [where inb = "\<lambda>s. s" and rest = "[]", OF fring_ok list_env_ok nbd_sample_inv ne nbd_sample_stream
      nbd_sample_sel(11,12)]
  obtain q' where q': "nbd_handle_recv_bg fring_api list_env (nbd_sample 2 (replicate 16 0)) = Some q'" using t by blast
  then have "recv_reach fring_api list_env (\<lambda>s. s) (nbd_sample 2 (replicate 16 0)) 0 q'" by (rule reach_start)
  then show ?thesis using t q' by blast
qed

theorem nbd_request_sent_witness:
  "\<exists>q' sqe. nbd_handle_io fring_api list_env (nbd_sample 0 []) 1 = Some q' \<and> fr_queued (ring q') = [sqe] \<and>
     sqe_opcode sqe = OP_SENDMSG \<and> sqe_fd sqe = 4"
proof -
  have z: "fr_queued (ring (nbd_sample 0 [])) = []" "\<not> use_send_zc (nbq (private_data (nbd_sample 0 [])))"
    by (simp_all add: nbd_sample_def sample_queue_def fr_queued_def Let_def)
  have "req_to_nbd_cmd_type (ublksrv_get_iod (nbd_sample 0 []) 1) = Some 1"
    by (simp add: req_to_nbd_cmd_type_def ublksrv_get_op_def Let_def)
  from nbd_request_sent [OF fring_ok refl this, of list_env] show ?thesis using z by auto
qed

theorem nbd_read_error_ignored_witness:
  "nbd_handle_recv_reply fring_api list_env (nbd_sample 1 (answer_head 3 5 \<lparr>na_tag = 0, na_err = 5, na_data = []\<rparr>)) 16 =
     Some (1, 0, nbd_sample 1 (answer_head 3 5 \<lparr>na_tag = 0, na_err = 5, na_data = []\<rparr>))"
  using nbd_read_error_ignored [of "nbd_sample 1 (answer_head 3 5 \<lparr>na_tag = 0, na_err = 5, na_data = []\<rparr>)"
      "\<lparr>na_tag = 0, na_err = 5, na_data = []\<rparr>" 16 fring_api list_env]
  by (simp add: is_read_def ublksrv_get_op_def)

text \<open>An operation the target does not know (write zeroes).\<close>

definition odd_sample :: "(fring, u8 list) nbd_queue" where
  "odd_sample = (nbd_sample 0 [])\<lparr>io_cmd_buf := [\<lparr>op_flags = 5, nr_sectors = 8, start_sector = 0, iod_addr = 0\<rparr>]\<rparr>"

theorem nbd_unsupported_underflow_witness:
  "\<exists>q'. nbd_handle_io fring_api list_env odd_sample 0 = Some q' \<and> in_flight_ios (nbq (private_data q')) = 65535"
proof -
  have "\<not> ublksrv_queue_batch_io odd_sample"
    by (simp add: odd_sample_def nbd_sample_def sample_queue_def ublksrv_queue_batch_io_def has_def Let_def)
  moreover have "req_to_nbd_cmd_type (ublksrv_get_iod odd_sample 0) = None"
    by (simp add: odd_sample_def req_to_nbd_cmd_type_def ublksrv_get_op_def ublksrv_get_iod_def Let_def)
  moreover have "in_flight_ios (nbq (private_data odd_sample)) = 0" by (simp add: odd_sample_def)
  ultimately show ?thesis by (rule nbd_unsupported_underflow)
qed

end
