(* ===== verification/Nbd_Tgt.thy ===== *)
theory Nbd_Tgt
  imports Nbd_Recv Getopt
begin

text \<open>
  Setting up the nbd target (targets/nbd/ublk.nbd.cpp, from \<open>nbd_init_queue\<close> on, and the functions of
  targets/nbd/nbd-client.c that open a socket): options, one negotiated connection per queue, the
  parameters of the device.

  The addresses the host name resolves to, with what \<open>socket\<close> returned for each and whether it could be
  connected, are arguments (record \<open>net_env\<close>), given per queue. A name that is
  longer than the buffer it is copied to, and a descriptor that is stored behind the end of the array of
  descriptors, are the outcome \<open>Oob\<close>.
\<close>

section \<open>Opening a socket\<close>

record 's net_env =
  nn_addrs :: "nat \<Rightarrow> string \<Rightarrow> string \<Rightarrow> (int \<times> bool) list option"
  nn_unix :: "nat \<Rightarrow> string \<Rightarrow> int \<times> bool"
  nn_state :: "nat \<Rightarrow> 's"

fun connect_first :: "(int \<times> bool) list \<Rightarrow> int" where
  "connect_first [] = -1"
| "connect_first ((sock, ok) # rp) = (if sock = -1 then connect_first rp else if ok then sock else connect_first rp)"

definition opennet :: "(int \<times> bool) list option \<Rightarrow> int" where
  "opennet ai = (case ai of None \<Rightarrow> -1 | Some rp \<Rightarrow> connect_first rp)"

abbreviation (input) "sizeof_sun_path \<equiv> (108::nat)"

definition openunix :: "(string \<Rightarrow> int \<times> bool) \<Rightarrow> string \<Rightarrow> int" where
  "openunix un path =
     (if length path \<ge> sizeof_sun_path then -1
      else case un path of (sock, ok) \<Rightarrow> if sock = -1 then -1 else if ok then sock else -1)"

section \<open>The queue data\<close>

record nbd_tgt_data =
  td_unix_sock :: bool
  td_use_send_zc :: bool

definition nbd_init_queue :: "bool \<Rightarrow> nbd_tgt_data \<Rightarrow> int \<times> nbd_queue_data option" where
  "nbd_init_queue mem ddata =
     (if \<not> mem then (- ENOMEM, None)
      else (0, Some \<lparr>in_flight_ios = 0, recv_started = False,
             use_send_zc = (if td_unix_sock ddata then False else td_use_send_zc ddata), use_unix_sock = td_unix_sock ddata,
             need_handle_recv = False, chain_active = False, chained_send_ios = 0, next_chain = [], last_send_sqe = False,
             reply = replicate 16 0,
             recv_cqe = \<lparr>cqe_user_data = 0, cqe_res = 0, cqe_more = False, cqe_notif = False\<rparr>\<rparr>))"

section \<open>Connections\<close>

abbreviation (input) "NBD_DEFAULT_PORT \<equiv> ''10809''"
abbreviation (input) "NBD_MAX_NAME \<equiv> (512::nat)"

definition str_bytes :: "string \<Rightarrow> u8 list" where
  "str_bytes s = map of_char s"

text \<open>The loop over the queues: the result, size and flags so far, and the descriptors.\<close>

fun nbd_connect ::
  "'s net_env \<Rightarrow> 's sock_api \<Rightarrow> (nat \<Rightarrow> u8 list) \<Rightarrow> (u32 \<Rightarrow> bool) \<Rightarrow> string \<Rightarrow> string \<Rightarrow> string \<Rightarrow> nat list \<Rightarrow> u64 \<times> u16 \<Rightarrow>
     int list \<Rightarrow> (int \<times> (u64 \<times> u16) \<times> int list) nbd_end option" where
  "nbd_connect N S junk mem_ok host unix exp [] cur fds = Some (Returns (0, cur, fds))"
| "nbd_connect N S junk mem_ok host unix exp (i # is) cur fds =
     (let sock = (if unix \<noteq> [] then openunix (nn_unix N i) unix else opennet (nn_addrs N i host NBD_DEFAULT_PORT)) in
      if sock < 0 then Some (Returns (sock, cur, fds))
      else case negotiate S junk mem_ok (str_bytes exp) 0 NBD_FLAG_C_FIXED_NEWSTYLE False True cur (nn_state N i) of
        None \<Rightarrow> None
      | Some Exit \<Rightarrow> Some Exit
      | Some Oob \<Rightarrow> Some Oob
      | Some (Returns (cur1, _)) \<Rightarrow>
          if i + 1 \<ge> length fds then Some Oob
          else nbd_connect N S junk mem_ok host unix exp is cur1 (fds[i + 1 := sock]))"

definition nbd_tgt_info :: "ublksrv_ctrl_dev_info \<Rightarrow> u64 \<Rightarrow> int list \<Rightarrow> ublksrv_tgt_info \<Rightarrow> ublksrv_tgt_info" where
  "nbd_tgt_info info size64 fds tgt =
     tgt\<lparr>ti_fds := fds, ti_dev_size := size64, ti_tgt_ring_depth := ucast (queue_depth info) + 1,
         ti_nr_fds := unat (nr_hw_queues info), ti_extra_ios := 1, ti_io_data_size := sizeof_ublk_io_tgt + 8\<rparr>"

text \<open>What is left of the setup once the description of the target was read.\<close>

definition nbd_setup_rest ::
  "'s net_env \<Rightarrow> 's sock_api \<Rightarrow> (nat \<Rightarrow> u8 list) \<Rightarrow> (u32 \<Rightarrow> bool) \<Rightarrow> 'j ublksrv_dev \<Rightarrow> nbd_tgt_data \<Rightarrow> u16 \<Rightarrow>
     string \<Rightarrow> string \<Rightarrow> string \<Rightarrow> u64 \<Rightarrow> (int \<times> 'j ublksrv_dev \<times> nbd_tgt_data \<times> u16) nbd_end option" where
  "nbd_setup_rest N S junk mem_ok dev data flags host unix exp send_zc =
     (let info = cd_dev_info (dv_ctrl dev) in
      if length host \<ge> NBD_MAX_NAME \<or> length unix \<ge> NBD_MAX_NAME \<or> length exp \<ge> NBD_MAX_NAME then Some Oob
      else do {
        r \<leftarrow> nbd_connect N S junk mem_ok host unix exp [0..<unat (nr_hw_queues info)] (0, flags) (ti_fds (dv_tgt dev));
        (case r of
           Exit \<Rightarrow> Some Exit
         | Oob \<Rightarrow> Some Oob
         | Returns (ret, (size64, flags1), fds) \<Rightarrow>
             if ret < 0 then Some (Returns (ret, dev\<lparr>dv_tgt := (dv_tgt dev)\<lparr>ti_fds := fds\<rparr>\<rparr>, data, flags1))
             else
               (let tgt = nbd_tgt_info info size64 fds (dv_tgt dev);
                    dev1 = dev\<lparr>dv_tgt := tgt, dv_cq_depth := sint (2 * ti_tgt_ring_depth tgt)\<rparr>;
                    data1 = data\<lparr>td_unix_sock := unix \<noteq> [], td_use_send_zc := send_zc \<noteq> 0\<rparr>;
                    bad = has (info_flags info) (UBLK_F_SUPPORT_ZERO_COPY OR UBLK_F_AUTO_BUF_REG)
                in Some (Returns (if bad then - EINVAL else 0, dev1, data1, flags1)))) })"

definition nbd_setup_tgt ::
  "'j json_lib \<Rightarrow> 's net_env \<Rightarrow> 's sock_api \<Rightarrow> (nat \<Rightarrow> u8 list) \<Rightarrow> (u32 \<Rightarrow> bool) \<Rightarrow> 'j ublksrv_dev \<Rightarrow> nbd_tgt_data \<Rightarrow> u16 \<Rightarrow>
     (int \<times> 'j ublksrv_dev \<times> nbd_tgt_data \<times> u16) nbd_end option" where
  "nbd_setup_tgt J N S junk mem_ok dev data flags =
     (let jb = cd_jbuf (dv_ctrl dev); info = cd_dev_info (dv_ctrl dev) in
      if has (info_flags info) UBLK_F_USER_COPY then Some (Returns (- EINVAL, dev, data, flags))
      else do {
        (_, host) \<leftarrow> ublk_json_read_target_str_info J jb ''host'' [];
        (_, unix) \<leftarrow> ublk_json_read_target_str_info J jb ''unix'' [];
        (_, exp) \<leftarrow> ublk_json_read_target_str_info J jb ''export_name'' [];
        (_, send_zc) \<leftarrow> ublk_json_read_target_ulong_info J jb ''send_zc'' 0;
        nbd_setup_rest N S junk mem_ok dev data flags host unix exp send_zc })"

definition zero_nbd_data :: nbd_tgt_data where
  "zero_nbd_data = \<lparr>td_unix_sock = False, td_use_send_zc = False\<rparr>"

definition nbd_recover_tgt where
  "nbd_recover_tgt J N S junk mem_ok dev = nbd_setup_tgt J N S junk mem_ok dev zero_nbd_data 0"

section \<open>Parameters\<close>

abbreviation (input) "NBD_FLAG_READ_ONLY \<equiv> (2::u16)"
abbreviation (input) "NBD_FLAG_SEND_FLUSH \<equiv> (4::u16)"
abbreviation (input) "NBD_FLAG_SEND_FUA \<equiv> (8::u16)"
abbreviation (input) "NBD_FLAG_SEND_TRIM \<equiv> (0x20::u16)"

definition nbd_parse_flags :: "ublk_params \<Rightarrow> u16 \<Rightarrow> u32 \<Rightarrow> ublk_params" where
  "nbd_parse_flags p flags bs =
     (let a1 = (if has flags NBD_FLAG_READ_ONLY then UBLK_ATTR_READ_ONLY else 0);
          a2 = (if has flags NBD_FLAG_SEND_FLUSH
                then (if has flags NBD_FLAG_SEND_FUA then UBLK_ATTR_FUA else UBLK_ATTR_VOLATILE_CACHE) else 0);
          p1 = p\<lparr>p_basic := (p_basic p)\<lparr>pb_attrs := pb_attrs (p_basic p) OR (a1 OR a2)\<rparr>\<rparr>
      in if has flags NBD_FLAG_SEND_TRIM
         then p1\<lparr>p_discard := (p_discard p1)\<lparr>pd_granularity := bs, pd_max_discard_sectors := drop_bit 9 0xffffffff,
                   pd_max_discard_segments := 1\<rparr>,
                 p_types := p_types p1 OR UBLK_PARAM_TYPE_DISCARD\<rparr>
         else p1)"

definition nbd_params :: "ublksrv_ctrl_dev_info \<Rightarrow> u32 \<Rightarrow> u64 \<Rightarrow> ublk_params" where
  "nbd_params info attrs dev_size = zero_params\<lparr>p_types := UBLK_PARAM_TYPE_BASIC,
     p_basic := (p_basic zero_params)\<lparr>pb_attrs := attrs, pb_logical_bs_shift := 9, pb_physical_bs_shift := 12,
       pb_io_opt_shift := 12, pb_io_min_shift := 9, pb_max_sectors := drop_bit 9 (max_io_buf_bytes info),
       pb_dev_sectors := drop_bit 9 dev_size\<rparr>\<rparr>"

section \<open>Initialisation\<close>

definition nbd_longopts :: "long_opt list" where
  "nbd_longopts =
     [\<lparr>lo_name = ''host'', lo_has_arg = True, lo_val = 0\<rparr>, \<lparr>lo_name = ''unix'', lo_has_arg = True, lo_val = 0\<rparr>,
      \<lparr>lo_name = ''export_name'', lo_has_arg = True, lo_val = 0\<rparr>, \<lparr>lo_name = ''send_zc'', lo_has_arg = False, lo_val = 0\<rparr>,
      \<lparr>lo_name = ''read_only'', lo_has_arg = False, lo_val = 0\<rparr>]"

record nbd_opts =
  no_host :: "string option"
  no_unix :: "string option"
  no_export_name :: "string option"
  no_send_zc :: bool
  no_read_only :: bool

text \<open>\<open>getopt_long\<close> itself sets the variables of the two options without an argument.\<close>

definition nbd_opt :: "getopt_ev \<Rightarrow> nbd_opts \<Rightarrow> nbd_opts" where
  "nbd_opt e o1 =
     (if ev_long e = Some 0 then o1\<lparr>no_host := ev_arg e\<rparr>
      else if ev_long e = Some 1 then o1\<lparr>no_unix := ev_arg e\<rparr>
      else if ev_long e = Some 2 then o1\<lparr>no_export_name := ev_arg e\<rparr>
      else if ev_long e = Some 3 then o1\<lparr>no_send_zc := True\<rparr>
      else if ev_long e = Some 4 then o1\<lparr>no_read_only := True\<rparr>
      else o1)"

definition no_opts :: nbd_opts where
  "no_opts = \<lparr>no_host = None, no_unix = None, no_export_name = None, no_send_zc = False, no_read_only = False\<rparr>"

text \<open>The option \<open>read_only\<close> is looked at before the options are read. \<open>have_zc\<close> is HAVE_LIBURING_SEND_ZC.\<close>

definition nbd_init_tgt ::
  "'j json_lib \<Rightarrow> 's net_env \<Rightarrow> 's sock_api \<Rightarrow> (nat \<Rightarrow> u8 list) \<Rightarrow> (u32 \<Rightarrow> bool) \<Rightarrow> bool \<Rightarrow> string list \<Rightarrow> 'j ublksrv_dev \<Rightarrow>
     (int \<times> 'j ublksrv_dev \<times> nbd_tgt_data) nbd_end option" where
  "nbd_init_tgt J N S junk mem_ok have_zc args dev =
     (let info = cd_dev_info (dv_ctrl dev) in
      if ublksrv_is_recovering (dv_ctrl dev) then
        map_option (\<lambda>r. case r of Exit \<Rightarrow> Exit | Oob \<Rightarrow> Oob | Returns (ret, d, t, _) \<Rightarrow> Returns (ret, d, t))
          (nbd_recover_tgt J N S junk mem_ok dev)
      else
        (let attrs = UBLK_ATTR_VOLATILE_CACHE OR (if no_read_only no_opts then UBLK_ATTR_READ_ONLY else 0);
             o1 = fold nbd_opt (getopt_long ''-:f:'' nbd_longopts args) no_opts in
         if \<not> have_zc \<and> no_send_zc o1 then Some (Returns (- EINVAL, dev, zero_nbd_data))
         else do {
           d1 \<leftarrow> dev_json (ublk_json_write_dev_info J info) dev;
           d2 \<leftarrow> dev_json (ublk_json_write_tgt_str J ''host'' (no_host o1)) d1;
           d3 \<leftarrow> dev_json (ublk_json_write_tgt_str J ''unix'' (no_unix o1)) d2;
           d4 \<leftarrow> dev_json (ublk_json_write_tgt_str J ''export_name'' (no_export_name o1)) d3;
           d5 \<leftarrow> dev_json (ublk_json_write_tgt_long J ''send_zc'' (of_bool (no_send_zc o1))) d4;
           r \<leftarrow> nbd_setup_tgt J N S junk mem_ok d5 zero_nbd_data 0;
           (case r of
              Exit \<Rightarrow> Some Exit
            | Oob \<Rightarrow> Some Oob
            | Returns (ret, d6, data, flags) \<Rightarrow>
                if ret \<noteq> 0 then Some (Returns (ret, d6, data))
                else do {
                  d7 \<leftarrow> dev_json (ublk_json_write_target_base J
                          \<lparr>tj_name = ''nbd'', tj_type = 0, tj_dev_size = ti_dev_size (dv_tgt d6)\<rparr>) d6;
                  d8 \<leftarrow> dev_json (ublk_json_write_params J
                          (nbd_parse_flags (nbd_params info attrs (ti_dev_size (dv_tgt d6))) flags 512)) d7;
                  Some (Returns (0, d8, data)) }) }))"

text \<open>The descriptors that are shut down and closed.\<close>

definition nbd_deinit_tgt :: "'j ublksrv_dev \<Rightarrow> int list" where
  "nbd_deinit_tgt dev = map (\<lambda>i. ti_fds (dv_tgt dev) ! (i + 1)) [0..<unat (nr_hw_queues (cd_dev_info (dv_ctrl dev)))]"

section \<open>Lemmas\<close>

definition queue_sock :: "'s net_env \<Rightarrow> string \<Rightarrow> string \<Rightarrow> nat \<Rightarrow> int" where
  "queue_sock N host unix i =
     (if unix \<noteq> [] then openunix (nn_unix N i) unix else opennet (nn_addrs N i host NBD_DEFAULT_PORT))"

lemma connect_first_ok: "0 \<le> connect_first rp \<Longrightarrow> (connect_first rp, True) \<in> set rp"
  by (induction rp rule: connect_first.induct) (auto split: if_splits)

lemma nbd_connect_fds:
  assumes "nbd_connect N S junk mem_ok host unix exp js cur fds = Some (Returns (ret, cur', fds'))" "0 \<le> ret"
  shows "ret = 0 \<and> length fds' = length fds \<and> (\<forall>i \<in> set js. i + 1 < length fds) \<and>
    (\<forall>k < length fds. fds' ! k = (if \<exists>i \<in> set js. k = i + 1 then queue_sock N host unix (k - 1) else fds ! k)) \<and>
    (\<forall>i \<in> set js. 0 \<le> queue_sock N host unix i)"
  using assms
proof (induction js arbitrary: cur fds)
  case Nil
  then show ?case by simp
next
  case (Cons i js)
  let ?s = "queue_sock N host unix i"
  have c: "nbd_connect N S junk mem_ok host unix exp (i # js) cur fds =
     (if ?s < 0 then Some (Returns (?s, cur, fds))
      else case negotiate S junk mem_ok (str_bytes exp) 0 NBD_FLAG_C_FIXED_NEWSTYLE False True cur (nn_state N i) of
        None \<Rightarrow> None | Some Exit \<Rightarrow> Some Exit | Some Oob \<Rightarrow> Some Oob
      | Some (Returns (cur1, _)) \<Rightarrow> if i + 1 \<ge> length fds then Some Oob
          else nbd_connect N S junk mem_ok host unix exp js cur1 (fds[i + 1 := ?s]))"
    unfolding nbd_connect.simps(2) Let_def queue_sock_def by (rule refl)
  have s: "0 \<le> ?s" using Cons.prems(1,2) unfolding c by (cases "?s < 0") simp_all
  then obtain cur1 where n: "nbd_connect N S junk mem_ok host unix exp js cur1 (fds[i + 1 := ?s]) = Some (Returns (ret, cur', fds'))"
    and i: "i + 1 < length fds"
    using Cons.prems(1) unfolding c by (auto split: option.splits nbd_end.splits prod.splits if_splits)
  from Cons.IH [OF n Cons.prems(2)] have ih: "ret = 0" "length fds' = length fds" "\<forall>j \<in> set js. j + 1 < length fds"
      "\<forall>k < length fds. fds' ! k = (if \<exists>j \<in> set js. k = j + 1 then queue_sock N host unix (k - 1) else fds[i + 1 := ?s] ! k)"
      "\<forall>j \<in> set js. 0 \<le> queue_sock N host unix j"
    by simp_all
  have "fds' ! k = (if \<exists>j \<in> set (i # js). k = j + 1 then queue_sock N host unix (k - 1) else fds ! k)" if "k < length fds" for k
    using ih(4) that by (cases "k = i + 1") auto
  then show ?case using ih(1,2,3,5) s i by simp
qed

text \<open>
  A target that was set up has one connected socket per queue, in the slot the sends of that queue use,
  an extra slot for the receiver and a ring with a place for it. That is one descriptor more than there are
  queues: with as many queues as the array of descriptors has entries the setup does not succeed.
\<close>

theorem nbd_setup_sockets:
  assumes setup_ok: "nbd_setup_tgt J N S junk mem_ok dev data flags = Some (Returns (0, dev', data', flags'))"
  shows "\<exists>host unix. length unix < 512 \<and> td_unix_sock data' = (unix \<noteq> []) \<and>
    (0 < nr_hw_queues (cd_dev_info (dv_ctrl dev)) \<longrightarrow> unat (nr_hw_queues (cd_dev_info (dv_ctrl dev))) < length (ti_fds (dv_tgt dev))) \<and>
    (\<forall>i < unat (nr_hw_queues (cd_dev_info (dv_ctrl dev))).
       ti_fds (dv_tgt dev') ! (i + 1) = queue_sock N host unix i \<and> 0 \<le> ti_fds (dv_tgt dev') ! (i + 1)) \<and>
    ti_extra_ios (dv_tgt dev') = 1 \<and> ti_tgt_ring_depth (dv_tgt dev') = ucast (queue_depth (cd_dev_info (dv_ctrl dev))) + 1"
proof -
  let ?info = "cd_dev_info (dv_ctrl dev)"
  define qs where "qs = [0..<unat (nr_hw_queues ?info)]"
  obtain host unix exp zc where r: "nbd_setup_rest N S junk mem_ok dev data flags host unix exp zc = Some (Returns (0, dev', data', flags'))"
    using setup_ok unfolding nbd_setup_tgt_def Let_def
    by (auto simp: bind_eq_Some_conv split: if_splits)
  have len: "length unix < 512" using r unfolding nbd_setup_rest_def Let_def by (cases "length unix \<ge> 512") simp_all
  have "\<not> (length host \<ge> 512 \<or> length unix \<ge> 512 \<or> length exp \<ge> 512)"
    using r unfolding nbd_setup_rest_def Let_def by (cases "length host \<ge> 512 \<or> length unix \<ge> 512 \<or> length exp \<ge> 512") simp_all
  note r' = r [unfolded nbd_setup_rest_def Let_def if_not_P [OF this] qs_def [symmetric]]
  obtain y where y: "nbd_connect N S junk mem_ok host unix exp qs (0, flags) (ti_fds (dv_tgt dev)) = Some y"
    using r' by (cases "nbd_connect N S junk mem_ok host unix exp qs (0, flags) (ti_fds (dv_tgt dev))") simp_all
  then obtain ret size64 fl fds where c: "nbd_connect N S junk mem_ok host unix exp qs (0, flags) (ti_fds (dv_tgt dev)) =
      Some (Returns (ret, (size64, fl), fds))"
    using r' by (cases y) auto
  note r2 = r' [unfolded c, simplified]
  have ret: "0 \<le> ret" using r2 by (cases "ret < 0") auto
  have d: "dv_tgt dev' = nbd_tgt_info ?info size64 fds (dv_tgt dev)" "td_unix_sock data' = (unix \<noteq> [])"
    using r2 ret by (auto split: if_splits)
  from nbd_connect_fds [OF c ret]
  have f: "\<forall>k < length (ti_fds (dv_tgt dev)). fds ! k = (if \<exists>i \<in> set qs. k = i + 1
      then queue_sock N host unix (k - 1) else ti_fds (dv_tgt dev) ! k)" "\<forall>i \<in> set qs. 0 \<le> queue_sock N host unix i"
    "\<forall>i \<in> set qs. i + 1 < length (ti_fds (dv_tgt dev))"
    by blast+
  have n: "0 < nr_hw_queues ?info \<longrightarrow> unat (nr_hw_queues ?info) < length (ti_fds (dv_tgt dev))"
  proof
    assume "0 < nr_hw_queues ?info"
    then have "0 < unat (nr_hw_queues ?info)" by (simp add: word_less_nat_alt)
    then have "unat (nr_hw_queues ?info) - 1 \<in> set qs" "Suc (unat (nr_hw_queues ?info) - 1) = unat (nr_hw_queues ?info)"
      by (simp_all add: qs_def)
    then show "unat (nr_hw_queues ?info) < length (ti_fds (dv_tgt dev))" using f(3) by fastforce
  qed
  have "fds ! (i + 1) = queue_sock N host unix i \<and> 0 \<le> fds ! (i + 1)" if "i < unat (nr_hw_queues ?info)" for i
  proof -
    have "i \<in> set qs" using that by (simp add: qs_def)
    then show ?thesis using f by simp
  qed
  then show ?thesis using len d n by - (rule exI [of _ host], rule exI [of _ unix], fastforce simp: nbd_tgt_info_def)
qed

text \<open>
  What the device tells the driver about the export: its size, discard when the server has it, and read
  only exactly when the server says so, whatever the option \<open>read_only\<close> says.
\<close>

theorem nbd_export_params:
  "has (pb_attrs (p_basic (nbd_parse_flags (nbd_params info UBLK_ATTR_VOLATILE_CACHE s) flags bs))) UBLK_ATTR_READ_ONLY \<longleftrightarrow>
     has flags NBD_FLAG_READ_ONLY"
  "has (p_types (nbd_parse_flags (nbd_params info a s) flags bs)) UBLK_PARAM_TYPE_DISCARD \<longleftrightarrow> has flags NBD_FLAG_SEND_TRIM"
  "pb_dev_sectors (p_basic (nbd_parse_flags (nbd_params info a s) flags bs)) = drop_bit 9 s"
  by (simp_all add: nbd_parse_flags_def nbd_params_def Let_def has_def)

end
