(* ===== verification/Spec2Isabelle.thy ===== *)
theory Spec2Isabelle
  imports Tgt_Null Tgt_Loop Aio_Wakeup Tgt_Main Nvme_Admin Nbd_Tgt
begin

text \<open>
  A verification library for the ublk userspace block driver under src/: the server library (src/lib,
  src/include), the main program shared by its targets and the null, loop, nvme and nbd
  targets (src/targets).

  \<^bold>\<open>The program.\<close> The ublk kernel driver hands block requests to a server process. For each hardware
  queue the server runs a thread with an io_uring. It issues one fetch command per tag; a completion
  of that command is a request, which the target serves; a commit command returns the result and
  fetches the next request. In batch mode commands carry many tags. Devices are created, started and
  recovered through a control device, and a json description in the pid file lets another process
  find and recover a device.

  \<^bold>\<open>The server library.\<close>
  \<^item> \<open>Ublk_Prelude\<close>: machine integers, flags, bit fields, errno values. \<open>Ublk_Cmd\<close>: the structures and
    packings of include/ublk_cmd.h, ublksrv.h and ublksrv_priv.h, with their round trips.
  \<^item> \<open>Uring\<close>: liburing as a record of functions, with what the code relies on as hypotheses and a
    concrete ring that satisfies them.
  \<^item> \<open>Ublk_Queue\<close>, \<open>Ublk_Process\<close>, \<open>Ublk_Ownership\<close>: the queue of lib/ublksrv.c, issuing commands,
    handling completions and \<open>ublksrv_process_io\<close>. A ghost list says who owns each tag; in all
    reachable states the counter of commands and the io flags agree with it, and no tag is issued
    twice. The locale \<open>tgt_contract\<close> is what a target has to promise for that.
  \<^item> \<open>Ublk_Batch\<close>: lib/ublksrv_batch.c. Results are committed once and in order, inside their buffer;
    fetched tags are dispatched in order.
  \<^item> \<open>Ublk_Utils\<close>, \<open>Ublk_Params\<close>, \<open>Ublk_Json\<close>: cpu sets, the pid file, device parameters and the
    json description in its growing buffer, over a json library that is a parameter.
  \<^item> \<open>Ublk_Init\<close>: setting up queues and devices. \<open>Ublk_Ctrl\<close>: the control commands of
    lib/ublksrv_cmd.c, with the driver behind them as a parameter.
  \<^item> \<open>Aio_List\<close>, \<open>Ublk_Aio\<close>, \<open>Aio_Wakeup\<close>: the aio contexts of lib/ublksrv_aio.c. The linked lists
    refine sequences, the workers handle each request once, and a step relation of queue thread and
    worker shows that no wakeup is lost for requests submitted while completions are handled.

  \<^bold>\<open>Targets.\<close>
  \<^item> \<open>Getopt\<close>, \<open>Tgt_Opts\<close>, \<open>Tgt_Thread\<close>, \<open>Tgt_Main\<close>: targets/ublksrv_tgt.cpp, from the options to
    the queue threads and the order of control commands when a device is added.
  \<^item> \<open>Tgt_Common\<close>: the helpers and the coroutine of a request (targets/include/ublksrv_tgt.h).
    \<open>Tgt_Null\<close> and \<open>Tgt_Loop\<close>: the targets ublk.null.cpp and ublk.loop.cpp.
  \<^item> \<open>Dma_Buf\<close>: targets/dma_buf.c, a pool of memory and its physical addresses.
  \<^item> \<open>Nvme_Ring\<close>, \<open>Nvme_Pool\<close>, \<open>Nvme_Io\<close>: the io path of targets/nvme/ublk.nvme_vfio.cpp. The rings
    and the controller are a step relation over every interleaving and wrap-around; the areas of the
    pool are disjoint; the data pointers of a command reach the bytes of its buffer; posted
    completions complete their requests. \<open>Nvme_Admin\<close>: the admin queue, start and shutdown of the
    controller, identification and the io queues; each admin call gets the outcome of its own command.
  \<^item> \<open>Nbd_Proto\<close>: the socket functions of targets/nbd/cliserv.c and the negotiation of nbd-client.c over
    a socket that is a parameter; the negotiation ends with what the server announced. \<open>Nbd_Io\<close>: the
    requests, coroutines and callbacks of targets/nbd/ublk.nbd.cpp, the suspended receiver as a program
    counter. \<open>Nbd_Recv\<close>: each request is answered once, with its own answer, however the bytes of the
    server are cut into pieces. \<open>Nbd_Tgt\<close>: options, connections and parameters.

  \<^bold>\<open>Conventions.\<close> Integers have the width of the source and wrap around. Structures are records, state
  is passed explicitly, and errors are negative errno results or \<open>option\<close> values. Results of system
  calls, the kernel, liburing and the json library are arguments; every property that has hypotheses
  about them has a witness with concrete ones. Loops that the code does not bound are given the
  events they consume as a list, or return \<open>None\<close> when they do not end; that they end is then proved.

  \<^bold>\<open>Not modelled.\<close> The target init and deinit of the nvme target and its binding to vfio, which are
  calls to sysfs, mmap and ioctl around the modelled functions; tls and the listing of exports of the nbd
  client, which the target never asks for; the functions of lib/ublksrv_json.cpp that read and write the
  pid file; the command line tool targets/ublk.cpp; the sheepdog target; the nfs and iscsi targets, which
  are glue to libnfs and libiscsi; the demo programs; printing, logging, thread priorities and signal
  masks, which leave the modelled state alone; and the vendored json library.
\<close>

end
